(* ===== verification/Prelude.thy ===== *)
theory Prelude
  imports Main
begin

text \<open>
  Shared vocabulary of the development: identifiers and instants, the errors the Core raises
  and the result type that carries them, the few \<open>str\<close> methods the code calls, and the
  relational tables with which the storage adapters work.

  A table is the list of its rows, each with the tenant it belongs to. The three statements
  the adapters issue are \<open>select_where\<close>, \<open>update_where\<close> and \<open>insert_rows\<close>; \<open>rows\<close> is what
  one tenant sees. The lemmas in \<open>table_simps\<close> say what each statement does to the view of
  the tenant that issues it and that it does nothing to the view of any other tenant.
\<close>

named_theorems table_simps \<open>what the table statements do to a tenant's view\<close>
named_theorems result_simps \<open>elimination of the result type\<close>

section \<open>Identifiers, instants, payloads\<close>

text \<open>
  A UUID is its 128-bit value as a \<open>nat\<close>: the canonical 36-character text the adapters store
  orders as the value does. An instant is a whole number of microseconds; every
  \<open>datetime\<close> of the Core is timezone-aware and stored in UTC, so an instant is all that
  comparison and arithmetic on it can see. \<open>clock\<close> gives the successive readings of
  \<open>datetime.now(UTC)\<close> within one call: \<open>clk 0\<close> is the first.
\<close>

type_synonym uuid = nat
type_synonym tenant = string
type_synonym instant = int
type_synonym clock = "nat \<Rightarrow> instant"

definition seconds :: "int \<Rightarrow> instant" where
  "seconds n = n * 1000000"

definition clock_from :: "nat \<Rightarrow> clock \<Rightarrow> clock" where
  "clock_from k clk = (\<lambda>i. clk (i + k))"

definition monotone_clock :: "clock \<Rightarrow> bool" where
  "monotone_clock clk \<longleftrightarrow> (\<forall>i. clk i \<le> clk (Suc i))"

lemma monotone_clockD: "monotone_clock clk \<Longrightarrow> i \<le> j \<Longrightarrow> clk i \<le> clk j"
  unfolding monotone_clock_def by (rule lift_Suc_mono_le) auto

lemma monotone_clock_from [intro]: "monotone_clock clk \<Longrightarrow> monotone_clock (clock_from k clk)"
  by (simp add: monotone_clock_def clock_from_def)

lemma monotone_clock_const [simp]: "monotone_clock (\<lambda>i. t)"
  by (simp add: monotone_clock_def)

lemma clock_from_apply [simp]: "clock_from k clk i = clk (i + k)"
  by (simp add: clock_from_def)

text \<open>JSON values, which the workflow tables store and return without looking inside.\<close>

datatype json =
    JNull
  | JBool bool
  | JNumber string
  | JString string
  | JArray "json list"
  | JObject "(string \<times> json) list"

section \<open>Results\<close>

text \<open>
  A call that may raise returns \<open>Inl e\<close> for the exception and \<open>Inr x\<close> for the value. A
  \<open>ValueError\<close> carries its message, so that two checks of one function stay apart.
\<close>

definition rbind :: "'e + 'a \<Rightarrow> ('a \<Rightarrow> 'e + 'b) \<Rightarrow> 'e + 'b" where
  "rbind m f = (case m of Inl e \<Rightarrow> Inl e | Inr x \<Rightarrow> f x)"

lemma not_isl_iff: "\<not> isl x \<longleftrightarrow> (\<exists>y. x = Inr y)"
  by (cases x) simp_all

lemma rbind_Inl [simp]: "rbind (Inl e) f = Inl e"
  by (simp add: rbind_def)

lemma rbind_Inr [simp]: "rbind (Inr x) f = f x"
  by (simp add: rbind_def)

lemma rbind_eq_Inr [result_simps]:
  "rbind m f = Inr y \<longleftrightarrow> (\<exists>x. m = Inr x \<and> f x = Inr y)"
  by (simp add: rbind_def split: sum.split)

lemma rbind_eq_Inl [result_simps]:
  "rbind m f = Inl e \<longleftrightarrow> m = Inl e \<or> (\<exists>x. m = Inr x \<and> f x = Inl e)"
  by (auto simp add: rbind_def split: sum.split)

fun traverse :: "('a \<Rightarrow> 'e + 'b) \<Rightarrow> 'a list \<Rightarrow> 'e + 'b list" where
  "traverse f [] = Inr []"
| "traverse f (x # xs) = rbind (f x) (\<lambda>y. rbind (traverse f xs) (\<lambda>ys. Inr (y # ys)))"

lemma traverse_eq_Inr_conv:
  "traverse f xs = Inr ys \<longleftrightarrow> list_all2 (\<lambda>x y. f x = Inr y) xs ys"
  by (induction xs arbitrary: ys) (auto simp: result_simps list_all2_Cons1)

lemma traverse_map_Inr:
  "(\<And>x. x \<in> set xs \<Longrightarrow> f x = Inr (g x)) \<Longrightarrow> traverse f xs = Inr (map g xs)"
  by (induction xs) simp_all

lemma traverse_Inr_iff: "(\<exists>ys. traverse f xs = Inr ys) \<longleftrightarrow> (\<forall>x\<in>set xs. \<exists>y. f x = Inr y)"
  by (induction xs) (auto simp: result_simps)

fun foldM :: "('a \<Rightarrow> 's \<Rightarrow> 'e + 's) \<Rightarrow> 'a list \<Rightarrow> 's \<Rightarrow> 'e + 's" where
  "foldM f [] s = Inr s"
| "foldM f (x # xs) s = rbind (f x s) (foldM f xs)"

lemma foldM_invariant:
  assumes "foldM f xs s = Inr s'" and "P s"
    and "\<And>x s s'. x \<in> set xs \<Longrightarrow> P s \<Longrightarrow> f x s = Inr s' \<Longrightarrow> P s'"
  shows "P s'"
  using assms by (induction xs arbitrary: s) (auto simp: result_simps)

text \<open>
  \<open>ensure\<close> is a run of \<open>if ...: raise\<close> statements in source order: the first condition that
  holds decides the exception.
\<close>

fun ensure :: "(bool \<times> 'e) list \<Rightarrow> 'a \<Rightarrow> 'e + 'a" where
  "ensure [] x = Inr x"
| "ensure ((b, e) # gs) x = (if b then Inl e else ensure gs x)"

lemma ensure_eq_Inr [result_simps]:
  "ensure gs x = Inr y \<longleftrightarrow> y = x \<and> list_all (\<lambda>g. \<not> fst g) gs"
  by (induction gs) (auto split: if_splits)

declare ensure.simps [simp del]

lemma ensure_pass: "list_all (\<lambda>g. \<not> fst g) gs \<Longrightarrow> ensure gs x = Inr x"
  by (simp add: ensure_eq_Inr)

section \<open>Strings\<close>

text \<open>
  A string is the list of its code points, which are those below 256 here: \<open>length\<close> counts
  code points as \<open>len\<close> does. \<open>is_space\<close> is \<open>str.isspace\<close> on that range.
\<close>

definition is_space :: "char \<Rightarrow> bool" where
  "is_space c \<longleftrightarrow> (let n = (of_char c :: nat) in
     9 \<le> n \<and> n \<le> 13 \<or> 28 \<le> n \<and> n \<le> 32 \<or> n = 133 \<or> n = 160)"

definition strip :: "string \<Rightarrow> string" where
  "strip s = rev (dropWhile is_space (rev (dropWhile is_space s)))"

text \<open>A text column read back with \<open>str(x) if x else None\<close>.\<close>

definition text_or_none :: "string option \<Rightarrow> string option" where
  "text_or_none x = (case x of None \<Rightarrow> None | Some [] \<Rightarrow> None | Some s \<Rightarrow> Some s)"

lemma dropWhile_hd: "dropWhile P xs \<noteq> [] \<Longrightarrow> \<not> P (hd (dropWhile P xs))"
  by (induction xs) auto

lemma last_dropWhile: "dropWhile P xs \<noteq> [] \<Longrightarrow> last (dropWhile P xs) = last xs"
  by (induction xs) (auto split: if_splits)

lemma dropWhile_keep: "xs = [] \<or> \<not> P (hd xs) \<Longrightarrow> dropWhile P xs = xs"
  by (cases xs) auto

lemma strip_idem [simp]: "strip (strip s) = strip s"
proof -
  define a where "a = dropWhile is_space s"
  define m where "m = dropWhile is_space (rev a)"
  have "rev m = [] \<or> \<not> is_space (hd (rev m))"
  proof (cases "m = []")
    case False
    then have "hd (rev m) = hd a" and "a \<noteq> []"
      by (auto simp: m_def hd_rev last_dropWhile last_rev)
    then show ?thesis
      using dropWhile_hd[of is_space s] by (simp add: a_def)
  qed simp
  then have "dropWhile is_space (rev m) = rev m"
    by (rule dropWhile_keep)
  moreover have "strip s = rev m"
    by (simp add: strip_def m_def a_def)
  ultimately show ?thesis
    by (simp add: strip_def m_def)
qed

lemma length_strip_le: "length (strip s) \<le> length s"
  unfolding strip_def using length_dropWhile_le[of is_space s]
    length_dropWhile_le[of is_space "rev (dropWhile is_space s)"] by simp

section \<open>Tables\<close>

type_synonym 'r table = "(tenant \<times> 'r) list"

definition rows :: "tenant \<Rightarrow> 'r table \<Rightarrow> 'r list" where
  "rows t tb = map snd (filter (\<lambda>x. fst x = t) tb)"

definition select_where :: "tenant \<Rightarrow> ('r \<Rightarrow> bool) \<Rightarrow> 'r table \<Rightarrow> 'r list" where
  "select_where t p tb = filter p (rows t tb)"

definition update_where :: "tenant \<Rightarrow> ('r \<Rightarrow> bool) \<Rightarrow> ('r \<Rightarrow> 'r) \<Rightarrow> 'r table \<Rightarrow> 'r table" where
  "update_where t p f tb = map (\<lambda>x. if fst x = t \<and> p (snd x) then (fst x, f (snd x)) else x) tb"

definition insert_rows :: "tenant \<Rightarrow> 'r list \<Rightarrow> 'r table \<Rightarrow> 'r table" where
  "insert_rows t rs tb = tb @ map (Pair t) rs"

lemma select_where_singleton:
  assumes "select_where t p tb = [r]"
  shows "r \<in> set (rows t tb) \<and> p r"
proof -
  have "r \<in> set (select_where t p tb)"
    by (simp add: assms)
  then show ?thesis
    by (simp add: select_where_def)
qed

text \<open>What an \<open>UPDATE\<close> does to one row.\<close>

definition upd_row :: "('r \<Rightarrow> bool) \<Rightarrow> ('r \<Rightarrow> 'r) \<Rightarrow> 'r \<Rightarrow> 'r" where
  "upd_row p f r = (if p r then f r else r)"

lemma upd_row_True [simp]: "p r \<Longrightarrow> upd_row p f r = f r"
  by (simp add: upd_row_def)

lemma upd_row_False [simp]: "\<not> p r \<Longrightarrow> upd_row p f r = r"
  by (simp add: upd_row_def)

lemma rows_Nil [simp, table_simps]: "rows t [] = []"
  by (simp add: rows_def)

lemma rows_insert [simp, table_simps]:
  "rows t (insert_rows t' rs tb) = (if t = t' then rows t tb @ rs else rows t tb)"
  by (auto simp: rows_def insert_rows_def filter_map comp_def)

lemma rows_update [simp, table_simps]: "rows t (update_where t p f tb) = map (upd_row p f) (rows t tb)"
  by (induction tb) (auto simp: rows_def update_where_def upd_row_def)

lemma rows_update_other [simp, table_simps]: "t \<noteq> t' \<Longrightarrow> rows t (update_where t' p f tb) = rows t tb"
  by (induction tb) (auto simp: rows_def update_where_def)

lemma select_where_mem [simp, table_simps]:
  "r \<in> set (select_where t p tb) \<longleftrightarrow> r \<in> set (rows t tb) \<and> p r"
  by (auto simp: select_where_def)

lemma update_where_no_match:
  "(\<And>r. r \<in> set (rows t tb) \<Longrightarrow> \<not> p r) \<Longrightarrow> update_where t p f tb = tb"
  by (induction tb) (auto simp: rows_def update_where_def split: if_splits)

text \<open>
  A key column under a map over the rows that keeps it: the shape every \<open>UPDATE\<close> of a table
  with a primary key has.
\<close>

lemma distinct_map_keep:
  "distinct (map k xs) \<Longrightarrow> (\<And>x. x \<in> set xs \<Longrightarrow> k (g x) = k x) \<Longrightarrow> distinct (map k (map g xs))"
  by (simp add: comp_def cong: map_cong)

lemma distinct_map_unique:
  "distinct (map k xs) \<Longrightarrow> x \<in> set xs \<Longrightarrow> y \<in> set xs \<Longrightarrow> k x = k y \<Longrightarrow> x = y"
  by (auto simp: distinct_map dest: inj_onD)

lemma filter_unique_key:
  assumes "distinct (map k xs)" and "x \<in> set xs"
  shows "filter (\<lambda>y. k y = k x) xs = [x]"
  using assms by (induction xs) (auto simp: image_iff filter_empty_conv)

text \<open>A primary key or unique constraint that an \<open>INSERT\<close> of the rows \<open>new\<close> would violate.\<close>

definition key_clash :: "('r \<Rightarrow> 'k) \<Rightarrow> 'r list \<Rightarrow> 'r list \<Rightarrow> bool" where
  "key_clash k old new \<longleftrightarrow> \<not> distinct (map k new) \<or> (\<exists>x\<in>set new. k x \<in> k ` set old)"

lemma no_key_clash_distinct:
  "distinct (map k old) \<Longrightarrow> \<not> key_clash k old new \<Longrightarrow> distinct (map k (old @ new))"
  unfolding key_clash_def by (simp add: disjoint_iff) (metis image_iff)

lemma filter_key_cases:
  assumes "distinct (map k xs)"
  shows "filter (\<lambda>y. k y = i) xs = [] \<or> (\<exists>x. x \<in> set xs \<and> k x = i \<and> filter (\<lambda>y. k y = i) xs = [x])"
proof (cases "\<exists>x\<in>set xs. k x = i")
  case True
  then obtain x where "x \<in> set xs" "k x = i" by blast
  with assms show ?thesis using filter_unique_key[of k xs x] by auto
next
  case False
  then show ?thesis by (auto simp: filter_empty_conv)
qed

lemma set_sort_key_iff [simp]: "set (sort_key f xs) = set xs"
  by simp

section \<open>Invariants of step relations\<close>

text \<open>
  The contract between a step relation and an invariant it keeps. Each component with a step
  relation interprets it; the facts on reachable states come from here.
\<close>

locale invariant_system =
  fixes init :: "'s \<Rightarrow> bool" and step :: "'s \<Rightarrow> 's \<Rightarrow> bool" and inv :: "'s \<Rightarrow> bool"
  assumes init_inv: "init s \<Longrightarrow> inv s"
    and step_inv: "inv s \<Longrightarrow> step s s' \<Longrightarrow> inv s'"
begin

lemma path_inv: "step\<^sup>*\<^sup>* s s' \<Longrightarrow> inv s \<Longrightarrow> inv s'"
  by (induction rule: rtranclp_induct) (blast intro: step_inv)+

lemma reachable_inv: "init s \<Longrightarrow> step\<^sup>*\<^sup>* s s' \<Longrightarrow> inv s'"
  by (blast intro: path_inv init_inv)

text \<open>What each step keeps from a state of the invariant, every path keeps.\<close>

lemma path_stable:
  assumes "step\<^sup>*\<^sup>* s s'" and "inv s" and "P s"
    and "\<And>x y. inv x \<Longrightarrow> P x \<Longrightarrow> step x y \<Longrightarrow> P y"
  shows "P s'"
proof -
  have "inv s' \<and> P s'"
    using assms(1)
    by (induction rule: rtranclp_induct) (blast intro: step_inv assms(2-4))+
  then show ?thesis ..
qed

end

text \<open>
  A detailed system whose steps, seen through \<open>abs\<close>, are paths of an abstract one: what holds of
  the abstract reachable states holds of the detailed ones.
\<close>

locale simulation = invariant_system +
  fixes cinit :: "'c \<Rightarrow> bool" and cstep :: "'c \<Rightarrow> 'c \<Rightarrow> bool" and abs :: "'c \<Rightarrow> 's"
  assumes init_sim: "cinit c \<Longrightarrow> \<exists>a. init a \<and> step\<^sup>*\<^sup>* a (abs c)"
    and step_sim: "cstep c c' \<Longrightarrow> step\<^sup>*\<^sup>* (abs c) (abs c')"
begin

lemma path_sim: "cstep\<^sup>*\<^sup>* c c' \<Longrightarrow> step\<^sup>*\<^sup>* (abs c) (abs c')"
  by (induction rule: rtranclp_induct) (use step_sim rtranclp_trans in \<open>fast+\<close>)

lemma reachable_sim: "cinit c \<Longrightarrow> cstep\<^sup>*\<^sup>* c c' \<Longrightarrow> \<exists>a. init a \<and> step\<^sup>*\<^sup>* a (abs c')"
  using init_sim path_sim rtranclp_trans by fast

lemma concrete_inv: "cinit c \<Longrightarrow> cstep\<^sup>*\<^sup>* c c' \<Longrightarrow> inv (abs c')"
  using reachable_sim reachable_inv by blast

end

end
