(* ===== verification/Workflow_Model.thy ===== *)
theory Workflow_Model
  imports Prelude "HOL-Library.Char_ord" "HOL-Library.List_Lexorder"
begin

text \<open>
  The records of the workflow kernel: the enumerations, dataclasses and constructors of
  \<open>workflow/models.py\<close>, the exceptions of \<open>workflow/errors.py\<close>, and the attempt rows of
  \<open>storage/workflow_schema.py\<close>. A \<open>..._post_init\<close> is the class's \<open>__post_init__\<close>: its
  checks in source order, without the one that an instant is timezone-aware, which is a
  property of the type here.
\<close>

section \<open>Errors\<close>

text \<open>
  The exceptions a workflow operation raises: Python's, the kernel's own three, and those of
  the database layer (a violated constraint, and \<open>one\<close> or \<open>one_or_none\<close> on a result of the
  wrong size).
\<close>

datatype wf_error =
    ValueError string
  | KeyError
  | AssertionError
  | WorkflowRevisionError
  | WorkflowFenceError
  | WorkflowBudgetExceeded string
  | IntegrityError
  | NoResultFound
  | MultipleResultsFound

section \<open>Enumerations\<close>

datatype execution_target = Target_Local | Target_Cloud

datatype run_status =
    Run_Queued | Run_Running | Run_Waiting_For_Approval | Run_Waiting_For_Input | Run_Paused
  | Run_Completed | Run_Cancelled | Run_Failed

datatype node_status =
    Node_Pending | Node_Ready | Node_Running | Node_Waiting_For_Approval
  | Node_Waiting_For_Input | Node_Succeeded | Node_Failed | Node_Cancelled | Node_Skipped
  | Node_Superseded

datatype attempt_status =
    Attempt_Running | Attempt_Succeeded | Attempt_Failed | Attempt_Abandoned
  | Attempt_Cancelled | Attempt_Waiting

datatype budget_tier = Tier_Normal | Tier_Deep

datatype trigger_kind = Trigger_User_Turn | Trigger_Manual | Trigger_Recovery | Trigger_Domain

datatype concurrency_policy = Serial | Parallel_Read

datatype plan_reason = Reason_Initial | Reason_Steering | Reason_Recovery | Reason_Repair

datatype instruction_status = Instruction_Pending | Instruction_Applied | Instruction_Rejected

text \<open>The tiers are ordered: a budget only ever moves up.\<close>

instantiation budget_tier :: linorder
begin

definition less_eq_budget_tier :: "budget_tier \<Rightarrow> budget_tier \<Rightarrow> bool" where
  "less_eq_budget_tier a b \<longleftrightarrow> a = Tier_Normal \<or> b = Tier_Deep"

definition less_budget_tier :: "budget_tier \<Rightarrow> budget_tier \<Rightarrow> bool" where
  "less_budget_tier a b \<longleftrightarrow> a = Tier_Normal \<and> b = Tier_Deep"

instance
proof
  fix x y z :: budget_tier
  show "(x < y) = (x \<le> y \<and> \<not> y \<le> x)"
    by (cases x; cases y) (auto simp: less_eq_budget_tier_def less_budget_tier_def)
  show "x \<le> x"
    by (cases x) (auto simp: less_eq_budget_tier_def)
  show "x \<le> y \<Longrightarrow> y \<le> z \<Longrightarrow> x \<le> z"
    by (cases y) (auto simp: less_eq_budget_tier_def)
  show "x \<le> y \<Longrightarrow> y \<le> x \<Longrightarrow> x = y"
    by (cases x; cases y) (auto simp: less_eq_budget_tier_def)
  show "x \<le> y \<or> y \<le> x"
    by (cases x) (auto simp: less_eq_budget_tier_def)
qed

end

text \<open>
  \<open>_RUN_TERMINAL\<close> and \<open>_NODE_TERMINAL\<close> of the repository; the budget and deadline mixins
  and the instruction writer repeat the same sets.
\<close>

fun run_terminal :: "run_status \<Rightarrow> bool" where
  "run_terminal Run_Completed = True"
| "run_terminal Run_Cancelled = True"
| "run_terminal Run_Failed = True"
| "run_terminal _ = False"

fun node_terminal :: "node_status \<Rightarrow> bool" where
  "node_terminal Node_Succeeded = True"
| "node_terminal Node_Failed = True"
| "node_terminal Node_Cancelled = True"
| "node_terminal Node_Skipped = True"
| "node_terminal Node_Superseded = True"
| "node_terminal _ = False"

section \<open>Budgets\<close>

record workflow_budget =
  tier :: budget_tier
  max_model_rounds :: int
  max_tool_invocations :: int
  max_duration_seconds :: int
  max_parallel_nodes :: int

definition budget_post_init :: "workflow_budget \<Rightarrow> wf_error + workflow_budget" where
  "budget_post_init b = ensure
     [(Min {max_model_rounds b, max_tool_invocations b, max_duration_seconds b,
            max_parallel_nodes b} < 1,
       ValueError ''Workflow budget values must be positive'')] b"

definition budget_normal :: workflow_budget where
  "budget_normal = \<lparr>tier = Tier_Normal, max_model_rounds = 12, max_tool_invocations = 32,
     max_duration_seconds = 30 * 60, max_parallel_nodes = 2\<rparr>"

definition budget_deep :: workflow_budget where
  "budget_deep = \<lparr>tier = Tier_Deep, max_model_rounds = 24, max_tool_invocations = 96,
     max_duration_seconds = 2 * 60 * 60, max_parallel_nodes = 4\<rparr>"

section \<open>Runs\<close>

record workflow_run =
  run_id :: uuid
  run_owner_kind :: string
  run_owner_id :: string
  run_conversation :: "uuid option"
  run_task :: "uuid option"
  run_project :: "uuid option"
  run_target :: execution_target
  run_trigger :: trigger_kind
  run_parent :: "uuid option"
  run_status :: run_status
  run_budget :: workflow_budget
  run_model_rounds_used :: int
  run_tool_invocations_used :: int
  run_active_revision :: int
  run_cancellation_revision :: int
  run_engine_version :: int
  run_pause_requested :: bool
  run_idempotency_key :: string
  run_error_code :: "string option"
  run_created_at :: instant
  run_updated_at :: instant
  run_started_at :: "instant option"
  run_completed_at :: "instant option"

definition run_post_init :: "workflow_run \<Rightarrow> wf_error + workflow_run" where
  "run_post_init r = ensure
     [(strip (run_owner_kind r) = [] \<or> strip (run_owner_id r) = [],
       ValueError ''Workflow owner is required''),
      (strip (run_idempotency_key r) = [],
       ValueError ''Workflow idempotency key is required''),
      (run_active_revision r < 1 \<or> run_cancellation_revision r < 0,
       ValueError ''Workflow revisions are invalid''),
      (\<not> (0 \<le> run_model_rounds_used r
          \<and> run_model_rounds_used r \<le> max_model_rounds (run_budget r)),
       ValueError ''Workflow model-round budget usage is invalid''),
      (\<not> (0 \<le> run_tool_invocations_used r
          \<and> run_tool_invocations_used r \<le> max_tool_invocations (run_budget r)),
       ValueError ''Workflow tool-call budget usage is invalid''),
      (run_engine_version r < 1,
       ValueError ''Workflow engine version must be positive'')] r"

text \<open>\<open>WorkflowRun.create\<close>; the fresh id and the reading of the clock are its first arguments.\<close>

definition new_workflow_run ::
  "uuid \<Rightarrow> instant \<Rightarrow> string \<Rightarrow> string \<Rightarrow> execution_target \<Rightarrow> trigger_kind \<Rightarrow> string \<Rightarrow>
   workflow_budget option \<Rightarrow> uuid option \<Rightarrow> uuid option \<Rightarrow> uuid option \<Rightarrow> uuid option \<Rightarrow> int \<Rightarrow>
   wf_error + workflow_run" where
  "new_workflow_run new_id now owner_kind owner_id target trigger idempotency_key budget
     conversation_id task_id project_id parent_run_id engine_version =
   run_post_init
     \<lparr>run_id = new_id,
      run_owner_kind = strip owner_kind,
      run_owner_id = strip owner_id,
      run_conversation = conversation_id,
      run_task = task_id,
      run_project = project_id,
      run_target = target,
      run_trigger = trigger,
      run_parent = parent_run_id,
      run_status = Run_Queued,
      run_budget = (case budget of None \<Rightarrow> budget_normal | Some b \<Rightarrow> b),
      run_model_rounds_used = 0,
      run_tool_invocations_used = 0,
      run_active_revision = 1,
      run_cancellation_revision = 0,
      run_engine_version = engine_version,
      run_pause_requested = False,
      run_idempotency_key = strip idempotency_key,
      run_error_code = None,
      run_created_at = now,
      run_updated_at = now,
      run_started_at = None,
      run_completed_at = None\<rparr>"

section \<open>Plan revisions, nodes and edges\<close>

record plan_revision =
  rev_run :: uuid
  rev_number :: int
  rev_reason :: plan_reason
  rev_instruction :: "uuid option"
  rev_created_at :: instant

definition revision_post_init :: "plan_revision \<Rightarrow> wf_error + plan_revision" where
  "revision_post_init v = ensure
     [(rev_number v < 1, ValueError ''Workflow plan revision must be positive'')] v"

record workflow_node =
  node_id :: uuid
  node_run :: uuid
  node_plan_revision :: int
  node_key :: string
  node_kind :: string
  node_payload :: json
  node_payload_version :: int
  node_status :: node_status
  node_policy :: concurrency_policy
  node_resource_keys :: "string list"
  node_max_attempts :: int
  node_attempt_count :: int
  node_available_at :: instant
  node_public_summary :: string
  node_result :: "json option"
  node_evidence_refs :: "string list"
  node_error_code :: "string option"
  node_created_at :: instant
  node_updated_at :: instant
  node_started_at :: "instant option"
  node_completed_at :: "instant option"

definition node_post_init :: "workflow_node \<Rightarrow> wf_error + workflow_node" where
  "node_post_init n = ensure
     [(strip (node_key n) = [] \<or> strip (node_kind n) = [] \<or> strip (node_public_summary n) = [],
       ValueError ''Workflow node identity and summary are required''),
      (node_plan_revision n < 1 \<or> node_payload_version n < 1,
       ValueError ''Workflow node versions must be positive''),
      (node_max_attempts n < 1
       \<or> \<not> (0 \<le> node_attempt_count n \<and> node_attempt_count n \<le> node_max_attempts n),
       ValueError ''Workflow node attempt counts are invalid''),
      (\<not> distinct (node_resource_keys n),
       ValueError ''Workflow node resource keys must be unique'')] n"

definition new_workflow_node ::
  "uuid \<Rightarrow> instant \<Rightarrow> uuid \<Rightarrow> int \<Rightarrow> string \<Rightarrow> string \<Rightarrow> json \<Rightarrow> string \<Rightarrow> bool \<Rightarrow>
   concurrency_policy \<Rightarrow> string list \<Rightarrow> int \<Rightarrow> int \<Rightarrow> instant option \<Rightarrow> wf_error + workflow_node" where
  "new_workflow_node new_id now run plan_revision key kind payload public_summary ready
     policy resource_keys max_attempts payload_version available_at =
   node_post_init
     \<lparr>node_id = new_id,
      node_run = run,
      node_plan_revision = plan_revision,
      node_key = strip key,
      node_kind = strip kind,
      node_payload = payload,
      node_payload_version = payload_version,
      node_status = (if ready then Node_Ready else Node_Pending),
      node_policy = policy,
      node_resource_keys = sort resource_keys,
      node_max_attempts = max_attempts,
      node_attempt_count = 0,
      node_available_at = (case available_at of None \<Rightarrow> now | Some t \<Rightarrow> t),
      node_public_summary = strip public_summary,
      node_result = None,
      node_evidence_refs = [],
      node_error_code = None,
      node_created_at = now,
      node_updated_at = now,
      node_started_at = None,
      node_completed_at = None\<rparr>"

record workflow_edge =
  edge_run :: uuid
  edge_plan_revision :: int
  edge_from :: uuid
  edge_to :: uuid

definition edge_post_init :: "workflow_edge \<Rightarrow> wf_error + workflow_edge" where
  "edge_post_init e = ensure
     [(edge_plan_revision e < 1 \<or> edge_from e = edge_to e,
       ValueError ''Workflow edge is invalid'')] e"

section \<open>Attempts, claims, instructions, snapshots\<close>

text \<open>A row of \<open>core_workflow_attempts\<close>.\<close>

record workflow_attempt =
  att_node :: uuid
  att_number :: int
  att_run :: uuid
  att_status :: attempt_status
  att_lease_owner :: "string option"
  att_lease_fence :: int
  att_lease_until :: "instant option"
  att_cancellation_revision :: int
  att_plan_revision :: int
  att_result :: "json option"
  att_evidence_refs :: "string list"
  att_error_code :: "string option"
  att_started_at :: instant
  att_finished_at :: "instant option"

record attempt_claim =
  claim_run :: uuid
  claim_node :: uuid
  claim_number :: int
  claim_lease_owner :: string
  claim_lease_fence :: int
  claim_lease_until :: instant
  claim_cancellation_revision :: int
  claim_plan_revision :: int

record workflow_instruction =
  ins_id :: uuid
  ins_run :: uuid
  ins_idempotency_key :: string
  ins_text :: string
  ins_expected_revision :: int
  ins_status :: instruction_status
  ins_applied_revision :: "int option"
  ins_created_at :: instant
  ins_applied_at :: "instant option"

definition instruction_post_init :: "workflow_instruction \<Rightarrow> wf_error + workflow_instruction" where
  "instruction_post_init i = ensure
     [(strip (ins_idempotency_key i) = [] \<or> strip (ins_text i) = [],
       ValueError ''Workflow instruction identity and content are required''),
      (ins_expected_revision i < 1
       \<or> (case ins_applied_revision i of None \<Rightarrow> False | Some v \<Rightarrow> v < 1),
       ValueError ''Workflow instruction revision is invalid'')] i"

record workflow_snapshot =
  snap_run :: workflow_run
  snap_revisions :: "plan_revision list"
  snap_nodes :: "workflow_node list"
  snap_edges :: "workflow_edge list"
  snap_instructions :: "workflow_instruction list"

section \<open>Facts about the constructors\<close>

lemma budget_post_init_normal: "budget_post_init budget_normal = Inr budget_normal"
  by (simp add: budget_post_init_def budget_normal_def ensure_eq_Inr)

lemma budget_post_init_deep: "budget_post_init budget_deep = Inr budget_deep"
  by (simp add: budget_post_init_def budget_deep_def ensure_eq_Inr)

lemmas post_init_defs =
  budget_post_init_def run_post_init_def revision_post_init_def node_post_init_def
  edge_post_init_def instruction_post_init_def

lemma not_run_terminal_iff:
  "\<not> run_terminal st \<longleftrightarrow> st \<in> {Run_Queued, Run_Running, Run_Waiting_For_Approval,
     Run_Waiting_For_Input, Run_Paused}"
  by (cases st) simp_all

lemma not_node_terminal_iff:
  "\<not> node_terminal st \<longleftrightarrow> st \<in> {Node_Pending, Node_Ready, Node_Running,
     Node_Waiting_For_Approval, Node_Waiting_For_Input}"
  by (cases st) simp_all

end
