(* ===== verification/Workflow_Plan.thy ===== *)
theory Workflow_Plan
  imports Workflow_Model
begin

text \<open>
  Plan validation and the concurrency rule of \<open>workflow/repository_records.py\<close>:
  \<open>validate_plan\<close>, which accepts a plan and marks its roots ready, and \<open>conflicts\<close>. The
  breadth-first loop of \<open>validate_plan\<close> is \<open>kahn\<close>; its termination measure counts the queue
  and the edges that still leave an unvisited node. The main lemma is that the loop visits
  every node exactly when the plan's edges are acyclic.
\<close>

section \<open>The model\<close>

definition conflicts ::
  "concurrency_policy \<Rightarrow> string set \<Rightarrow> (concurrency_policy \<times> string set) list \<Rightarrow> bool" where
  "conflicts policy keys active =
     (if active = [] then False
      else if policy = Serial then True
      else (\<exists>a\<in>set active. fst a = Serial \<or> keys \<inter> snd a \<noteq> {}))"

text \<open>The sets \<open>incoming[n]\<close> and \<open>outgoing[n]\<close>; the latter is iterated, so it is a list.\<close>

definition incoming :: "workflow_edge list \<Rightarrow> uuid \<Rightarrow> uuid set" where
  "incoming es n = edge_from ` set (filter (\<lambda>e. edge_to e = n) es)"

definition outgoing :: "workflow_edge list \<Rightarrow> uuid \<Rightarrow> uuid list" where
  "outgoing es n = remdups (map edge_to (filter (\<lambda>e. edge_from e = n) es))"

lemma length_outgoing_le: "length (outgoing es n) \<le> length (filter (\<lambda>e. edge_from e = n) es)"
  by (simp add: outgoing_def) (metis length_map length_remdups_leq)

lemma unvisited_edges_split:
  "x \<notin> set visited \<Longrightarrow>
   length (filter (\<lambda>e. edge_from e \<notin> set visited) es) =
   length (filter (\<lambda>e. edge_from e \<noteq> x \<and> edge_from e \<notin> set visited) es) +
   length (filter (\<lambda>e. edge_from e = x) es)"
  by (induction es) auto

function kahn :: "workflow_edge list \<Rightarrow> uuid list \<Rightarrow> uuid list \<Rightarrow> uuid list" where
  "kahn es [] visited = visited"
| "kahn es (x # queue) visited =
     (if x \<in> set visited then kahn es queue visited
      else kahn es
             (queue @ filter (\<lambda>y. incoming es y \<subseteq> insert x (set visited)) (outgoing es x))
             (x # visited))"
  by pat_completeness auto
termination
proof (relation "measure (\<lambda>(es, queue, visited).
    length queue + length (filter (\<lambda>e. edge_from e \<notin> set visited) es))", goal_cases)
  case (3 es x queue visited)
  have "length (filter (\<lambda>y. incoming es y \<subseteq> insert x (set visited)) (outgoing es x))
      \<le> length (filter (\<lambda>e. edge_from e = x) es)"
    using length_outgoing_le[of es x] length_filter_le order_trans by blast
  with 3 show ?case
    by (simp add: unvisited_edges_split[of x visited es])
qed auto

definition roots :: "workflow_node list \<Rightarrow> workflow_edge list \<Rightarrow> uuid list" where
  "roots nodes es = filter (\<lambda>n. incoming es n = {}) (map node_id nodes)"

definition edge_checks ::
  "uuid \<Rightarrow> int \<Rightarrow> workflow_node list \<Rightarrow> workflow_edge list \<Rightarrow> (bool \<times> wf_error) list" where
  "edge_checks run revision nodes es = concat (map (\<lambda>e.
     [(edge_run e \<noteq> run \<or> edge_plan_revision e \<noteq> revision,
       ValueError ''Workflow edge must match the Run and revision''),
      (edge_from e \<notin> node_id ` set nodes \<or> edge_to e \<notin> node_id ` set nodes,
       ValueError ''Workflow edge references an unknown node'')]) es)"

definition validate_plan ::
  "uuid \<Rightarrow> int \<Rightarrow> workflow_node list \<Rightarrow> workflow_edge list \<Rightarrow> wf_error + workflow_node list" where
  "validate_plan run revision nodes es =
     ensure
       ([(nodes = [], ValueError ''Workflow plan requires at least one node''),
         (card (node_id ` set nodes) \<noteq> length nodes,
          ValueError ''Workflow plan node IDs must be unique''),
         (\<exists>n\<in>set nodes. node_run n \<noteq> run \<or> node_plan_revision n \<noteq> revision,
          ValueError ''Workflow plan nodes must match the Run and revision'')]
        @ edge_checks run revision nodes es
        @ [(length (kahn es (roots nodes es) []) \<noteq> length nodes,
            ValueError ''Workflow plan must be acyclic'')])
       (map (\<lambda>n. n\<lparr>node_status :=
           (if node_id n \<in> set (roots nodes es) then Node_Ready else Node_Pending)\<rparr>) nodes)"

section \<open>The loop visits the nodes below a visited one\<close>

definition edge_rel :: "workflow_edge list \<Rightarrow> (uuid \<times> uuid) set" where
  "edge_rel es = (\<lambda>e. (edge_from e, edge_to e)) ` set es"

lemma finite_edge_rel [simp]: "finite (edge_rel es)"
  by (simp add: edge_rel_def)

lemma incoming_iff: "u \<in> incoming es v \<longleftrightarrow> (u, v) \<in> edge_rel es"
  by (auto simp: incoming_def edge_rel_def)

lemma outgoing_iff: "v \<in> set (outgoing es u) \<longleftrightarrow> (u, v) \<in> edge_rel es"
  by (force simp: outgoing_def edge_rel_def)

text \<open>
  Both directions are one invariant each. Soundness: the visited list is in topological
  order, so the edges between visited nodes are acyclic.
\<close>

definition downset :: "workflow_edge list \<Rightarrow> uuid set \<Rightarrow> bool" where
  "downset es V \<longleftrightarrow> (\<forall>v\<in>V. incoming es v \<subseteq> V)"

lemma acyclic_add_sink:
  assumes "acyclic (edge_rel es \<inter> V \<times> V)" and "downset es V" and "x \<notin> V"
    and "incoming es x \<subseteq> V"
  shows "acyclic (edge_rel es \<inter> insert x V \<times> insert x V)"
proof -
  let ?R = "edge_rel es \<inter> insert x V \<times> insert x V"
  have no_out: "(x, v) \<notin> ?R" for v
    using assms(2-4) by (auto simp: downset_def incoming_iff[symmetric])
  have in_V: "(u, w) \<in> ?R\<^sup>+ \<Longrightarrow> w \<in> V \<Longrightarrow> (u, w) \<in> (edge_rel es \<inter> V \<times> V)\<^sup>+" for u w
  proof (induction rule: trancl.induct)
    case (r_into_trancl u w)
    then show ?case using no_out by fastforce
  next
    case (trancl_into_trancl u v w)
    then have "v \<in> V" "(v, w) \<in> edge_rel es \<inter> V \<times> V"
      using no_out by fastforce+
    with trancl_into_trancl show ?case by (meson trancl.trancl_into_trancl)
  qed
  show ?thesis
  proof (rule acyclicI, rule allI, rule notI)
    fix u assume u: "(u, u) \<in> ?R\<^sup>+"
    then have "u \<noteq> x"
      using no_out by (metis tranclD)
    moreover from u have "u \<in> insert x V"
      by (meson IntE SigmaE2 tranclD2)
    ultimately show False
      using in_V[OF u] assms(1) by (auto simp: acyclic_def)
  qed
qed

lemma kahn_sound:
  assumes "acyclic (edge_rel es \<inter> set vs \<times> set vs)" and "downset es (set vs)" and "distinct vs"
    and "\<forall>q\<in>set queue. incoming es q \<subseteq> set vs"
  shows "acyclic (edge_rel es \<inter> set (kahn es queue vs) \<times> set (kahn es queue vs))
    \<and> downset es (set (kahn es queue vs)) \<and> distinct (kahn es queue vs)"
  using assms
proof (induction es queue vs rule: kahn.induct)
  case (1 es visited)
  then show ?case by simp
next
  case (2 es x queue visited)
  show ?case
  proof (cases "x \<in> set visited")
    case True
    then show ?thesis
      using "2.IH"(1)[OF True "2.prems"(1-3)] "2.prems"(4) by simp
  next
    case False
    let ?next = "filter (\<lambda>y. incoming es y \<subseteq> insert x (set visited)) (outgoing es x)"
    have 1: "acyclic (edge_rel es \<inter> set (x # visited) \<times> set (x # visited))"
      using acyclic_add_sink[OF "2.prems"(1,2) False] "2.prems"(4) by simp
    have 2: "downset es (set (x # visited))"
      using "2.prems"(2,4) by (auto simp: downset_def)
    have 3: "distinct (x # visited)"
      using "2.prems"(3) False by simp
    have 4: "\<forall>q\<in>set (queue @ ?next). incoming es q \<subseteq> set (x # visited)"
      using "2.prems"(4) by auto
    show ?thesis
      using "2.IH"(2)[OF False 1 2 3 4] False by (simp only: kahn.simps if_False)
  qed
qed

text \<open>
  Completeness: a node all of whose predecessors are visited is visited or waits in the
  queue, so at the end every node below visited ones is visited.
\<close>

lemma kahn_extends: "set queue \<union> set vs \<subseteq> set (kahn es queue vs)"
  by (induction es queue vs rule: kahn.induct) auto

lemma kahn_complete:
  assumes "\<forall>v. incoming es v \<noteq> {} \<longrightarrow> incoming es v \<subseteq> set vs \<longrightarrow> v \<in> set vs \<union> set queue"
    and "incoming es v \<noteq> {}" and "incoming es v \<subseteq> set (kahn es queue vs)"
  shows "v \<in> set (kahn es queue vs)"
  using assms
proof (induction es queue vs rule: kahn.induct)
  case (1 es visited)
  then show ?case by auto
next
  case (2 es x queue visited)
  show ?case
  proof (cases "x \<in> set visited")
    case True
    with 2 show ?thesis by auto
  next
    case False
    have "\<forall>w. incoming es w \<noteq> {} \<longrightarrow> incoming es w \<subseteq> set (x # visited) \<longrightarrow>
        w \<in> set (x # visited) \<union> set (queue @ filter (\<lambda>y. incoming es y \<subseteq> insert x (set visited)) (outgoing es x))"
    proof (intro allI impI)
      fix w assume w: "incoming es w \<noteq> {}" "incoming es w \<subseteq> set (x # visited)"
      show "w \<in> set (x # visited) \<union> set (queue @ filter (\<lambda>y. incoming es y \<subseteq> insert x (set visited)) (outgoing es x))"
      proof (cases "x \<in> incoming es w")
        case True
        with w show ?thesis by (auto simp: outgoing_iff incoming_iff)
      next
        case no: False
        with w have "incoming es w \<subseteq> set visited" by auto
        with "2.prems"(1) w have "w \<in> set visited \<union> set (x # queue)" by blast
        then show ?thesis by auto
      qed
    qed
    with 2 False show ?thesis by auto
  qed
qed

lemma kahn_subset:
  "set (kahn es queue vs) \<subseteq> set queue \<union> set vs \<union> snd ` edge_rel es"
proof (induction es queue vs rule: kahn.induct)
  case (2 es x queue visited)
  have "set (outgoing es x) \<subseteq> snd ` edge_rel es"
    by (force simp: outgoing_iff)
  with 2 show ?case by (auto split: if_splits)
qed simp

lemma kahn_roots_all:
  assumes "acyclic (edge_rel es)" and "edge_rel es \<subseteq> N \<times> N"
    and "\<forall>n\<in>N. incoming es n = {} \<longrightarrow> n \<in> set queue" and "v \<in> N"
  shows "v \<in> set (kahn es queue [])"
proof -
  have "wf (edge_rel es)"
    using assms(1) by (simp add: finite_acyclic_wf)
  then show ?thesis
    using \<open>v \<in> N\<close>
  proof (induction v rule: wf_induct_rule)
    case (less v)
    show ?case
    proof (cases "incoming es v = {}")
      case True
      with less.prems assms(3) show ?thesis
        using kahn_extends[of queue "[]" es] by auto
    next
      case False
      have "incoming es v \<subseteq> set (kahn es queue [])"
        using less.IH assms(2) by (auto simp: incoming_iff)
      with False show ?thesis
        by (intro kahn_complete) auto
    qed
  qed
qed

section \<open>What validation accepts\<close>

definition plan_well_formed ::
  "uuid \<Rightarrow> int \<Rightarrow> workflow_node list \<Rightarrow> workflow_edge list \<Rightarrow> bool" where
  "plan_well_formed run revision nodes es \<longleftrightarrow>
     nodes \<noteq> [] \<and> distinct (map node_id nodes)
     \<and> (\<forall>n\<in>set nodes. node_run n = run \<and> node_plan_revision n = revision)
     \<and> (\<forall>e\<in>set es. edge_run e = run \<and> edge_plan_revision e = revision
          \<and> edge_from e \<in> node_id ` set nodes \<and> edge_to e \<in> node_id ` set nodes)
     \<and> acyclic (edge_rel es)"

definition mark_roots :: "workflow_node list \<Rightarrow> workflow_edge list \<Rightarrow> workflow_node list" where
  "mark_roots nodes es = map (\<lambda>n. n\<lparr>node_status :=
     (if incoming es (node_id n) = {} then Node_Ready else Node_Pending)\<rparr>) nodes"

lemma set_roots: "set (roots nodes es) = {n \<in> node_id ` set nodes. incoming es n = {}}"
  by (auto simp: roots_def)

lemma card_ids_iff: "card (node_id ` set nodes) = length nodes \<longleftrightarrow> distinct (map node_id nodes)"
proof -
  have "card (set (map node_id nodes)) = length (map node_id nodes) \<longleftrightarrow> distinct (map node_id nodes)"
    using card_distinct distinct_card by blast
  then show ?thesis by simp
qed

lemma edge_rel_within:
  assumes "\<forall>e\<in>set es. edge_from e \<in> N \<and> edge_to e \<in> N"
  shows "edge_rel es \<subseteq> N \<times> N"
  using assms by (auto simp: edge_rel_def)

lemma kahn_length_iff:
  assumes "distinct (map node_id nodes)"
    and "\<forall>e\<in>set es. edge_from e \<in> node_id ` set nodes \<and> edge_to e \<in> node_id ` set nodes"
  shows "length (kahn es (roots nodes es) []) = length nodes \<longleftrightarrow> acyclic (edge_rel es)"
proof -
  define V where "V = kahn es (roots nodes es) []"
  define N where "N = node_id ` set nodes"
  have rel: "edge_rel es \<subseteq> N \<times> N"
    using assms(2) unfolding N_def by (rule edge_rel_within)
  have V: "acyclic (edge_rel es \<inter> set V \<times> set V)" "distinct V"
    using kahn_sound[of es "[]" "roots nodes es"]
    by (simp_all add: V_def downset_def set_roots acyclic_def)
  have "snd ` edge_rel es \<subseteq> N" and "set (roots nodes es) \<subseteq> N"
    using rel by (auto simp: set_roots N_def)
  then have "set V \<subseteq> N"
    using kahn_subset[of es "roots nodes es" "[]"] unfolding V_def by (simp; blast)
  moreover have "card N = length nodes"
    using assms(1) by (simp add: N_def card_ids_iff)
  moreover have "finite N" by (simp add: N_def)
  ultimately have "length V = length nodes \<longleftrightarrow> set V = N"
    using V(2) by (metis card_subset_eq distinct_card)
  also have "\<dots> \<longleftrightarrow> acyclic (edge_rel es)"
  proof
    assume "set V = N"
    with V(1) rel show "acyclic (edge_rel es)" by (simp add: inf_absorb1)
  next
    assume "acyclic (edge_rel es)"
    then have "N \<subseteq> set V"
      unfolding V_def using kahn_roots_all[OF _ rel] by (auto simp: set_roots N_def)
    with \<open>set V \<subseteq> N\<close> show "set V = N" by blast
  qed
  finally show ?thesis by (simp add: V_def)
qed

lemma edge_checks_pass:
  "list_all (\<lambda>g. \<not> fst g) (edge_checks run revision nodes es) \<longleftrightarrow>
   (\<forall>e\<in>set es. edge_run e = run \<and> edge_plan_revision e = revision
      \<and> edge_from e \<in> node_id ` set nodes \<and> edge_to e \<in> node_id ` set nodes)"
  by (induction es) (auto simp: edge_checks_def)

lemma validate_plan_Inr:
  "validate_plan run revision nodes es = Inr ns \<longleftrightarrow>
   plan_well_formed run revision nodes es \<and> ns = mark_roots nodes es"
proof -
  have "map (\<lambda>n. n\<lparr>node_status :=
           (if node_id n \<in> set (roots nodes es) then Node_Ready else Node_Pending)\<rparr>) nodes
      = mark_roots nodes es"
    by (simp add: mark_roots_def set_roots)
  then show ?thesis
    unfolding validate_plan_def plan_well_formed_def result_simps
    by (auto simp: card_ids_iff edge_checks_pass kahn_length_iff)
qed

lemma mark_roots_ids [simp]: "map node_id (mark_roots nodes es) = map node_id nodes"
  by (simp add: mark_roots_def comp_def)

lemma mark_roots_mem:
  "n \<in> set (mark_roots nodes es) \<Longrightarrow>
   \<exists>m\<in>set nodes. n = m\<lparr>node_status :=
     (if incoming es (node_id m) = {} then Node_Ready else Node_Pending)\<rparr>"
  unfolding mark_roots_def by (simp only: set_map) blast

section \<open>The concurrency rule\<close>

text \<open>Two nodes may run together: neither is serial and they share no resource.\<close>

definition compatible :: "workflow_node \<Rightarrow> workflow_node \<Rightarrow> bool" where
  "compatible m n \<longleftrightarrow> node_policy m = Parallel_Read \<and> node_policy n = Parallel_Read
     \<and> set (node_resource_keys m) \<inter> set (node_resource_keys n) = {}"

lemma compatible_sym: "compatible m n \<Longrightarrow> compatible n m"
  by (auto simp: compatible_def)

lemma not_conflicts_iff:
  "\<not> conflicts (node_policy n) (set (node_resource_keys n))
       (map (\<lambda>m. (node_policy m, set (node_resource_keys m))) ms)
   \<longleftrightarrow> (\<forall>m\<in>set ms. compatible n m)"
  by (cases "node_policy n"; cases ms)
    (auto simp: conflicts_def compatible_def, (metis concurrency_policy.exhaust)+)

end
