(* ===== verification/Workflow_Store.thy ===== *)
theory Workflow_Store
  imports Workflow_Plan "HOL-Library.Product_Lexorder"
begin

text \<open>
  The six workflow tables, the constraints their schema declares, and the readers and writers
  of \<open>workflow/repository_records.py\<close>. A row of a table is the record its columns decode to.
  Constraints are checked where a statement can violate them; a violation is
  \<open>IntegrityError\<close>. The foreign keys into the conversation, task and project tables are not
  modelled, as those tables are not.
\<close>

record wf_store =
  runs_t :: "workflow_run table"
  revisions_t :: "plan_revision table"
  nodes_t :: "workflow_node table"
  edges_t :: "workflow_edge table"
  attempts_t :: "workflow_attempt table"
  instructions_t :: "workflow_instruction table"

definition empty_store :: wf_store where
  "empty_store = \<lparr>runs_t = [], revisions_t = [], nodes_t = [], edges_t = [], attempts_t = [],
     instructions_t = []\<rparr>"

abbreviation runs_of :: "tenant \<Rightarrow> wf_store \<Rightarrow> workflow_run list" where
  "runs_of t s \<equiv> rows t (runs_t s)"
abbreviation revisions_of :: "tenant \<Rightarrow> wf_store \<Rightarrow> plan_revision list" where
  "revisions_of t s \<equiv> rows t (revisions_t s)"
abbreviation nodes_of :: "tenant \<Rightarrow> wf_store \<Rightarrow> workflow_node list" where
  "nodes_of t s \<equiv> rows t (nodes_t s)"
abbreviation edges_of :: "tenant \<Rightarrow> wf_store \<Rightarrow> workflow_edge list" where
  "edges_of t s \<equiv> rows t (edges_t s)"
abbreviation attempts_of :: "tenant \<Rightarrow> wf_store \<Rightarrow> workflow_attempt list" where
  "attempts_of t s \<equiv> rows t (attempts_t s)"
abbreviation instructions_of :: "tenant \<Rightarrow> wf_store \<Rightarrow> workflow_instruction list" where
  "instructions_of t s \<equiv> rows t (instructions_t s)"

section \<open>Statements on one table\<close>

definition update_runs ::
  "tenant \<Rightarrow> (workflow_run \<Rightarrow> bool) \<Rightarrow> (workflow_run \<Rightarrow> workflow_run) \<Rightarrow> wf_store \<Rightarrow> wf_store" where
  "update_runs t p f s = s\<lparr>runs_t := update_where t p f (runs_t s)\<rparr>"

definition update_nodes ::
  "tenant \<Rightarrow> (workflow_node \<Rightarrow> bool) \<Rightarrow> (workflow_node \<Rightarrow> workflow_node) \<Rightarrow> wf_store \<Rightarrow> wf_store" where
  "update_nodes t p f s = s\<lparr>nodes_t := update_where t p f (nodes_t s)\<rparr>"

definition update_attempts ::
  "tenant \<Rightarrow> (workflow_attempt \<Rightarrow> bool) \<Rightarrow> (workflow_attempt \<Rightarrow> workflow_attempt) \<Rightarrow>
   wf_store \<Rightarrow> wf_store" where
  "update_attempts t p f s = s\<lparr>attempts_t := update_where t p f (attempts_t s)\<rparr>"

definition update_instructions ::
  "tenant \<Rightarrow> (workflow_instruction \<Rightarrow> bool) \<Rightarrow> (workflow_instruction \<Rightarrow> workflow_instruction) \<Rightarrow>
   wf_store \<Rightarrow> wf_store" where
  "update_instructions t p f s = s\<lparr>instructions_t := update_where t p f (instructions_t s)\<rparr>"

lemma update_tables [simp, table_simps]:
  "runs_t (update_runs t p f s) = update_where t p f (runs_t s)"
  "nodes_t (update_runs t p f s) = nodes_t s"
  "attempts_t (update_runs t p f s) = attempts_t s"
  "edges_t (update_runs t p f s) = edges_t s"
  "revisions_t (update_runs t p f s) = revisions_t s"
  "instructions_t (update_runs t p f s) = instructions_t s"
  "runs_t (update_nodes t q g s) = runs_t s"
  "nodes_t (update_nodes t q g s) = update_where t q g (nodes_t s)"
  "attempts_t (update_nodes t q g s) = attempts_t s"
  "edges_t (update_nodes t q g s) = edges_t s"
  "revisions_t (update_nodes t q g s) = revisions_t s"
  "instructions_t (update_nodes t q g s) = instructions_t s"
  "runs_t (update_attempts t r h s) = runs_t s"
  "nodes_t (update_attempts t r h s) = nodes_t s"
  "attempts_t (update_attempts t r h s) = update_where t r h (attempts_t s)"
  "edges_t (update_attempts t r h s) = edges_t s"
  "revisions_t (update_attempts t r h s) = revisions_t s"
  "instructions_t (update_attempts t r h s) = instructions_t s"
  "runs_t (update_instructions t u k s) = runs_t s"
  "nodes_t (update_instructions t u k s) = nodes_t s"
  "attempts_t (update_instructions t u k s) = attempts_t s"
  "edges_t (update_instructions t u k s) = edges_t s"
  "revisions_t (update_instructions t u k s) = revisions_t s"
  "instructions_t (update_instructions t u k s) = update_where t u k (instructions_t s)"
  by (simp_all add: update_runs_def update_nodes_def update_attempts_def update_instructions_def)

text \<open>\<open>one_or_none\<close> and \<open>one\<close> of a result.\<close>

definition one_or_none :: "'r list \<Rightarrow> wf_error + 'r option" where
  "one_or_none rs = (case rs of [] \<Rightarrow> Inr None | [r] \<Rightarrow> Inr (Some r) | _ \<Rightarrow> Inl MultipleResultsFound)"

definition one :: "'r list \<Rightarrow> wf_error + 'r" where
  "one rs = (case rs of [] \<Rightarrow> Inl NoResultFound | [r] \<Rightarrow> Inr r | _ \<Rightarrow> Inl MultipleResultsFound)"

lemma one_or_none_Inr [result_simps]:
  "one_or_none rs = Inr x \<longleftrightarrow> rs = [] \<and> x = None \<or> (\<exists>r. rs = [r] \<and> x = Some r)"
  by (auto simp: one_or_none_def split: list.splits)

lemma one_Inr [result_simps]: "one rs = Inr r \<longleftrightarrow> rs = [r]"
  by (auto simp: one_def split: list.splits)

lemma one_singleton [simp]: "one [r] = Inr r" "one_or_none [r] = Inr (Some r)"
    "one_or_none [] = Inr None"
  by (simp_all add: one_def one_or_none_def)

section \<open>Check constraints\<close>

definition run_check :: "workflow_run \<Rightarrow> bool" where
  "run_check r \<longleftrightarrow>
     max_model_rounds (run_budget r) > 0 \<and> max_tool_invocations (run_budget r) > 0
     \<and> max_duration_seconds (run_budget r) > 0 \<and> max_parallel_nodes (run_budget r) > 0
     \<and> 0 \<le> run_model_rounds_used r \<and> run_model_rounds_used r \<le> max_model_rounds (run_budget r)
     \<and> 0 \<le> run_tool_invocations_used r
     \<and> run_tool_invocations_used r \<le> max_tool_invocations (run_budget r)
     \<and> run_active_revision r > 0 \<and> run_cancellation_revision r \<ge> 0 \<and> run_engine_version r > 0"

definition node_check :: "workflow_node \<Rightarrow> bool" where
  "node_check n \<longleftrightarrow>
     node_plan_revision n > 0 \<and> node_payload_version n > 0 \<and> node_max_attempts n > 0
     \<and> 0 \<le> node_attempt_count n \<and> node_attempt_count n \<le> node_max_attempts n"

definition edge_check :: "workflow_edge \<Rightarrow> bool" where
  "edge_check e \<longleftrightarrow> edge_from e \<noteq> edge_to e"

definition attempt_check :: "workflow_attempt \<Rightarrow> bool" where
  "attempt_check a \<longleftrightarrow>
     att_number a > 0 \<and> att_lease_fence a > 0 \<and> att_cancellation_revision a \<ge> 0
     \<and> att_plan_revision a > 0
     \<and> (if att_status a = Attempt_Running
         then att_lease_owner a \<noteq> None \<and> att_lease_until a \<noteq> None
         else att_lease_owner a = None \<and> att_lease_until a = None)"

definition instruction_check :: "workflow_instruction \<Rightarrow> bool" where
  "instruction_check i \<longleftrightarrow> ins_expected_revision i > 0
     \<and> (case ins_applied_revision i of None \<Rightarrow> True | Some v \<Rightarrow> v > 0)"

section \<open>Inserting rows\<close>

definition insert_run :: "tenant \<Rightarrow> workflow_run \<Rightarrow> wf_store \<Rightarrow> wf_error + wf_store" where
  "insert_run t r s = ensure
     [(\<not> run_check r
       \<or> key_clash run_id (runs_of t s) [r]
       \<or> key_clash run_idempotency_key (runs_of t s) [r]
       \<or> key_clash (\<lambda>r. (run_owner_kind r, run_owner_id r, run_engine_version r)) (runs_of t s) [r]
       \<or> (case run_parent r of None \<Rightarrow> False | Some p \<Rightarrow> p \<notin> run_id ` set (runs_of t s)),
       IntegrityError)]
     (s\<lparr>runs_t := insert_rows t [r] (runs_t s)\<rparr>)"

definition insert_revision :: "tenant \<Rightarrow> plan_revision \<Rightarrow> wf_store \<Rightarrow> wf_error + wf_store" where
  "insert_revision t v s = ensure
     [(rev_number v \<le> 0
       \<or> key_clash (\<lambda>v. (rev_run v, rev_number v)) (revisions_of t s) [v]
       \<or> rev_run v \<notin> run_id ` set (runs_of t s), IntegrityError)]
     (s\<lparr>revisions_t := insert_rows t [v] (revisions_t s)\<rparr>)"

abbreviation node_plan_key :: "workflow_node \<Rightarrow> uuid \<times> int \<times> string" where
  "node_plan_key n \<equiv> (node_run n, node_plan_revision n, node_key n)"

abbreviation edge_row_key :: "workflow_edge \<Rightarrow> uuid \<times> int \<times> uuid \<times> uuid" where
  "edge_row_key e \<equiv> (edge_run e, edge_plan_revision e, edge_from e, edge_to e)"

definition insert_nodes :: "tenant \<Rightarrow> workflow_node list \<Rightarrow> wf_store \<Rightarrow> wf_error + wf_store" where
  "insert_nodes t ns s = ensure
     [(\<not> list_all node_check ns
       \<or> key_clash node_id (nodes_of t s) ns
       \<or> key_clash node_plan_key (nodes_of t s) ns
       \<or> (\<exists>n\<in>set ns. (node_run n, node_plan_revision n) \<notin>
            (\<lambda>v. (rev_run v, rev_number v)) ` set (revisions_of t s)), IntegrityError)]
     (s\<lparr>nodes_t := insert_rows t ns (nodes_t s)\<rparr>)"

definition insert_edges :: "tenant \<Rightarrow> workflow_edge list \<Rightarrow> wf_store \<Rightarrow> wf_error + wf_store" where
  "insert_edges t es s = ensure
     [(\<not> list_all edge_check es
       \<or> key_clash edge_row_key (edges_of t s) es
       \<or> (\<exists>e\<in>set es. edge_from e \<notin> node_id ` set (nodes_of t s)
            \<or> edge_to e \<notin> node_id ` set (nodes_of t s)
            \<or> (edge_run e, edge_plan_revision e) \<notin>
                 (\<lambda>v. (rev_run v, rev_number v)) ` set (revisions_of t s)), IntegrityError)]
     (s\<lparr>edges_t := insert_rows t es (edges_t s)\<rparr>)"

definition insert_plan ::
  "tenant \<Rightarrow> workflow_node list \<Rightarrow> workflow_edge list \<Rightarrow> wf_store \<Rightarrow> wf_error + wf_store" where
  "insert_plan t ns es s = rbind (insert_nodes t ns s) (insert_edges t es)"

definition insert_attempt :: "tenant \<Rightarrow> workflow_attempt \<Rightarrow> wf_store \<Rightarrow> wf_error + wf_store" where
  "insert_attempt t a s = ensure
     [(\<not> attempt_check a
       \<or> key_clash (\<lambda>a. (att_node a, att_number a)) (attempts_of t s) [a]
       \<or> att_node a \<notin> node_id ` set (nodes_of t s)
       \<or> att_run a \<notin> run_id ` set (runs_of t s), IntegrityError)]
     (s\<lparr>attempts_t := insert_rows t [a] (attempts_t s)\<rparr>)"

definition insert_instruction ::
  "tenant \<Rightarrow> workflow_instruction \<Rightarrow> wf_store \<Rightarrow> wf_error + wf_store" where
  "insert_instruction t i s = ensure
     [(\<not> instruction_check i
       \<or> key_clash ins_id (instructions_of t s) [i]
       \<or> key_clash (\<lambda>i. (ins_run i, ins_idempotency_key i)) (instructions_of t s) [i]
       \<or> ins_run i \<notin> run_id ` set (runs_of t s), IntegrityError)]
     (s\<lparr>instructions_t := insert_rows t [i] (instructions_t s)\<rparr>)"

lemmas insert_defs =
  insert_run_def insert_revision_def insert_nodes_def insert_edges_def insert_plan_def
  insert_attempt_def insert_instruction_def

section \<open>Reading rows back\<close>

text \<open>
  Each reader rebuilds the dataclass, so its \<open>__post_init__\<close> runs again: a stored row that
  fails it makes every read of its run raise.
\<close>

definition run_from_row :: "workflow_run \<Rightarrow> wf_error + workflow_run" where
  "run_from_row r = rbind (budget_post_init (run_budget r))
     (\<lambda>_. run_post_init (r\<lparr>run_error_code := text_or_none (run_error_code r)\<rparr>))"

definition revision_from_row :: "plan_revision \<Rightarrow> wf_error + plan_revision" where
  "revision_from_row v = revision_post_init v"

definition node_from_row :: "workflow_node \<Rightarrow> wf_error + workflow_node" where
  "node_from_row n = node_post_init (n\<lparr>node_error_code := text_or_none (node_error_code n)\<rparr>)"

definition edge_from_row :: "workflow_edge \<Rightarrow> wf_error + workflow_edge" where
  "edge_from_row e = edge_post_init e"

definition instruction_from_row :: "workflow_instruction \<Rightarrow> wf_error + workflow_instruction" where
  "instruction_from_row i = instruction_post_init
     (i\<lparr>ins_applied_revision := (if ins_applied_revision i = Some 0 then None
                                 else ins_applied_revision i)\<rparr>)"

definition load_snapshot ::
  "tenant \<Rightarrow> workflow_run \<Rightarrow> wf_store \<Rightarrow> wf_error + workflow_snapshot" where
  "load_snapshot t r s =
     (let revision_rows = sort_key rev_number
            (select_where t (\<lambda>v. rev_run v = run_id r) (revisions_t s));
          node_rows = sort_key (\<lambda>n. (node_plan_revision n, node_created_at n))
            (select_where t (\<lambda>n. node_run n = run_id r) (nodes_t s));
          edge_rows = sort_key (\<lambda>e. (edge_plan_revision e, edge_from e, edge_to e))
            (select_where t (\<lambda>e. edge_run e = run_id r) (edges_t s));
          instruction_rows = sort_key ins_created_at
            (select_where t (\<lambda>i. ins_run i = run_id r) (instructions_t s))
      in rbind (traverse revision_from_row revision_rows) (\<lambda>vs.
         rbind (traverse node_from_row node_rows) (\<lambda>ns.
         rbind (traverse edge_from_row edge_rows) (\<lambda>es.
         rbind (traverse instruction_from_row instruction_rows) (\<lambda>is.
         Inr \<lparr>snap_run = r, snap_revisions = vs, snap_nodes = ns, snap_edges = es,
              snap_instructions = is\<rparr>)))))"

definition get_snapshot :: "tenant \<Rightarrow> uuid \<Rightarrow> wf_store \<Rightarrow> wf_error + workflow_snapshot option" where
  "get_snapshot t rid s =
     rbind (one_or_none (select_where t (\<lambda>r. run_id r = rid) (runs_t s))) (\<lambda>row.
       case row of
         None \<Rightarrow> Inr None
       | Some r \<Rightarrow> rbind (run_from_row r) (\<lambda>run. map_sum id Some (load_snapshot t run s)))"

definition get_by_owner ::
  "tenant \<Rightarrow> string \<Rightarrow> string \<Rightarrow> int \<Rightarrow> wf_store \<Rightarrow> wf_error + workflow_snapshot option" where
  "get_by_owner t owner_kind owner_id engine_version s =
     rbind (one_or_none (select_where t (\<lambda>r. run_owner_kind r = owner_kind
          \<and> run_owner_id r = owner_id \<and> run_engine_version r = engine_version) (runs_t s)))
       (\<lambda>row. case row of
         None \<Rightarrow> Inr None
       | Some r \<Rightarrow> rbind (run_from_row r) (\<lambda>run. map_sum id Some (load_snapshot t run s)))"

text \<open>
  The last statements of most operations: read the run back, assert that it is there, and
  return it. The result carries the store the operation leaves.
\<close>

definition with_snapshot :: "tenant \<Rightarrow> uuid \<Rightarrow> wf_store \<Rightarrow> wf_error + wf_store \<times> workflow_snapshot" where
  "with_snapshot t rid s = rbind (get_snapshot t rid s) (\<lambda>sn.
     case sn of None \<Rightarrow> Inl AssertionError | Some x \<Rightarrow> Inr (s, x))"

definition locked_run :: "tenant \<Rightarrow> uuid \<Rightarrow> wf_store \<Rightarrow> wf_error + workflow_run" where
  "locked_run t rid s =
     rbind (one_or_none (select_where t (\<lambda>r. run_id r = rid) (runs_t s))) (\<lambda>row.
       case row of None \<Rightarrow> Inl KeyError | Some r \<Rightarrow> Inr r)"

definition has_running_attempt :: "tenant \<Rightarrow> uuid \<Rightarrow> wf_store \<Rightarrow> bool" where
  "has_running_attempt t rid s \<longleftrightarrow>
     select_where t (\<lambda>a. att_run a = rid \<and> att_status a = Attempt_Running) (attempts_t s) \<noteq> []"

section \<open>Instructions\<close>

definition persist_instruction ::
  "tenant \<Rightarrow> uuid \<Rightarrow> instant \<Rightarrow> uuid \<Rightarrow> string \<Rightarrow> int \<Rightarrow> string \<Rightarrow> wf_store \<Rightarrow>
   wf_error + wf_store \<times> workflow_instruction" where
  "persist_instruction t new_id now rid instruction expected_revision idempotency_key s =
     (let text = strip instruction; key = strip idempotency_key in
      rbind (ensure
        [(text = [] \<or> length text > 8000,
          ValueError ''Workflow instruction must contain 1 to 8000 characters''),
         (key = [] \<or> length key > 512,
          ValueError ''Workflow instruction idempotency key is invalid'')] ()) (\<lambda>_.
      rbind (one_or_none (select_where t
          (\<lambda>i. ins_run i = rid \<and> ins_idempotency_key i = key) (instructions_t s))) (\<lambda>existing.
      case existing of
        Some row \<Rightarrow> rbind (instruction_from_row row) (\<lambda>model.
          ensure [(ins_text model \<noteq> text \<or> ins_expected_revision model \<noteq> expected_revision,
                   ValueError ''Workflow instruction idempotency key was reused'')] (s, model))
      | None \<Rightarrow>
          rbind (locked_run t rid s) (\<lambda>row.
          rbind (run_from_row row) (\<lambda>run.
          rbind (ensure
            [(run_terminal (run_status run),
              ValueError ''Terminal Workflow cannot accept instructions''),
             (run_active_revision run \<noteq> expected_revision, WorkflowRevisionError)] ()) (\<lambda>_.
          rbind (instruction_post_init
            \<lparr>ins_id = new_id, ins_run = rid, ins_idempotency_key = key, ins_text = text,
             ins_expected_revision = expected_revision, ins_status = Instruction_Pending,
             ins_applied_revision = None, ins_created_at = now, ins_applied_at = None\<rparr>)
            (\<lambda>model. rbind (insert_instruction t model s) (\<lambda>s'. Inr (s', model)))))))))"

section \<open>Facts about reading\<close>

lemma run_from_row_Inr:
  "run_from_row r = Inr r' \<Longrightarrow> r' = r\<lparr>run_error_code := text_or_none (run_error_code r)\<rparr>"
  by (simp add: run_from_row_def run_post_init_def budget_post_init_def result_simps)

lemma with_snapshot_Inr: "with_snapshot t rid s = Inr (s', sn) \<Longrightarrow> s' = s"
  by (auto simp: with_snapshot_def result_simps split: option.splits)

lemma locked_run_Inr:
  "locked_run t rid s = Inr r \<Longrightarrow> r \<in> set (runs_of t s) \<and> run_id r = rid"
  by (auto simp: locked_run_def result_simps split: option.splits dest: select_where_singleton)

lemma load_snapshot_run: "load_snapshot t r s = Inr sn \<Longrightarrow> snap_run sn = r"
  by (auto simp: load_snapshot_def Let_def result_simps)

lemma has_running_attempt_iff:
  "has_running_attempt t rid s \<longleftrightarrow>
     (\<exists>a\<in>set (attempts_of t s). att_run a = rid \<and> att_status a = Attempt_Running)"
  by (auto simp: has_running_attempt_def select_where_def filter_empty_conv)

end
