(* ===== verification/Workflow_Claims.thy ===== *)
theory Workflow_Claims
  imports Workflow_Store
begin

text \<open>
  Leases and claims of \<open>SqlAlchemyWorkflowRepository\<close>: the fencing predicate and
  \<open>_require_claim\<close>, the recovery sweeps that \<open>claim_ready\<close> runs first (overdue runs, expired
  leases), the selection loop and the claim itself, and the two settlement helpers
  (\<open>_promote_dependents\<close>, \<open>_settle_run\<close>). An operation takes the readings of
  \<open>datetime.now\<close> it makes: \<open>now\<close> for the one it holds in a variable, a \<open>clock\<close> where a
  later statement reads the time again.
\<close>

section \<open>The fence\<close>

definition claim_predicates :: "attempt_claim \<Rightarrow> workflow_attempt \<Rightarrow> bool" where
  "claim_predicates c a \<longleftrightarrow>
     att_node a = claim_node c \<and> att_number a = claim_number c \<and> att_run a = claim_run c
     \<and> att_status a = Attempt_Running \<and> att_lease_owner a = Some (claim_lease_owner c)
     \<and> att_lease_fence a = claim_lease_fence c
     \<and> att_cancellation_revision a = claim_cancellation_revision c
     \<and> att_plan_revision a = claim_plan_revision c"

definition lease_live :: "instant \<Rightarrow> workflow_attempt \<Rightarrow> bool" where
  "lease_live now a \<longleftrightarrow> (case att_lease_until a of None \<Rightarrow> False | Some u \<Rightarrow> now < u)"

definition live_claim_predicates :: "attempt_claim \<Rightarrow> instant \<Rightarrow> workflow_attempt \<Rightarrow> bool" where
  "live_claim_predicates c now a \<longleftrightarrow> claim_predicates c a \<and> lease_live now a"

definition claim_join ::
  "tenant \<Rightarrow> attempt_claim \<Rightarrow> wf_store \<Rightarrow> (workflow_node \<times> workflow_run \<times> workflow_attempt) list" where
  "claim_join t c s =
     [(n, r, a). n \<leftarrow> nodes_of t s, r \<leftarrow> runs_of t s, run_id r = node_run n,
                 a \<leftarrow> attempts_of t s, att_node a = node_id n \<and> claim_predicates c a]"

definition require_claim ::
  "tenant \<Rightarrow> attempt_claim \<Rightarrow> instant \<Rightarrow> wf_store \<Rightarrow> wf_error + workflow_node" where
  "require_claim t c now s = rbind (one_or_none (claim_join t c s)) (\<lambda>row.
     case row of
       None \<Rightarrow> Inl WorkflowFenceError
     | Some (n, r, a) \<Rightarrow>
         if node_status n \<noteq> Node_Running \<or> \<not> lease_live now a
            \<or> run_cancellation_revision r \<noteq> claim_cancellation_revision c
         then Inl WorkflowFenceError else Inr n)"

definition close_attempt ::
  "attempt_status \<Rightarrow> instant \<Rightarrow> workflow_attempt \<Rightarrow> workflow_attempt" where
  "close_attempt st now a = a\<lparr>att_status := st, att_lease_owner := None, att_lease_until := None,
     att_finished_at := Some now\<rparr>"

definition settle_attempt ::
  "tenant \<Rightarrow> attempt_claim \<Rightarrow> attempt_status \<Rightarrow> string \<Rightarrow> instant \<Rightarrow> instant \<Rightarrow> wf_store \<Rightarrow> wf_store" where
  "settle_attempt t c st error_code now live = update_attempts t (live_claim_predicates c live)
     (\<lambda>a. (close_attempt st now a)\<lparr>att_error_code := Some (take 128 error_code)\<rparr>)"

definition cancel_running_attempts ::
  "tenant \<Rightarrow> uuid \<Rightarrow> instant \<Rightarrow> uuid option \<Rightarrow> wf_store \<Rightarrow> wf_store" where
  "cancel_running_attempts t rid now except_node = update_attempts t
     (\<lambda>a. att_run a = rid \<and> att_status a = Attempt_Running \<and> Some (att_node a) \<noteq> except_node)
     (\<lambda>a. (close_attempt Attempt_Cancelled now a)\<lparr>att_error_code := Some ''WORKFLOW_CANCELLED''\<rparr>)"

section \<open>Recovery sweeps\<close>

definition deadline_error :: string where
  "deadline_error = ''WORKFLOW_DEADLINE_EXCEEDED''"

definition overdue :: "instant \<Rightarrow> workflow_run \<Rightarrow> bool" where
  "overdue now r \<longleftrightarrow> run_created_at r + seconds (max_duration_seconds (run_budget r)) \<le> now"

definition expire_run :: "tenant \<Rightarrow> instant \<Rightarrow> workflow_run \<Rightarrow> wf_store \<Rightarrow> wf_store" where
  "expire_run t now r s =
     (if \<not> overdue now r then s
      else update_runs t (\<lambda>q. run_id q = run_id r \<and> \<not> run_terminal (run_status q))
             (\<lambda>q. q\<lparr>run_status := Run_Failed, run_pause_requested := False,
                    run_cancellation_revision := run_cancellation_revision q + 1,
                    run_error_code := Some deadline_error, run_updated_at := now,
                    run_completed_at := Some now\<rparr>)
           (update_nodes t (\<lambda>n. node_run n = run_id r \<and> \<not> node_terminal (node_status n))
             (\<lambda>n. n\<lparr>node_status := Node_Cancelled, node_error_code := Some deadline_error,
                    node_updated_at := now, node_completed_at := Some now\<rparr>)
           (update_attempts t (\<lambda>a. att_run a = run_id r \<and> att_status a = Attempt_Running)
             (\<lambda>a. (close_attempt Attempt_Cancelled now a)\<lparr>att_error_code := Some deadline_error\<rparr>)
           s)))"

definition expire_overdue :: "tenant \<Rightarrow> instant \<Rightarrow> wf_store \<Rightarrow> wf_store" where
  "expire_overdue t now s =
     fold (expire_run t now) (select_where t (\<lambda>r. \<not> run_terminal (run_status r)) (runs_t s)) s"

definition settle_pause :: "tenant \<Rightarrow> uuid \<Rightarrow> instant \<Rightarrow> wf_store \<Rightarrow> wf_store" where
  "settle_pause t rid now s =
     (if has_running_attempt t rid s then s
      else update_runs t
        (\<lambda>r. run_id r = rid \<and> run_pause_requested r \<and> \<not> run_terminal (run_status r))
        (\<lambda>r. r\<lparr>run_status := Run_Paused, run_updated_at := now\<rparr>) s)"

text \<open>
  What \<open>abandon\<close> and the lease sweep do with the node of an attempt they close: back to ready
  while attempts remain, otherwise the node and its run fail; the run goes back to the queue
  or to its pause.
\<close>

definition release_status :: "workflow_node \<Rightarrow> workflow_run \<Rightarrow> node_status" where
  "release_status n r =
     (if run_terminal (run_status r) then Node_Cancelled
      else if node_attempt_count n < node_max_attempts n then Node_Ready else Node_Failed)"

definition release_node ::
  "tenant \<Rightarrow> workflow_node \<Rightarrow> workflow_run \<Rightarrow> string \<Rightarrow> instant \<Rightarrow> wf_store \<Rightarrow> wf_store" where
  "release_node t n r error_code now s =
     (let next = release_status n r;
          s1 = update_nodes t (\<lambda>m. node_id m = node_id n \<and> node_status m = Node_Running)
                 (\<lambda>m. m\<lparr>node_status := next, node_error_code := Some error_code,
                        node_updated_at := now,
                        node_completed_at := (if node_terminal next then Some now else None)\<rparr>) s
      in if next = Node_Failed
         then update_runs t (\<lambda>q. run_id q = run_id r)
                (\<lambda>q. q\<lparr>run_status := Run_Failed, run_error_code := Some error_code,
                       run_updated_at := now, run_completed_at := Some now\<rparr>) s1
         else if run_pause_requested r then settle_pause t (run_id r) now s1
         else update_runs t (\<lambda>q. run_id q = run_id r \<and> \<not> run_terminal (run_status q))
                (\<lambda>q. q\<lparr>run_status := Run_Queued, run_updated_at := now\<rparr>) s1)"

definition reclaim_attempt ::
  "tenant \<Rightarrow> instant \<Rightarrow> workflow_attempt \<Rightarrow> wf_store \<Rightarrow> wf_error + wf_store" where
  "reclaim_attempt t now a s =
     rbind (one (select_where t (\<lambda>n. node_id n = att_node a) (nodes_t s))) (\<lambda>n.
     rbind (one (select_where t (\<lambda>r. run_id r = att_run a) (runs_t s))) (\<lambda>r.
     Inr (release_node t n r ''WORKER_LEASE_EXPIRED'' now
       (update_attempts t
          (\<lambda>b. att_node b = att_node a \<and> att_number b = att_number a
               \<and> att_status b = Attempt_Running \<and> att_lease_fence b = att_lease_fence a)
          (\<lambda>b. (close_attempt Attempt_Abandoned now b)
                 \<lparr>att_error_code := Some ''WORKER_LEASE_EXPIRED''\<rparr>) s))))"

definition expired_attempts :: "tenant \<Rightarrow> instant \<Rightarrow> wf_store \<Rightarrow> workflow_attempt list" where
  "expired_attempts t now s = select_where t
     (\<lambda>a. att_status a = Attempt_Running
          \<and> (case att_lease_until a of None \<Rightarrow> False | Some u \<Rightarrow> u \<le> now)) (attempts_t s)"

definition reclaim_expired :: "tenant \<Rightarrow> instant \<Rightarrow> wf_store \<Rightarrow> wf_error + wf_store" where
  "reclaim_expired t now s = foldM (reclaim_attempt t now) (expired_attempts t now s) s"

section \<open>Choosing what to claim\<close>

type_synonym claim_row = "workflow_node \<times> workflow_run"

definition eligible_rows :: "tenant \<Rightarrow> instant \<Rightarrow> wf_store \<Rightarrow> claim_row list" where
  "eligible_rows t now s =
     sort_key (\<lambda>(n, r). (run_parent r = None, run_updated_at r, node_created_at n, node_id n))
       [(n, r). n \<leftarrow> nodes_of t s, r \<leftarrow> runs_of t s,
                run_id r = node_run n \<and> run_active_revision r = node_plan_revision n
                \<and> node_status n = Node_Ready \<and> node_available_at n \<le> now
                \<and> (run_status r = Run_Queued \<or> run_status r = Run_Running)
                \<and> \<not> run_pause_requested r]"

definition active_by_run ::
  "tenant \<Rightarrow> wf_store \<Rightarrow> uuid \<Rightarrow> (concurrency_policy \<times> string set) list" where
  "active_by_run t s rid = map (\<lambda>n. (node_policy n, set (node_resource_keys n)))
     (select_where t (\<lambda>n. node_status n = Node_Running \<and> node_run n = rid) (nodes_t s))"

record selection =
  sel_rows :: "claim_row list"
  sel_child :: bool
  sel_blocking :: bool
  sel_active :: "uuid \<Rightarrow> (concurrency_policy \<times> string set) list"

definition is_child :: "claim_row \<Rightarrow> bool" where
  "is_child row \<longleftrightarrow> run_parent (snd row) \<noteq> None"

definition is_blocking_parent :: "string set \<Rightarrow> claim_row \<Rightarrow> bool" where
  "is_blocking_parent kinds row \<longleftrightarrow> \<not> is_child row \<and> node_kind (fst row) \<in> kinds"

definition reserved_slot :: "int \<Rightarrow> string set \<Rightarrow> bool \<Rightarrow> claim_row \<Rightarrow> selection \<Rightarrow> bool" where
  "reserved_slot limit kinds reserve row sel \<longleftrightarrow>
     \<not> is_child row \<and> \<not> sel_child sel
     \<and> (reserve \<or> sel_blocking sel \<or> is_blocking_parent kinds row)
     \<and> limit - 1 \<le> int (length (sel_rows sel))"

definition run_is_full :: "claim_row \<Rightarrow> selection \<Rightarrow> bool" where
  "run_is_full row sel \<longleftrightarrow>
     (let active = sel_active sel (run_id (snd row)) in
      max_parallel_nodes (run_budget (snd row)) \<le> int (length active)
      \<or> conflicts (node_policy (fst row)) (set (node_resource_keys (fst row))) active)"

definition select_row :: "string set \<Rightarrow> claim_row \<Rightarrow> selection \<Rightarrow> selection" where
  "select_row kinds row sel =
     sel\<lparr>sel_rows := sel_rows sel @ [row],
         sel_active := (sel_active sel)(run_id (snd row) := sel_active sel (run_id (snd row))
            @ [(node_policy (fst row), set (node_resource_keys (fst row)))]),
         sel_child := sel_child sel \<or> is_child row,
         sel_blocking := sel_blocking sel \<or> is_blocking_parent kinds row\<rparr>"

text \<open>One pass of the inner \<open>for\<close>: at most one node of each run, in the rows' order.\<close>

fun select_pass ::
  "int \<Rightarrow> string set \<Rightarrow> bool \<Rightarrow> uuid list \<Rightarrow> claim_row list \<Rightarrow> selection \<Rightarrow>
   selection \<times> bool \<times> claim_row list" where
  "select_pass limit kinds reserve seen [] sel = (sel, False, [])"
| "select_pass limit kinds reserve seen (row # rest) sel =
     (if run_id (snd row) \<in> set seen \<or> limit \<le> int (length (sel_rows sel))
         \<or> reserved_slot limit kinds reserve row sel \<or> run_is_full row sel
      then (case select_pass limit kinds reserve seen rest sel of
              (sel', progress, skipped) \<Rightarrow> (sel', progress, row # skipped))
      else (case select_pass limit kinds reserve (run_id (snd row) # seen) rest
                   (select_row kinds row sel) of
              (sel', progress, skipped) \<Rightarrow> (sel', True, skipped)))"

lemma select_pass_skipped:
  "length (snd (snd (select_pass limit kinds reserve seen rest sel))) \<le> length rest
   \<and> (fst (snd (select_pass limit kinds reserve seen rest sel)) \<longrightarrow>
        length (snd (snd (select_pass limit kinds reserve seen rest sel))) < length rest)"
proof (induction limit kinds reserve seen rest sel rule: select_pass.induct)
  case (2 limit kinds reserve seen row rest sel)
  then show ?case
    by (auto simp: case_prod_beta less_Suc_eq_le)
qed simp

function select_loop ::
  "int \<Rightarrow> string set \<Rightarrow> bool \<Rightarrow> claim_row list \<Rightarrow> selection \<Rightarrow> selection" where
  "select_loop limit kinds reserve remaining sel =
     (if remaining = [] \<or> limit \<le> int (length (sel_rows sel)) then sel
      else let (sel', progress, skipped) = select_pass limit kinds reserve [] remaining sel
           in if progress then select_loop limit kinds reserve skipped sel' else sel')"
  by pat_completeness auto
termination
proof (relation "measure (\<lambda>(limit, kinds, reserve, remaining, sel). length remaining)", goal_cases)
  case (2 limit kinds reserve remaining sel pass sel' rest progress skipped)
  then have "select_pass limit kinds reserve [] remaining sel = (sel', progress, skipped)"
    by auto
  then show ?case
    using select_pass_skipped[of limit kinds reserve "[]" remaining sel] \<open>progress\<close> by simp
qed simp

declare select_loop.simps [simp del]

definition select_claims ::
  "tenant \<Rightarrow> instant \<Rightarrow> int \<Rightarrow> string set \<Rightarrow> bool \<Rightarrow> wf_store \<Rightarrow> claim_row list" where
  "select_claims t now limit kinds reserve s = sel_rows (select_loop limit kinds reserve
     (eligible_rows t now s)
     \<lparr>sel_rows = [], sel_child = False, sel_blocking = False, sel_active = active_by_run t s\<rparr>)"

section \<open>Claiming\<close>

definition start_node :: "int \<Rightarrow> instant \<Rightarrow> workflow_node \<Rightarrow> workflow_node \<Rightarrow> workflow_node" where
  "start_node number now row n = n\<lparr>node_status := Node_Running, node_attempt_count := number,
     node_started_at := (case node_started_at row of None \<Rightarrow> Some now | Some u \<Rightarrow> Some u),
     node_updated_at := now\<rparr>"

definition claim_one ::
  "tenant \<Rightarrow> string \<Rightarrow> instant \<Rightarrow> instant \<Rightarrow> claim_row \<Rightarrow> wf_store \<times> attempt_claim list \<Rightarrow>
   wf_error + wf_store \<times> attempt_claim list" where
  "claim_one t worker lease_until now row acc =
     (let (n, r) = row; (s, claims) = acc; number = node_attempt_count n + 1;
          matched = (\<lambda>m. node_id m = node_id n \<and> node_status m = Node_Ready
                        \<and> node_attempt_count m = node_attempt_count n);
          hit = select_where t matched (nodes_t s);
          s1 = update_nodes t matched (start_node number now n) s
      in if \<not> list_all (\<lambda>m. node_check (start_node number now n m)) hit then Inl IntegrityError
         else if length hit \<noteq> 1 then Inr (s1, claims)
         else rbind (insert_attempt t
                \<lparr>att_node = node_id n, att_number = number, att_run = node_run n,
                 att_status = Attempt_Running, att_lease_owner = Some worker,
                 att_lease_fence = number, att_lease_until = Some lease_until,
                 att_cancellation_revision = run_cancellation_revision r,
                 att_plan_revision = node_plan_revision n, att_result = None,
                 att_evidence_refs = [], att_error_code = None, att_started_at = now,
                 att_finished_at = None\<rparr> s1) (\<lambda>s2.
              Inr (update_runs t
                     (\<lambda>q. run_id q = node_run n \<and> (run_status q = Run_Queued \<or> run_status q = Run_Running))
                     (\<lambda>q. q\<lparr>run_status := Run_Running,
                            run_started_at := (case run_started_at r of None \<Rightarrow> Some now | Some u \<Rightarrow> Some u),
                            run_updated_at := now\<rparr>) s2,
                   claims @
                   [\<lparr>claim_run = node_run n, claim_node = node_id n, claim_number = number,
                     claim_lease_owner = worker, claim_lease_fence = number,
                     claim_lease_until = lease_until,
                     claim_cancellation_revision = run_cancellation_revision r,
                     claim_plan_revision = node_plan_revision n\<rparr>])))"

definition claim_ready ::
  "tenant \<Rightarrow> string \<Rightarrow> instant \<Rightarrow> int \<Rightarrow> string set \<Rightarrow> bool \<Rightarrow> instant \<Rightarrow> wf_store \<Rightarrow>
   wf_error + wf_store \<times> attempt_claim list" where
  "claim_ready t worker lease_until limit kinds reserve now s =
     rbind (ensure [(strip worker = [] \<or> limit < 1 \<or> lease_until \<le> now,
                     ValueError ''Workflow claim parameters are invalid'')] ()) (\<lambda>_.
     rbind (reclaim_expired t now (expire_overdue t now s)) (\<lambda>s1.
     foldM (claim_one t worker lease_until now) (select_claims t now limit kinds reserve s1)
       (s1, [])))"

definition renew ::
  "tenant \<Rightarrow> attempt_claim \<Rightarrow> instant \<Rightarrow> clock \<Rightarrow> wf_store \<Rightarrow> wf_error + wf_store \<times> bool" where
  "renew t c lease_until clk s =
     rbind (ensure [(lease_until \<le> clk 0,
        ValueError ''Workflow lease renewal must extend into the future'')] ()) (\<lambda>_.
     let s1 = expire_overdue t (clk 0) s;
         p = live_claim_predicates c (clk 1)
     in Inr (update_attempts t p (\<lambda>a. a\<lparr>att_lease_until := Some lease_until\<rparr>) s1,
             length (select_where t p (attempts_t s1)) = 1))"

section \<open>Settling a run\<close>

definition promote_target ::
  "tenant \<Rightarrow> uuid \<Rightarrow> int \<Rightarrow> instant \<Rightarrow> uuid \<Rightarrow> wf_store \<Rightarrow> wf_store" where
  "promote_target t rid revision now target s =
     (let sources = [node_status n. n \<leftarrow> nodes_of t s, e \<leftarrow> edges_of t s,
                       edge_from e = node_id n \<and> edge_run e = rid
                       \<and> edge_plan_revision e = revision \<and> edge_to e = target]
      in if sources \<noteq> [] \<and> list_all (\<lambda>st. st = Node_Succeeded) sources
         then update_nodes t (\<lambda>n. node_id n = target \<and> node_status n = Node_Pending)
                (\<lambda>n. n\<lparr>node_status := Node_Ready, node_updated_at := now\<rparr>) s
         else s)"

definition promote_dependents ::
  "tenant \<Rightarrow> uuid \<Rightarrow> int \<Rightarrow> instant \<Rightarrow> wf_store \<Rightarrow> wf_store" where
  "promote_dependents t rid revision now s =
     fold (promote_target t rid revision now)
       (remdups (map edge_to (select_where t
          (\<lambda>e. edge_run e = rid \<and> edge_plan_revision e = revision) (edges_t s)))) s"

definition settled_status :: "bool \<Rightarrow> node_status list \<Rightarrow> run_status" where
  "settled_status pause_now statuses =
     (if pause_now then Run_Paused
      else if statuses \<noteq> [] \<and> list_all node_terminal statuses then
        (if Node_Failed \<in> set statuses then Run_Failed
         else if Node_Cancelled \<in> set statuses then Run_Cancelled
         else Run_Completed)
      else if Node_Running \<in> set statuses then Run_Running
      else if Node_Waiting_For_Approval \<in> set statuses then Run_Waiting_For_Approval
      else if Node_Waiting_For_Input \<in> set statuses then Run_Waiting_For_Input
      else Run_Queued)"

definition settle_run :: "tenant \<Rightarrow> uuid \<Rightarrow> instant \<Rightarrow> wf_store \<Rightarrow> wf_error + wf_store" where
  "settle_run t rid now s =
     rbind (locked_run t rid s) (\<lambda>row. rbind (run_from_row row) (\<lambda>run.
     let statuses = map node_status (select_where t
           (\<lambda>n. node_run n = rid \<and> node_plan_revision n = run_active_revision run) (nodes_t s));
         st = settled_status (run_pause_requested run \<and> \<not> has_running_attempt t rid s) statuses
     in Inr (update_runs t (\<lambda>q. run_id q = rid)
          (\<lambda>q. q\<lparr>run_status := st, run_updated_at := now,
                 run_completed_at := (if run_terminal st then Some now else None)\<rparr>) s)))"

end
