(* ===== verification/Workflow_Repository.thy ===== *)
theory Workflow_Repository
  imports Workflow_Claims
begin

text \<open>
  The operations of \<open>SqlAlchemyWorkflowRepository\<close> and its budget and approval mixins, one
  definition each, over the whole store. An operation that raises returns \<open>Inl\<close> and leaves
  no store: the unit of work that called it rolls back. \<open>clk\<close> gives the readings of the
  clock within the call in the order the code makes them.
\<close>

section \<open>Creating a run and its plans\<close>

definition create_workflow ::
  "tenant \<Rightarrow> workflow_run \<Rightarrow> workflow_node list \<Rightarrow> workflow_edge list \<Rightarrow> wf_store \<Rightarrow>
   wf_error + wf_store \<times> workflow_snapshot" where
  "create_workflow t run nodes es s =
     rbind (one_or_none (select_where t
        (\<lambda>r. run_idempotency_key r = run_idempotency_key run) (runs_t s))) (\<lambda>existing.
     case existing of
       Some row \<Rightarrow> rbind (with_snapshot t (run_id row) s) (\<lambda>(s', snapshot).
         ensure [(run_owner_kind (snap_run snapshot) \<noteq> run_owner_kind run
                  \<or> run_owner_id (snap_run snapshot) \<noteq> run_owner_id run
                  \<or> run_target (snap_run snapshot) \<noteq> run_target run,
                  ValueError ''Workflow idempotency key is bound to different work'')]
           (s', snapshot))
     | None \<Rightarrow>
         rbind (ensure [(run_active_revision run \<noteq> 1 \<or> run_status run \<noteq> Run_Queued,
            ValueError ''New Workflow Run must start queued at plan revision 1'')] ()) (\<lambda>_.
         rbind (validate_plan (run_id run) 1 nodes es) (\<lambda>normalized.
         rbind (insert_run t run s) (\<lambda>s1.
         rbind (insert_revision t \<lparr>rev_run = run_id run, rev_number = 1,
            rev_reason = Reason_Initial, rev_instruction = None,
            rev_created_at = run_created_at run\<rparr> s1) (\<lambda>s2.
         rbind (insert_plan t normalized es s2) (\<lambda>s3. with_snapshot t (run_id run) s3))))))"

definition supersede :: "instant \<Rightarrow> workflow_node \<Rightarrow> workflow_node" where
  "supersede now n = n\<lparr>node_status := Node_Superseded, node_updated_at := now,
     node_completed_at := Some now\<rparr>"

definition supersedable :: "uuid \<Rightarrow> int \<Rightarrow> workflow_node \<Rightarrow> bool" where
  "supersedable rid revision n \<longleftrightarrow> node_run n = rid \<and> node_plan_revision n = revision
     \<and> node_status n \<in> {Node_Pending, Node_Ready, Node_Waiting_For_Approval,
                         Node_Waiting_For_Input}"

definition append_plan ::
  "tenant \<Rightarrow> uuid \<Rightarrow> int \<Rightarrow> plan_reason \<Rightarrow> uuid option \<Rightarrow> workflow_node list \<Rightarrow>
   workflow_edge list \<Rightarrow> instant \<Rightarrow> wf_store \<Rightarrow> wf_error + wf_store \<times> workflow_snapshot" where
  "append_plan t rid expected_revision reason instruction nodes es now s =
     rbind (locked_run t rid s) (\<lambda>row.
     rbind (run_from_row row) (\<lambda>run.
     rbind (ensure
       [(run_terminal (run_status run),
         ValueError ''Terminal Workflow cannot accept another plan''),
        (run_active_revision run \<noteq> expected_revision, WorkflowRevisionError),
        (has_running_attempt t rid s, WorkflowRevisionError)] ()) (\<lambda>_.
     rbind (validate_plan rid (expected_revision + 1) nodes es) (\<lambda>normalized.
     let s1 = update_nodes t (supersedable rid expected_revision) (supersede now) s in
     rbind (insert_revision t \<lparr>rev_run = rid, rev_number = expected_revision + 1,
        rev_reason = reason, rev_instruction = instruction, rev_created_at = now\<rparr> s1) (\<lambda>s2.
     rbind (insert_plan t normalized es s2) (\<lambda>s3.
     let s4 = update_runs t (\<lambda>r. run_id r = rid \<and> run_active_revision r = expected_revision)
           (\<lambda>r. r\<lparr>run_active_revision := expected_revision + 1, run_status := Run_Queued,
                  run_pause_requested := False, run_error_code := None,
                  run_updated_at := now\<rparr>) s3;
         s5 = (case instruction of
                 None \<Rightarrow> s4
               | Some iid \<Rightarrow> update_instructions t
                   (\<lambda>i. ins_id i = iid \<and> ins_run i = rid \<and> ins_status i = Instruction_Pending)
                   (\<lambda>i. i\<lparr>ins_status := Instruction_Applied,
                          ins_applied_revision := Some (expected_revision + 1),
                          ins_applied_at := Some now\<rparr>) s4)
     in with_snapshot t rid s5))))))"

section \<open>Settling a claim\<close>

text \<open>The node of a claim, while it runs.\<close>

abbreviation claimed_node :: "attempt_claim \<Rightarrow> workflow_node \<Rightarrow> bool" where
  "claimed_node c n \<equiv> node_id n = claim_node c \<and> node_status n = Node_Running"

definition complete ::
  "tenant \<Rightarrow> attempt_claim \<Rightarrow> json \<Rightarrow> string list \<Rightarrow> string option \<Rightarrow> clock \<Rightarrow> wf_store \<Rightarrow>
   wf_error + wf_store \<times> workflow_snapshot" where
  "complete t c result evidence summary clk s =
     (let now = clk 0 in
      rbind (require_claim t c now s) (\<lambda>_.
      let s1 = update_attempts t (live_claim_predicates c (clk 1))
            (\<lambda>a. (close_attempt Attempt_Succeeded now a)
                   \<lparr>att_result := Some result, att_evidence_refs := evidence\<rparr>) s;
          s2 = update_nodes t (claimed_node c)
            (\<lambda>n. n\<lparr>node_status := Node_Succeeded, node_result := Some result,
                   node_evidence_refs := evidence, node_error_code := None,
                   node_updated_at := now, node_completed_at := Some now,
                   node_public_summary := (case summary of None \<Rightarrow> node_public_summary n
                                           | Some x \<Rightarrow> take 500 (strip x))\<rparr>) s1
      in rbind (settle_run t (claim_run c) now
             (promote_dependents t (claim_run c) (claim_plan_revision c) now s2)) (\<lambda>s3.
         with_snapshot t (claim_run c) s3)))"

definition failable :: "uuid \<Rightarrow> workflow_node \<Rightarrow> bool" where
  "failable rid n \<longleftrightarrow> node_run n = rid \<and> node_status n \<in> {Node_Pending, Node_Ready, Node_Running,
     Node_Waiting_For_Approval, Node_Waiting_For_Input}"

definition fail ::
  "tenant \<Rightarrow> attempt_claim \<Rightarrow> string \<Rightarrow> clock \<Rightarrow> wf_store \<Rightarrow> wf_error + wf_store \<times> workflow_snapshot" where
  "fail t c error_code clk s =
     (let now = clk 0 in
      rbind (require_claim t c now s) (\<lambda>_.
      let s1 = settle_attempt t c Attempt_Failed error_code now (clk 1) s;
          s2 = update_nodes t (failable (claim_run c))
            (\<lambda>n. n\<lparr>node_status := Node_Cancelled, node_error_code := Some (take 128 error_code),
                   node_updated_at := now, node_completed_at := Some now\<rparr>) s1;
          s3 = update_nodes t (\<lambda>n. node_id n = claim_node c) (\<lambda>n. n\<lparr>node_status := Node_Failed\<rparr>) s2;
          s4 = cancel_running_attempts t (claim_run c) now (Some (claim_node c)) s3;
          s5 = update_runs t (\<lambda>r. run_id r = claim_run c)
            (\<lambda>r. r\<lparr>run_status := Run_Failed,
                   run_cancellation_revision := run_cancellation_revision r + 1,
                   run_error_code := Some (take 128 error_code), run_updated_at := now,
                   run_completed_at := Some now\<rparr>) s4
      in with_snapshot t (claim_run c) s5))"

definition requeue_run :: "tenant \<Rightarrow> uuid \<Rightarrow> instant \<Rightarrow> wf_store \<Rightarrow> wf_store" where
  "requeue_run t rid now = update_runs t (\<lambda>r. run_id r = rid)
     (\<lambda>r. r\<lparr>run_status := Run_Queued, run_updated_at := now\<rparr>)"

definition retry ::
  "tenant \<Rightarrow> attempt_claim \<Rightarrow> instant \<Rightarrow> string \<Rightarrow> clock \<Rightarrow> wf_store \<Rightarrow>
   wf_error + wf_store \<times> workflow_snapshot" where
  "retry t c available_at error_code clk s =
     (let now = clk 0; available = (if available_at < now then now else available_at) in
      rbind (require_claim t c now s) (\<lambda>node.
      if node_attempt_count node \<ge> node_max_attempts node
      then fail t c error_code (clock_from 1 clk) s
      else
        let s1 = settle_attempt t c Attempt_Failed error_code now (clk 1) s;
            s2 = update_nodes t (claimed_node c)
              (\<lambda>n. n\<lparr>node_status := Node_Ready, node_available_at := available,
                     node_error_code := Some (take 128 error_code), node_updated_at := now\<rparr>) s1
        in with_snapshot t (claim_run c) (requeue_run t (claim_run c) now s2)))"

text \<open>The attempt of a claim that waits: closed with the result it waits on.\<close>

definition park_attempt ::
  "tenant \<Rightarrow> attempt_claim \<Rightarrow> json \<Rightarrow> instant \<Rightarrow> instant \<Rightarrow> wf_store \<Rightarrow> wf_store" where
  "park_attempt t c result now live = update_attempts t (live_claim_predicates c live)
     (\<lambda>a. (close_attempt Attempt_Waiting now a)\<lparr>att_result := Some result\<rparr>)"

definition defer_claim ::
  "tenant \<Rightarrow> attempt_claim \<Rightarrow> instant \<Rightarrow> json \<Rightarrow> clock \<Rightarrow> wf_store \<Rightarrow>
   wf_error + wf_store \<times> workflow_snapshot" where
  "defer_claim t c available_at result clk s =
     (let now = clk 0 in
      rbind (ensure [(available_at \<le> now,
        ValueError ''Deferred Workflow node must become available in the future'')] ()) (\<lambda>_.
      rbind (require_claim t c now s) (\<lambda>node.
      if node_attempt_count node \<ge> node_max_attempts node
      then fail t c ''WORKFLOW_WAIT_BUDGET_EXHAUSTED'' (clock_from 1 clk) s
      else
        let s1 = park_attempt t c result now (clk 1) s;
            s2 = update_nodes t (claimed_node c)
              (\<lambda>n. n\<lparr>node_status := Node_Ready, node_result := Some result,
                     node_available_at := available_at, node_error_code := None,
                     node_updated_at := now\<rparr>) s1
        in with_snapshot t (claim_run c) (requeue_run t (claim_run c) now s2))))"

definition wait_for_approval ::
  "tenant \<Rightarrow> attempt_claim \<Rightarrow> json \<Rightarrow> clock \<Rightarrow> wf_store \<Rightarrow> wf_error + wf_store \<times> workflow_snapshot" where
  "wait_for_approval t c result clk s =
     (let now = clk 0 in
      rbind (require_claim t c now s) (\<lambda>_.
      let s1 = park_attempt t c result now (clk 1) s;
          s2 = update_nodes t (claimed_node c)
            (\<lambda>n. n\<lparr>node_status := Node_Waiting_For_Approval, node_result := Some result,
                   node_error_code := None, node_updated_at := now\<rparr>) s1;
          s3 = update_runs t (\<lambda>r. run_id r = claim_run c)
            (\<lambda>r. r\<lparr>run_status := Run_Waiting_For_Approval, run_updated_at := now\<rparr>) s2
      in with_snapshot t (claim_run c) s3))"

definition wait_for_input ::
  "tenant \<Rightarrow> attempt_claim \<Rightarrow> json \<Rightarrow> clock \<Rightarrow> wf_store \<Rightarrow> wf_error + wf_store \<times> workflow_snapshot" where
  "wait_for_input t c result clk s =
     (let now = clk 0 in
      rbind (require_claim t c now s) (\<lambda>_.
      let s1 = park_attempt t c result now (clk 1) s;
          s2 = update_nodes t (claimed_node c)
            (\<lambda>n. n\<lparr>node_status := Node_Waiting_For_Input, node_result := Some result,
                   node_error_code := None, node_updated_at := now\<rparr>) s1;
          s3 = update_runs t (\<lambda>r. run_id r = claim_run c)
            (\<lambda>r. r\<lparr>run_status := Run_Waiting_For_Input, run_updated_at := now\<rparr>) s2
      in with_snapshot t (claim_run c) s3))"

definition abandon ::
  "tenant \<Rightarrow> attempt_claim \<Rightarrow> instant \<Rightarrow> wf_store \<Rightarrow> wf_error + wf_store \<times> bool" where
  "abandon t c now s =
     rbind (one_or_none (select_where t (claim_predicates c) (attempts_t s))) (\<lambda>attempt.
     case attempt of
       None \<Rightarrow> Inr (s, False)
     | Some _ \<Rightarrow>
         rbind (one (select_where t (\<lambda>r. run_id r = claim_run c) (runs_t s))) (\<lambda>run.
         let s1 = update_attempts t (claim_predicates c)
               (\<lambda>a. (close_attempt Attempt_Abandoned now a)
                      \<lparr>att_error_code := Some ''WORKER_INTERRUPTED''\<rparr>) s in
         rbind (one (select_where t (\<lambda>n. node_id n = claim_node c) (nodes_t s1))) (\<lambda>node.
         Inr (release_node t node run ''WORKER_INTERRUPTED'' now s1, True))))"

section \<open>Steering a run\<close>

definition request_pause ::
  "tenant \<Rightarrow> uuid \<Rightarrow> instant \<Rightarrow> wf_store \<Rightarrow> wf_error + wf_store \<times> workflow_snapshot" where
  "request_pause t rid now s =
     rbind (locked_run t rid s) (\<lambda>row. rbind (run_from_row row) (\<lambda>run.
     if run_terminal (run_status run)
     then map_sum id (Pair s) (load_snapshot t run s)
     else
       let active = has_running_attempt t rid s in
       with_snapshot t rid (update_runs t (\<lambda>r. run_id r = rid)
         (\<lambda>r. r\<lparr>run_pause_requested := True,
                run_status := (if active then Run_Running else Run_Paused),
                run_updated_at := now\<rparr>) s)))"

definition resume ::
  "tenant \<Rightarrow> uuid \<Rightarrow> instant \<Rightarrow> wf_store \<Rightarrow> wf_error + wf_store \<times> workflow_snapshot" where
  "resume t rid now s =
     rbind (locked_run t rid s) (\<lambda>row. rbind (run_from_row row) (\<lambda>run.
     if run_terminal (run_status run)
     then map_sum id (Pair s) (load_snapshot t run s)
     else
       let s1 = (if run_status run \<in> {Run_Waiting_For_Approval, Run_Waiting_For_Input}
                 then update_nodes t
                   (\<lambda>n. node_run n = rid \<and> node_plan_revision n = run_active_revision run
                      \<and> node_status n \<in> {Node_Waiting_For_Approval, Node_Waiting_For_Input})
                   (\<lambda>n. n\<lparr>node_status := Node_Ready, node_updated_at := now\<rparr>) s
                 else s);
           active = has_running_attempt t rid s1
       in with_snapshot t rid (update_runs t (\<lambda>r. run_id r = rid)
         (\<lambda>r. r\<lparr>run_pause_requested := False,
                run_status := (if active then Run_Running else Run_Queued),
                run_updated_at := now\<rparr>) s1)))"

definition cancel ::
  "tenant \<Rightarrow> uuid \<Rightarrow> instant \<Rightarrow> wf_store \<Rightarrow> wf_error + wf_store \<times> workflow_snapshot" where
  "cancel t rid now s =
     rbind (locked_run t rid s) (\<lambda>row. rbind (run_from_row row) (\<lambda>run.
     if run_terminal (run_status run)
     then map_sum id (Pair s) (load_snapshot t run s)
     else
       let s1 = cancel_running_attempts t rid now None s;
           s2 = update_nodes t (\<lambda>n. node_run n = rid \<and> \<not> node_terminal (node_status n))
             (\<lambda>n. n\<lparr>node_status := Node_Cancelled, node_updated_at := now,
                    node_completed_at := Some now\<rparr>) s1
       in with_snapshot t rid (update_runs t (\<lambda>r. run_id r = rid)
         (\<lambda>r. r\<lparr>run_status := Run_Cancelled, run_pause_requested := False,
                run_cancellation_revision := run_cancellation_revision r + 1,
                run_updated_at := now, run_completed_at := Some now\<rparr>) s2)))"

section \<open>Budgets\<close>

text \<open>An update of the run's counters, against the table's check constraints.\<close>

definition update_run_checked ::
  "tenant \<Rightarrow> (workflow_run \<Rightarrow> bool) \<Rightarrow> (workflow_run \<Rightarrow> workflow_run) \<Rightarrow> wf_store \<Rightarrow>
   wf_error + wf_store" where
  "update_run_checked t p f s =
     ensure [(\<not> list_all (\<lambda>r. run_check (f r)) (select_where t p (runs_t s)), IntegrityError)]
       (update_runs t p f s)"

definition reserve_budget ::
  "tenant \<Rightarrow> uuid \<Rightarrow> int \<Rightarrow> int \<Rightarrow> instant \<Rightarrow> wf_store \<Rightarrow> wf_error + wf_store \<times> workflow_snapshot" where
  "reserve_budget t rid model_rounds tool_invocations now s =
     rbind (ensure [(model_rounds < 0 \<or> tool_invocations < 0
                     \<or> \<not> (model_rounds \<noteq> 0 \<or> tool_invocations \<noteq> 0),
        ValueError ''Workflow budget reservation must be positive'')] ()) (\<lambda>_.
     rbind (locked_run t rid s) (\<lambda>row. rbind (run_from_row row) (\<lambda>run.
     let next_rounds = run_model_rounds_used run + model_rounds;
         next_tools = run_tool_invocations_used run + tool_invocations in
     rbind (ensure
       [(run_terminal (run_status run),
         WorkflowBudgetExceeded ''Terminal Workflow cannot reserve budget''),
        (next_rounds > max_model_rounds (run_budget run)
         \<or> next_tools > max_tool_invocations (run_budget run),
         WorkflowBudgetExceeded ''Workflow execution budget is exhausted'')] ()) (\<lambda>_.
     rbind (update_run_checked t
       (\<lambda>r. run_id r = rid \<and> run_model_rounds_used r = run_model_rounds_used run
            \<and> run_tool_invocations_used r = run_tool_invocations_used run)
       (\<lambda>r. r\<lparr>run_model_rounds_used := next_rounds, run_tool_invocations_used := next_tools,
              run_updated_at := now\<rparr>) s) (\<lambda>s'. with_snapshot t rid s')))))"

definition upgrade_budget ::
  "tenant \<Rightarrow> uuid \<Rightarrow> workflow_budget \<Rightarrow> instant \<Rightarrow> wf_store \<Rightarrow>
   wf_error + wf_store \<times> workflow_snapshot" where
  "upgrade_budget t rid budget now s =
     rbind (locked_run t rid s) (\<lambda>row. rbind (run_from_row row) (\<lambda>run.
     if run_budget run = budget then map_sum id (Pair s) (load_snapshot t run s)
     else rbind (ensure
       [(tier (run_budget run) \<noteq> Tier_Normal \<or> tier budget \<noteq> Tier_Deep
         \<or> max_model_rounds budget < max_model_rounds (run_budget run)
         \<or> max_tool_invocations budget < max_tool_invocations (run_budget run)
         \<or> max_duration_seconds budget < max_duration_seconds (run_budget run)
         \<or> max_parallel_nodes budget < max_parallel_nodes (run_budget run),
         ValueError ''Workflow budget can only upgrade from normal to deep''),
        (run_terminal (run_status run), ValueError ''Terminal Workflow budget cannot change'')]
       ()) (\<lambda>_.
     rbind (update_run_checked t (\<lambda>r. run_id r = rid)
       (\<lambda>r. r\<lparr>run_budget := budget, run_updated_at := now\<rparr>) s) (\<lambda>s'. with_snapshot t rid s'))))"

section \<open>Instructions\<close>

definition add_instruction ::
  "tenant \<Rightarrow> uuid \<Rightarrow> uuid \<Rightarrow> string \<Rightarrow> int \<Rightarrow> string \<Rightarrow> instant \<Rightarrow> wf_store \<Rightarrow>
   wf_error + wf_store \<times> workflow_instruction" where
  "add_instruction t new_id rid instruction expected_revision idempotency_key now s =
     persist_instruction t new_id now rid instruction expected_revision idempotency_key s"

end
