(* ===== verification/Workflow_Invariants.thy ===== *)
theory Workflow_Invariants
  imports Workflow_Repository
begin

text \<open>
  The invariant of the workflow store of one tenant at an instant, and the general lemma by
  which the operations keep it. \<open>tm\<close> is a time the clock has reached. The store may hold an
  attempt that is still marked running although its node has left the running state: an
  operation whose lease lapsed between its check and its update leaves one. \<open>leases_ok\<close> says
  that every such attempt has an expired lease, so that no worker can use it.
\<close>

section \<open>The invariant\<close>

definition keys_ok :: "tenant \<Rightarrow> wf_store \<Rightarrow> bool" where
  "keys_ok t s \<longleftrightarrow> distinct (map run_id (runs_of t s)) \<and> distinct (map node_id (nodes_of t s))
     \<and> distinct (map (\<lambda>a. (att_node a, att_number a)) (attempts_of t s))"

definition nodes_ok :: "tenant \<Rightarrow> wf_store \<Rightarrow> bool" where
  "nodes_ok t s \<longleftrightarrow> (\<forall>n\<in>set (nodes_of t s). node_check n
     \<and> (\<exists>r\<in>set (runs_of t s). run_id r = node_run n
          \<and> node_plan_revision n \<le> run_active_revision r
          \<and> (node_plan_revision n < run_active_revision r \<longrightarrow> node_terminal (node_status n))))"

definition edges_ok :: "tenant \<Rightarrow> wf_store \<Rightarrow> bool" where
  "edges_ok t s \<longleftrightarrow> (\<forall>e\<in>set (edges_of t s). \<exists>u\<in>set (nodes_of t s). \<exists>v\<in>set (nodes_of t s).
     node_id u = edge_from e \<and> node_id v = edge_to e
     \<and> node_run u = edge_run e \<and> node_run v = edge_run e
     \<and> node_plan_revision u = edge_plan_revision e \<and> node_plan_revision v = edge_plan_revision e)"

definition attempts_ok :: "tenant \<Rightarrow> wf_store \<Rightarrow> bool" where
  "attempts_ok t s \<longleftrightarrow> (\<forall>a\<in>set (attempts_of t s). attempt_check a
     \<and> (\<exists>n\<in>set (nodes_of t s). node_id n = att_node a \<and> node_run n = att_run a
          \<and> att_number a \<le> node_attempt_count n))"

definition stale :: "instant \<Rightarrow> workflow_attempt \<Rightarrow> bool" where
  "stale tm a \<longleftrightarrow> (\<forall>u. att_lease_until a = Some u \<longrightarrow> u \<le> tm)"

definition leases_ok :: "tenant \<Rightarrow> instant \<Rightarrow> wf_store \<Rightarrow> bool" where
  "leases_ok t tm s \<longleftrightarrow>
     (\<forall>n\<in>set (nodes_of t s). node_status n = Node_Running \<longrightarrow>
        (\<exists>a\<in>set (attempts_of t s). att_node a = node_id n \<and> att_number a = node_attempt_count n
             \<and> att_status a = Attempt_Running))
     \<and> (\<forall>n\<in>set (nodes_of t s). \<forall>a\<in>set (attempts_of t s).
          att_status a = Attempt_Running \<longrightarrow> att_node a = node_id n \<longrightarrow>
          (if node_status n = Node_Running then att_number a = node_attempt_count n
           else stale tm a))"

text \<open>A node that has become ready, or gone further, had every predecessor succeed.\<close>

fun started :: "node_status \<Rightarrow> bool" where
  "started Node_Pending = False"
| "started Node_Cancelled = False"
| "started Node_Skipped = False"
| "started Node_Superseded = False"
| "started _ = True"

definition deps_ok :: "tenant \<Rightarrow> wf_store \<Rightarrow> bool" where
  "deps_ok t s \<longleftrightarrow> (\<forall>e\<in>set (edges_of t s). \<forall>u\<in>set (nodes_of t s). \<forall>v\<in>set (nodes_of t s).
     node_id u = edge_from e \<longrightarrow> node_id v = edge_to e \<longrightarrow> started (node_status v) \<longrightarrow>
     node_status u = Node_Succeeded)"

definition running_in :: "uuid \<Rightarrow> workflow_node \<Rightarrow> bool" where
  "running_in rid n \<longleftrightarrow> node_run n = rid \<and> node_status n = Node_Running"

definition slots_ok :: "tenant \<Rightarrow> wf_store \<Rightarrow> bool" where
  "slots_ok t s \<longleftrightarrow>
     (\<forall>r\<in>set (runs_of t s).
        int (length (filter (running_in (run_id r)) (nodes_of t s)))
          \<le> max_parallel_nodes (run_budget r))
     \<and> (\<forall>m\<in>set (nodes_of t s). \<forall>n\<in>set (nodes_of t s).
          node_id m \<noteq> node_id n \<longrightarrow> node_run m = node_run n \<longrightarrow>
          node_status m = Node_Running \<longrightarrow> node_status n = Node_Running \<longrightarrow> compatible m n)"

definition runs_ok :: "tenant \<Rightarrow> wf_store \<Rightarrow> bool" where
  "runs_ok t s \<longleftrightarrow> (\<forall>r\<in>set (runs_of t s). run_check r)"

definition wf_inv :: "tenant \<Rightarrow> instant \<Rightarrow> wf_store \<Rightarrow> bool" where
  "wf_inv t tm s \<longleftrightarrow> keys_ok t s \<and> runs_ok t s \<and> nodes_ok t s \<and> edges_ok t s \<and> attempts_ok t s
     \<and> leases_ok t tm s \<and> deps_ok t s \<and> slots_ok t s"

lemmas wf_inv_parts = keys_ok_def runs_ok_def nodes_ok_def edges_ok_def attempts_ok_def
  leases_ok_def deps_ok_def slots_ok_def

lemma wf_invD:
  assumes "wf_inv t tm s"
  shows "keys_ok t s" "runs_ok t s" "nodes_ok t s" "edges_ok t s" "attempts_ok t s"
    "leases_ok t tm s" "deps_ok t s" "slots_ok t s"
  using assms by (simp_all add: wf_inv_def)

lemma wf_inv_empty: "wf_inv t tm empty_store"
  by (simp add: wf_inv_def wf_inv_parts empty_store_def)

lemma stale_mono: "stale l a \<Longrightarrow> l \<le> l' \<Longrightarrow> stale l' a"
  by (auto simp: stale_def)

lemma wf_inv_mono: "wf_inv t l s \<Longrightarrow> l \<le> l' \<Longrightarrow> wf_inv t l' s"
  unfolding wf_inv_def leases_ok_def using stale_mono by meson

text \<open>The invariant of a tenant reads only that tenant's rows.\<close>

definition same_view :: "tenant \<Rightarrow> wf_store \<Rightarrow> wf_store \<Rightarrow> bool" where
  "same_view t s s' \<longleftrightarrow> runs_of t s' = runs_of t s \<and> revisions_of t s' = revisions_of t s
     \<and> nodes_of t s' = nodes_of t s \<and> edges_of t s' = edges_of t s
     \<and> attempts_of t s' = attempts_of t s \<and> instructions_of t s' = instructions_of t s"

lemma wf_inv_same_view: "same_view t s s' \<Longrightarrow> wf_inv t l s' = wf_inv t l s"
  by (simp add: same_view_def wf_inv_def wf_inv_parts)

section \<open>Closed runs\<close>

text \<open>
  A run is closed when it is terminal and no node of it can move. The operations keep a closed
  run's status and keep it closed.
\<close>

definition closed_run :: "tenant \<Rightarrow> uuid \<Rightarrow> run_status \<Rightarrow> wf_store \<Rightarrow> bool" where
  "closed_run t rid st s \<longleftrightarrow> run_terminal st
     \<and> (\<exists>r\<in>set (runs_of t s). run_id r = rid)
     \<and> (\<forall>r\<in>set (runs_of t s). run_id r = rid \<longrightarrow> run_status r = st)
     \<and> (\<forall>n\<in>set (nodes_of t s). node_run n = rid \<longrightarrow> node_terminal (node_status n))"

definition terminal_nodes_kept :: "tenant \<Rightarrow> wf_store \<Rightarrow> wf_store \<Rightarrow> bool" where
  "terminal_nodes_kept t s s' \<longleftrightarrow> (\<forall>n\<in>set (nodes_of t s). node_terminal (node_status n) \<longrightarrow>
     (\<exists>n'\<in>set (nodes_of t s'). node_id n' = node_id n \<and> node_run n' = node_run n
        \<and> node_status n' = node_status n))"

text \<open>
  What a statement or an operation must establish, from the store before it at time \<open>l\<close> to the
  store after it at time \<open>l'\<close>. It composes, so an operation is treated statement by statement.
  The runs in \<open>X\<close> are exempt from the clause on closed runs: a statement inside an operation
  may write the status of the run the operation works on, which was not closed when the
  operation began.
\<close>

definition preserves ::
  "tenant \<Rightarrow> uuid set \<Rightarrow> instant \<Rightarrow> instant \<Rightarrow> wf_store \<Rightarrow> wf_store \<Rightarrow> bool" where
  "preserves t X l l' s s' \<longleftrightarrow> (wf_inv t l s \<longrightarrow>
     wf_inv t l' s' \<and> (\<forall>rid st. rid \<notin> X \<longrightarrow> closed_run t rid st s \<longrightarrow> closed_run t rid st s')
     \<and> terminal_nodes_kept t s s')"

lemma preservesI:
  "(wf_inv t l s \<Longrightarrow>
     wf_inv t l' s' \<and> (\<forall>rid st. rid \<notin> X \<longrightarrow> closed_run t rid st s \<longrightarrow> closed_run t rid st s')
     \<and> terminal_nodes_kept t s s') \<Longrightarrow> preserves t X l l' s s'"
  by (simp add: preserves_def)

lemma preserves_inv: "preserves t X l l' s s' \<Longrightarrow> wf_inv t l s \<Longrightarrow> wf_inv t l' s'"
  by (simp add: preserves_def)

lemma preserves_refl: "l \<le> l' \<Longrightarrow> preserves t X l l' s s"
  by (auto simp: preserves_def terminal_nodes_kept_def intro: wf_inv_mono)

lemma preserves_weaken: "preserves t X l l' s s' \<Longrightarrow> X \<subseteq> Y \<Longrightarrow> preserves t Y l l' s s'"
  by (auto simp: preserves_def)

lemma preserves_open:
  "preserves t X l l' s s' \<Longrightarrow> (\<And>rid st. wf_inv t l s \<Longrightarrow> rid \<in> X \<Longrightarrow> \<not> closed_run t rid st s) \<Longrightarrow>
   preserves t {} l l' s s'"
  by (fastforce simp: preserves_def)

lemma preserves_under_inv:
  "(wf_inv t l s \<Longrightarrow> preserves t X l l' s s') \<Longrightarrow> preserves t X l l' s s'"
  by (simp add: preserves_def)

lemma terminal_nodes_kept_trans:
  assumes 1: "terminal_nodes_kept t s s'" and 2: "terminal_nodes_kept t s' s''"
  shows "terminal_nodes_kept t s s''"
  unfolding terminal_nodes_kept_def
proof (intro ballI impI)
  fix n assume "n \<in> set (nodes_of t s)" "node_terminal (node_status n)"
  with 1 obtain n' where "n' \<in> set (nodes_of t s')" "node_id n' = node_id n"
      "node_run n' = node_run n" "node_status n' = node_status n"
    unfolding terminal_nodes_kept_def by blast
  with 2 \<open>node_terminal (node_status n)\<close>
  show "\<exists>n''\<in>set (nodes_of t s''). node_id n'' = node_id n \<and> node_run n'' = node_run n
      \<and> node_status n'' = node_status n"
    unfolding terminal_nodes_kept_def by fastforce
qed

lemma preserves_trans [trans]:
  "preserves t X l l' s s' \<Longrightarrow> preserves t X l' l'' s' s'' \<Longrightarrow> preserves t X l l'' s s''"
  unfolding preserves_def using terminal_nodes_kept_trans by blast

section \<open>Rows that move in place\<close>

definition same_node :: "workflow_node \<Rightarrow> workflow_node \<Rightarrow> bool" where
  "same_node n n' \<longleftrightarrow> node_id n' = node_id n \<and> node_run n' = node_run n
     \<and> node_plan_revision n' = node_plan_revision n \<and> node_policy n' = node_policy n
     \<and> node_resource_keys n' = node_resource_keys n \<and> node_max_attempts n' = node_max_attempts n
     \<and> node_attempt_count n' = node_attempt_count n
     \<and> node_payload_version n' = node_payload_version n"

definition node_move :: "tenant \<Rightarrow> wf_store \<Rightarrow> workflow_node \<Rightarrow> node_status \<Rightarrow> bool" where
  "node_move t s n st \<longleftrightarrow> st = node_status n
     \<or> node_status n = Node_Running \<and> st \<notin> {Node_Running, Node_Pending}
     \<or> \<not> node_terminal (node_status n) \<and> st \<in> {Node_Cancelled, Node_Superseded}
     \<or> node_status n \<in> {Node_Waiting_For_Approval, Node_Waiting_For_Input} \<and> st = Node_Ready
     \<or> node_status n = Node_Pending \<and> st = Node_Ready
        \<and> (\<forall>e\<in>set (edges_of t s). \<forall>u\<in>set (nodes_of t s).
             edge_to e = node_id n \<longrightarrow> edge_from e = node_id u \<longrightarrow> node_status u = Node_Succeeded)"

definition same_attempt :: "workflow_attempt \<Rightarrow> workflow_attempt \<Rightarrow> bool" where
  "same_attempt a a' \<longleftrightarrow> att_node a' = att_node a \<and> att_number a' = att_number a
     \<and> att_run a' = att_run a \<and> (attempt_check a \<longrightarrow> attempt_check a')
     \<and> (att_status a' = Attempt_Running \<longrightarrow>
          att_status a = Attempt_Running \<and> att_lease_until a' = att_lease_until a)"

definition same_run :: "workflow_run \<Rightarrow> workflow_run \<Rightarrow> bool" where
  "same_run r r' \<longleftrightarrow> run_id r' = run_id r \<and> run_active_revision r' = run_active_revision r
     \<and> max_parallel_nodes (run_budget r) \<le> max_parallel_nodes (run_budget r')
     \<and> (run_check r \<longrightarrow> run_check r')"

text \<open>
  The hypotheses of the lemma on moving rows: \<open>g\<close>, \<open>h\<close> and \<open>k\<close> are what the statements do to a
  node, an attempt and a run.
\<close>

definition rows_move ::
  "tenant \<Rightarrow> instant \<Rightarrow> wf_store \<Rightarrow> wf_store \<Rightarrow> (workflow_node \<Rightarrow> workflow_node) \<Rightarrow>
   (workflow_attempt \<Rightarrow> workflow_attempt) \<Rightarrow> (workflow_run \<Rightarrow> workflow_run) \<Rightarrow> bool" where
  "rows_move t tm s s' g h k \<longleftrightarrow>
     nodes_of t s' = map g (nodes_of t s) \<and> attempts_of t s' = map h (attempts_of t s)
     \<and> runs_of t s' = map k (runs_of t s) \<and> edges_of t s' = edges_of t s
     \<and> (\<forall>n\<in>set (nodes_of t s). same_node n (g n) \<and> node_move t s n (node_status (g n)))
     \<and> (\<forall>a\<in>set (attempts_of t s). same_attempt a (h a))
     \<and> (\<forall>r\<in>set (runs_of t s). same_run r (k r))
     \<and> (\<forall>n\<in>set (nodes_of t s). \<forall>a\<in>set (attempts_of t s).
          att_node a = node_id n \<longrightarrow> att_status a = Attempt_Running \<longrightarrow>
          (node_status (g n) = Node_Running \<longrightarrow> att_status (h a) = Attempt_Running)
          \<and> (node_status n = Node_Running \<longrightarrow> node_status (g n) \<noteq> Node_Running \<longrightarrow>
             att_status (h a) = Attempt_Running \<longrightarrow> stale tm a))"

lemma node_move_terminal: "node_move t s n st \<Longrightarrow> node_terminal (node_status n) \<Longrightarrow> st = node_status n"
  by (cases "node_status n") (auto simp: node_move_def)

lemma node_move_running: "node_move t s n Node_Running \<Longrightarrow> node_status n = Node_Running"
  by (auto simp: node_move_def)

lemma node_move_started:
  "node_move t s n st \<Longrightarrow> started st \<Longrightarrow> started (node_status n) \<or>
   (\<forall>e\<in>set (edges_of t s). \<forall>u\<in>set (nodes_of t s).
      edge_to e = node_id n \<longrightarrow> edge_from e = node_id u \<longrightarrow> node_status u = Node_Succeeded)"
  by (cases "node_status n"; cases st) (auto simp: node_move_def)

lemma same_node_check: "same_node n n' \<Longrightarrow> node_check n' = node_check n"
  by (simp add: same_node_def node_check_def)

lemma same_node_compatible:
  "same_node m m' \<Longrightarrow> same_node n n' \<Longrightarrow> compatible m' n' = compatible m n"
  by (simp add: same_node_def compatible_def)

lemma rows_moveD:
  assumes "rows_move t tm s s' g h k"
  shows "nodes_of t s' = map g (nodes_of t s)" "attempts_of t s' = map h (attempts_of t s)"
    "runs_of t s' = map k (runs_of t s)" "edges_of t s' = edges_of t s"
    "\<And>n. n \<in> set (nodes_of t s) \<Longrightarrow> same_node n (g n)"
    "\<And>n. n \<in> set (nodes_of t s) \<Longrightarrow> node_move t s n (node_status (g n))"
    "\<And>a. a \<in> set (attempts_of t s) \<Longrightarrow> same_attempt a (h a)"
    "\<And>r. r \<in> set (runs_of t s) \<Longrightarrow> same_run r (k r)"
  using assms by (simp_all add: rows_move_def)

lemma rows_move_running:
  assumes "rows_move t tm s s' g h k" and "n \<in> set (nodes_of t s)" "a \<in> set (attempts_of t s)"
    and "att_node a = node_id n" "att_status a = Attempt_Running"
  shows "node_status (g n) = Node_Running \<Longrightarrow> att_status (h a) = Attempt_Running"
    and "node_status n = Node_Running \<Longrightarrow> node_status (g n) \<noteq> Node_Running \<Longrightarrow>
         att_status (h a) = Attempt_Running \<Longrightarrow> stale tm a"
  using assms by (simp_all add: rows_move_def)

lemma move_keys:
  assumes "rows_move t tm s s' g h k" and "keys_ok t s"
  shows "keys_ok t s'"
proof -
  note m = rows_moveD[OF assms(1)]
  have "run_id (k r) = run_id r" if "r \<in> set (runs_of t s)" for r
    using m(8)[OF that] by (simp add: same_run_def)
  moreover have "node_id (g n) = node_id n" if "n \<in> set (nodes_of t s)" for n
    using m(5)[OF that] by (simp add: same_node_def)
  moreover have "(att_node (h a), att_number (h a)) = (att_node a, att_number a)"
    if "a \<in> set (attempts_of t s)" for a
    using m(7)[OF that] by (simp add: same_attempt_def)
  ultimately show ?thesis
    using assms(2) unfolding keys_ok_def m(1-3) by (blast intro: distinct_map_keep)
qed

lemma move_runs:
  assumes "rows_move t tm s s' g h k" and "runs_ok t s"
  shows "runs_ok t s'"
  using assms rows_moveD(3,8)[OF assms(1)] by (auto simp: runs_ok_def same_run_def)

lemma move_nodes:
  assumes mv: "rows_move t tm s s' g h k" and ok: "nodes_ok t s"
  shows "nodes_ok t s'"
  unfolding nodes_ok_def rows_moveD(1,3)[OF mv] set_map
proof (rule ballI, elim imageE, hypsubst)
  fix n assume n: "n \<in> set (nodes_of t s)"
  note g = rows_moveD(5,6)[OF mv n]
  from ok n obtain r where r: "r \<in> set (runs_of t s)" "run_id r = node_run n"
      "node_plan_revision n \<le> run_active_revision r"
      "node_plan_revision n < run_active_revision r \<Longrightarrow> node_terminal (node_status n)"
    and c: "node_check n"
    unfolding nodes_ok_def by blast
  have "run_id (k r) = node_run (g n) \<and> node_plan_revision (g n) \<le> run_active_revision (k r)
      \<and> (node_plan_revision (g n) < run_active_revision (k r) \<longrightarrow> node_terminal (node_status (g n)))"
    using g r rows_moveD(8)[OF mv r(1)] node_move_terminal[OF g(2)]
    by (auto simp: same_node_def same_run_def)
  with r(1) c g(1) show "node_check (g n) \<and> (\<exists>r\<in>k ` set (runs_of t s). run_id r = node_run (g n)
      \<and> node_plan_revision (g n) \<le> run_active_revision r
      \<and> (node_plan_revision (g n) < run_active_revision r \<longrightarrow> node_terminal (node_status (g n))))"
    by (auto simp: same_node_check)
qed

lemma move_edges:
  assumes mv: "rows_move t tm s s' g h k" and ok: "edges_ok t s"
  shows "edges_ok t s'"
  unfolding edges_ok_def rows_moveD(1,4)[OF mv] set_map
proof
  fix e assume "e \<in> set (edges_of t s)"
  with ok obtain u v where uv: "u \<in> set (nodes_of t s)" "v \<in> set (nodes_of t s)"
    and "node_id u = edge_from e" "node_id v = edge_to e" "node_run u = edge_run e"
      "node_run v = edge_run e" "node_plan_revision u = edge_plan_revision e"
      "node_plan_revision v = edge_plan_revision e"
    unfolding edges_ok_def by blast
  with rows_moveD(5)[OF mv uv(1)] rows_moveD(5)[OF mv uv(2)]
  have "node_id (g u) = edge_from e \<and> node_id (g v) = edge_to e
      \<and> node_run (g u) = edge_run e \<and> node_run (g v) = edge_run e
      \<and> node_plan_revision (g u) = edge_plan_revision e
      \<and> node_plan_revision (g v) = edge_plan_revision e"
    by (simp add: same_node_def)
  with uv show "\<exists>u\<in>g ` set (nodes_of t s). \<exists>v\<in>g ` set (nodes_of t s).
      node_id u = edge_from e \<and> node_id v = edge_to e
      \<and> node_run u = edge_run e \<and> node_run v = edge_run e
      \<and> node_plan_revision u = edge_plan_revision e
      \<and> node_plan_revision v = edge_plan_revision e"
    by blast
qed

lemma move_attempts:
  assumes mv: "rows_move t tm s s' g h k" and ok: "attempts_ok t s"
  shows "attempts_ok t s'"
  unfolding attempts_ok_def rows_moveD(1,2)[OF mv] set_map
proof (rule ballI, elim imageE, hypsubst)
  fix a assume a: "a \<in> set (attempts_of t s)"
  with ok obtain n where n: "n \<in> set (nodes_of t s)" "node_id n = att_node a"
      "node_run n = att_run a" "att_number a \<le> node_attempt_count n" "attempt_check a"
    unfolding attempts_ok_def by blast
  with rows_moveD(5)[OF mv n(1)] rows_moveD(7)[OF mv a]
  show "attempt_check (h a) \<and> (\<exists>n\<in>g ` set (nodes_of t s). node_id n = att_node (h a)
      \<and> node_run n = att_run (h a) \<and> att_number (h a) \<le> node_attempt_count n)"
    by (auto simp: same_node_def same_attempt_def)
qed

lemma move_leases:
  assumes mv: "rows_move t tm s s' g h k" and ok: "leases_ok t l s" and le: "l \<le> tm"
  shows "leases_ok t tm s'"
  unfolding leases_ok_def rows_moveD(1,2)[OF mv] set_map
proof (intro conjI ballI impI; (elim imageE; hypsubst)?)
  fix n assume n: "n \<in> set (nodes_of t s)" and run: "node_status (g n) = Node_Running"
  then have "node_status n = Node_Running"
    using rows_moveD(6)[OF mv n] by (auto intro: node_move_running)
  with ok n obtain a where a: "a \<in> set (attempts_of t s)" "att_node a = node_id n"
      "att_number a = node_attempt_count n" "att_status a = Attempt_Running"
    unfolding leases_ok_def by blast
  then have "att_status (h a) = Attempt_Running"
    using rows_move_running(1)[OF mv n a(1,2,4) run] by simp
  with a rows_moveD(5)[OF mv n] rows_moveD(7)[OF mv a(1)]
  show "\<exists>a\<in>h ` set (attempts_of t s). att_node a = node_id (g n)
      \<and> att_number a = node_attempt_count (g n) \<and> att_status a = Attempt_Running"
    by (auto simp: same_node_def same_attempt_def)
next
  fix n a assume n: "n \<in> set (nodes_of t s)" and a: "a \<in> set (attempts_of t s)"
    and run: "att_status (h a) = Attempt_Running" and eq: "att_node (h a) = node_id (g n)"
  have sa: "same_attempt a (h a)" and sn: "same_node n (g n)"
    using rows_moveD(5)[OF mv n] rows_moveD(7)[OF mv a] by simp_all
  then have at: "att_status a = Attempt_Running" "att_node a = node_id n"
      "att_lease_until (h a) = att_lease_until a"
    using run eq by (simp_all add: same_attempt_def same_node_def)
  have old: "if node_status n = Node_Running then att_number a = node_attempt_count n else stale l a"
    using ok n a at unfolding leases_ok_def by blast
  have "stale tm a" if "node_status (g n) \<noteq> Node_Running"
    using old stale_mono[OF _ le] rows_move_running(2)[OF mv n a at(2,1) _ that run]
    by (cases "node_status n = Node_Running") auto
  moreover have "node_status n = Node_Running" if "node_status (g n) = Node_Running"
    using rows_moveD(6)[OF mv n] that by (auto intro: node_move_running)
  ultimately show "if node_status (g n) = Node_Running
      then att_number (h a) = node_attempt_count (g n) else stale tm (h a)"
    using old sa sn at(3) by (auto simp: same_attempt_def same_node_def stale_def)
qed

lemma move_deps:
  assumes mv: "rows_move t tm s s' g h k" and ok: "deps_ok t s"
  shows "deps_ok t s'"
  unfolding deps_ok_def rows_moveD(1,4)[OF mv] set_map
proof (intro ballI impI; (elim imageE; hypsubst)?)
  fix e u v assume e: "e \<in> set (edges_of t s)"
    and u: "u \<in> set (nodes_of t s)" and v: "v \<in> set (nodes_of t s)"
    and eq: "node_id (g u) = edge_from e" "node_id (g v) = edge_to e"
    and st: "started (node_status (g v))"
  have eq': "node_id u = edge_from e" "node_id v = edge_to e"
    using eq rows_moveD(5)[OF mv u] rows_moveD(5)[OF mv v] by (simp_all add: same_node_def)
  have "node_status u = Node_Succeeded"
    using node_move_started[OF rows_moveD(6)[OF mv v] st] ok e u v eq'
    unfolding deps_ok_def by metis
  then show "node_status (g u) = Node_Succeeded"
    using node_move_terminal[OF rows_moveD(6)[OF mv u]] by simp
qed

lemma move_slots:
  assumes mv: "rows_move t tm s s' g h k" and ok: "slots_ok t s"
  shows "slots_ok t s'"
  unfolding slots_ok_def rows_moveD(1,3)[OF mv] set_map
proof (intro conjI ballI impI; (elim imageE; hypsubst)?)
  fix r assume r: "r \<in> set (runs_of t s)"
  have run: "node_status n = Node_Running \<and> node_run (g n) = node_run n"
    if "n \<in> set (nodes_of t s)" "node_status (g n) = Node_Running" for n
    using rows_moveD(5,6)[OF mv that(1)] that(2)
    by (auto simp: same_node_def intro: node_move_running)
  have "length (filter (running_in (run_id (k r))) (map g (nodes_of t s)))
      = length (filter (running_in (run_id (k r)) \<circ> g) (nodes_of t s))"
    by (simp add: filter_map)
  also have "\<dots> \<le> length (filter (running_in (run_id r)) (nodes_of t s))"
  proof -
    have "filter (running_in (run_id (k r)) \<circ> g) (nodes_of t s)
        = filter (running_in (run_id (k r)) \<circ> g) (filter (running_in (run_id r)) (nodes_of t s))"
      unfolding filter_filter
      by (rule filter_cong) (use run rows_moveD(8)[OF mv r] in \<open>auto simp: running_in_def same_run_def\<close>)
    then show ?thesis
      by (metis length_filter_le)
  qed
  also have "int \<dots> \<le> max_parallel_nodes (run_budget (k r))"
    using ok r rows_moveD(8)[OF mv r] by (fastforce simp: slots_ok_def same_run_def)
  finally show "int (length (filter (running_in (run_id (k r))) (map g (nodes_of t s))))
      \<le> max_parallel_nodes (run_budget (k r))"
    by simp
next
  fix m n assume mn: "m \<in> set (nodes_of t s)" "n \<in> set (nodes_of t s)"
    and "node_id (g m) \<noteq> node_id (g n)" "node_run (g m) = node_run (g n)"
    and run: "node_status (g m) = Node_Running" "node_status (g n) = Node_Running"
  moreover have "node_status m = Node_Running" "node_status n = Node_Running"
    using rows_moveD(6)[OF mv mn(1)] rows_moveD(6)[OF mv mn(2)] run
    by (auto intro: node_move_running)
  ultimately have "compatible m n"
    using ok rows_moveD(5)[OF mv mn(1)] rows_moveD(5)[OF mv mn(2)]
    by (simp add: slots_ok_def same_node_def)
  then show "compatible (g m) (g n)"
    using same_node_compatible rows_moveD(5)[OF mv mn(1)] rows_moveD(5)[OF mv mn(2)] by metis
qed

lemma move_terminal:
  assumes mv: "rows_move t tm s s' g h k"
  shows "terminal_nodes_kept t s s'"
  unfolding terminal_nodes_kept_def rows_moveD(1)[OF mv] set_map
proof (intro ballI impI)
  fix n assume n: "n \<in> set (nodes_of t s)" "node_terminal (node_status n)"
  show "\<exists>x\<in>g ` set (nodes_of t s). node_id x = node_id n \<and> node_run x = node_run n
      \<and> node_status x = node_status n"
    using n rows_moveD(5)[OF mv n(1)] node_move_terminal[OF rows_moveD(6)[OF mv n(1)] n(2)]
    by (auto simp: same_node_def)
qed

lemma move_closed:
  assumes mv: "rows_move t tm s s' g h k" and cl: "closed_run t rid st s"
    and keep: "\<And>r. r \<in> set (runs_of t s) \<Longrightarrow> run_id r = rid \<Longrightarrow> run_status (k r) = run_status r"
  shows "closed_run t rid st s'"
proof -
  have "run_id (k r) = run_id r" if "r \<in> set (runs_of t s)" for r
    using rows_moveD(8)[OF mv that] by (simp add: same_run_def)
  moreover have "node_terminal (node_status (g n))"
    if "n \<in> set (nodes_of t s)" "node_run (g n) = rid" for n
    using cl that rows_moveD(5)[OF mv that(1)] node_move_terminal[OF rows_moveD(6)[OF mv that(1)]]
    by (auto simp: closed_run_def same_node_def)
  ultimately show ?thesis
    using cl keep unfolding closed_run_def rows_moveD(1,3)[OF mv] by auto
qed

text \<open>
  The lemma the operations use: rows that move in place keep the invariant, terminal nodes and
  closed runs, provided no statement writes the status of a closed run.
\<close>

lemma rows_move_preserves:
  assumes "l \<le> l'"
    and mv: "wf_inv t l s \<Longrightarrow> rows_move t l' s s' g h k"
    and keep: "\<And>r st. wf_inv t l s \<Longrightarrow> r \<in> set (runs_of t s) \<Longrightarrow> run_id r \<notin> X \<Longrightarrow>
      closed_run t (run_id r) st s \<Longrightarrow> run_status (k r) = run_status r"
  shows "preserves t X l l' s s'"
proof (rule preservesI, intro conjI allI impI)
  assume inv: "wf_inv t l s"
  note m = mv[OF inv] and i = wf_invD[OF inv]
  show "wf_inv t l' s'"
    unfolding wf_inv_def
    using move_keys[OF m i(1)] move_runs[OF m i(2)] move_nodes[OF m i(3)] move_edges[OF m i(4)]
      move_attempts[OF m i(5)] move_leases[OF m i(6) assms(1)] move_deps[OF m i(7)]
      move_slots[OF m i(8)] by blast
  show "terminal_nodes_kept t s s'"
    by (rule move_terminal[OF m])
  show "closed_run t rid st s'" if "rid \<notin> X" "closed_run t rid st s" for rid st
    using move_closed[OF m that(2)] keep[OF inv] that by blast
qed

end
