(* ===== verification/Workflow_Steps.thy ===== *)
theory Workflow_Steps
  imports Workflow_Invariants
begin

text \<open>
  Every operation of the repository keeps the invariant of the store. The first section
  treats the statements the operations share, the following ones the operations in the order
  of the code; the last collects them in a step relation.
\<close>

named_theorems preserved \<open>statements and operations that keep the invariant\<close>

lemma same_node_refl [simp]: "same_node n n"
  and same_attempt_refl [simp]: "same_attempt a a"
  and same_run_refl [simp]: "same_run r r"
  and node_move_refl [simp]: "node_move t s n (node_status n)"
  by (simp_all add: same_node_def same_attempt_def same_run_def node_move_def)

section \<open>Statements\<close>

lemma preserves_update_runs:
  assumes "l \<le> l'" and "\<And>r. r \<in> set (runs_of t s) \<Longrightarrow> p r \<Longrightarrow> same_run r (f r)"
    and "\<And>r. r \<in> set (runs_of t s) \<Longrightarrow> p r \<Longrightarrow> run_id r \<in> X \<or> \<not> run_terminal (run_status r)"
  shows "preserves t X l l' s (update_runs t p f s)"
proof (rule rows_move_preserves[OF assms(1), where g = id and h = id and k = "upd_row p f"])
  show "rows_move t l' s (update_runs t p f s) id id (upd_row p f)"
    using assms(2) by (simp add: rows_move_def upd_row_def)
  show "run_status (upd_row p f r) = run_status r"
    if "r \<in> set (runs_of t s)" "run_id r \<notin> X" "closed_run t (run_id r) st s" for r st
    using that assms(3) by (auto simp: closed_run_def upd_row_def)
qed

lemma preserves_nodes_attempts:
  assumes "l \<le> l'"
    and nd: "\<And>n. wf_inv t l s \<Longrightarrow> n \<in> set (nodes_of t s) \<Longrightarrow> q n \<Longrightarrow>
      same_node n (f n) \<and> node_move t s n (node_status (f n)) \<and> node_status (f n) \<noteq> Node_Running"
    and at: "\<And>a. a \<in> set (attempts_of t s) \<Longrightarrow> p a \<Longrightarrow>
      same_attempt a (c a) \<and> att_status (c a) \<noteq> Attempt_Running"
    and only: "\<And>n a. wf_inv t l s \<Longrightarrow> n \<in> set (nodes_of t s) \<Longrightarrow> a \<in> set (attempts_of t s) \<Longrightarrow>
      att_node a = node_id n \<Longrightarrow> att_status a = Attempt_Running \<Longrightarrow>
      node_status n = Node_Running \<Longrightarrow> (p a \<longrightarrow> q n) \<and> (q n \<longrightarrow> \<not> p a \<longrightarrow> stale l' a)"
  shows "preserves t X l l' s (update_nodes t q f (update_attempts t p c s))"
proof (rule rows_move_preserves[OF assms(1), where g = "upd_row q f" and h = "upd_row p c" and k = id])
  assume inv: "wf_inv t l s"
  show "rows_move t l' s (update_nodes t q f (update_attempts t p c s)) (upd_row q f) (upd_row p c) id"
    unfolding rows_move_def
    using nd[OF inv] at only[OF inv] by (auto simp: upd_row_def)
qed simp

lemma preserves_update_nodes:
  assumes "l \<le> l'"
    and "\<And>n. wf_inv t l s \<Longrightarrow> n \<in> set (nodes_of t s) \<Longrightarrow> q n \<Longrightarrow>
      same_node n (f n) \<and> node_move t s n (node_status (f n)) \<and> node_status n \<noteq> Node_Running
      \<and> node_status (f n) \<noteq> Node_Running"
  shows "preserves t X l l' s (update_nodes t q f s)"
proof (rule rows_move_preserves[OF assms(1), where g = "upd_row q f" and h = id and k = id])
  assume inv: "wf_inv t l s"
  show "rows_move t l' s (update_nodes t q f s) (upd_row q f) id id"
    unfolding rows_move_def
    using assms(2)[OF inv] by (auto simp: upd_row_def)
qed simp

lemma close_attempt_same:
  "att_status a = Attempt_Running \<Longrightarrow> st \<noteq> Attempt_Running \<Longrightarrow>
   same_attempt a ((close_attempt st now a)\<lparr>att_error_code := e\<rparr>)
   \<and> same_attempt a ((close_attempt st now a)\<lparr>att_result := r\<rparr>)
   \<and> same_attempt a ((close_attempt st now a)\<lparr>att_result := r, att_evidence_refs := ev\<rparr>)"
  by (auto simp: same_attempt_def close_attempt_def attempt_check_def)

lemma close_attempt_status [simp]: "att_status (close_attempt st now a) = st"
  by (simp add: close_attempt_def)

section \<open>The fence\<close>

lemma unique_node:
  "keys_ok t s \<Longrightarrow> m \<in> set (nodes_of t s) \<Longrightarrow> n \<in> set (nodes_of t s) \<Longrightarrow> node_id m = node_id n \<Longrightarrow> m = n"
  unfolding keys_ok_def by (blast dest: distinct_map_unique)

lemma unique_run:
  "keys_ok t s \<Longrightarrow> q \<in> set (runs_of t s) \<Longrightarrow> r \<in> set (runs_of t s) \<Longrightarrow> run_id q = run_id r \<Longrightarrow> q = r"
  unfolding keys_ok_def by (blast dest: distinct_map_unique)

lemma unique_attempt:
  assumes "keys_ok t s" "a \<in> set (attempts_of t s)" "b \<in> set (attempts_of t s)"
    "att_node a = att_node b" "att_number a = att_number b"
  shows "a = b"
  using assms distinct_map_unique[of "\<lambda>a. (att_node a, att_number a)" "attempts_of t s" a b]
  by (simp add: keys_ok_def)

lemma attempt_run:
  assumes "wf_inv t l s" "n \<in> set (nodes_of t s)" "a \<in> set (attempts_of t s)" "att_node a = node_id n"
  shows "att_run a = node_run n" "att_number a \<le> node_attempt_count n"
proof -
  obtain m where "m \<in> set (nodes_of t s)" "node_id m = att_node a" "node_run m = att_run a"
      "att_number a \<le> node_attempt_count m"
    using assms(1,3) wf_invD(5) unfolding attempts_ok_def by blast
  moreover have "m = n"
    using unique_node[OF wf_invD(1)[OF assms(1)] calculation(1) assms(2)] calculation(2) assms(4) by simp
  ultimately show "att_run a = node_run n" "att_number a \<le> node_attempt_count n"
    by simp_all
qed

lemma leases_number:
  assumes "leases_ok t l s" "n \<in> set (nodes_of t s)" "a \<in> set (attempts_of t s)"
    "node_status n = Node_Running" "att_node a = node_id n" "att_status a = Attempt_Running"
  shows "att_number a = node_attempt_count n"
  using assms unfolding leases_ok_def by meson

lemma claim_join_mem:
  "(n, r, a) \<in> set (claim_join t c s) \<longleftrightarrow>
     n \<in> set (nodes_of t s) \<and> r \<in> set (runs_of t s) \<and> run_id r = node_run n
     \<and> a \<in> set (attempts_of t s) \<and> att_node a = node_id n \<and> claim_predicates c a"
  by (auto simp: claim_join_def)

text \<open>What a worker that passes \<open>_require_claim\<close> holds.\<close>

lemma require_claimD:
  assumes "require_claim t c now s = Inr n" and "wf_inv t l s"
  obtains a r where "n \<in> set (nodes_of t s)" "node_id n = claim_node c" "node_run n = claim_run c"
    "node_status n = Node_Running" "a \<in> set (attempts_of t s)" "claim_predicates c a"
    "lease_live now a" "r \<in> set (runs_of t s)" "run_id r = claim_run c"
    "run_cancellation_revision r = claim_cancellation_revision c"
    "claim_number c = node_attempt_count n"
proof -
  from assms(1) obtain row where row: "claim_join t c s = [row]"
    by (auto simp: require_claim_def result_simps split: option.splits)
  obtain m r a where "row = (m, r, a)" by (cases row)
  with row assms(1) have *: "claim_join t c s = [(n, r, a)]"
    "node_status n = Node_Running" "lease_live now a"
    "run_cancellation_revision r = claim_cancellation_revision c"
    by (simp_all add: require_claim_def split: if_splits)
  then have "(n, r, a) \<in> set (claim_join t c s)" by simp
  then have j: "n \<in> set (nodes_of t s)" "r \<in> set (runs_of t s)" "run_id r = node_run n"
      "a \<in> set (attempts_of t s)" "att_node a = node_id n" "claim_predicates c a"
    by (simp_all add: claim_join_mem)
  moreover have "node_run n = claim_run c"
    using attempt_run(1)[OF assms(2) j(1,4,5)] j(6) by (simp add: claim_predicates_def)
  moreover have "att_number a = node_attempt_count n"
    using leases_number[OF wf_invD(6)[OF assms(2)] j(1,4)] *(2) j(5,6)
    by (simp add: claim_predicates_def)
  moreover have "node_id n = claim_node c" "claim_number c = att_number a"
      "run_id r = claim_run c"
    using j(3,5,6) calculation by (simp_all add: claim_predicates_def)
  ultimately show ?thesis
    using that[of a r] *(2,3,4) by simp
qed

lemma require_claim_open:
  assumes "require_claim t c now s = Inr n" and "wf_inv t l s"
  shows "\<not> closed_run t (claim_run c) st s"
proof
  assume cl: "closed_run t (claim_run c) st s"
  obtain a r where "n \<in> set (nodes_of t s)" "node_run n = claim_run c" "node_status n = Node_Running"
    using require_claimD[OF assms] by metis
  with cl show False by (auto simp: closed_run_def)
qed

text \<open>
  The two updates by which every settlement leaves the running state: the claim's attempt is
  closed if its lease still lives at the second reading, and its node takes a new status.
\<close>

lemma preserves_leave_running:
  assumes rc: "require_claim t c now s = Inr n" and "l \<le> l'" "live \<le> l'"
    and at: "\<And>a. att_status a = Attempt_Running \<Longrightarrow>
      same_attempt a (cl a) \<and> att_status (cl a) \<noteq> Attempt_Running"
    and nd: "\<And>n. node_status n = Node_Running \<Longrightarrow>
      same_node n (f n) \<and> node_status (f n) \<notin> {Node_Running, Node_Pending}"
  shows "preserves t X l l' s
    (update_nodes t (claimed_node c) f (update_attempts t (live_claim_predicates c live) cl s))"
proof (rule preserves_nodes_attempts[OF assms(2)])
  fix m assume "wf_inv t l s" "m \<in> set (nodes_of t s)" "claimed_node c m"
  then show "same_node m (f m) \<and> node_move t s m (node_status (f m)) \<and> node_status (f m) \<noteq> Node_Running"
    using nd[of m] by (auto simp: node_move_def)
next
  fix a assume "live_claim_predicates c live a"
  then show "same_attempt a (cl a) \<and> att_status (cl a) \<noteq> Attempt_Running"
    using at by (simp add: live_claim_predicates_def claim_predicates_def)
next
  fix m a assume inv: "wf_inv t l s" and m: "m \<in> set (nodes_of t s)" "node_status m = Node_Running"
    and a: "a \<in> set (attempts_of t s)" "att_node a = node_id m" "att_status a = Attempt_Running"
  obtain b where b: "n \<in> set (nodes_of t s)" "node_id n = claim_node c" "b \<in> set (attempts_of t s)"
      "claim_predicates c b" "claim_number c = node_attempt_count n"
    using require_claimD[OF rc inv] by metis
  have num: "att_number a = node_attempt_count m"
    using leases_number[OF wf_invD(6)[OF inv] m(1) a(1) m(2) a(2,3)] .
  have "claimed_node c m" if "live_claim_predicates c live a"
    using that m a by (simp add: live_claim_predicates_def claim_predicates_def)
  moreover have "stale l' a" if cm: "claimed_node c m" and dead: "\<not> live_claim_predicates c live a"
  proof -
    have "m = n"
      using unique_node[OF wf_invD(1)[OF inv] m(1) b(1)] cm b(2) by simp
    then have "a = b"
      using unique_attempt[OF wf_invD(1)[OF inv] a(1) b(3)] a b num cm
      by (simp add: claim_predicates_def)
    then have "\<not> lease_live live a"
      using b(4) dead by (simp add: live_claim_predicates_def)
    then show ?thesis
      using assms(3) by (auto simp: stale_def lease_live_def)
  qed
  ultimately show "(live_claim_predicates c live a \<longrightarrow> claimed_node c m)
      \<and> (claimed_node c m \<longrightarrow> \<not> live_claim_predicates c live a \<longrightarrow> stale l' a)"
    by blast
qed

end
