(* ===== verification/Workflow_Preservation.thy ===== *)
theory Workflow_Preservation
  imports Workflow_Steps
begin

text \<open>
  One preservation lemma per operation of the repository that moves rows in place: settling a
  claim, steering a run, its budget. The time hypotheses say that the readings of the clock lie
  between the time of the invariant before and the time after.
\<close>

section \<open>Settling the run after a node succeeded\<close>

lemma promote_target_preserves [preserved]:
  assumes "l \<le> l'"
  shows "preserves t X l l' s (promote_target t rid revision now target s)"
proof (cases "promote_target t rid revision now target s = s")
  case True
  then show ?thesis using assms by (simp add: preserves_refl)
next
  case False
  define sources where "sources = [node_status n. n \<leftarrow> nodes_of t s, e \<leftarrow> edges_of t s,
    edge_from e = node_id n \<and> edge_run e = rid \<and> edge_plan_revision e = revision \<and> edge_to e = target]"
  have ne: "sources \<noteq> []" and all: "list_all (\<lambda>st. st = Node_Succeeded) sources"
    and eq: "promote_target t rid revision now target s =
      update_nodes t (\<lambda>n. node_id n = target \<and> node_status n = Node_Pending)
        (\<lambda>n. n\<lparr>node_status := Node_Ready, node_updated_at := now\<rparr>) s"
    using False unfolding promote_target_def Let_def sources_def[symmetric] by (auto split: if_splits)
  have succ: "node_status u = Node_Succeeded"
    if "u \<in> set (nodes_of t s)" "e \<in> set (edges_of t s)" "edge_from e = node_id u" "edge_run e = rid"
      "edge_plan_revision e = revision" "edge_to e = target" for u e
    using all that by (auto simp: sources_def list_all_iff)
  obtain e0 where e0: "e0 \<in> set (edges_of t s)" "edge_run e0 = rid" "edge_plan_revision e0 = revision"
      "edge_to e0 = target"
    using ne by (auto simp: sources_def)
  show ?thesis
    unfolding eq
  proof (rule preserves_update_nodes[OF assms], elim conjE)
    fix n assume inv: "wf_inv t l s" and n: "n \<in> set (nodes_of t s)" "node_id n = target"
      "node_status n = Node_Pending"
    have "node_status u = Node_Succeeded" if e: "e \<in> set (edges_of t s)" "edge_to e = node_id n"
        and u: "u \<in> set (nodes_of t s)" "edge_from e = node_id u" for e u
    proof -
      have target: "node_run n = edge_run d \<and> node_plan_revision n = edge_plan_revision d"
        if "d \<in> set (edges_of t s)" "edge_to d = node_id n" for d
        using wf_invD(4)[OF inv] that unique_node[OF wf_invD(1)[OF inv] _ n(1)]
        unfolding edges_ok_def by metis
      show ?thesis
        using succ[OF u(1) e(1) u(2)] target[OF e] target[OF e0(1)] e0 e(2) n(2) by simp
    qed
    then show "same_node n (n\<lparr>node_status := Node_Ready, node_updated_at := now\<rparr>)
        \<and> node_move t s n (node_status (n\<lparr>node_status := Node_Ready, node_updated_at := now\<rparr>))
        \<and> node_status n \<noteq> Node_Running
        \<and> node_status (n\<lparr>node_status := Node_Ready, node_updated_at := now\<rparr>) \<noteq> Node_Running"
      using n by (auto simp: node_move_def same_node_def)
  qed
qed

lemma promote_dependents_preserves [preserved]:
  assumes "l \<le> l'"
  shows "preserves t X l l' s (promote_dependents t rid revision now s)"
proof -
  have "preserves t X l l' s (fold (promote_target t rid revision now) ts s)" for ts
    using assms
  proof (induction ts arbitrary: s l)
    case (Cons x ts)
    have "preserves t X l l' s (promote_target t rid revision now x s)"
      by (rule promote_target_preserves[OF Cons.prems])
    then show ?case
      using Cons.IH[of l'] preserves_trans by fastforce
  qed (simp add: preserves_refl)
  then show ?thesis by (simp add: promote_dependents_def)
qed

lemma settle_run_Inr:
  assumes "settle_run t rid now s = Inr s'"
  obtains st where "s' = update_runs t (\<lambda>q. run_id q = rid)
    (\<lambda>q. q\<lparr>run_status := st, run_updated_at := now,
           run_completed_at := (if run_terminal st then Some now else None)\<rparr>) s"
  using assms unfolding settle_run_def Let_def result_simps by blast

lemma run_status_same_run: "same_run r (r\<lparr>run_status := st, run_updated_at := u\<rparr>)"
  "same_run r (r\<lparr>run_status := st, run_updated_at := u, run_completed_at := co\<rparr>)"
  "same_run r (r\<lparr>run_status := st, run_error_code := er, run_updated_at := u, run_completed_at := co\<rparr>)"
  by (simp_all add: same_run_def run_check_def)

lemma settle_run_preserves [preserved]:
  assumes "settle_run t rid now s = Inr s'" and "l \<le> l'" and "rid \<in> X"
  shows "preserves t X l l' s s'"
  by (rule settle_run_Inr[OF assms(1)], hypsubst, rule preserves_update_runs[OF assms(2)])
    (use assms(3) in \<open>auto simp: run_status_same_run\<close>)

section \<open>Settling a claim\<close>

text \<open>
  An operation that passed the fence may write the status of the claim's run: the run was not
  closed.
\<close>

lemma preserves_claim:
  assumes "require_claim t c now s = Inr n" and "preserves t {claim_run c} l l' s s'"
  shows "preserves t {} l l' s s'"
  using preserves_open[OF assms(2)] require_claim_open[OF assms(1)] by blast

lemma complete_preserves [preserved]:
  assumes "complete t c result evidence summary clk s = Inr (s', sn)"
    and "l \<le> l'" "clk 1 \<le> l'"
  shows "preserves t {} l l' s s'"
proof -
  define s2 where "s2 = update_nodes t (claimed_node c)
    (\<lambda>n. n\<lparr>node_status := Node_Succeeded, node_result := Some result, node_evidence_refs := evidence,
           node_error_code := None, node_updated_at := clk 0, node_completed_at := Some (clk 0),
           node_public_summary := (case summary of None \<Rightarrow> node_public_summary n
                                   | Some x \<Rightarrow> take 500 (strip x))\<rparr>)
    (update_attempts t (live_claim_predicates c (clk 1))
      (\<lambda>a. (close_attempt Attempt_Succeeded (clk 0) a)
             \<lparr>att_result := Some result, att_evidence_refs := evidence\<rparr>) s)"
  obtain n where rc: "require_claim t c (clk 0) s = Inr n"
    and st: "settle_run t (claim_run c) (clk 0)
      (promote_dependents t (claim_run c) (claim_plan_revision c) (clk 0) s2) = Inr s'"
    using assms(1) unfolding complete_def Let_def s2_def
    by (auto simp: result_simps dest!: with_snapshot_Inr)
  have "preserves t {claim_run c} l l' s s2"
    unfolding s2_def
    by (rule preserves_leave_running[OF rc assms(2,3)])
      (simp_all add: close_attempt_same same_node_def)
  also have "preserves t {claim_run c} l' l' s2
      (promote_dependents t (claim_run c) (claim_plan_revision c) (clk 0) s2)"
    by (simp add: promote_dependents_preserves)
  also have "preserves t {claim_run c} l' l' \<dots> s'"
    using settle_run_preserves[OF st] by simp
  finally show ?thesis
    by (rule preserves_claim[OF rc])
qed

text \<open>The shape of \<open>retry\<close>, \<open>defer\<close> and the two waits: attempt, node, run.\<close>

lemma preserves_step_back:
  assumes rc: "require_claim t c now s = Inr n" and "l \<le> l'" "live \<le> l'"
    and "\<And>a. att_status a = Attempt_Running \<Longrightarrow>
      same_attempt a (cl a) \<and> att_status (cl a) \<noteq> Attempt_Running"
    and "\<And>n. node_status n = Node_Running \<Longrightarrow>
      same_node n (f n) \<and> node_status (f n) \<notin> {Node_Running, Node_Pending}"
    and "\<And>r. same_run r (k r)"
  shows "preserves t {} l l' s (update_runs t (\<lambda>r. run_id r = claim_run c) k
    (update_nodes t (claimed_node c) f (update_attempts t (live_claim_predicates c live) cl s)))"
proof -
  have "preserves t {claim_run c} l l' s
      (update_nodes t (claimed_node c) f (update_attempts t (live_claim_predicates c live) cl s))"
    by (rule preserves_leave_running[OF assms(1-5)])
  also have "preserves t {claim_run c} l' l' \<dots> (update_runs t (\<lambda>r. run_id r = claim_run c) k \<dots>)"
    using assms(6) by (intro preserves_update_runs) simp_all
  finally show ?thesis
    by (rule preserves_claim[OF rc])
qed

lemma wait_for_approval_preserves [preserved]:
  assumes "wait_for_approval t c result clk s = Inr (s', sn)" and "l \<le> l'" "clk 1 \<le> l'"
  shows "preserves t {} l l' s s'"
proof -
  obtain n where rc: "require_claim t c (clk 0) s = Inr n" and s': "s' =
      update_runs t (\<lambda>r. run_id r = claim_run c)
        (\<lambda>r. r\<lparr>run_status := Run_Waiting_For_Approval, run_updated_at := clk 0\<rparr>)
      (update_nodes t (claimed_node c)
        (\<lambda>n. n\<lparr>node_status := Node_Waiting_For_Approval, node_result := Some result,
               node_error_code := None, node_updated_at := clk 0\<rparr>)
      (park_attempt t c result (clk 0) (clk 1) s))"
    using assms(1) unfolding wait_for_approval_def Let_def
    by (auto simp: result_simps dest!: with_snapshot_Inr)
  show ?thesis
    unfolding s' park_attempt_def
    by (rule preserves_step_back[OF rc assms(2,3)])
      (simp_all add: close_attempt_same same_node_def run_status_same_run)
qed

lemma wait_for_input_preserves [preserved]:
  assumes "wait_for_input t c result clk s = Inr (s', sn)" and "l \<le> l'" "clk 1 \<le> l'"
  shows "preserves t {} l l' s s'"
proof -
  obtain n where rc: "require_claim t c (clk 0) s = Inr n" and s': "s' =
      update_runs t (\<lambda>r. run_id r = claim_run c)
        (\<lambda>r. r\<lparr>run_status := Run_Waiting_For_Input, run_updated_at := clk 0\<rparr>)
      (update_nodes t (claimed_node c)
        (\<lambda>n. n\<lparr>node_status := Node_Waiting_For_Input, node_result := Some result,
               node_error_code := None, node_updated_at := clk 0\<rparr>)
      (park_attempt t c result (clk 0) (clk 1) s))"
    using assms(1) unfolding wait_for_input_def Let_def
    by (auto simp: result_simps dest!: with_snapshot_Inr)
  show ?thesis
    unfolding s' park_attempt_def
    by (rule preserves_step_back[OF rc assms(2,3)])
      (simp_all add: close_attempt_same same_node_def run_status_same_run)
qed

text \<open>
  \<open>fail\<close> closes the claim's attempt, cancels whatever of the run can still move, and closes the
  run.
\<close>

lemma failable_iff: "failable rid n \<longleftrightarrow> node_run n = rid \<and> \<not> node_terminal (node_status n)"
  by (cases "node_status n") (auto simp: failable_def)

lemma fail_Inr:
  assumes "fail t c error_code clk s = Inr (s', sn)"
  obtains n where "require_claim t c (clk 0) s = Inr n" and "s' =
    update_runs t (\<lambda>r. run_id r = claim_run c)
      (\<lambda>r. r\<lparr>run_status := Run_Failed, run_cancellation_revision := run_cancellation_revision r + 1,
             run_error_code := Some (take 128 error_code), run_updated_at := clk 0,
             run_completed_at := Some (clk 0)\<rparr>)
    (cancel_running_attempts t (claim_run c) (clk 0) (Some (claim_node c))
    (update_nodes t (\<lambda>n. node_id n = claim_node c) (\<lambda>n. n\<lparr>node_status := Node_Failed\<rparr>)
    (update_nodes t (failable (claim_run c))
      (\<lambda>n. n\<lparr>node_status := Node_Cancelled, node_error_code := Some (take 128 error_code),
             node_updated_at := clk 0, node_completed_at := Some (clk 0)\<rparr>)
    (settle_attempt t c Attempt_Failed error_code (clk 0) (clk 1) s))))"
  using assms unfolding fail_def Let_def result_simps by (blast dest: with_snapshot_Inr)

lemma run_revision_same_run:
  "same_run r (r\<lparr>run_status := st, run_cancellation_revision := run_cancellation_revision r + 1,
     run_error_code := er, run_updated_at := u, run_completed_at := co\<rparr>)"
  "same_run r (r\<lparr>run_status := st, run_pause_requested := pq,
     run_cancellation_revision := run_cancellation_revision r + 1,
     run_error_code := er, run_updated_at := u, run_completed_at := co\<rparr>)"
  "same_run r (r\<lparr>run_status := st, run_pause_requested := pq,
     run_cancellation_revision := run_cancellation_revision r + 1,
     run_updated_at := u, run_completed_at := co\<rparr>)"
  by (simp_all add: same_run_def run_check_def)

text \<open>The rows of a store in which a claim's run is closed with a failed node.\<close>

lemma close_run_rows_move:
  assumes inv: "wf_inv t l s"
    and tables: "nodes_of t s' = map g (nodes_of t s)" "attempts_of t s' = map h (attempts_of t s)"
      "runs_of t s' = map k (runs_of t s)" "edges_of t s' = edges_of t s"
    and g: "\<And>n. n \<in> set (nodes_of t s) \<Longrightarrow> same_node n (g n)
      \<and> (if node_run n = rid \<and> \<not> node_terminal (node_status n)
         then node_status (g n) = Node_Cancelled \<or> node_status n = Node_Running \<and> node_status (g n) = Node_Failed
         else node_status (g n) = node_status n)"
    and h: "\<And>a. a \<in> set (attempts_of t s) \<Longrightarrow> same_attempt a (h a)
      \<and> (att_run a \<noteq> rid \<longrightarrow> h a = a)
      \<and> (att_run a = rid \<longrightarrow> att_status (h a) = Attempt_Running \<longrightarrow> stale l' a)"
    and k: "\<And>r. same_run r (k r)"
  shows "rows_move t l' s s' g h k"
proof -
  have "(node_status (g n) = Node_Running \<longrightarrow> att_status (h a) = Attempt_Running)
      \<and> (node_status n = Node_Running \<longrightarrow> node_status (g n) \<noteq> Node_Running \<longrightarrow>
         att_status (h a) = Attempt_Running \<longrightarrow> stale l' a)"
    if "n \<in> set (nodes_of t s)" "a \<in> set (attempts_of t s)" "att_node a = node_id n"
      "att_status a = Attempt_Running" for n a
    using g[OF that(1)] h[OF that(2)] attempt_run(1)[OF inv that(1-3)] that(4)
    by (cases "node_run n = rid") (auto split: if_splits)
  moreover have "node_move t s n (node_status (g n))" if "n \<in> set (nodes_of t s)" for n
    using g[OF that] by (auto simp: node_move_def split: if_splits)
  ultimately show ?thesis
    using tables g h k by (simp add: rows_move_def)
qed

lemma fail_preserves [preserved]:
  assumes "fail t c error_code clk s = Inr (s', sn)" and "l \<le> l'" "clk 1 \<le> l'"
  shows "preserves t {} l l' s s'"
proof -
  define fc where "fc = (\<lambda>n::workflow_node. n\<lparr>node_status := Node_Cancelled, node_error_code := Some (take 128 error_code),
    node_updated_at := clk 0, node_completed_at := Some (clk 0)\<rparr>)"
  define ff where "ff = (\<lambda>n::workflow_node. n\<lparr>node_status := Node_Failed\<rparr>)"
  define cl where "cl = (\<lambda>a::workflow_attempt. (close_attempt Attempt_Failed (clk 0) a)\<lparr>att_error_code := Some (take 128 error_code)\<rparr>)"
  define cc where "cc = (\<lambda>a::workflow_attempt. (close_attempt Attempt_Cancelled (clk 0) a)\<lparr>att_error_code := Some ''WORKFLOW_CANCELLED''\<rparr>)"
  define fr where "fr = (\<lambda>r::workflow_run. r\<lparr>run_status := Run_Failed, run_cancellation_revision := run_cancellation_revision r + 1,
             run_error_code := Some (take 128 error_code), run_updated_at := clk 0,
             run_completed_at := Some (clk 0)\<rparr>)"
  define px where "px = (\<lambda>a::workflow_attempt. att_run a = claim_run c \<and> att_status a = Attempt_Running
    \<and> Some (att_node a) \<noteq> Some (claim_node c))"
  obtain n where rc: "require_claim t c (clk 0) s = Inr n" and s': "s' =
    update_runs t (\<lambda>r. run_id r = claim_run c) fr
    (update_attempts t px cc
    (update_nodes t (\<lambda>n. node_id n = claim_node c) ff
    (update_nodes t (failable (claim_run c)) fc
    (update_attempts t (live_claim_predicates c (clk 1)) cl s))))"
    by (rule fail_Inr[OF assms(1)])
      (simp add: fc_def ff_def cl_def cc_def fr_def px_def settle_attempt_def
        cancel_running_attempts_def)
  let ?g = "upd_row (\<lambda>n. node_id n = claim_node c) ff \<circ> upd_row (failable (claim_run c)) fc"
  let ?h = "upd_row px cc \<circ> upd_row (live_claim_predicates c (clk 1)) cl"
  let ?k = "upd_row (\<lambda>r. run_id r = claim_run c) fr"
  have cl: "same_attempt a (cl a) \<and> att_status (cl a) = Attempt_Failed"
    if "att_status a = Attempt_Running" for a
    using that by (simp add: cl_def close_attempt_same)
  have cc: "same_attempt a (cc a) \<and> att_status (cc a) = Attempt_Cancelled"
    if "att_status a = Attempt_Running" for a
    using that by (simp add: cc_def close_attempt_same)
  have "preserves t {claim_run c} l l' s s'"
  proof (rule rows_move_preserves[OF assms(2), where g = ?g and h = ?h and k = ?k])
    assume inv: "wf_inv t l s"
    obtain a r where a: "n \<in> set (nodes_of t s)" "node_id n = claim_node c" "node_run n = claim_run c"
        "node_status n = Node_Running" "a \<in> set (attempts_of t s)" "claim_predicates c a"
        "claim_number c = node_attempt_count n"
      by (rule require_claimD[OF rc inv])
    have only: "m = n" if "m \<in> set (nodes_of t s)" "node_id m = claim_node c" for m
      using unique_node[OF wf_invD(1)[OF inv] that(1) a(1)] that(2) a(2) by simp
    have same: "b = a" if "b \<in> set (attempts_of t s)" "att_status b = Attempt_Running"
        "att_node b = claim_node c" for b
      using unique_attempt[OF wf_invD(1)[OF inv] that(1) a(5)] that a(2,4,6,7)
        leases_number[OF wf_invD(6)[OF inv] a(1) that(1) a(4)]
      by (simp add: claim_predicates_def)
    show "rows_move t l' s s' ?g ?h ?k"
    proof (rule close_run_rows_move[OF inv, where rid = "claim_run c"])
      fix m assume m: "m \<in> set (nodes_of t s)"
      show "same_node m (?g m) \<and> (if node_run m = claim_run c \<and> \<not> node_terminal (node_status m)
        then node_status (?g m) = Node_Cancelled \<or> node_status m = Node_Running \<and> node_status (?g m) = Node_Failed
        else node_status (?g m) = node_status m)"
      proof (cases "node_id m = claim_node c")
        case True
        with only[OF m] have "m = n" by simp
        with a(2-4) show ?thesis
          by (simp add: failable_iff fc_def ff_def same_node_def)
      next
        case False
        then show ?thesis
          by (simp add: upd_row_def failable_iff fc_def same_node_def)
      qed
    next
      fix b assume b: "b \<in> set (attempts_of t s)"
      consider "live_claim_predicates c (clk 1) b" | "\<not> live_claim_predicates c (clk 1) b" "px b"
        | "\<not> live_claim_predicates c (clk 1) b" "\<not> px b" by blast
      then show "same_attempt b (?h b) \<and> (att_run b \<noteq> claim_run c \<longrightarrow> ?h b = b)
        \<and> (att_run b = claim_run c \<longrightarrow> att_status (?h b) = Attempt_Running \<longrightarrow> stale l' b)"
      proof cases
        case 1
        then have "att_status b = Attempt_Running" "att_run b = claim_run c" "\<not> px (cl b)"
          using cl by (simp_all add: live_claim_predicates_def claim_predicates_def px_def)
        then show ?thesis using 1 cl by simp
      next
        case 2
        then show ?thesis using cc by (simp add: px_def)
      next
        case 3
        have "stale l' b" if "att_run b = claim_run c" "att_status b = Attempt_Running"
        proof -
          have "b = a" using same[OF b] that 3(2) by (simp add: px_def)
          then have "\<not> lease_live (clk 1) b"
            using 3(1) a(6) by (simp add: live_claim_predicates_def)
          then show ?thesis using assms(3) by (auto simp: stale_def lease_live_def)
        qed
        then show ?thesis using 3 by simp
      qed
    qed (simp_all add: s' upd_row_def fr_def run_revision_same_run)
  qed (simp add: upd_row_def)
  then show ?thesis by (rule preserves_claim[OF rc])
qed

lemma retry_preserves [preserved]:
  assumes "retry t c available_at error_code clk s = Inr (s', sn)"
    and "l \<le> l'" "clk 1 \<le> l'" "clk 2 \<le> l'"
  shows "preserves t {} l l' s s'"
proof -
  obtain n where rc: "require_claim t c (clk 0) s = Inr n"
    using assms(1) unfolding retry_def Let_def by (auto simp: result_simps)
  show ?thesis
  proof (cases "node_attempt_count n \<ge> node_max_attempts n")
    case True
    then have "fail t c error_code (clock_from 1 clk) s = Inr (s', sn)"
      using assms(1) rc unfolding retry_def Let_def by simp
    then show ?thesis
      by (rule fail_preserves) (use assms in \<open>simp_all add: numeral_2_eq_2\<close>)
  next
    case False
    define av where "av = (if available_at < clk 0 then clk 0 else available_at)"
    have s': "s' = update_runs t (\<lambda>r. run_id r = claim_run c)
        (\<lambda>r. r\<lparr>run_status := Run_Queued, run_updated_at := clk 0\<rparr>)
      (update_nodes t (claimed_node c)
        (\<lambda>n. n\<lparr>node_status := Node_Ready, node_available_at := av,
               node_error_code := Some (take 128 error_code), node_updated_at := clk 0\<rparr>)
      (settle_attempt t c Attempt_Failed error_code (clk 0) (clk 1) s))"
      using assms(1) rc False unfolding retry_def Let_def requeue_run_def av_def
      by (auto dest!: with_snapshot_Inr)
    show ?thesis
      unfolding s' settle_attempt_def
      by (rule preserves_step_back[OF rc assms(2,3)])
        (simp_all add: close_attempt_same same_node_def run_status_same_run)
  qed
qed

lemma defer_claim_preserves [preserved]:
  assumes "defer_claim t c available_at result clk s = Inr (s', sn)"
    and "l \<le> l'" "clk 1 \<le> l'" "clk 2 \<le> l'"
  shows "preserves t {} l l' s s'"
proof -
  obtain n where rc: "require_claim t c (clk 0) s = Inr n" and late: "clk 0 < available_at"
    using assms(1) unfolding defer_claim_def Let_def by (auto simp: result_simps)
  show ?thesis
  proof (cases "node_attempt_count n \<ge> node_max_attempts n")
    case True
    then have "fail t c ''WORKFLOW_WAIT_BUDGET_EXHAUSTED'' (clock_from 1 clk) s = Inr (s', sn)"
      using assms(1) rc late unfolding defer_claim_def Let_def by (simp add: ensure_pass)
    then show ?thesis
      by (rule fail_preserves) (use assms in \<open>simp_all add: numeral_2_eq_2\<close>)
  next
    case False
    have s': "s' = update_runs t (\<lambda>r. run_id r = claim_run c)
        (\<lambda>r. r\<lparr>run_status := Run_Queued, run_updated_at := clk 0\<rparr>)
      (update_nodes t (claimed_node c)
        (\<lambda>n. n\<lparr>node_status := Node_Ready, node_result := Some result,
               node_available_at := available_at, node_error_code := None,
               node_updated_at := clk 0\<rparr>)
      (park_attempt t c result (clk 0) (clk 1) s))"
      using assms(1) rc False late unfolding defer_claim_def Let_def requeue_run_def
      by (auto simp: ensure_pass dest!: with_snapshot_Inr)
    show ?thesis
      unfolding s' park_attempt_def
      by (rule preserves_step_back[OF rc assms(2,3)])
        (simp_all add: close_attempt_same same_node_def run_status_same_run)
  qed
qed

section \<open>Giving a node back\<close>

lemma settle_pause_preserves [preserved]:
  "l \<le> l' \<Longrightarrow> preserves t X l l' s (settle_pause t rid now s)"
  unfolding settle_pause_def
  by (auto intro!: preserves_update_runs preserves_refl simp: run_status_same_run)

lemma release_status_cases:
  "release_status n r \<in> {Node_Cancelled, Node_Ready, Node_Failed}"
  "release_status n r = Node_Failed \<Longrightarrow> \<not> run_terminal (run_status r)"
  by (auto simp: release_status_def split: if_splits)

lemma release_node_preserves:
  assumes n: "n \<in> set (nodes_of t s)" and r: "r \<in> set (runs_of t s)"
    and b: "b \<in> set (attempts_of t s)" "p b"
    and p: "\<And>a. p a \<Longrightarrow> att_status a = Attempt_Running \<and> att_node a = node_id n"
    and cl: "\<And>a. att_status a = Attempt_Running \<Longrightarrow>
      same_attempt a (cl a) \<and> att_status (cl a) \<noteq> Attempt_Running"
    and le: "l \<le> l'"
  shows "preserves t X l l' s (release_node t n r e now (update_attempts t p cl s))"
proof -
  define q where "q = (\<lambda>m::workflow_node. node_id m = node_id n \<and> node_status m = Node_Running)"
  define f where "f = (\<lambda>m::workflow_node. m\<lparr>node_status := release_status n r, node_error_code := Some e,
    node_updated_at := now,
    node_completed_at := (if node_terminal (release_status n r) then Some now else None)\<rparr>)"
  define s1 where "s1 = update_nodes t q f (update_attempts t p cl s)"
  have rel: "release_node t n r e now (update_attempts t p cl s) =
      (if release_status n r = Node_Failed
       then update_runs t (\<lambda>q. run_id q = run_id r)
              (\<lambda>q. q\<lparr>run_status := Run_Failed, run_error_code := Some e,
                     run_updated_at := now, run_completed_at := Some now\<rparr>) s1
       else if run_pause_requested r then settle_pause t (run_id r) now s1
       else update_runs t (\<lambda>q. run_id q = run_id r \<and> \<not> run_terminal (run_status q))
              (\<lambda>q. q\<lparr>run_status := Run_Queued, run_updated_at := now\<rparr>) s1)"
    by (simp add: release_node_def Let_def s1_def q_def f_def)
  have f: "same_node m (f m)" "node_status (f m) \<notin> {Node_Running, Node_Pending}" for m
    using release_status_cases(1)[of n r] by (auto simp: f_def same_node_def)
  have s1: "preserves t X l l' s s1"
    unfolding s1_def
  proof (rule preserves_nodes_attempts[OF le])
    fix m assume "q m"
    then show "same_node m (f m) \<and> node_move t s m (node_status (f m)) \<and> node_status (f m) \<noteq> Node_Running"
      using f[of m] by (simp add: q_def node_move_def)
  next
    fix a assume "p a"
    then show "same_attempt a (cl a) \<and> att_status (cl a) \<noteq> Attempt_Running"
      using p cl by blast
  next
    fix m a assume inv: "wf_inv t l s" and m: "m \<in> set (nodes_of t s)"
      and a: "a \<in> set (attempts_of t s)" "att_node a = node_id m" "att_status a = Attempt_Running"
      and run: "node_status m = Node_Running"
    have "p a" if "q m"
    proof -
      have bm: "att_node b = node_id m" "att_status b = Attempt_Running"
        using p[OF b(2)] that by (simp_all add: q_def)
      note num = leases_number[OF wf_invD(6)[OF inv] m _ run]
      have "a = b"
        using unique_attempt[OF wf_invD(1)[OF inv] a(1) b(1)] a(2) bm(1) num[OF a] num[OF b(1) bm]
        by simp
      then show ?thesis using b(2) by simp
    qed
    then show "(p a \<longrightarrow> q m) \<and> (q m \<longrightarrow> \<not> p a \<longrightarrow> stale l' a)"
      using p[of a] a(2) run by (auto simp: q_def)
  qed
  have runs: "preserves t X l' l' s1 (update_runs t (\<lambda>q. run_id q = run_id r)
      (\<lambda>q. q\<lparr>run_status := Run_Failed, run_error_code := Some e, run_updated_at := now,
             run_completed_at := Some now\<rparr>) s1)" if "release_status n r = Node_Failed"
  proof (rule preserves_under_inv, rule preserves_update_runs)
    fix x assume inv: "wf_inv t l' s1" and x: "x \<in> set (runs_of t s1)" "run_id x = run_id r"
    have "x = r"
      using unique_run[OF wf_invD(1)[OF inv] x(1)] r x(2) by (simp add: s1_def)
    then show "run_id x \<in> X \<or> \<not> run_terminal (run_status x)"
      using release_status_cases(2)[OF that] by simp
  qed (simp_all add: run_status_same_run)
  have "preserves t X l' l' s1 (release_node t n r e now (update_attempts t p cl s))"
    unfolding rel using runs
    by (auto intro!: settle_pause_preserves preserves_update_runs simp: run_status_same_run)
  with s1 show ?thesis by (rule preserves_trans)
qed

lemma abandon_preserves [preserved]:
  assumes "abandon t c now s = Inr (s', done)" and "l \<le> l'"
  shows "preserves t {} l l' s s'"
proof (cases "s' = s")
  case True
  then show ?thesis using assms(2) by (simp add: preserves_refl)
next
  case False
  let ?cl = "\<lambda>a. (close_attempt Attempt_Abandoned now a)\<lparr>att_error_code := Some ''WORKER_INTERRUPTED''\<rparr>"
  obtain b r n where b: "select_where t (claim_predicates c) (attempts_t s) = [b]"
    and r: "select_where t (\<lambda>r. run_id r = claim_run c) (runs_t s) = [r]"
    and n: "select_where t (\<lambda>n. node_id n = claim_node c) (nodes_t s) = [n]"
    and s': "s' = release_node t n r ''WORKER_INTERRUPTED'' now
      (update_attempts t (claim_predicates c) ?cl s)"
    using assms(1) False unfolding abandon_def Let_def
    by (auto simp: result_simps split: option.splits)
  note m = select_where_singleton[OF b] select_where_singleton[OF r] select_where_singleton[OF n]
  show ?thesis
    unfolding s'
    by (rule release_node_preserves[OF _ _ _ _ _ _ assms(2), where b = b])
      (use m in \<open>auto simp: claim_predicates_def close_attempt_same\<close>)
qed

definition reclaims :: "workflow_attempt \<Rightarrow> workflow_attempt \<Rightarrow> bool" where
  "reclaims a b \<longleftrightarrow> att_node b = att_node a \<and> att_number b = att_number a
     \<and> att_status b = Attempt_Running \<and> att_lease_fence b = att_lease_fence a"

lemma release_node_tables [simp]:
  "attempts_t (release_node t n r e now s) = attempts_t s"
  "edges_t (release_node t n r e now s) = edges_t s"
  "revisions_t (release_node t n r e now s) = revisions_t s"
  "instructions_t (release_node t n r e now s) = instructions_t s"
  by (simp_all add: release_node_def settle_pause_def Let_def)

lemma reclaim_attempt_Inr:
  assumes "reclaim_attempt t now a s = Inr s'"
  obtains n r where "n \<in> set (nodes_of t s)" "node_id n = att_node a"
    "r \<in> set (runs_of t s)" "run_id r = att_run a"
    "s' = release_node t n r ''WORKER_LEASE_EXPIRED'' now (update_attempts t (reclaims a)
      (\<lambda>b. (close_attempt Attempt_Abandoned now b)\<lparr>att_error_code := Some ''WORKER_LEASE_EXPIRED''\<rparr>) s)"
proof -
  obtain n r where n: "select_where t (\<lambda>n. node_id n = att_node a) (nodes_t s) = [n]"
    and r: "select_where t (\<lambda>r. run_id r = att_run a) (runs_t s) = [r]"
    and "s' = release_node t n r ''WORKER_LEASE_EXPIRED'' now (update_attempts t (reclaims a)
      (\<lambda>b. (close_attempt Attempt_Abandoned now b)\<lparr>att_error_code := Some ''WORKER_LEASE_EXPIRED''\<rparr>) s)"
    using assms unfolding reclaim_attempt_def reclaims_def[abs_def] by (auto simp: result_simps)
  with select_where_singleton[OF n] select_where_singleton[OF r] that show ?thesis by blast
qed

lemma reclaim_attempt_preserves [preserved]:
  assumes "reclaim_attempt t now a s = Inr s'" and "l \<le> l'"
    and "a \<in> set (attempts_of t s)" "att_status a = Attempt_Running"
  shows "preserves t X l l' s s'"
proof -
  obtain n r where m: "n \<in> set (nodes_of t s)" "node_id n = att_node a" "r \<in> set (runs_of t s)"
    and s': "s' = release_node t n r ''WORKER_LEASE_EXPIRED'' now (update_attempts t (reclaims a)
      (\<lambda>b. (close_attempt Attempt_Abandoned now b)\<lparr>att_error_code := Some ''WORKER_LEASE_EXPIRED''\<rparr>) s)"
    using reclaim_attempt_Inr[OF assms(1)] by metis
  show ?thesis
    unfolding s'
    by (rule release_node_preserves[OF m(1,3) assms(3) _ _ _ assms(2)])
      (use m(2) assms(4) in \<open>auto simp: reclaims_def close_attempt_same\<close>)
qed

lemma reclaim_attempt_attempts:
  assumes "reclaim_attempt t now a s = Inr s'"
  shows "b \<in> set (attempts_of t s) \<Longrightarrow> \<not> reclaims a b \<Longrightarrow> b \<in> set (attempts_of t s')"
    and "b \<in> set (attempts_of t s') \<Longrightarrow> att_status b = Attempt_Running \<Longrightarrow>
      b \<in> set (attempts_of t s) \<and> \<not> reclaims a b"
proof -
  obtain n r where "s' = release_node t n r ''WORKER_LEASE_EXPIRED'' now (update_attempts t (reclaims a)
      (\<lambda>b. (close_attempt Attempt_Abandoned now b)\<lparr>att_error_code := Some ''WORKER_LEASE_EXPIRED''\<rparr>) s)"
    by (rule reclaim_attempt_Inr[OF assms])
  then have at: "attempts_of t s' = map (upd_row (reclaims a)
      (\<lambda>b. (close_attempt Attempt_Abandoned now b)\<lparr>att_error_code := Some ''WORKER_LEASE_EXPIRED''\<rparr>))
      (attempts_of t s)"
    by simp
  show "b \<in> set (attempts_of t s')" if "b \<in> set (attempts_of t s)" "\<not> reclaims a b"
    using image_eqI[OF _ that(1), of b] that(2) unfolding at set_map by simp
  show "b \<in> set (attempts_of t s) \<and> \<not> reclaims a b"
    if "b \<in> set (attempts_of t s')" "att_status b = Attempt_Running"
    using that unfolding at by (auto simp: upd_row_def split: if_splits)
qed

lemma reclaim_fold:
  assumes "foldM (reclaim_attempt t now) as s = Inr s'" and "l \<le> l'"
    and "distinct (map (\<lambda>a. (att_node a, att_number a)) as)"
    and "set as \<subseteq> set (attempts_of t s)" "\<forall>a\<in>set as. att_status a = Attempt_Running"
  shows "preserves t X l l' s s' \<and> (\<forall>b\<in>set (attempts_of t s'). att_status b = Attempt_Running \<longrightarrow>
      b \<in> set (attempts_of t s) \<and> (\<forall>a\<in>set as. \<not> reclaims a b))"
  using assms
proof (induction as arbitrary: s l)
  case (Cons a as)
  then obtain s1 where s1: "reclaim_attempt t now a s = Inr s1"
    and rest: "foldM (reclaim_attempt t now) as s1 = Inr s'"
    by (auto simp: result_simps)
  have step: "preserves t X l l' s s1"
    by (rule reclaim_attempt_preserves[OF s1 Cons.prems(2)]) (use Cons.prems in simp_all)
  have sub: "set as \<subseteq> set (attempts_of t s1)"
  proof
    fix b assume b: "b \<in> set as"
    have "(att_node b, att_number b) \<in> (\<lambda>a. (att_node a, att_number a)) ` set as"
      using b by (rule imageI)
    then have "\<not> reclaims a b"
      using Cons.prems(3) by (auto simp: reclaims_def)
    then show "b \<in> set (attempts_of t s1)"
      using reclaim_attempt_attempts(1)[OF s1, of b] Cons.prems(4) b by auto
  qed
  have "distinct (map (\<lambda>a. (att_node a, att_number a)) as)" "\<forall>a\<in>set as. att_status a = Attempt_Running"
    using Cons.prems(3,5) by simp_all
  note ih = Cons.IH[OF rest order_refl this(1) sub this(2)]
  show ?case
  proof (intro conjI ballI impI)
    show "preserves t X l l' s s'"
      using preserves_trans[OF step] ih by blast
    fix b assume b: "b \<in> set (attempts_of t s')" "att_status b = Attempt_Running"
    with ih have "b \<in> set (attempts_of t s1)" "\<forall>a\<in>set as. \<not> reclaims a b" by simp_all
    then show "b \<in> set (attempts_of t s)" "\<And>x. x \<in> set (a # as) \<Longrightarrow> \<not> reclaims x b"
      using reclaim_attempt_attempts(2)[OF s1 _ b(2)] by auto
  qed
qed (simp add: preserves_refl)

lemma expired_attempts_props:
  assumes "keys_ok t s"
  shows "distinct (map (\<lambda>a. (att_node a, att_number a)) (expired_attempts t now s))"
    "set (expired_attempts t now s) \<subseteq> set (attempts_of t s)"
    "\<forall>a\<in>set (expired_attempts t now s). att_status a = Attempt_Running"
  using assms
  by (auto simp: keys_ok_def expired_attempts_def select_where_def intro: distinct_map_filter)

lemma reclaim_expired_preserves [preserved]:
  assumes "reclaim_expired t now s = Inr s'" and "l \<le> l'"
  shows "preserves t X l l' s s'"
proof (rule preserves_under_inv)
  assume "wf_inv t l s"
  note e = expired_attempts_props[OF wf_invD(1)[OF this], of now]
  show "preserves t X l l' s s'"
    using reclaim_fold[OF assms(1)[unfolded reclaim_expired_def] assms(2) e] by blast
qed

text \<open>After the sweep no running attempt has an expired lease.\<close>

lemma reclaim_expired_live:
  assumes "reclaim_expired t now s = Inr s'" and "keys_ok t s"
    and "b \<in> set (attempts_of t s')" "att_status b = Attempt_Running"
  shows "b \<in> set (attempts_of t s)" and "att_lease_until b = Some u \<Longrightarrow> now < u"
proof -
  note e = expired_attempts_props[OF assms(2), of now]
  have b: "b \<in> set (attempts_of t s)" "\<And>a. a \<in> set (expired_attempts t now s) \<Longrightarrow> \<not> reclaims a b"
    using reclaim_fold[OF assms(1)[unfolded reclaim_expired_def] order_refl e] assms(3,4) by auto
  show "b \<in> set (attempts_of t s)" by (rule b(1))
  from b(2)[of b] have "b \<notin> set (expired_attempts t now s)"
    using assms(4) by (auto simp: reclaims_def)
  with b(1) assms(4) show "now < u" if "att_lease_until b = Some u"
    using that by (auto simp: expired_attempts_def)
qed

end
