(* ===== verification/Workflow_Steering.thy ===== *)
theory Workflow_Steering
  imports Workflow_Preservation
begin

text \<open>
  Preservation for the operations that act on a whole run (deadline, cancellation, pause and
  resume, budgets) and for lease renewal. The deadline sweep and \<open>cancel\<close> also close the run
  for good, which makes every claim on it useless.
\<close>

section \<open>Closing a run\<close>

lemma preserves_close_run:
  assumes "l \<le> l'"
    and cl: "\<And>a. att_status a = Attempt_Running \<Longrightarrow>
      same_attempt a (cl a) \<and> att_status (cl a) \<noteq> Attempt_Running"
    and f: "\<And>n. same_node n (f n) \<and> node_status (f n) = Node_Cancelled"
  shows "preserves t X l l' s
    (update_nodes t (\<lambda>n. node_run n = rid \<and> \<not> node_terminal (node_status n)) f
      (update_attempts t (\<lambda>a. att_run a = rid \<and> att_status a = Attempt_Running) cl s))"
proof (rule preserves_nodes_attempts[OF assms(1)], goal_cases)
  case (1 n)
  then show ?case using f[of n] by (simp add: node_move_def)
next
  case (2 a)
  then show ?case using cl by simp
next
  case (3 n a)
  then show ?case using attempt_run(1)[OF 3(1-4)] by simp
qed

lemma expire_run_preserves [preserved]:
  assumes "l \<le> l'"
  shows "preserves t X l l' s (expire_run t now r s)"
proof (cases "overdue now r")
  case True
  let ?s1 = "update_nodes t (\<lambda>n. node_run n = run_id r \<and> \<not> node_terminal (node_status n))
     (\<lambda>n. n\<lparr>node_status := Node_Cancelled, node_error_code := Some deadline_error,
            node_updated_at := now, node_completed_at := Some now\<rparr>)
     (update_attempts t (\<lambda>a. att_run a = run_id r \<and> att_status a = Attempt_Running)
       (\<lambda>a. (close_attempt Attempt_Cancelled now a)\<lparr>att_error_code := Some deadline_error\<rparr>) s)"
  have "preserves t X l l' s ?s1"
    by (rule preserves_close_run[OF assms]) (simp_all add: close_attempt_same same_node_def)
  moreover have "preserves t X l' l' ?s1 (expire_run t now r s)"
    using True unfolding expire_run_def
    by (auto intro!: preserves_update_runs simp: run_revision_same_run)
  ultimately show ?thesis by (rule preserves_trans)
qed (simp add: expire_run_def preserves_refl[OF assms])

lemma fold_preserves:
  assumes "l \<le> l'" and "\<And>x s l. l \<le> l' \<Longrightarrow> preserves t X l l' s (f x s)"
  shows "preserves t X l l' s (fold f xs s)"
  using assms(1)
proof (induction xs arbitrary: s l)
  case (Cons x xs)
  then show ?case
    using preserves_trans[OF assms(2)[OF Cons.prems, of s x] Cons.IH[OF order_refl]] by simp
qed (simp add: preserves_refl)

lemma expire_overdue_preserves [preserved]:
  "l \<le> l' \<Longrightarrow> preserves t X l l' s (expire_overdue t now s)"
  unfolding expire_overdue_def by (rule fold_preserves) (simp_all add: expire_run_preserves)

text \<open>A run that was read and is not terminal is not closed.\<close>

lemma locked_run_open:
  assumes "locked_run t rid s = Inr r" and "\<not> run_terminal (run_status r)"
  shows "\<not> closed_run t rid st s"
  using locked_run_Inr[OF assms(1)] assms(2) by (auto simp: closed_run_def)

lemma run_from_row_status: "run_from_row r = Inr r' \<Longrightarrow> run_status r' = run_status r
    \<and> run_active_revision r' = run_active_revision r \<and> run_budget r' = run_budget r
    \<and> run_id r' = run_id r \<and> run_model_rounds_used r' = run_model_rounds_used r
    \<and> run_tool_invocations_used r' = run_tool_invocations_used r"
  by (auto dest!: run_from_row_Inr)

lemma preserves_locked:
  assumes "locked_run t rid s = Inr row" "run_from_row row = Inr run"
    "\<not> run_terminal (run_status run)" "preserves t {rid} l l' s s'"
  shows "preserves t {} l l' s s'"
  using preserves_open[OF assms(4)] locked_run_open[OF assms(1)] run_from_row_status[OF assms(2)]
    assms(3) by auto

lemma map_sum_Pair_Inr: "map_sum id (Pair s) x = Inr (s', y) \<longleftrightarrow> s' = s \<and> x = Inr y"
  by (cases x) auto

lemma cancel_cases:
  assumes "cancel t rid now s = Inr (s', sn)"
  obtains row where "s' = s" "locked_run t rid s = Inr row" "run_terminal (run_status row)"
  | row run where "locked_run t rid s = Inr row" "run_from_row row = Inr run"
    "\<not> run_terminal (run_status run)" "s' = update_runs t (\<lambda>r. run_id r = rid)
         (\<lambda>r. r\<lparr>run_status := Run_Cancelled, run_pause_requested := False,
                run_cancellation_revision := run_cancellation_revision r + 1,
                run_updated_at := now, run_completed_at := Some now\<rparr>)
       (update_nodes t (\<lambda>n. node_run n = rid \<and> \<not> node_terminal (node_status n))
             (\<lambda>n. n\<lparr>node_status := Node_Cancelled, node_updated_at := now,
                    node_completed_at := Some now\<rparr>)
       (update_attempts t (\<lambda>a. att_run a = rid \<and> att_status a = Attempt_Running)
     (\<lambda>a. (close_attempt Attempt_Cancelled now a)\<lparr>att_error_code := Some ''WORKFLOW_CANCELLED''\<rparr>) s))"
proof -
  obtain row run where r: "locked_run t rid s = Inr row" "run_from_row row = Inr run"
    using assms unfolding cancel_def by (auto simp: result_simps)
  show ?thesis
  proof (cases "run_terminal (run_status run)")
    case True
    then show ?thesis
      using that(1) assms r run_from_row_status[OF r(2)] unfolding cancel_def
      by (simp add: map_sum_Pair_Inr)
  next
    case False
    then show ?thesis
      using that(2)[OF r] assms r unfolding cancel_def Let_def cancel_running_attempts_def
      by (auto dest!: with_snapshot_Inr)
  qed
qed

lemma cancel_preserves [preserved]:
  assumes "cancel t rid now s = Inr (s', sn)" and "l \<le> l'"
  shows "preserves t {} l l' s s'"
  using assms(1)
proof (cases rule: cancel_cases)
  case 1
  then show ?thesis using assms(2) by (simp add: preserves_refl)
next
  case (2 row run)
  have "preserves t {rid} l l' s (update_nodes t (\<lambda>n. node_run n = rid \<and> \<not> node_terminal (node_status n))
             (\<lambda>n. n\<lparr>node_status := Node_Cancelled, node_updated_at := now,
                    node_completed_at := Some now\<rparr>)
       (update_attempts t (\<lambda>a. att_run a = rid \<and> att_status a = Attempt_Running)
     (\<lambda>a. (close_attempt Attempt_Cancelled now a)\<lparr>att_error_code := Some ''WORKFLOW_CANCELLED''\<rparr>) s))"
    by (rule preserves_close_run[OF assms(2)]) (simp_all add: close_attempt_same same_node_def)
  also have "preserves t {rid} l' l' \<dots> s'"
    unfolding 2(4) by (rule preserves_update_runs) (simp_all add: run_revision_same_run)
  finally show ?thesis by (rule preserves_locked[OF 2(1-3)])
qed

section \<open>Pause and resume\<close>

lemma request_pause_preserves [preserved]:
  assumes "request_pause t rid now s = Inr (s', sn)" and "l \<le> l'"
  shows "preserves t {} l l' s s'"
proof (cases "s' = s")
  case False
  then obtain row run st where run: "locked_run t rid s = Inr row" "run_from_row row = Inr run"
    "\<not> run_terminal (run_status run)" and s': "s' = update_runs t (\<lambda>r. run_id r = rid)
         (\<lambda>r. r\<lparr>run_pause_requested := True, run_status := st, run_updated_at := now\<rparr>) s"
    using assms(1) unfolding request_pause_def Let_def
    by (auto simp: result_simps map_sum_Pair_Inr split: if_splits dest!: with_snapshot_Inr)
  have "preserves t {rid} l l' s s'"
    unfolding s' by (rule preserves_update_runs[OF assms(2)]) (simp_all add: same_run_def run_check_def)
  then show ?thesis by (rule preserves_locked[OF run])
qed (simp add: preserves_refl assms)

lemma resume_preserves [preserved]:
  assumes "resume t rid now s = Inr (s', sn)" and "l \<le> l'"
  shows "preserves t {} l l' s s'"
proof (cases "s' = s")
  case False
  define f where "f = (\<lambda>n::workflow_node. n\<lparr>node_status := Node_Ready, node_updated_at := now\<rparr>)"
  obtain row run where run: "locked_run t rid s = Inr row" "run_from_row row = Inr run"
    "\<not> run_terminal (run_status run)"
    using assms(1) False unfolding resume_def Let_def
    by (auto simp: result_simps map_sum_Pair_Inr split: if_splits)
  define s1 where "s1 = (if run_status run \<in> {Run_Waiting_For_Approval, Run_Waiting_For_Input}
    then update_nodes t (\<lambda>n. node_run n = rid \<and> node_plan_revision n = run_active_revision run
      \<and> node_status n \<in> {Node_Waiting_For_Approval, Node_Waiting_For_Input}) f s else s)"
  have s': "s' = update_runs t (\<lambda>r. run_id r = rid) (\<lambda>r. r\<lparr>run_pause_requested := False,
      run_status := (if has_running_attempt t rid s1 then Run_Running else Run_Queued),
      run_updated_at := now\<rparr>) s1"
    using assms(1) run unfolding resume_def Let_def s1_def f_def by (auto dest!: with_snapshot_Inr)
  have "preserves t {rid} l l' s s1"
    unfolding s1_def
    by (auto intro!: preserves_refl assms(2) preserves_update_nodes
        simp: f_def same_node_def node_move_def)
  also have "preserves t {rid} l' l' s1 s'"
    unfolding s' by (rule preserves_update_runs) (simp_all add: same_run_def run_check_def)
  finally show ?thesis by (rule preserves_locked[OF run])
qed (simp add: preserves_refl assms)

section \<open>Budgets\<close>

lemma update_run_checked_Inr:
  "update_run_checked t p f s = Inr s' \<longleftrightarrow>
     s' = update_runs t p f s \<and> (\<forall>r\<in>set (runs_of t s). p r \<longrightarrow> run_check (f r))"
  by (auto simp: update_run_checked_def result_simps list_all_iff)

lemma reserve_budget_cases:
  assumes "reserve_budget t rid rounds tools now s = Inr (s', sn)"
  obtains row where "locked_run t rid s = Inr row" "\<not> run_terminal (run_status row)"
    "0 \<le> rounds" "0 \<le> tools" "rounds \<noteq> 0 \<or> tools \<noteq> 0"
    "run_model_rounds_used row + rounds \<le> max_model_rounds (run_budget row)"
    "run_tool_invocations_used row + tools \<le> max_tool_invocations (run_budget row)"
    "update_run_checked t (\<lambda>r. run_id r = rid
        \<and> run_model_rounds_used r = run_model_rounds_used row
        \<and> run_tool_invocations_used r = run_tool_invocations_used row)
      (\<lambda>r. r\<lparr>run_model_rounds_used := run_model_rounds_used row + rounds,
             run_tool_invocations_used := run_tool_invocations_used row + tools,
             run_updated_at := now\<rparr>) s = Inr s'"
proof -
  obtain row run s1 where *: "locked_run t rid s = Inr row" "run_from_row row = Inr run"
    and "\<not> (rounds < 0 \<or> tools < 0 \<or> \<not> (rounds \<noteq> 0 \<or> tools \<noteq> 0))"
      "\<not> run_terminal (run_status run)"
      "\<not> (run_model_rounds_used run + rounds > max_model_rounds (run_budget run)
         \<or> run_tool_invocations_used run + tools > max_tool_invocations (run_budget run))"
      "update_run_checked t (\<lambda>r. run_id r = rid
        \<and> run_model_rounds_used r = run_model_rounds_used run
        \<and> run_tool_invocations_used r = run_tool_invocations_used run)
      (\<lambda>r. r\<lparr>run_model_rounds_used := run_model_rounds_used run + rounds,
             run_tool_invocations_used := run_tool_invocations_used run + tools,
             run_updated_at := now\<rparr>) s = Inr s1" "with_snapshot t rid s1 = Inr (s', sn)"
    using assms unfolding reserve_budget_def Let_def by (auto simp: result_simps)
  moreover have "s' = s1" using calculation(7) by (rule with_snapshot_Inr)
  ultimately show ?thesis
    using that[of row] run_from_row_status[OF *(2)] by (simp add: not_less)
qed

lemma reserve_budget_preserves [preserved]:
  assumes "reserve_budget t rid rounds tools now s = Inr (s', sn)" and "l \<le> l'"
  shows "preserves t {} l l' s s'"
  using assms(1)
proof (cases rule: reserve_budget_cases)
  case (1 row)
  have "\<not> closed_run t rid st s" for st
    using locked_run_open[OF 1(1,2)] by blast
  moreover have "preserves t {rid} l l' s s'"
    using 1(8) assms(2) unfolding update_run_checked_Inr
    by (auto intro!: preserves_update_runs simp: same_run_def)
  ultimately show ?thesis using preserves_open by blast
qed

lemma upgrade_budget_cases:
  assumes "upgrade_budget t rid budget now s = Inr (s', sn)"
  obtains "s' = s" | row where "locked_run t rid s = Inr row" "\<not> run_terminal (run_status row)"
    "tier (run_budget row) = Tier_Normal" "tier budget = Tier_Deep"
    "max_model_rounds (run_budget row) \<le> max_model_rounds budget"
    "max_tool_invocations (run_budget row) \<le> max_tool_invocations budget"
    "max_duration_seconds (run_budget row) \<le> max_duration_seconds budget"
    "max_parallel_nodes (run_budget row) \<le> max_parallel_nodes budget"
    "update_run_checked t (\<lambda>r. run_id r = rid) (\<lambda>r. r\<lparr>run_budget := budget, run_updated_at := now\<rparr>) s
       = Inr s'"
proof -
  obtain row run where *: "locked_run t rid s = Inr row" "run_from_row row = Inr run"
    using assms unfolding upgrade_budget_def by (auto simp: result_simps)
  note rs = run_from_row_status[OF *(2)]
  show ?thesis
  proof (cases "run_budget run = budget")
    case True
    then show ?thesis
      using that(1) assms * unfolding upgrade_budget_def by (simp add: map_sum_Pair_Inr)
  next
    case False
    then obtain s1 where "update_run_checked t (\<lambda>r. run_id r = rid)
        (\<lambda>r. r\<lparr>run_budget := budget, run_updated_at := now\<rparr>) s = Inr s1"
        "with_snapshot t rid s1 = Inr (s', sn)" "\<not> run_terminal (run_status run)"
        "\<not> (tier (run_budget run) \<noteq> Tier_Normal \<or> tier budget \<noteq> Tier_Deep
         \<or> max_model_rounds budget < max_model_rounds (run_budget run)
         \<or> max_tool_invocations budget < max_tool_invocations (run_budget run)
         \<or> max_duration_seconds budget < max_duration_seconds (run_budget run)
         \<or> max_parallel_nodes budget < max_parallel_nodes (run_budget run))"
      using assms * unfolding upgrade_budget_def by (auto simp: result_simps)
    moreover have "s' = s1" using calculation(2) by (rule with_snapshot_Inr)
    ultimately show ?thesis
      using that(2)[OF *(1)] rs by (simp add: not_less)
  qed
qed

lemma upgrade_budget_preserves [preserved]:
  assumes "upgrade_budget t rid budget now s = Inr (s', sn)" and "l \<le> l'"
  shows "preserves t {} l l' s s'"
  using assms(1)
proof (cases rule: upgrade_budget_cases)
  case 1
  then show ?thesis using assms(2) by (simp add: preserves_refl)
next
  case (2 row)
  show ?thesis
  proof (rule preserves_under_inv)
    assume inv: "wf_inv t l s"
    have only: "r = row" if "r \<in> set (runs_of t s)" "run_id r = rid" for r
      using unique_run[OF wf_invD(1)[OF inv] that(1)] locked_run_Inr[OF 2(1)] that(2) by simp
    have "preserves t {rid} l l' s s'"
      using 2(8,9) assms(2) only unfolding update_run_checked_Inr
      by (auto intro!: preserves_update_runs simp: same_run_def)
    then show "preserves t {} l l' s s'"
      using preserves_open locked_run_open[OF 2(1,2)] by blast
  qed
qed

end
