(* ===== verification/Workflow_Selection.thy ===== *)
theory Workflow_Selection
  imports Workflow_Claims "HOL-Library.Multiset"
begin

text \<open>
  The selection loop of \<open>claim_ready\<close>: what the rows it returns satisfy. \<open>admissible\<close> says that
  each row fits beside the nodes already active and the rows before it, \<open>reserve_kept\<close> that the
  slot kept back for a child run is still free, and the last section that the loop stops only
  when no remaining row can be taken.
\<close>

definition row_run :: "claim_row \<Rightarrow> uuid" where
  "row_run row = run_id (snd row)"

definition node_slot :: "workflow_node \<Rightarrow> concurrency_policy \<times> string set" where
  "node_slot n = (node_policy n, set (node_resource_keys n))"

definition full :: "(uuid \<Rightarrow> (concurrency_policy \<times> string set) list) \<Rightarrow> claim_row \<Rightarrow> bool" where
  "full A row \<longleftrightarrow>
     max_parallel_nodes (run_budget (snd row)) \<le> int (length (A (row_run row)))
     \<or> conflicts (node_policy (fst row)) (set (node_resource_keys (fst row))) (A (row_run row))"

definition occupy ::
  "claim_row \<Rightarrow> (uuid \<Rightarrow> (concurrency_policy \<times> string set) list) \<Rightarrow>
   uuid \<Rightarrow> (concurrency_policy \<times> string set) list" where
  "occupy row A = A(row_run row := A (row_run row) @ [node_slot (fst row)])"

fun admissible ::
  "(uuid \<Rightarrow> (concurrency_policy \<times> string set) list) \<Rightarrow> claim_row list \<Rightarrow> bool" where
  "admissible A [] = True"
| "admissible A (row # picked) \<longleftrightarrow> \<not> full A row \<and> admissible (occupy row A) picked"

lemma admissible_snoc:
  "admissible A (rs @ [row]) \<longleftrightarrow> admissible A rs \<and> \<not> full (fold occupy rs A) row"
  by (induction rs arbitrary: A) auto

lemma run_is_full_iff: "run_is_full row sel = full (sel_active sel) row"
  by (simp add: run_is_full_def full_def row_run_def Let_def)

lemma select_row_simps [simp]:
  "sel_rows (select_row kinds row sel) = sel_rows sel @ [row]"
  "sel_active (select_row kinds row sel) = occupy row (sel_active sel)"
  "sel_child (select_row kinds row sel) = (sel_child sel \<or> is_child row)"
  "sel_blocking (select_row kinds row sel) = (sel_blocking sel \<or> is_blocking_parent kinds row)"
  by (simp_all add: select_row_def occupy_def row_run_def node_slot_def)

section \<open>The invariant of the loop\<close>

definition reserve_kept :: "int \<Rightarrow> string set \<Rightarrow> bool \<Rightarrow> claim_row list \<Rightarrow> bool" where
  "reserve_kept limit kinds reserve picked \<longleftrightarrow>
     \<not> (\<exists>row\<in>set picked. is_child row) \<longrightarrow> reserve \<or> (\<exists>row\<in>set picked. is_blocking_parent kinds row) \<longrightarrow>
     int (length picked) \<le> limit - 1"

definition sel_ok ::
  "(uuid \<Rightarrow> (concurrency_policy \<times> string set) list) \<Rightarrow> int \<Rightarrow> string set \<Rightarrow> bool \<Rightarrow> selection \<Rightarrow> bool" where
  "sel_ok A limit kinds reserve sel \<longleftrightarrow>
     sel_active sel = fold occupy (sel_rows sel) A \<and> admissible A (sel_rows sel)
     \<and> sel_child sel = (\<exists>row\<in>set (sel_rows sel). is_child row)
     \<and> sel_blocking sel = (\<exists>row\<in>set (sel_rows sel). is_blocking_parent kinds row)
     \<and> int (length (sel_rows sel)) \<le> limit
     \<and> reserve_kept limit kinds reserve (sel_rows sel)"

lemma select_row_ok:
  assumes "sel_ok A limit kinds reserve sel"
    and "\<not> (limit \<le> int (length (sel_rows sel)) \<or> reserved_slot limit kinds reserve row sel
      \<or> run_is_full row sel)"
  shows "sel_ok A limit kinds reserve (select_row kinds row sel)"
  using assms unfolding sel_ok_def reserve_kept_def run_is_full_iff reserved_slot_def
  by (auto simp: admissible_snoc)

lemma select_pass_ok:
  assumes "sel_ok A limit kinds reserve sel"
  shows "sel_ok A limit kinds reserve (fst (select_pass limit kinds reserve seen rest sel))"
  using assms
proof (induction limit kinds reserve seen rest sel rule: select_pass.induct)
  case (2 limit kinds reserve seen row rest sel)
  show ?case
  proof (cases "run_id (snd row) \<in> set seen \<or> limit \<le> int (length (sel_rows sel))
         \<or> reserved_slot limit kinds reserve row sel \<or> run_is_full row sel")
    case True
    then show ?thesis using 2 by (simp add: case_prod_beta)
  next
    case False
    then show ?thesis using 2 select_row_ok[OF 2(3)] by (simp add: case_prod_beta)
  qed
qed simp

lemma select_pass_mset:
  "mset (sel_rows (fst (select_pass limit kinds reserve seen rest sel)))
     + mset (snd (snd (select_pass limit kinds reserve seen rest sel)))
   = mset (sel_rows sel) + mset rest"
  by (induction limit kinds reserve seen rest sel rule: select_pass.induct)
    (simp_all add: case_prod_beta)

lemma select_pass_stuck:
  assumes "\<not> fst (snd (select_pass limit kinds reserve seen rest sel))"
  shows "fst (select_pass limit kinds reserve seen rest sel) = sel
    \<and> (\<forall>row\<in>set rest. row_run row \<in> set seen \<or> limit \<le> int (length (sel_rows sel))
         \<or> reserved_slot limit kinds reserve row sel \<or> run_is_full row sel)"
  using assms
  by (induction limit kinds reserve seen rest sel rule: select_pass.induct)
    (auto simp: case_prod_beta row_run_def split: if_splits)

lemma select_loop_step:
  "remaining \<noteq> [] \<Longrightarrow> \<not> limit \<le> int (length (sel_rows sel)) \<Longrightarrow>
   select_loop limit kinds reserve remaining sel =
     (let p = select_pass limit kinds reserve [] remaining sel in
      if fst (snd p) then select_loop limit kinds reserve (snd (snd p)) (fst p) else fst p)"
  by (subst select_loop.simps) (simp add: case_prod_beta Let_def)

lemma select_loop_stop:
  "remaining = [] \<or> limit \<le> int (length (sel_rows sel)) \<Longrightarrow>
   select_loop limit kinds reserve remaining sel = sel"
  by (subst select_loop.simps) simp

lemma select_loop_ok:
  assumes "sel_ok A limit kinds reserve sel"
  shows "sel_ok A limit kinds reserve (select_loop limit kinds reserve remaining sel)"
  using assms
proof (induction "length remaining" arbitrary: remaining sel rule: less_induct)
  case less
  define p where "p = select_pass limit kinds reserve [] remaining sel"
  have "sel_ok A limit kinds reserve (fst p)"
    unfolding p_def by (rule select_pass_ok[OF less.prems])
  moreover have "fst (snd p) \<Longrightarrow> length (snd (snd p)) < length remaining"
    unfolding p_def using select_pass_skipped by blast
  ultimately show ?case
    using less select_loop_step[of remaining limit sel] select_loop_stop[of remaining limit sel]
    by (cases "remaining = [] \<or> limit \<le> int (length (sel_rows sel))")
      (auto simp: p_def[symmetric] Let_def)
qed

lemma select_loop_mset:
  "mset (sel_rows (select_loop limit kinds reserve remaining sel)) \<subseteq># mset (sel_rows sel) + mset remaining"
proof (induction "length remaining" arbitrary: remaining sel rule: less_induct)
  case less
  define p where "p = select_pass limit kinds reserve [] remaining sel"
  have m: "mset (sel_rows (fst p)) + mset (snd (snd p)) = mset (sel_rows sel) + mset remaining"
    unfolding p_def by (rule select_pass_mset)
  have "fst (snd p) \<Longrightarrow> length (snd (snd p)) < length remaining"
    unfolding p_def using select_pass_skipped by blast
  with less[of "snd (snd p)" "fst p"] m
  have "fst (snd p) \<Longrightarrow> mset (sel_rows (select_loop limit kinds reserve (snd (snd p)) (fst p)))
      \<subseteq># mset (sel_rows sel) + mset remaining"
    by simp
  moreover have "mset (sel_rows (fst p)) \<subseteq># mset (sel_rows sel) + mset remaining"
    using m by (metis mset_subset_eq_add_left)
  ultimately show ?case
    using select_loop_step[of remaining limit sel] select_loop_stop[of remaining limit sel]
    by (cases "remaining = [] \<or> limit \<le> int (length (sel_rows sel))")
      (auto simp: p_def[symmetric] Let_def)
qed

text \<open>What is left out when the loop stops could not be taken.\<close>

lemma select_loop_maximal:
  assumes "row \<in># (mset (sel_rows sel) + mset remaining)
      - mset (sel_rows (select_loop limit kinds reserve remaining sel))"
  shows "limit \<le> int (length (sel_rows (select_loop limit kinds reserve remaining sel)))
    \<or> reserved_slot limit kinds reserve row (select_loop limit kinds reserve remaining sel)
    \<or> run_is_full row (select_loop limit kinds reserve remaining sel)"
  using assms
proof (induction "length remaining" arbitrary: remaining sel rule: less_induct)
  case less
  define p where "p = select_pass limit kinds reserve [] remaining sel"
  have m: "mset (sel_rows (fst p)) + mset (snd (snd p)) = mset (sel_rows sel) + mset remaining"
    unfolding p_def by (rule select_pass_mset)
  consider "remaining = []" | "limit \<le> int (length (sel_rows sel))"
    | "remaining \<noteq> []" "\<not> limit \<le> int (length (sel_rows sel))" "fst (snd p)"
    | "remaining \<noteq> []" "\<not> limit \<le> int (length (sel_rows sel))" "\<not> fst (snd p)" by blast
  then show ?case
  proof cases
    case 3
    then have eq: "select_loop limit kinds reserve remaining sel
        = select_loop limit kinds reserve (snd (snd p)) (fst p)"
      using select_loop_step[of remaining limit sel] by (simp add: p_def[symmetric] Let_def)
    have "length (snd (snd p)) < length remaining"
      using 3(3) select_pass_skipped unfolding p_def by blast
    then show ?thesis
      using less(1)[of "snd (snd p)" "fst p"] less(2) m unfolding eq by simp
  next
    case 4
    then have eq: "select_loop limit kinds reserve remaining sel = sel"
      using select_loop_step[of remaining limit sel] select_pass_stuck[of limit kinds reserve "[]" remaining sel]
      by (simp add: p_def[symmetric] Let_def)
    have "row \<in> set remaining"
      using less(2) unfolding eq by simp
    then show ?thesis
      using select_pass_stuck[of limit kinds reserve "[]" remaining sel] 4(3) unfolding eq p_def by auto
  qed (use less(2) select_loop_stop[of remaining limit sel] in auto)
qed

section \<open>The rows chosen\<close>

lemma eligible_rows_mem:
  "(n, r) \<in> set (eligible_rows t now s) \<longleftrightarrow>
     n \<in> set (nodes_of t s) \<and> r \<in> set (runs_of t s) \<and> run_id r = node_run n
     \<and> run_active_revision r = node_plan_revision n \<and> node_status n = Node_Ready
     \<and> node_available_at n \<le> now \<and> (run_status r = Run_Queued \<or> run_status r = Run_Running)
     \<and> \<not> run_pause_requested r"
  by (auto simp: eligible_rows_def)

lemma active_by_run_eq:
  "active_by_run t s rid = map node_slot
     (filter (\<lambda>n. node_run n = rid \<and> node_status n = Node_Running) (nodes_of t s))"
  by (simp add: active_by_run_def select_where_def node_slot_def conj_commute)

lemma select_claims_ok:
  assumes "1 \<le> limit"
  shows "admissible (active_by_run t s) (select_claims t now limit kinds reserve s)"
    and "int (length (select_claims t now limit kinds reserve s)) \<le> limit"
    and "reserve_kept limit kinds reserve (select_claims t now limit kinds reserve s)"
    and "mset (select_claims t now limit kinds reserve s) \<subseteq># mset (eligible_rows t now s)"
    and "set (select_claims t now limit kinds reserve s) \<subseteq> set (eligible_rows t now s)"
proof -
  let ?init = "\<lparr>sel_rows = [], sel_child = False, sel_blocking = False, sel_active = active_by_run t s\<rparr>"
  have "sel_ok (active_by_run t s) limit kinds reserve ?init"
    using assms by (simp add: sel_ok_def reserve_kept_def)
  then have "sel_ok (active_by_run t s) limit kinds reserve
      (select_loop limit kinds reserve (eligible_rows t now s) ?init)"
    by (rule select_loop_ok)
  then show "admissible (active_by_run t s) (select_claims t now limit kinds reserve s)"
    and "int (length (select_claims t now limit kinds reserve s)) \<le> limit"
    and "reserve_kept limit kinds reserve (select_claims t now limit kinds reserve s)"
    by (simp_all add: select_claims_def sel_ok_def)
  show m: "mset (select_claims t now limit kinds reserve s) \<subseteq># mset (eligible_rows t now s)"
    using select_loop_mset[of limit kinds reserve "eligible_rows t now s" ?init]
    by (simp add: select_claims_def)
  show "set (select_claims t now limit kinds reserve s) \<subseteq> set (eligible_rows t now s)"
    using set_mset_mono[OF m] by simp
qed

text \<open>A row that was eligible and is not chosen could not be added to the rows that are.\<close>

lemma select_claims_stop:
  assumes "1 \<le> limit" and row: "row \<in> set (eligible_rows t now s)"
    "row \<notin> set (select_claims t now limit kinds reserve s)"
  defines "chosen \<equiv> select_claims t now limit kinds reserve s"
  shows "limit \<le> int (length chosen)
    \<or> full (fold occupy chosen (active_by_run t s)) row
    \<or> \<not> is_child row \<and> \<not> (\<exists>x\<in>set chosen. is_child x)
      \<and> (reserve \<or> (\<exists>x\<in>set (row # chosen). is_blocking_parent kinds x))
      \<and> limit - 1 \<le> int (length chosen)"
proof -
  let ?init = "\<lparr>sel_rows = [], sel_child = False, sel_blocking = False, sel_active = active_by_run t s\<rparr>"
  define sel where "sel = select_loop limit kinds reserve (eligible_rows t now s) ?init"
  have chosen: "chosen = sel_rows sel"
    by (simp add: chosen_def sel_def select_claims_def)
  have ok: "sel_ok (active_by_run t s) limit kinds reserve sel"
    unfolding sel_def by (rule select_loop_ok) (use assms(1) in \<open>simp add: sel_ok_def reserve_kept_def\<close>)
  have "row \<notin> set (sel_rows sel)"
    using row(2) chosen by (simp add: chosen_def)
  then have "row \<in># (mset (sel_rows ?init) + mset (eligible_rows t now s)) - mset (sel_rows sel)"
    using row(1) by (simp add: in_diff_count) (metis count_eq_zero_iff count_greater_zero_iff set_mset_mset)
  then have "limit \<le> int (length (sel_rows sel)) \<or> reserved_slot limit kinds reserve row sel
      \<or> run_is_full row sel"
    unfolding sel_def by (rule select_loop_maximal)
  then show ?thesis
    using ok unfolding chosen sel_ok_def run_is_full_iff reserved_slot_def by auto
qed

end
