(* ===== verification/Workflow_Claiming.thy ===== *)
theory Workflow_Claiming
  imports Workflow_Steering Workflow_Selection
begin

text \<open>
  Preservation for the two operations that hand out leases: \<open>renew\<close> and \<open>claim_ready\<close>. The
  claim needs more than the invariant of the store: the rows it was given by the selection loop
  must fit beside the nodes already running, which is what \<open>admissible\<close> says, and the sweep
  before the selection must have closed every expired attempt.
\<close>

section \<open>Renewing a lease\<close>

definition live :: "tenant \<Rightarrow> instant \<Rightarrow> wf_store \<Rightarrow> bool" where
  "live t tm s \<longleftrightarrow> (\<forall>a\<in>set (attempts_of t s). att_status a = Attempt_Running \<longrightarrow> \<not> stale tm a)"

lemma stale_not_live: "stale tm a \<Longrightarrow> tm \<le> now \<Longrightarrow> \<not> lease_live now a"
  by (auto simp: stale_def lease_live_def split: option.splits)

lemma preserves_new_lease:
  assumes le: "l \<le> now" "now \<le> l'"
    and p: "\<And>a. p a \<Longrightarrow> att_status a = Attempt_Running \<and> lease_live now a"
  shows "preserves t X l l' s (update_attempts t p (\<lambda>a. a\<lparr>att_lease_until := Some u\<rparr>) s)"
    (is "preserves t X l l' s ?s")
proof (rule preservesI, intro conjI allI impI)
  let ?h = "upd_row p (\<lambda>a. a\<lparr>att_lease_until := Some u\<rparr>)"
  assume inv: "wf_inv t l s"
  note i = wf_invD[OF inv]
  have h: "att_node (?h a) = att_node a" "att_number (?h a) = att_number a"
      "att_run (?h a) = att_run a" "att_status (?h a) = att_status a" for a
    by (simp_all add: upd_row_def)
  have check: "attempt_check a \<Longrightarrow> attempt_check (?h a)" for a
    using p[of a] by (auto simp: upd_row_def attempt_check_def)
  have "keys_ok t ?s"
    using i(1) distinct_map_keep[of "\<lambda>a. (att_node a, att_number a)" "attempts_of t s" ?h] h
    by (simp add: keys_ok_def)
  moreover have "attempts_ok t ?s"
    using i(5) h check by (simp add: attempts_ok_def)
  moreover have "leases_ok t l' ?s"
    unfolding leases_ok_def update_tables rows_update set_map
  proof (intro conjI ballI impI; (elim imageE; hypsubst)?)
    fix n assume n: "n \<in> set (nodes_of t s)" "node_status n = Node_Running"
    then obtain a where "a \<in> set (attempts_of t s)" "att_node a = node_id n"
        "att_number a = node_attempt_count n" "att_status a = Attempt_Running"
      using i(6) unfolding leases_ok_def by blast
    then show "\<exists>a\<in>?h ` set (attempts_of t s). att_node a = node_id n
        \<and> att_number a = node_attempt_count n \<and> att_status a = Attempt_Running"
      using h by auto
  next
    fix n a assume na: "n \<in> set (nodes_of t s)" "a \<in> set (attempts_of t s)"
      "att_status (?h a) = Attempt_Running" "att_node (?h a) = node_id n"
    then have old: "if node_status n = Node_Running then att_number a = node_attempt_count n
        else stale l a"
      using i(6) h unfolding leases_ok_def by simp
    have "\<not> p a" if "stale l a"
      using p[of a] stale_not_live[OF that le(1)] by blast
    then show "if node_status n = Node_Running then att_number (?h a) = node_attempt_count n
        else stale l' (?h a)"
      using old h le stale_mono[of l a l'] by (auto split: if_splits)
  qed
  ultimately show "wf_inv t l' ?s"
    using i by (simp add: wf_inv_def runs_ok_def nodes_ok_def edges_ok_def deps_ok_def slots_ok_def)
  show "terminal_nodes_kept t s ?s"
    by (auto simp: terminal_nodes_kept_def)
  show "closed_run t rid st ?s" if "closed_run t rid st s" for rid st
    using that by (simp add: closed_run_def)
qed

lemma renew_Inr:
  assumes "renew t c lease_until clk s = Inr (s', ok)"
  shows "s' = update_attempts t (live_claim_predicates c (clk 1))
      (\<lambda>a. a\<lparr>att_lease_until := Some lease_until\<rparr>) (expire_overdue t (clk 0) s)"
    and "ok \<longleftrightarrow> length (select_where t (live_claim_predicates c (clk 1))
      (attempts_t (expire_overdue t (clk 0) s))) = 1"
    and "clk 0 < lease_until"
  using assms unfolding renew_def Let_def by (auto simp: result_simps)

lemma renew_preserves [preserved]:
  assumes "renew t c lease_until clk s = Inr (s', ok)"
    and "l \<le> clk 0" "clk 0 \<le> clk 1" "clk 1 \<le> l'"
  shows "preserves t X l l' s s'"
proof -
  have "preserves t X l (clk 0) s (expire_overdue t (clk 0) s)"
    by (rule expire_overdue_preserves[OF assms(2)])
  also have "preserves t X (clk 0) l' \<dots> s'"
    unfolding renew_Inr(1)[OF assms(1)]
    by (rule preserves_new_lease[OF assms(3,4)])
      (simp add: live_claim_predicates_def claim_predicates_def)
  finally show ?thesis .
qed

section \<open>Starting one node\<close>

definition starts :: "workflow_node \<Rightarrow> workflow_node \<Rightarrow> bool" where
  "starts m m' \<longleftrightarrow> node_id m' = node_id m \<and> node_run m' = node_run m
     \<and> node_plan_revision m' = node_plan_revision m \<and> node_policy m' = node_policy m
     \<and> node_resource_keys m' = node_resource_keys m
     \<and> node_attempt_count m' = node_attempt_count m + 1
     \<and> node_status m = Node_Ready \<and> node_status m' = Node_Running \<and> node_check m'"

text \<open>The tables after one claim, and what the claim has checked before.\<close>

definition node_starts ::
  "tenant \<Rightarrow> instant \<Rightarrow> wf_store \<Rightarrow> wf_store \<Rightarrow> workflow_node \<Rightarrow> workflow_node \<Rightarrow> workflow_attempt \<Rightarrow>
   (workflow_run \<Rightarrow> workflow_run) \<Rightarrow> bool" where
  "node_starts t now s s' m m' a k \<longleftrightarrow>
     live t now s \<and> m \<in> set (nodes_of t s) \<and> starts m m'
     \<and> nodes_of t s' = map (\<lambda>x. if x = m then m' else x) (nodes_of t s)
     \<and> attempts_of t s' = attempts_of t s @ [a]
     \<and> runs_of t s' = map k (runs_of t s) \<and> edges_of t s' = edges_of t s
     \<and> att_node a = node_id m \<and> att_number a = node_attempt_count m' \<and> att_run a = node_run m
     \<and> att_status a = Attempt_Running \<and> attempt_check a
     \<and> (att_node a, att_number a) \<notin> (\<lambda>a. (att_node a, att_number a)) ` set (attempts_of t s)
     \<and> (\<forall>r\<in>set (runs_of t s). same_run r (k r)
          \<and> (run_terminal (run_status r) \<longrightarrow> run_status (k r) = run_status r))
     \<and> (\<forall>r\<in>set (runs_of t s). run_id r = node_run m \<longrightarrow>
          int (length (filter (running_in (node_run m)) (nodes_of t s))) < max_parallel_nodes (run_budget r))
     \<and> (\<forall>x\<in>set (nodes_of t s). running_in (node_run m) x \<longrightarrow> compatible m x)"

lemma node_startsD:
  assumes "node_starts t now s s' m m' a k"
  shows "live t now s" "m \<in> set (nodes_of t s)" "starts m m'"
    "nodes_of t s' = map (\<lambda>x. if x = m then m' else x) (nodes_of t s)"
    "attempts_of t s' = attempts_of t s @ [a]"
    "runs_of t s' = map k (runs_of t s)" "edges_of t s' = edges_of t s"
    "att_node a = node_id m" "att_number a = node_attempt_count m'" "att_run a = node_run m"
    "att_status a = Attempt_Running" "attempt_check a"
    "(att_node a, att_number a) \<notin> (\<lambda>a. (att_node a, att_number a)) ` set (attempts_of t s)"
    "\<And>r. r \<in> set (runs_of t s) \<Longrightarrow> same_run r (k r)"
    "\<And>r. r \<in> set (runs_of t s) \<Longrightarrow> run_terminal (run_status r) \<Longrightarrow> run_status (k r) = run_status r"
    "\<And>r. r \<in> set (runs_of t s) \<Longrightarrow> run_id r = node_run m \<Longrightarrow>
       int (length (filter (running_in (node_run m)) (nodes_of t s))) < max_parallel_nodes (run_budget r)"
    "\<And>x. x \<in> set (nodes_of t s) \<Longrightarrow> running_in (node_run m) x \<Longrightarrow> compatible m x"
  using assms unfolding node_starts_def by blast+

lemma starts_fields:
  assumes "starts m m'"
  shows "node_id (if x = m then m' else x) = node_id x"
    "node_run (if x = m then m' else x) = node_run x"
    "node_plan_revision (if x = m then m' else x) = node_plan_revision x"
    "node_terminal (node_status (if x = m then m' else x)) = node_terminal (node_status x)"
    "node_attempt_count x \<le> node_attempt_count (if x = m then m' else x)"
    "started (node_status (if x = m then m' else x)) = started (node_status x)"
    "compatible (if x = m then m' else x) y = compatible x y"
    "compatible y (if x = m then m' else x) = compatible y x"
    "node_status x \<noteq> Node_Ready \<Longrightarrow> (if x = m then m' else x) = x"
  using assms by (auto simp: starts_def compatible_def)

lemma start_keys:
  assumes "node_starts t now s s' m m' a k" "keys_ok t s"
  shows "keys_ok t s'"
  using assms(2) node_startsD(13,14)[OF assms(1)] starts_fields(1)[OF node_startsD(3)[OF assms(1)]]
    distinct_map_keep[of node_id "nodes_of t s" "\<lambda>x. if x = m then m' else x"]
    distinct_map_keep[of run_id "runs_of t s" k]
  unfolding keys_ok_def node_startsD(4-6)[OF assms(1)] by (auto simp: same_run_def)

lemma start_nodes:
  assumes "node_starts t now s s' m m' a k" "nodes_ok t s"
  shows "nodes_ok t s'"
  unfolding nodes_ok_def node_startsD(4,6)[OF assms(1)] set_map
proof (rule ballI, elim imageE, hypsubst)
  fix x assume x: "x \<in> set (nodes_of t s)"
  let ?x = "if x = m then m' else x"
  note st = node_startsD(3)[OF assms(1)]
  note f = starts_fields[OF st, of x]
  obtain r where r: "r \<in> set (runs_of t s)" "run_id r = node_run x"
      "node_plan_revision x \<le> run_active_revision r"
      "node_plan_revision x < run_active_revision r \<longrightarrow> node_terminal (node_status x)" "node_check x"
    using assms(2) x unfolding nodes_ok_def by blast
  have "node_check ?x"
    using r(5) st by (simp add: starts_def)
  moreover have "run_id (k r) = node_run ?x \<and> node_plan_revision ?x \<le> run_active_revision (k r)
      \<and> (node_plan_revision ?x < run_active_revision (k r) \<longrightarrow> node_terminal (node_status ?x))"
    unfolding f(2-4) using r node_startsD(14)[OF assms(1) r(1)] by (simp add: same_run_def)
  ultimately show "node_check ?x \<and> (\<exists>r\<in>k ` set (runs_of t s). run_id r = node_run ?x
      \<and> node_plan_revision ?x \<le> run_active_revision r
      \<and> (node_plan_revision ?x < run_active_revision r \<longrightarrow> node_terminal (node_status ?x)))"
    using r(1) by blast
qed

lemma start_edges:
  assumes "node_starts t now s s' m m' a k" "edges_ok t s"
  shows "edges_ok t s'"
  using assms(2) unfolding edges_ok_def node_startsD(4,7)[OF assms(1)] set_map bex_simps(7)
    starts_fields(1-3)[OF node_startsD(3)[OF assms(1)]] .

lemma start_attempts:
  assumes "node_starts t now s s' m m' a k" "attempts_ok t s"
  shows "attempts_ok t s'"
  unfolding attempts_ok_def node_startsD(4,5)[OF assms(1)] set_map bex_simps(7)
    starts_fields(1,2)[OF node_startsD(3)[OF assms(1)]]
proof
  fix b assume "b \<in> set (attempts_of t s @ [a])"
  then consider "b \<in> set (attempts_of t s)" | "b = a" by auto
  then show "attempt_check b \<and> (\<exists>x\<in>set (nodes_of t s). node_id x = att_node b \<and> node_run x = att_run b
      \<and> att_number b \<le> node_attempt_count (if x = m then m' else x))"
  proof cases
    case 1
    then obtain x where "attempt_check b" "x \<in> set (nodes_of t s)" "node_id x = att_node b"
        "node_run x = att_run b" "att_number b \<le> node_attempt_count x"
      using assms(2) unfolding attempts_ok_def by blast
    then show ?thesis
      using starts_fields(5)[OF node_startsD(3)[OF assms(1)], of x] order_trans by blast
  next
    case 2
    then show ?thesis
      using node_startsD(2,8-10,12)[OF assms(1)] by (intro conjI bexI[of _ m]) simp_all
  qed
qed

lemma start_leases:
  assumes "node_starts t now s s' m m' a k" "leases_ok t now s" "keys_ok t s" "now \<le> l'"
  shows "leases_ok t l' s'"
  unfolding leases_ok_def node_startsD(4,5)[OF assms(1)] set_map ball_simps(9)
    starts_fields(1)[OF node_startsD(3)[OF assms(1)]]
proof (intro conjI ballI impI)
  note d = node_startsD[OF assms(1)]
  have st: "node_status m = Node_Ready" "node_status m' = Node_Running"
    using d(3) by (simp_all add: starts_def)
  have quiet: False if "b \<in> set (attempts_of t s)" "att_node b = node_id m" "att_status b = Attempt_Running" for b
    using assms(2) d(1,2) st(1) that unfolding leases_ok_def live_def by fastforce
  {
    fix x assume x: "x \<in> set (nodes_of t s)" "node_status (if x = m then m' else x) = Node_Running"
    show "\<exists>b\<in>set (attempts_of t s @ [a]). att_node b = node_id x
        \<and> att_number b = node_attempt_count (if x = m then m' else x) \<and> att_status b = Attempt_Running"
    proof (cases "x = m")
      case True
      then show ?thesis using d(8,9,11) by simp
    next
      case False
      with x assms(2) obtain b where "b \<in> set (attempts_of t s)" "att_node b = node_id x"
          "att_number b = node_attempt_count x" "att_status b = Attempt_Running"
        unfolding leases_ok_def by auto
      with False show ?thesis by auto
    qed
  next
    fix x b assume x: "x \<in> set (nodes_of t s)" and b: "b \<in> set (attempts_of t s @ [a])"
      "att_status b = Attempt_Running" "att_node b = node_id x"
    show "if node_status (if x = m then m' else x) = Node_Running
        then att_number b = node_attempt_count (if x = m then m' else x) else stale l' b"
    proof (cases "b \<in> set (attempts_of t s)")
      case True
      then have "x \<noteq> m" using quiet b by blast
      moreover have "if node_status x = Node_Running then att_number b = node_attempt_count x
          else stale now b"
        using assms(2) x True b(2,3) unfolding leases_ok_def by blast
      ultimately show ?thesis
        using stale_mono[OF _ assms(4)] by (auto split: if_splits)
    next
      case False
      then have "b = a" using b(1) by simp
      then have "x = m"
        using unique_node[OF assms(3) x d(2)] b(3) d(8) by simp
      then show ?thesis using \<open>b = a\<close> d(9) st by simp
    qed
  }
qed

lemma start_deps:
  assumes "node_starts t now s s' m m' a k" "deps_ok t s"
  shows "deps_ok t s'"
  unfolding deps_ok_def node_startsD(4,7)[OF assms(1)] set_map ball_simps(9)
    starts_fields(1,6)[OF node_startsD(3)[OF assms(1)]]
proof (intro ballI impI)
  fix e u v assume "e \<in> set (edges_of t s)" "u \<in> set (nodes_of t s)" "v \<in> set (nodes_of t s)"
    "node_id u = edge_from e" "node_id v = edge_to e" "started (node_status v)"
  then have "node_status u = Node_Succeeded"
    using assms(2) unfolding deps_ok_def by blast
  then show "node_status (if u = m then m' else u) = Node_Succeeded"
    using starts_fields(9)[OF node_startsD(3)[OF assms(1)], of u] by simp
qed

lemma start_closed:
  assumes "node_starts t now s s' m m' a k" "closed_run t rid st s"
  shows "closed_run t rid st s'"
proof -
  have "run_id (k r) = run_id r" if "r \<in> set (runs_of t s)" for r
    using node_startsD(14)[OF assms(1) that] by (simp add: same_run_def)
  then show ?thesis
    using assms(2) node_startsD(15)[OF assms(1)]
    unfolding closed_run_def node_startsD(4,6)[OF assms(1)] set_map ball_simps(9) bex_simps(7)
      starts_fields(2,4)[OF node_startsD(3)[OF assms(1)]] by simp
qed

lemma start_terminal:
  assumes "node_starts t now s s' m m' a k"
  shows "terminal_nodes_kept t s s'"
  unfolding terminal_nodes_kept_def
proof (intro ballI impI)
  fix n assume n: "n \<in> set (nodes_of t s)" "node_terminal (node_status n)"
  then have "n \<noteq> m"
    using node_startsD(3)[OF assms] by (auto simp: starts_def)
  then have "n \<in> set (nodes_of t s')"
    using n(1) unfolding node_startsD(4)[OF assms] by auto
  then show "\<exists>n'\<in>set (nodes_of t s'). node_id n' = node_id n \<and> node_run n' = node_run n
      \<and> node_status n' = node_status n" by blast
qed

lemma start_runs:
  assumes "node_starts t now s s' m m' a k" "runs_ok t s"
  shows "runs_ok t s'"
  using assms(2) node_startsD(14)[OF assms(1)]
  unfolding runs_ok_def node_startsD(6)[OF assms(1)] by (auto simp: same_run_def)

text \<open>One more node of the run runs.\<close>

lemma filter_running_start:
  assumes "distinct (map node_id ns)" "m \<in> set ns" "starts m m'"
  shows "length (filter (running_in rid) (map (\<lambda>x. if x = m then m' else x) ns))
    = (if rid = node_run m then 1 else 0) + length (filter (running_in rid) ns)"
  using assms(1,2)
proof (induction ns)
  case (Cons y ns)
  have st: "node_status m = Node_Ready" "node_status m' = Node_Running" "node_run m' = node_run m"
    using assms(3) by (simp_all add: starts_def)
  show ?case
  proof (cases "y = m")
    case True
    then have "map (\<lambda>x. if x = m then m' else x) ns = ns"
      using Cons.prems(1) by (intro map_idI) auto
    then show ?thesis using True st by (simp add: running_in_def)
  next
    case False
    then show ?thesis using Cons by auto
  qed
qed simp

lemma start_slots:
  assumes "node_starts t now s s' m m' a k" "slots_ok t s" "keys_ok t s"
  shows "slots_ok t s'"
  unfolding slots_ok_def node_startsD(4,6)[OF assms(1)] set_map
proof (intro conjI ballI impI; (elim imageE; hypsubst)?)
  note d = node_startsD[OF assms(1)]
  {
    fix r assume r: "r \<in> set (runs_of t s)"
    have "int (length (filter (running_in (run_id r)) (nodes_of t s))) \<le> max_parallel_nodes (run_budget r)"
      using assms(2) r by (simp add: slots_ok_def)
    then show "int (length (filter (running_in (run_id (k r))) (map (\<lambda>x. if x = m then m' else x) (nodes_of t s))))
        \<le> max_parallel_nodes (run_budget (k r))"
      using filter_running_start[OF _ d(2,3), where rid = "run_id r"] assms(3) d(16)[OF r] d(14)[OF r]
      by (auto simp: keys_ok_def same_run_def)
  next
    fix x y assume xy: "x \<in> set (nodes_of t s)" "y \<in> set (nodes_of t s)"
      and ne: "node_id (if x = m then m' else x) \<noteq> node_id (if y = m then m' else y)"
      and run: "node_run (if x = m then m' else x) = node_run (if y = m then m' else y)"
      and st: "node_status (if x = m then m' else x) = Node_Running"
        "node_status (if y = m then m' else y) = Node_Running"
    note f = starts_fields[OF d(3)]
    have ne': "node_id x \<noteq> node_id y" and run': "node_run x = node_run y"
      using ne run unfolding f .
    consider "x \<noteq> m" "y \<noteq> m" | "x = m" "y \<noteq> m" | "x \<noteq> m" "y = m"
      using ne' by blast
    then have "compatible x y"
    proof cases
      case 1
      then show ?thesis using assms(2) xy ne' run' st by (simp add: slots_ok_def)
    next
      case 2
      then show ?thesis using d(17)[OF xy(2)] run' st by (simp add: running_in_def)
    next
      case 3
      then show ?thesis using d(17)[OF xy(1)] run' st
        by (simp add: running_in_def compatible_sym)
    qed
    then show "compatible (if x = m then m' else x) (if y = m then m' else y)"
      by (simp only: f)
  }
qed

lemma start_preserves:
  assumes "node_starts t now s s' m m' a k" "now \<le> l'"
  shows "preserves t X now l' s s'"
proof (rule preservesI, intro conjI allI impI)
  assume inv: "wf_inv t now s"
  note i = wf_invD[OF inv] and n = assms(1)
  show "wf_inv t l' s'"
    unfolding wf_inv_def
    using start_keys[OF n i(1)] start_runs[OF n i(2)] start_nodes[OF n i(3)] start_edges[OF n i(4)]
      start_attempts[OF n i(5)] start_leases[OF n i(6,1) assms(2)] start_deps[OF n i(7)]
      start_slots[OF n i(8,1)] by blast
qed (use start_terminal[OF assms(1)] start_closed[OF assms(1)] in blast)+

section \<open>The claim loop\<close>

definition covers ::
  "(uuid \<Rightarrow> (concurrency_policy \<times> string set) list) \<Rightarrow> tenant \<Rightarrow> wf_store \<Rightarrow> bool" where
  "covers A t s \<longleftrightarrow> (\<forall>rid.
     length (filter (running_in rid) (nodes_of t s)) \<le> length (A rid)
     \<and> (\<forall>x\<in>set (nodes_of t s). running_in rid x \<longrightarrow> node_slot x \<in> set (A rid)))"

lemma covers_active: "covers (active_by_run t s) t s"
  by (auto simp: covers_def active_by_run_eq running_in_def[abs_def])

lemma covers_occupy: "covers A t s \<Longrightarrow> covers (occupy row A) t s"
  by (auto simp: covers_def occupy_def le_SucI)

lemma conflict_free_compatible:
  assumes "\<not> conflicts (node_policy n) (set (node_resource_keys n)) active"
    and "node_slot x \<in> set active"
  shows "compatible n x"
proof -
  have "active \<noteq> []" using assms(2) by auto
  then have "node_policy n \<noteq> Serial"
      "fst (node_slot x) \<noteq> Serial \<and> set (node_resource_keys n) \<inter> snd (node_slot x) = {}"
    using assms unfolding conflicts_def by (auto split: if_splits)
  then show ?thesis
    by (cases "node_policy n"; cases "node_policy x") (auto simp: node_slot_def compatible_def)
qed

text \<open>What the rows of the selection still say of the store while the loop claims them.\<close>

definition same_static :: "tenant \<Rightarrow> wf_store \<Rightarrow> wf_store \<Rightarrow> bool" where
  "same_static t s s' \<longleftrightarrow>
     (\<forall>m'\<in>set (nodes_of t s'). \<exists>m\<in>set (nodes_of t s). node_id m' = node_id m \<and> node_run m' = node_run m
        \<and> node_plan_revision m' = node_plan_revision m \<and> node_slot m' = node_slot m)
     \<and> (\<forall>r'\<in>set (runs_of t s'). \<exists>r\<in>set (runs_of t s). run_id r' = run_id r
        \<and> run_budget r' = run_budget r
        \<and> run_cancellation_revision r' = run_cancellation_revision r)"

lemma same_static_refl [simp]: "same_static t s s"
  by (auto simp: same_static_def)

lemma same_static_node:
  assumes "same_static t s s'" "m' \<in> set (nodes_of t s')"
  obtains m where "m \<in> set (nodes_of t s)" "node_id m' = node_id m" "node_run m' = node_run m"
    "node_plan_revision m' = node_plan_revision m" "node_slot m' = node_slot m"
  using bspec[OF conjunct1[OF assms(1)[unfolded same_static_def]] assms(2)] that by auto

lemma same_static_run:
  assumes "same_static t s s'" "q \<in> set (runs_of t s')"
  obtains r where "r \<in> set (runs_of t s)" "run_id q = run_id r" "run_budget q = run_budget r"
    "run_cancellation_revision q = run_cancellation_revision r"
  using bspec[OF conjunct2[OF assms(1)[unfolded same_static_def]] assms(2)] that by blast

lemma same_static_trans: "same_static t s s' \<Longrightarrow> same_static t s' s'' \<Longrightarrow> same_static t s s''"
  unfolding same_static_def by (metis (no_types, lifting))

definition new_attempt ::
  "string \<Rightarrow> instant \<Rightarrow> instant \<Rightarrow> workflow_node \<Rightarrow> workflow_run \<Rightarrow> workflow_attempt" where
  "new_attempt worker lease_until now n r =
     \<lparr>att_node = node_id n, att_number = node_attempt_count n + 1, att_run = node_run n,
      att_status = Attempt_Running, att_lease_owner = Some worker,
      att_lease_fence = node_attempt_count n + 1, att_lease_until = Some lease_until,
      att_cancellation_revision = run_cancellation_revision r,
      att_plan_revision = node_plan_revision n, att_result = None,
      att_evidence_refs = [], att_error_code = None, att_started_at = now, att_finished_at = None\<rparr>"

definition new_claim ::
  "string \<Rightarrow> instant \<Rightarrow> workflow_node \<Rightarrow> workflow_run \<Rightarrow> attempt_claim" where
  "new_claim worker lease_until n r =
     \<lparr>claim_run = node_run n, claim_node = node_id n, claim_number = node_attempt_count n + 1,
      claim_lease_owner = worker, claim_lease_fence = node_attempt_count n + 1,
      claim_lease_until = lease_until, claim_cancellation_revision = run_cancellation_revision r,
      claim_plan_revision = node_plan_revision n\<rparr>"

definition run_starts :: "instant \<Rightarrow> workflow_node \<Rightarrow> workflow_run \<Rightarrow> workflow_run \<Rightarrow> workflow_run" where
  "run_starts now n r = upd_row
     (\<lambda>q. run_id q = node_run n \<and> (run_status q = Run_Queued \<or> run_status q = Run_Running))
     (\<lambda>q. q\<lparr>run_status := Run_Running,
            run_started_at := (case run_started_at r of None \<Rightarrow> Some now | Some u \<Rightarrow> Some u),
            run_updated_at := now\<rparr>)"

definition matches :: "workflow_node \<Rightarrow> workflow_node \<Rightarrow> bool" where
  "matches n m \<longleftrightarrow> node_id m = node_id n \<and> node_status m = Node_Ready
     \<and> node_attempt_count m = node_attempt_count n"

lemma claim_one_cases:
  assumes "claim_one t worker lease_until now (n, r) (s, cs) = Inr (s', cs')"
  obtains (miss) "length (select_where t (matches n) (nodes_t s)) \<noteq> 1"
      "s' = update_nodes t (matches n) (start_node (node_attempt_count n + 1) now n) s" "cs' = cs"
  | (hit) m where "select_where t (matches n) (nodes_t s) = [m]"
      "node_check (start_node (node_attempt_count n + 1) now n m)"
      "nodes_of t s' = map (upd_row (matches n) (start_node (node_attempt_count n + 1) now n)) (nodes_of t s)"
      "attempts_of t s' = attempts_of t s @ [new_attempt worker lease_until now n r]"
      "runs_of t s' = map (run_starts now n r) (runs_of t s)" "edges_of t s' = edges_of t s"
      "attempt_check (new_attempt worker lease_until now n r)"
      "(node_id n, node_attempt_count n + 1) \<notin> (\<lambda>a. (att_node a, att_number a)) ` set (attempts_of t s)"
      "cs' = cs @ [new_claim worker lease_until n r]"
proof (cases "length (select_where t (matches n) (nodes_t s)) = 1")
  case False
  then show ?thesis
    using assms that(1) unfolding claim_one_def Let_def matches_def[abs_def]
    by (auto split: if_splits)
next
  case True
  then obtain m where m: "select_where t (matches n) (nodes_t s) = [m]"
    by (auto simp: length_Suc_conv)
  let ?s1 = "update_nodes t (matches n) (start_node (node_attempt_count n + 1) now n) s"
  obtain s2 where c: "node_check (start_node (node_attempt_count n + 1) now n m)"
    and s2: "insert_attempt t (new_attempt worker lease_until now n r) ?s1 = Inr s2"
    and s': "s' = update_runs t
      (\<lambda>q. run_id q = node_run n \<and> (run_status q = Run_Queued \<or> run_status q = Run_Running))
      (\<lambda>q. q\<lparr>run_status := Run_Running,
            run_started_at := (case run_started_at r of None \<Rightarrow> Some now | Some u \<Rightarrow> Some u),
            run_updated_at := now\<rparr>) s2"
    and cs: "cs' = cs @ [new_claim worker lease_until n r]"
    using assms m unfolding claim_one_def Let_def matches_def[abs_def] new_attempt_def new_claim_def
    by (auto simp: result_simps split: if_splits)
  have "s2 = ?s1\<lparr>attempts_t := insert_rows t [new_attempt worker lease_until now n r] (attempts_t ?s1)\<rparr>"
      "attempt_check (new_attempt worker lease_until now n r)"
      "(node_id n, node_attempt_count n + 1) \<notin> (\<lambda>a. (att_node a, att_number a)) ` set (attempts_of t s)"
    using s2 by (auto simp: insert_attempt_def result_simps key_clash_def new_attempt_def)
  with s' c cs m show ?thesis
    by (intro that(2)) (simp_all add: run_starts_def)
qed

lemma start_covers:
  assumes "node_starts t now s s' m m' a k" "keys_ok t s" "covers A t s"
    and "row_run row = node_run m" "node_slot (fst row) = node_slot m"
  shows "covers (occupy row A) t s'"
  unfolding covers_def node_startsD(4)[OF assms(1)] set_map ball_simps(9)
proof (intro allI conjI ballI impI)
  note d = node_startsD[OF assms(1)]
  fix rid
  have "length (filter (running_in rid) (nodes_of t s)) \<le> length (A rid)"
    using assms(3) unfolding covers_def by blast
  then show "length (filter (running_in rid) (map (\<lambda>x. if x = m then m' else x) (nodes_of t s)))
      \<le> length (occupy row A rid)"
    using filter_running_start[OF _ d(2,3), where rid = rid] assms(2,4)
    by (auto simp: keys_ok_def occupy_def)
  fix x assume x: "x \<in> set (nodes_of t s)" and run: "running_in rid (if x = m then m' else x)"
  show "node_slot (if x = m then m' else x) \<in> set (occupy row A rid)"
  proof (cases "x = m")
    case True
    then show ?thesis
      using run d(3) assms(4,5) by (simp add: occupy_def running_in_def starts_def node_slot_def)
  next
    case False
    then have "node_slot x \<in> set (A rid)"
      using x run assms(3) unfolding covers_def by simp
    then show ?thesis using False by (auto simp: occupy_def)
  qed
qed

lemma start_same_static:
  assumes "node_starts t now s s' m m' a k"
    and "\<And>r. run_id (k r) = run_id r \<and> run_budget (k r) = run_budget r
      \<and> run_cancellation_revision (k r) = run_cancellation_revision r"
  shows "same_static t s s'"
proof -
  note d = node_startsD[OF assms(1)]
  have "\<exists>y\<in>set (nodes_of t s). node_id x = node_id y \<and> node_run x = node_run y
      \<and> node_plan_revision x = node_plan_revision y \<and> node_slot x = node_slot y"
    if "x \<in> set (nodes_of t s')" for x
  proof -
    from that obtain y where y: "y \<in> set (nodes_of t s)" "x = (if y = m then m' else y)"
      unfolding d(4) by auto
    have "node_slot x = node_slot y"
      using d(3) y(2) by (simp add: starts_def node_slot_def)
    with y starts_fields(1-3)[OF d(3), of y] show ?thesis by blast
  qed
  moreover have "\<exists>y\<in>set (runs_of t s). run_id x = run_id y \<and> run_budget x = run_budget y
      \<and> run_cancellation_revision x = run_cancellation_revision y"
    if "x \<in> set (runs_of t s')" for x
    using that assms(2) unfolding d(6) by auto
  ultimately show ?thesis unfolding same_static_def by blast
qed

text \<open>
  One turn of the loop. The row is one the selection returned: its node and run are those of
  the store \<open>s0\<close> it was selected in.
\<close>

lemma claim_one_step:
  assumes "claim_one t worker lease_until now (n, r) (s, cs) = Inr (s', cs')"
    and inv: "wf_inv t now s" and live: "live t now s" and cov: "covers A t s"
    and stat: "same_static t s0 s" and keys0: "keys_ok t s0"
    and row: "n \<in> set (nodes_of t s0)" "r \<in> set (runs_of t s0)" "run_id r = node_run n"
    and fits: "\<not> full A (n, r)" and lease: "now < lease_until"
  shows "preserves t X now now s s' \<and> live t now s' \<and> covers (occupy (n, r) A) t s'
    \<and> same_static t s s'"
  using assms(1)
proof (cases rule: claim_one_cases)
  case miss
  note i = wf_invD[OF inv]
  have "\<not> matches n x" if "x \<in> set (nodes_of t s)" for x
  proof
    assume mx: "matches n x"
    have "filter (\<lambda>y. node_id y = node_id x) (nodes_of t s) = [x]"
      using i(1) that by (intro filter_unique_key) (simp_all add: keys_ok_def)
    moreover have "filter (matches n) (nodes_of t s) =
        filter (matches n) (filter (\<lambda>y. node_id y = node_id x) (nodes_of t s))"
      unfolding filter_filter using mx by (intro filter_cong) (auto simp: matches_def)
    ultimately show False
      using miss(1) mx by (simp add: select_where_def)
  qed
  then have "s' = s"
    using miss(2) by (simp add: update_nodes_def update_where_no_match)
  then show ?thesis
    using live covers_occupy[OF cov] by (simp add: preserves_refl)
next
  case (hit m)
  note i = wf_invD[OF inv]
  have m: "m \<in> set (nodes_of t s)" "matches n m"
    using select_where_singleton[OF hit(1)] by auto
  define m' where "m' = start_node (node_attempt_count n + 1) now n m"
  have upd: "upd_row (matches n) (start_node (node_attempt_count n + 1) now n) x = (if x = m then m' else x)"
    if "x \<in> set (nodes_of t s)" for x
  proof (cases "x = m")
    case False
    then have "\<not> matches n x"
      using unique_node[OF i(1) that m(1)] m(2) by (auto simp: matches_def)
    with False show ?thesis by simp
  qed (use m(2) in \<open>simp add: m'_def\<close>)
  have nodes: "nodes_of t s' = map (\<lambda>x. if x = m then m' else x) (nodes_of t s)"
    unfolding hit(3) using upd by (rule map_cong[OF refl])
  obtain m0 where "m0 \<in> set (nodes_of t s0)" "node_id m = node_id m0" "node_run m = node_run m0"
      "node_plan_revision m = node_plan_revision m0" "node_slot m = node_slot m0"
    by (rule same_static_node[OF stat m(1)])
  moreover have "m0 = n"
    using unique_node[OF keys0 calculation(1) row(1)] m(2) calculation(2) by (simp add: matches_def)
  ultimately have mn: "node_run m = node_run n" "node_slot m = node_slot n"
      "node_plan_revision m = node_plan_revision n" by simp_all
  have st: "starts m m'"
    using hit(2) m(2) by (simp add: starts_def m'_def start_node_def matches_def)
  have budget: "run_budget q = run_budget r" if q: "q \<in> set (runs_of t s)" "run_id q = node_run n" for q
  proof -
    obtain q0 where q0: "q0 \<in> set (runs_of t s0)" "run_id q = run_id q0" "run_budget q = run_budget q0"
      using stat q(1) unfolding same_static_def by metis
    moreover have "q0 = r"
      using unique_run[OF keys0 q0(1) row(2)] q0(2) q(2) row(3) by simp
    ultimately show ?thesis by simp
  qed
  have covers_len: "length (filter (running_in rid) (nodes_of t s)) \<le> length (A rid)" for rid
    using cov unfolding covers_def by blast
  let ?a = "new_attempt worker lease_until now n r"
  have a: "att_node ?a = node_id m" "att_number ?a = node_attempt_count m'" "att_run ?a = node_run m"
      "att_status ?a = Attempt_Running"
      "(att_node ?a, att_number ?a) \<notin> (\<lambda>a. (att_node a, att_number a)) ` set (attempts_of t s)"
    using m(2) mn(1) hit(8) by (simp_all add: new_attempt_def m'_def start_node_def matches_def)
  have starts: "node_starts t now s s' m m' (new_attempt worker lease_until now n r) (run_starts now n r)"
    unfolding node_starts_def
  proof (intro conjI ballI impI)
    fix q assume q: "q \<in> set (runs_of t s)"
    show "same_run q (run_starts now n r q)"
      by (simp add: run_starts_def upd_row_def same_run_def run_check_def)
    show "run_status (run_starts now n r q) = run_status q" if "run_terminal (run_status q)"
      using that by (auto simp: run_starts_def upd_row_def)
    assume "run_id q = node_run m"
    then have "int (length (A (node_run m))) < max_parallel_nodes (run_budget q)"
      using fits budget[OF q] mn(1) row(3) by (simp add: full_def row_run_def)
    then show "int (length (filter (running_in (node_run m)) (nodes_of t s))) < max_parallel_nodes (run_budget q)"
      using covers_len[of "node_run m"] by linarith
  next
    fix x assume "x \<in> set (nodes_of t s)" "running_in (node_run m) x"
    then have "node_slot x \<in> set (A (node_run n))"
      using cov mn(1) by (simp add: covers_def)
    moreover have "\<not> conflicts (node_policy m) (set (node_resource_keys m)) (A (node_run n))"
      using fits mn(2) row(3) by (simp add: full_def row_run_def node_slot_def)
    ultimately show "compatible m x"
      using conflict_free_compatible by blast
  qed (fact live m(1) st nodes hit(4-7) a)+
  have "live t now s'"
    using live lease unfolding live_def hit(4) by (auto simp: new_attempt_def stale_def)
  moreover have "same_static t s s'"
    by (rule start_same_static[OF starts]) (simp add: run_starts_def upd_row_def)
  moreover have "covers (occupy (n, r) A) t s'"
    by (rule start_covers[OF starts i(1) cov]) (simp_all add: row_run_def mn row(3))
  ultimately show ?thesis
    using start_preserves[OF starts order_refl] by blast
qed

text \<open>A row whose node is still as it was selected is claimed.\<close>

lemma claim_one_hit:
  assumes "claim_one t worker lease_until now (n, r) (s, cs) = Inr (s', cs')"
    and "keys_ok t s" and n: "n \<in> set (nodes_of t s)" "node_status n = Node_Ready"
  shows "cs' = cs @ [new_claim worker lease_until n r]"
    and "set (attempts_of t s') = insert (new_attempt worker lease_until now n r) (set (attempts_of t s))"
    and "\<exists>m\<in>set (nodes_of t s'). node_id m = node_id n \<and> node_run m = node_run n
      \<and> node_status m = Node_Running"
    and "\<And>x. x \<in> set (nodes_of t s) \<Longrightarrow> node_id x \<noteq> node_id n \<Longrightarrow> x \<in> set (nodes_of t s')"
proof -
  have "filter (matches n) (nodes_of t s) = filter (matches n) (filter (\<lambda>y. node_id y = node_id n) (nodes_of t s))"
    unfolding filter_filter by (intro filter_cong) (auto simp: matches_def)
  also have "\<dots> = [n]"
    using assms(2) n filter_unique_key[of node_id "nodes_of t s" n] by (simp add: keys_ok_def matches_def)
  finally have hit: "select_where t (matches n) (nodes_t s) = [n]"
    by (simp add: select_where_def)
  have "cs' = cs @ [new_claim worker lease_until n r]
    \<and> set (attempts_of t s') = insert (new_attempt worker lease_until now n r) (set (attempts_of t s))
    \<and> nodes_of t s' = map (upd_row (matches n) (start_node (node_attempt_count n + 1) now n)) (nodes_of t s)"
    using assms(1)
  proof (cases rule: claim_one_cases)
    case miss
    then show ?thesis using hit by simp
  next
    case (hit m)
    then show ?thesis by simp
  qed
  then have nodes: "nodes_of t s' =
      map (upd_row (matches n) (start_node (node_attempt_count n + 1) now n)) (nodes_of t s)"
    and "cs' = cs @ [new_claim worker lease_until n r]"
    and "set (attempts_of t s') = insert (new_attempt worker lease_until now n r) (set (attempts_of t s))"
    by simp_all
  then show "cs' = cs @ [new_claim worker lease_until n r]"
    and "set (attempts_of t s') = insert (new_attempt worker lease_until now n r) (set (attempts_of t s))"
    by simp_all
  have "start_node (node_attempt_count n + 1) now n n \<in> set (nodes_of t s')"
    unfolding nodes set_map using n by (intro image_eqI[of _ _ n]) (simp_all add: matches_def)
  then show "\<exists>m\<in>set (nodes_of t s'). node_id m = node_id n \<and> node_run m = node_run n
      \<and> node_status m = Node_Running"
    by (rule bexI[rotated]) (simp add: start_node_def)
  show "x \<in> set (nodes_of t s')" if "x \<in> set (nodes_of t s)" "node_id x \<noteq> node_id n" for x
    unfolding nodes set_map using that by (intro image_eqI[of _ _ x]) (simp_all add: matches_def)
qed

text \<open>A claim that a worker may use: what \<open>_require_claim\<close> looks for.\<close>

definition granted :: "tenant \<Rightarrow> attempt_claim \<Rightarrow> wf_store \<Rightarrow> bool" where
  "granted t c s \<longleftrightarrow>
     (\<exists>n\<in>set (nodes_of t s). node_id n = claim_node c \<and> node_run n = claim_run c
        \<and> node_status n = Node_Running)
     \<and> (\<exists>a\<in>set (attempts_of t s). claim_predicates c a \<and> att_lease_until a = Some (claim_lease_until c))
     \<and> (\<forall>r\<in>set (runs_of t s). run_id r = claim_run c \<longrightarrow>
          run_cancellation_revision r = claim_cancellation_revision c)"

lemma concat_map_only:
  assumes "distinct xs" "x \<in> set xs" "\<And>y. y \<in> set xs \<Longrightarrow> y \<noteq> x \<Longrightarrow> f y = []"
  shows "concat (map f xs) = f x"
  using assms
proof (induction xs)
  case (Cons y ys)
  show ?case
  proof (cases "y = x")
    case True
    then have "concat (map f ys) = []"
      using Cons.prems by auto
    then show ?thesis using True by simp
  next
    case False
    then have "f y = []" "concat (map f ys) = f x"
      using Cons by auto
    then show ?thesis by simp
  qed
qed simp

lemma distinct_map_imp: "distinct (map f xs) \<Longrightarrow> distinct xs"
  by (simp add: distinct_map)

lemma claim_join_unique:
  assumes "wf_inv t l s" and "(n, r, a) \<in> set (claim_join t c s)"
  shows "claim_join t c s = [(n, r, a)]"
proof -
  note i = wf_invD[OF assms(1)]
  have m: "n \<in> set (nodes_of t s)" "r \<in> set (runs_of t s)" "run_id r = node_run n"
      "a \<in> set (attempts_of t s)" "att_node a = node_id n" "claim_predicates c a"
    using assms(2) by (simp_all add: claim_join_mem)
  have onlyn: "x = n" if "x \<in> set (nodes_of t s)" "y \<in> set (attempts_of t s)" "att_node y = node_id x"
    "claim_predicates c y" for x y
    using unique_node[OF i(1) that(1) m(1)] that(3,4) m(5,6) by (simp add: claim_predicates_def)
  have onlya: "y = a" if "y \<in> set (attempts_of t s)" "claim_predicates c y" for y
    using unique_attempt[OF i(1) that(1) m(4)] that(2) m(6) by (simp add: claim_predicates_def)
  have dist: "distinct (nodes_of t s)" "distinct (runs_of t s)" "distinct (attempts_of t s)"
    using i(1) unfolding keys_ok_def by (auto dest: distinct_map_imp)
  let ?as = "\<lambda>x y. concat (map (\<lambda>z. if att_node z = node_id x \<and> claim_predicates c z then [(x, y, z)] else [])
    (attempts_of t s))"
  have "?as n r = (if att_node a = node_id n \<and> claim_predicates c a then [(n, r, a)] else [])"
    using onlya by (intro concat_map_only[OF dist(3) m(4)]) auto
  with m(5,6) have "?as n r = [(n, r, a)]" by simp
  moreover have "concat (map (\<lambda>y. if run_id y = node_run n then ?as n y else []) (runs_of t s))
      = (if run_id r = node_run n then ?as n r else [])"
    using unique_run[OF i(1) _ m(2)] m(3) by (intro concat_map_only[OF dist(2) m(2)]) auto
  moreover have "claim_join t c s
      = concat (map (\<lambda>y. if run_id y = node_run n then ?as n y else []) (runs_of t s))"
    unfolding claim_join_def using onlyn by (intro concat_map_only[OF dist(1) m(1)]) auto
  ultimately show ?thesis
    using m(3) by simp
qed

lemma require_claim_granted:
  assumes "granted t c s" "wf_inv t l s" "now < claim_lease_until c"
  shows "\<exists>n. require_claim t c now s = Inr n"
proof -
  note i = wf_invD[OF assms(2)]
  obtain n where n: "n \<in> set (nodes_of t s)" "node_id n = claim_node c" "node_run n = claim_run c"
      "node_status n = Node_Running"
    using assms(1) unfolding granted_def by blast
  obtain a where a: "a \<in> set (attempts_of t s)" "claim_predicates c a"
      "att_lease_until a = Some (claim_lease_until c)"
    using assms(1) unfolding granted_def by blast
  obtain r where r: "r \<in> set (runs_of t s)" "run_id r = node_run n"
    using i(3) n(1) unfolding nodes_ok_def by blast
  have rev: "run_cancellation_revision r = claim_cancellation_revision c"
    using assms(1) r n(3) unfolding granted_def by simp
  have "(n, r, a) \<in> set (claim_join t c s)"
    using n(1,2) r a(1,2) by (simp add: claim_join_mem claim_predicates_def)
  then have "claim_join t c s = [(n, r, a)]"
    by (rule claim_join_unique[OF assms(2)])
  then show ?thesis
    using n(4) rev a(3) assms(3) by (simp add: require_claim_def lease_live_def)
qed

text \<open>The fence never raises anything but \<open>WorkflowFenceError\<close> on a store of the invariant.\<close>

lemma require_claim_total:
  assumes "wf_inv t l s"
  shows "require_claim t c now s = Inl WorkflowFenceError \<or> (\<exists>n. require_claim t c now s = Inr n)"
proof (cases "claim_join t c s")
  case Nil
  then show ?thesis by (simp add: require_claim_def)
next
  case (Cons row rest)
  obtain n r a where row: "row = (n, r, a)" by (cases row)
  then have "(n, r, a) \<in> set (claim_join t c s)"
    using Cons by simp
  then have "claim_join t c s = [(n, r, a)]"
    by (rule claim_join_unique[OF assms])
  then show ?thesis by (simp add: require_claim_def)
qed

lemma closed_run_fenced:
  assumes "wf_inv t l s" and "closed_run t rid st s" and "claim_run c = rid"
  shows "require_claim t c now s = Inl WorkflowFenceError"
  using require_claim_total[OF assms(1), of c now] require_claim_open[OF _ assms(1)] assms(2,3) by blast

lemma granted_new:
  assumes "claim_one t worker lease_until now (n, r) (s, cs) = Inr (s', cs')"
    and keys: "keys_ok t s" and n: "n \<in> set (nodes_of t s)" "node_status n = Node_Ready"
    and stat: "same_static t s0 s'" and keys0: "keys_ok t s0"
    and r: "r \<in> set (runs_of t s0)" "run_id r = node_run n"
  shows "granted t (new_claim worker lease_until n r) s'"
  unfolding granted_def
proof (intro conjI ballI impI)
  note hit = claim_one_hit[OF assms(1) keys n]
  show "\<exists>m\<in>set (nodes_of t s'). node_id m = claim_node (new_claim worker lease_until n r)
      \<and> node_run m = claim_run (new_claim worker lease_until n r) \<and> node_status m = Node_Running"
    using hit(3) by (simp add: new_claim_def)
  have "claim_predicates (new_claim worker lease_until n r) (new_attempt worker lease_until now n r)
      \<and> att_lease_until (new_attempt worker lease_until now n r)
          = Some (claim_lease_until (new_claim worker lease_until n r))"
    by (simp add: claim_predicates_def new_claim_def new_attempt_def)
  then show "\<exists>a\<in>set (attempts_of t s'). claim_predicates (new_claim worker lease_until n r) a
      \<and> att_lease_until a = Some (claim_lease_until (new_claim worker lease_until n r))"
    unfolding hit(2) by blast
  fix q assume q: "q \<in> set (runs_of t s')" "run_id q = claim_run (new_claim worker lease_until n r)"
  obtain q0 where q0: "q0 \<in> set (runs_of t s0)" "run_id q = run_id q0"
      "run_cancellation_revision q = run_cancellation_revision q0"
    by (rule same_static_run[OF stat q(1)])
  then have "q0 = r"
    using q(2) r(2) by (intro unique_run[OF keys0 q0(1) r(1)]) (simp add: new_claim_def)
  then show "run_cancellation_revision q = claim_cancellation_revision (new_claim worker lease_until n r)"
    using q0(3) by (simp add: new_claim_def)
qed

lemma granted_kept:
  assumes "claim_one t worker lease_until now (n, r) (s, cs) = Inr (s', cs')"
    and keys: "keys_ok t s" and n: "n \<in> set (nodes_of t s)" "node_status n = Node_Ready"
    and stat: "same_static t s s'" and g: "granted t c s"
  shows "granted t c s'"
  unfolding granted_def
proof (intro conjI ballI impI)
  note hit = claim_one_hit[OF assms(1) keys n]
  obtain m where m: "m \<in> set (nodes_of t s)" "node_id m = claim_node c" "node_run m = claim_run c"
      "node_status m = Node_Running"
    using g unfolding granted_def by blast
  have "node_id m \<noteq> node_id n"
    using unique_node[OF keys m(1) n(1)] m(4) n(2) by auto
  then show "\<exists>m\<in>set (nodes_of t s'). node_id m = claim_node c \<and> node_run m = claim_run c
      \<and> node_status m = Node_Running"
    using hit(4)[OF m(1)] m by blast
  show "\<exists>a\<in>set (attempts_of t s'). claim_predicates c a \<and> att_lease_until a = Some (claim_lease_until c)"
    using g unfolding hit(2) granted_def by blast
  fix q assume q: "q \<in> set (runs_of t s')" "run_id q = claim_run c"
  obtain r where "r \<in> set (runs_of t s)" "run_id q = run_id r"
      "run_cancellation_revision q = run_cancellation_revision r"
    by (rule same_static_run[OF stat q(1)])
  then show "run_cancellation_revision q = claim_cancellation_revision c"
    using g q(2) unfolding granted_def by simp
qed

definition claim_of_row :: "string \<Rightarrow> instant \<Rightarrow> claim_row \<Rightarrow> attempt_claim" where
  "claim_of_row worker lease_until row = new_claim worker lease_until (fst row) (snd row)"

lemma claim_fold:
  assumes "foldM (claim_one t worker lease_until now) chosen (s, cs) = Inr (s', cs')"
    and "wf_inv t now s" "live t now s" "covers A t s" "same_static t s0 s" "keys_ok t s0"
    and "now < lease_until" "admissible A chosen" "distinct (map (node_id \<circ> fst) chosen)"
    and "\<forall>(n, r)\<in>set chosen. n \<in> set (nodes_of t s0) \<and> n \<in> set (nodes_of t s)
       \<and> node_status n = Node_Ready \<and> r \<in> set (runs_of t s0) \<and> run_id r = node_run n"
    and "\<forall>c\<in>set cs. granted t c s"
  shows "preserves t X now now s s' \<and> live t now s'
    \<and> cs' = cs @ map (claim_of_row worker lease_until) chosen \<and> (\<forall>c\<in>set cs'. granted t c s')"
  using assms
proof (induction chosen arbitrary: s cs A)
  case Nil
  then show ?case by (simp add: preserves_refl)
next
  case (Cons row chosen)
  obtain n r where row: "row = (n, r)" by (cases row)
  obtain s1 cs1 where c: "claim_one t worker lease_until now (n, r) (s, cs) = Inr (s1, cs1)"
    and rest: "foldM (claim_one t worker lease_until now) chosen (s1, cs1) = Inr (s', cs')"
    using Cons.prems(1) by (auto simp: result_simps row)
  have n: "n \<in> set (nodes_of t s0)" "n \<in> set (nodes_of t s)" "node_status n = Node_Ready"
      "r \<in> set (runs_of t s0)" "run_id r = node_run n"
    using Cons.prems(10) by (simp_all add: row)
  note keys = wf_invD(1)[OF Cons.prems(2)]
  have step: "preserves t X now now s s1 \<and> live t now s1 \<and> covers (occupy row A) t s1
      \<and> same_static t s s1"
    unfolding row
    by (rule claim_one_step[OF c Cons.prems(2-6) n(1,4,5) _ Cons.prems(7)])
      (use Cons.prems(8) in \<open>simp add: row\<close>)
  note hit = claim_one_hit[OF c keys n(2,3)]
  have stat: "same_static t s0 s1"
    using step Cons.prems(5) same_static_trans by blast
  have inv: "wf_inv t now s1"
    using step Cons.prems(2) by (blast dest: preserves_inv)
  have later: "\<forall>(m, q)\<in>set chosen. m \<in> set (nodes_of t s0) \<and> m \<in> set (nodes_of t s1)
       \<and> node_status m = Node_Ready \<and> q \<in> set (runs_of t s0) \<and> run_id q = node_run m"
    using Cons.prems(9,10) hit(4) by (force simp: row)
  have new: "granted t (new_claim worker lease_until n r) s1"
    by (rule granted_new[OF c keys n(2,3) stat Cons.prems(6) n(4,5)])
  have "granted t c' s1" if "c' \<in> set cs" for c'
    using granted_kept[OF c keys n(2,3)] step Cons.prems(11) that by blast
  with new have "\<forall>c\<in>set cs1. granted t c s1"
    by (simp add: hit(1))
  then have "preserves t X now now s1 s' \<and> live t now s'
      \<and> cs' = cs1 @ map (claim_of_row worker lease_until) chosen \<and> (\<forall>c\<in>set cs'. granted t c s')"
    using step inv stat later Cons.prems(6-9)
    by (intro Cons.IH[OF rest, where A = "occupy row A"]) simp_all
  then show ?case
    using step preserves_trans by (auto simp: hit(1) row claim_of_row_def)
qed

text \<open>\<open>claim_ready\<close> as a whole: the store before the selection, and the claims it returns.\<close>

lemma claim_ready_Inr:
  assumes "claim_ready t worker lease_until limit kinds reserve now s = Inr (s', cs)"
  obtains s1 where "reclaim_expired t now (expire_overdue t now s) = Inr s1"
    "foldM (claim_one t worker lease_until now) (select_claims t now limit kinds reserve s1) (s1, [])
       = Inr (s', cs)"
    "1 \<le> limit" "now < lease_until" "strip worker \<noteq> []"
  using assms unfolding claim_ready_def by (auto simp: result_simps)

lemma distinct_subset_mset: "mset xs \<subseteq># mset ys \<Longrightarrow> distinct ys \<Longrightarrow> distinct xs"
  unfolding distinct_count_atmost_1
  by (metis (no_types, lifting) count_eq_zero_iff le_zero_eq mset_subset_eq_count set_mset_mset le_antisym not_less_eq_eq One_nat_def)

lemma distinct_join:
  assumes "distinct ns" "distinct rs"
  shows "distinct (concat (map (\<lambda>n. concat (map (\<lambda>r. if P n r then [(n, r)] else []) rs)) ns))"
proof -
  have eq: "concat (map (\<lambda>r. if P n r then [(n, r)] else []) xs) = map (Pair n) (filter (P n) xs)" for n xs
    by (induction xs) simp_all
  show ?thesis
    unfolding eq using assms(1)
    by (induction ns) (use assms(2) in \<open>auto simp: distinct_map inj_on_def\<close>)
qed

lemma eligible_distinct:
  assumes "keys_ok t s"
  shows "distinct (map (node_id \<circ> fst) (eligible_rows t now s))"
proof -
  have d: "distinct (nodes_of t s)" "distinct (runs_of t s)"
    using assms unfolding keys_ok_def by (auto dest: distinct_map_imp)
  have "distinct (eligible_rows t now s)"
    unfolding eligible_rows_def by (simp add: distinct_join[OF d])
  moreover have "inj_on (node_id \<circ> fst) (set (eligible_rows t now s))"
    by (rule inj_onI, clarsimp simp: eligible_rows_mem)
      (metis unique_node[OF assms] unique_run[OF assms])
  ultimately show ?thesis
    by (simp add: distinct_map)
qed

lemma select_claims_distinct:
  assumes "keys_ok t s" and "1 \<le> limit"
  shows "distinct (map (node_id \<circ> fst) (select_claims t now limit kinds reserve s))"
proof -
  have "mset (map (node_id \<circ> fst) (select_claims t now limit kinds reserve s))
      \<subseteq># mset (map (node_id \<circ> fst) (eligible_rows t now s))"
    unfolding mset_map by (rule image_mset_subseteq_mono[OF select_claims_ok(4)[OF assms(2)]])
  then show ?thesis
    using eligible_distinct[OF assms(1), of now] distinct_subset_mset by blast
qed

lemma claim_ready_step:
  assumes "claim_ready t worker lease_until limit kinds reserve now s = Inr (s', cs)"
    and "wf_inv t l s" "l \<le> now"
  obtains s1 where "preserves t X l now s s1" "wf_inv t now s1" "live t now s1"
    "cs = map (claim_of_row worker lease_until) (select_claims t now limit kinds reserve s1)"
    "1 \<le> limit" "now < lease_until"
    "preserves t X now now s1 s'" "live t now s'" "\<forall>c\<in>set cs. granted t c s'"
    "reclaim_expired t now (expire_overdue t now s) = Inr s1"
proof -
  obtain s1 where s1: "reclaim_expired t now (expire_overdue t now s) = Inr s1"
    and fold: "foldM (claim_one t worker lease_until now) (select_claims t now limit kinds reserve s1) (s1, [])
       = Inr (s', cs)" and lim: "1 \<le> limit" "now < lease_until"
    by (rule claim_ready_Inr[OF assms(1)])
  have e: "preserves t X l now s (expire_overdue t now s)"
    by (rule expire_overdue_preserves[OF assms(3)])
  have "preserves t X now now (expire_overdue t now s) s1"
    by (rule reclaim_expired_preserves[OF s1 order_refl])
  with e have p: "preserves t X l now s s1" by (rule preserves_trans)
  have inv1: "wf_inv t now s1" by (rule preserves_inv[OF p assms(2)])
  have "keys_ok t (expire_overdue t now s)"
    by (rule wf_invD(1)[OF preserves_inv[OF e assms(2)]])
  have live: "live t now s1"
    unfolding live_def
  proof (intro ballI impI)
    fix b assume b: "b \<in> set (attempts_of t s1)" "att_status b = Attempt_Running"
    obtain u where u: "att_lease_until b = Some u"
      using wf_invD(5)[OF inv1] b unfolding attempts_ok_def attempt_check_def by force
    then have "now < u"
      using reclaim_expired_live(2)[OF s1 \<open>keys_ok t (expire_overdue t now s)\<close> b] by blast
    then show "\<not> stale now b" using u by (simp add: stale_def)
  qed
  note sel = select_claims_ok[OF lim(1), where t = t and s = s1 and now = now and kinds = kinds and reserve = reserve]
  note keys = wf_invD(1)[OF inv1]
  have dist: "distinct (map (node_id \<circ> fst) (select_claims t now limit kinds reserve s1))"
    by (rule select_claims_distinct[OF keys lim(1)])
  have mem: "\<forall>(n, r)\<in>set (select_claims t now limit kinds reserve s1). n \<in> set (nodes_of t s1)
       \<and> n \<in> set (nodes_of t s1) \<and> node_status n = Node_Ready \<and> r \<in> set (runs_of t s1) \<and> run_id r = node_run n"
    using sel(5) eligible_rows_mem[of _ _ t now s1] by blast
  have "preserves t X now now s1 s' \<and> live t now s'
      \<and> cs = [] @ map (claim_of_row worker lease_until) (select_claims t now limit kinds reserve s1)
      \<and> (\<forall>c\<in>set cs. granted t c s')"
    by (rule claim_fold[OF fold inv1 live covers_active same_static_refl keys lim(2) sel(1) dist mem]) simp
  then show ?thesis
    using that p inv1 live lim s1 by simp
qed

lemma claim_ready_preserves [preserved]:
  assumes "claim_ready t worker lease_until limit kinds reserve now s = Inr (s', cs)"
    and "l \<le> now" "now \<le> l'"
  shows "preserves t X l l' s s'"
proof (rule preserves_under_inv)
  assume inv: "wf_inv t l s"
  obtain s1 where "preserves t X l now s s1" "preserves t X now now s1 s'"
    by (rule claim_ready_step[OF assms(1) inv assms(2)])
  then have "preserves t X l now s s'" by (rule preserves_trans)
  then show "preserves t X l l' s s'"
    using preserves_trans preserves_refl[OF assms(3)] by blast
qed

end
