(* ===== verification/Workflow_Planning.thy ===== *)
theory Workflow_Planning
  imports Workflow_Claiming
begin

text \<open>
  Preservation for the operations that add rows: a new run, a new plan revision, a new
  instruction. A plan is added in three moves that each keep the invariant: the nodes of the
  plan it replaces become terminal, the run's active revision advances, and the new nodes and
  edges arrive.
\<close>

section \<open>A new run\<close>

lemma preserves_insert_run:
  assumes le: "l \<le> l'"
    and tables: "runs_of t s' = runs_of t s @ [r]" "nodes_of t s' = nodes_of t s"
      "edges_of t s' = edges_of t s" "attempts_of t s' = attempts_of t s"
    and new: "run_check r" "run_id r \<notin> run_id ` set (runs_of t s)"
  shows "preserves t X l l' s s'"
proof (rule preservesI, intro conjI allI impI)
  assume inv: "wf_inv t l s"
  note i = wf_invD[OF inv]
  have "node_run n \<noteq> run_id r" if n: "n \<in> set (nodes_of t s)" for n
  proof -
    obtain q where "q \<in> set (runs_of t s)" "run_id q = node_run n"
      using i(3) n unfolding nodes_ok_def by blast
    then show ?thesis using new(2) by (metis imageI)
  qed
  then have none: "filter (running_in (run_id r)) (nodes_of t s) = []"
    by (simp add: filter_empty_conv running_in_def)
  have "keys_ok t s'"
    using i(1) new(2) unfolding keys_ok_def tables by simp
  moreover have "runs_ok t s'"
    using i(2) new(1) unfolding runs_ok_def tables by simp
  moreover have "nodes_ok t s'"
    using i(3) unfolding nodes_ok_def tables by fastforce
  moreover have "edges_ok t s'"
    using i(4) unfolding edges_ok_def tables .
  moreover have "attempts_ok t s'"
    using i(5) unfolding attempts_ok_def tables .
  moreover have "leases_ok t l' s'"
    using wf_invD(6)[OF wf_inv_mono[OF inv le]] unfolding leases_ok_def tables .
  moreover have "deps_ok t s'"
    using i(7) unfolding deps_ok_def tables .
  moreover have "slots_ok t s'"
    using i(8) none new(1) unfolding slots_ok_def tables by (auto simp: run_check_def)
  ultimately show "wf_inv t l' s'"
    by (simp add: wf_inv_def)
  show "terminal_nodes_kept t s s'"
    unfolding terminal_nodes_kept_def tables by blast
  show "closed_run t rid st s'" if "closed_run t rid st s" for rid st
    using that new(2) unfolding closed_run_def tables by auto
qed

section \<open>The next revision of a run\<close>

lemma preserves_advance:
  assumes le: "l \<le> l'"
    and over: "\<And>n. n \<in> set (nodes_of t s) \<Longrightarrow> node_run n = rid \<Longrightarrow> node_terminal (node_status n)"
    and k: "\<And>r. run_id r = rid \<Longrightarrow> p r \<Longrightarrow> run_id (f r) = run_id r \<and> run_budget (f r) = run_budget r
      \<and> run_active_revision r \<le> run_active_revision (f r) \<and> (run_check r \<longrightarrow> run_check (f r))"
  shows "preserves t {rid} l l' s (update_runs t (\<lambda>r. run_id r = rid \<and> p r) f s)"
    (is "preserves t {rid} l l' s ?s")
proof (rule preservesI, intro conjI allI impI)
  let ?k = "upd_row (\<lambda>r. run_id r = rid \<and> p r) f"
  assume inv: "wf_inv t l s"
  note i = wf_invD[OF inv]
  have f: "run_id (?k r) = run_id r" "run_budget (?k r) = run_budget r"
      "run_active_revision r \<le> run_active_revision (?k r)" "run_check r \<Longrightarrow> run_check (?k r)"
      "run_id r \<noteq> rid \<Longrightarrow> ?k r = r" for r
    using k[of r] by (auto simp: upd_row_def)
  have "keys_ok t ?s"
    using i(1) distinct_map_keep[of run_id "runs_of t s" ?k] f(1) unfolding keys_ok_def by simp
  moreover have "runs_ok t ?s"
    using i(2) f(4) unfolding runs_ok_def by auto
  moreover have "nodes_ok t ?s"
    unfolding nodes_ok_def
  proof
    fix n assume n: "n \<in> set (nodes_of t ?s)"
    then obtain r where r: "r \<in> set (runs_of t s)" "run_id r = node_run n"
        "node_plan_revision n \<le> run_active_revision r" "node_check n"
        "node_plan_revision n < run_active_revision r \<longrightarrow> node_terminal (node_status n)"
      using i(3) unfolding nodes_ok_def by auto
    have "node_terminal (node_status n) \<or> ?k r = r"
      using over[of n] n f(5)[of r] r(2) by (cases "run_id r = rid") auto
    then have "node_plan_revision n \<le> run_active_revision (?k r)
        \<and> (node_plan_revision n < run_active_revision (?k r) \<longrightarrow> node_terminal (node_status n))"
      using r(3,5) f(3)[of r] by auto
    then show "node_check n \<and> (\<exists>r\<in>set (runs_of t ?s). run_id r = node_run n
        \<and> node_plan_revision n \<le> run_active_revision r
        \<and> (node_plan_revision n < run_active_revision r \<longrightarrow> node_terminal (node_status n)))"
      using r(1,2,4) f(1)[of r] by auto
  qed
  moreover have "edges_ok t ?s"
    using i(4) by (simp add: edges_ok_def)
  moreover have "attempts_ok t ?s"
    using i(5) by (simp add: attempts_ok_def)
  moreover have "leases_ok t l' ?s"
    using wf_invD(6)[OF wf_inv_mono[OF inv le]] by (simp add: leases_ok_def)
  moreover have "deps_ok t ?s"
    using i(7) by (simp add: deps_ok_def)
  moreover have "slots_ok t ?s"
    using i(8) f(1,2) by (simp add: slots_ok_def)
  ultimately show "wf_inv t l' ?s"
    by (simp add: wf_inv_def)
  show "terminal_nodes_kept t s ?s"
    by (auto simp: terminal_nodes_kept_def)
  show "closed_run t x st ?s" if "x \<notin> {rid}" "closed_run t x st s" for x st
    using that f unfolding closed_run_def by auto
qed

section \<open>The rows of a plan\<close>

lemma preserves_insert_plan:
  assumes le: "l \<le> l'"
    and tables: "runs_of t s' = runs_of t s" "nodes_of t s' = nodes_of t s @ ns"
      "edges_of t s' = edges_of t s @ es" "attempts_of t s' = attempts_of t s"
    and run: "r \<in> set (runs_of t s)" "run_id r = rid" "run_active_revision r = v"
    and ns: "\<And>n. n \<in> set ns \<Longrightarrow> node_run n = rid \<and> node_plan_revision n = v \<and> node_check n
      \<and> (node_status n = Node_Pending \<or> node_status n = Node_Ready \<and> incoming es (node_id n) = {})"
    and fresh: "\<not> key_clash node_id (nodes_of t s) ns"
    and es: "\<And>e. e \<in> set es \<Longrightarrow> edge_run e = rid \<and> edge_plan_revision e = v
      \<and> edge_from e \<in> node_id ` set ns \<and> edge_to e \<in> node_id ` set ns"
  shows "preserves t {rid} l l' s s'"
proof (rule preservesI, intro conjI allI impI)
  assume inv: "wf_inv t l s"
  note i = wf_invD[OF inv]
  have apart: "node_id m \<noteq> node_id n" if "m \<in> set (nodes_of t s)" "n \<in> set ns" for m n
  proof -
    have "node_id n \<notin> node_id ` set (nodes_of t s)"
      using fresh that(2) by (simp add: key_clash_def)
    then show ?thesis using that(1) by (metis imageI)
  qed
  have new_status: "node_status n \<noteq> Node_Running" "\<not> node_terminal (node_status n)" if "n \<in> set ns" for n
    using ns[OF that] by auto
  have "keys_ok t s'"
    using i(1) no_key_clash_distinct[OF _ fresh] unfolding keys_ok_def tables by simp
  moreover have "runs_ok t s'"
    using i(2) unfolding runs_ok_def tables .
  moreover have "nodes_ok t s'"
    unfolding nodes_ok_def tables
  proof
    fix n assume "n \<in> set (nodes_of t s @ ns)"
    then consider "n \<in> set (nodes_of t s)" | "n \<in> set ns" by auto
    then show "node_check n \<and> (\<exists>r\<in>set (runs_of t s). run_id r = node_run n
        \<and> node_plan_revision n \<le> run_active_revision r
        \<and> (node_plan_revision n < run_active_revision r \<longrightarrow> node_terminal (node_status n)))"
    proof cases
      case 1
      then show ?thesis using i(3) unfolding nodes_ok_def by blast
    next
      case 2
      then show ?thesis using ns[OF 2] run by (intro conjI bexI[of _ r]) simp_all
    qed
  qed
  moreover have "edges_ok t s'"
    unfolding edges_ok_def tables
  proof
    fix e assume "e \<in> set (edges_of t s @ es)"
    then consider "e \<in> set (edges_of t s)" | "e \<in> set es" by auto
    then show "\<exists>u\<in>set (nodes_of t s @ ns). \<exists>v\<in>set (nodes_of t s @ ns).
      node_id u = edge_from e \<and> node_id v = edge_to e \<and> node_run u = edge_run e
      \<and> node_run v = edge_run e \<and> node_plan_revision u = edge_plan_revision e
      \<and> node_plan_revision v = edge_plan_revision e"
    proof cases
      case 1
      then show ?thesis using i(4) unfolding edges_ok_def set_append by blast
    next
      case 2
      then obtain x y where "x \<in> set ns" "y \<in> set ns" "node_id x = edge_from e" "node_id y = edge_to e"
        using es[OF 2] by auto
      then show ?thesis using es[OF 2] ns by auto
    qed
  qed
  moreover have "attempts_ok t s'"
    using i(5) unfolding attempts_ok_def tables set_append by blast
  moreover have "leases_ok t l' s'"
    unfolding leases_ok_def tables
  proof (intro conjI ballI impI)
    note old = wf_invD(6)[OF wf_inv_mono[OF inv le]]
    fix n assume n: "n \<in> set (nodes_of t s @ ns)"
    show "\<exists>a\<in>set (attempts_of t s). att_node a = node_id n \<and> att_number a = node_attempt_count n
        \<and> att_status a = Attempt_Running" if "node_status n = Node_Running"
      using that n old new_status(1) unfolding leases_ok_def by auto
    fix a assume a: "a \<in> set (attempts_of t s)" "att_status a = Attempt_Running" "att_node a = node_id n"
    obtain m where "m \<in> set (nodes_of t s)" "node_id m = att_node a"
      using i(5) a(1) unfolding attempts_ok_def by blast
    then have "n \<notin> set ns"
      using apart a(3) by fastforce
    then show "if node_status n = Node_Running then att_number a = node_attempt_count n else stale l' a"
      using n old a unfolding leases_ok_def by simp
  qed
  moreover have "deps_ok t s'"
    unfolding deps_ok_def tables
  proof (intro ballI impI)
    fix e u w assume e: "e \<in> set (edges_of t s @ es)" and uw: "u \<in> set (nodes_of t s @ ns)"
      "w \<in> set (nodes_of t s @ ns)" "node_id u = edge_from e" "node_id w = edge_to e"
      and st: "started (node_status w)"
    consider "e \<in> set (edges_of t s)" | "e \<in> set es" using e by auto
    then show "node_status u = Node_Succeeded"
    proof cases
      case 1
      then obtain a b where "a \<in> set (nodes_of t s)" "b \<in> set (nodes_of t s)"
          "node_id a = edge_from e" "node_id b = edge_to e"
        using i(4) unfolding edges_ok_def by blast
      then have "u \<in> set (nodes_of t s)" "w \<in> set (nodes_of t s)"
        using uw apart by fastforce+
      then show ?thesis
        using 1 i(7) uw(3,4) st unfolding deps_ok_def by blast
    next
      case 2
      then obtain b where b: "b \<in> set ns" "node_id b = edge_to e"
        using es[OF 2] by auto
      then have "w \<in> set ns"
        using uw(2,4) apart[of w b] by auto
      then have "incoming es (node_id w) = {}"
        using ns[of w] st by auto
      then show ?thesis
        using 2 uw(4) by (auto simp: incoming_def)
    qed
  qed
  moreover have "slots_ok t s'"
  proof -
    have none: "filter (running_in x) ns = []" for x
      using new_status(1) by (auto simp: filter_empty_conv running_in_def)
    show ?thesis
      using i(8) new_status(1) unfolding slots_ok_def tables filter_append none by auto
  qed
  ultimately show "wf_inv t l' s'"
    by (simp add: wf_inv_def)
  show "terminal_nodes_kept t s s'"
    unfolding terminal_nodes_kept_def tables by auto
  show "closed_run t x st s'" if "x \<notin> {rid}" "closed_run t x st s" for x st
    using that ns unfolding closed_run_def tables by auto
qed

section \<open>The operations\<close>

lemma insert_run_Inr:
  "insert_run t r s = Inr s' \<Longrightarrow> s' = s\<lparr>runs_t := insert_rows t [r] (runs_t s)\<rparr> \<and> run_check r
     \<and> run_id r \<notin> run_id ` set (runs_of t s)"
  by (auto simp: insert_run_def result_simps key_clash_def)

lemma insert_revision_Inr:
  "insert_revision t v s = Inr s' \<Longrightarrow> s' = s\<lparr>revisions_t := insert_rows t [v] (revisions_t s)\<rparr>"
  by (simp add: insert_revision_def result_simps)

lemma insert_plan_Inr:
  assumes "insert_plan t ns es s = Inr s'"
  shows "s' = s\<lparr>nodes_t := insert_rows t ns (nodes_t s), edges_t := insert_rows t es (edges_t s)\<rparr>"
    and "\<And>n. n \<in> set ns \<Longrightarrow> node_check n" and "\<not> key_clash node_id (nodes_of t s) ns"
    and "\<And>e. e \<in> set es \<Longrightarrow> edge_from e \<noteq> edge_to e"
  using assms by (auto simp: insert_plan_def insert_nodes_def insert_edges_def result_simps
      list_all_iff edge_check_def)

lemma marked_nodes:
  assumes "plan_well_formed rid v nodes es" and "n \<in> set (mark_roots nodes es)"
  shows "node_run n = rid \<and> node_plan_revision n = v
    \<and> (node_status n = Node_Pending \<or> node_status n = Node_Ready \<and> incoming es (node_id n) = {})"
proof -
  obtain m where m: "m \<in> set nodes" "n = m\<lparr>node_status :=
      (if incoming es (node_id m) = {} then Node_Ready else Node_Pending)\<rparr>"
    using mark_roots_mem[OF assms(2)] by blast
  then show ?thesis
    using assms(1) by (cases "incoming es (node_id m) = {}") (simp_all add: plan_well_formed_def)
qed

lemma well_formed_edges:
  assumes "plan_well_formed rid v nodes es" and "e \<in> set es"
  shows "edge_run e = rid \<and> edge_plan_revision e = v
    \<and> edge_from e \<in> node_id ` set (mark_roots nodes es) \<and> edge_to e \<in> node_id ` set (mark_roots nodes es)"
proof -
  have "node_id ` set (mark_roots nodes es) = node_id ` set nodes"
    unfolding set_map[symmetric] by simp
  then show ?thesis
    using assms by (simp add: plan_well_formed_def)
qed

lemma create_workflow_cases:
  assumes "create_workflow t run nodes es s = Inr (s', sn)"
  obtains (old) "s' = s"
  | (new) s1 s2 where "select_where t (\<lambda>r. run_idempotency_key r = run_idempotency_key run) (runs_t s) = []"
      "run_active_revision run = 1" "run_status run = Run_Queued"
      "plan_well_formed (run_id run) 1 nodes es" "insert_run t run s = Inr s1"
      "insert_revision t \<lparr>rev_run = run_id run, rev_number = 1, rev_reason = Reason_Initial,
         rev_instruction = None, rev_created_at = run_created_at run\<rparr> s1 = Inr s2"
      "insert_plan t (mark_roots nodes es) es s2 = Inr s'"
  using assms unfolding create_workflow_def
  by (auto simp: result_simps validate_plan_Inr split: option.splits dest!: with_snapshot_Inr)

lemma create_workflow_preserves [preserved]:
  assumes "create_workflow t run nodes es s = Inr (s', sn)" and "l \<le> l'"
  shows "preserves t {} l l' s s'"
  using assms(1)
proof (cases rule: create_workflow_cases)
  case old
  then show ?thesis using assms(2) by (simp add: preserves_refl)
next
  case (new s1 s2)
  note r = insert_run_Inr[OF new(5)] and v = insert_revision_Inr[OF new(6)] and p = insert_plan_Inr[OF new(7)]
  have "preserves t {run_id run} l l' s s1"
    using r by (intro preserves_insert_run[OF assms(2), where r = run]) auto
  moreover have "preserves t {run_id run} l' l' s1 s'"
  proof (rule preserves_insert_plan[OF order_refl, where v = 1 and r = run])
    show "\<not> key_clash node_id (nodes_of t s1) (mark_roots nodes es)"
      using p(3) v by simp
    show "node_run n = run_id run \<and> node_plan_revision n = 1 \<and> node_check n
        \<and> (node_status n = Node_Pending \<or> node_status n = Node_Ready \<and> incoming es (node_id n) = {})"
      if "n \<in> set (mark_roots nodes es)" for n
      using marked_nodes[OF new(4) that] p(2)[OF that] by blast
  qed (use p(1) v r new(2) well_formed_edges[OF new(4)] in auto)
  ultimately have "preserves t {run_id run} l l' s s'" by (rule preserves_trans)
  then show ?thesis
    by (rule preserves_open) (use r in \<open>auto simp: closed_run_def image_iff\<close>)
qed

lemma append_plan_cases:
  assumes "append_plan t rid expected reason instruction nodes es now s = Inr (s', sn)"
  obtains row run s2 s3 where "locked_run t rid s = Inr row" "run_from_row row = Inr run"
    "\<not> run_terminal (run_status run)" "run_active_revision run = expected"
    "\<not> has_running_attempt t rid s" "plan_well_formed rid (expected + 1) nodes es"
    "insert_revision t \<lparr>rev_run = rid, rev_number = expected + 1, rev_reason = reason,
       rev_instruction = instruction, rev_created_at = now\<rparr>
       (update_nodes t (supersedable rid expected) (supersede now) s) = Inr s2"
    "insert_plan t (mark_roots nodes es) es s2 = Inr s3"
    "runs_t s' = update_where t (\<lambda>r. run_id r = rid \<and> run_active_revision r = expected)
       (\<lambda>r. r\<lparr>run_active_revision := expected + 1, run_status := Run_Queued,
              run_pause_requested := False, run_error_code := None, run_updated_at := now\<rparr>) (runs_t s3)"
    "nodes_t s' = nodes_t s3" "edges_t s' = edges_t s3" "attempts_t s' = attempts_t s3"
    "revisions_t s' = revisions_t s3"
  using assms unfolding append_plan_def Let_def
  by (auto simp: result_simps validate_plan_Inr split: option.splits dest!: with_snapshot_Inr)

lemma superseded_terminal:
  assumes "wf_inv t l s" and "row \<in> set (runs_of t s)" "run_id row = rid" "run_active_revision row = v"
    and "\<not> has_running_attempt t rid s" and "n \<in> set (nodes_of t s)" "node_run n = rid"
  shows "node_terminal (node_status (upd_row (supersedable rid v) (supersede now) n))"
proof (cases "supersedable rid v n")
  case True
  then show ?thesis by (simp add: supersede_def)
next
  case False
  obtain r where r: "r \<in> set (runs_of t s)" "run_id r = node_run n"
      "node_plan_revision n \<le> run_active_revision r"
      "node_plan_revision n < run_active_revision r \<longrightarrow> node_terminal (node_status n)"
    using wf_invD(3)[OF assms(1)] assms(6) unfolding nodes_ok_def by blast
  then have "r = row"
    using unique_run[OF wf_invD(1)[OF assms(1)] r(1) assms(2)] assms(3,7) by simp
  have "node_status n \<noteq> Node_Running"
  proof
    assume "node_status n = Node_Running"
    then obtain a where a: "a \<in> set (attempts_of t s)" "att_node a = node_id n" "att_status a = Attempt_Running"
      using wf_invD(6)[OF assms(1)] assms(6) unfolding leases_ok_def by blast
    then show False
      using attempt_run(1)[OF assms(1,6) a(1,2)] assms(5,7) by (auto simp: has_running_attempt_iff)
  qed
  then have "node_terminal (node_status n)"
    using False r(3,4) \<open>r = row\<close> assms(4,7) by (cases "node_status n") (auto simp: supersedable_def)
  then show ?thesis using False by simp
qed

lemma append_plan_preserves [preserved]:
  assumes "append_plan t rid expected reason instruction nodes es now s = Inr (s', sn)" and "l \<le> l'"
  shows "preserves t {} l l' s s'"
  using assms(1)
proof (cases rule: append_plan_cases)
  case (1 row run s2 s3)
  let ?s1 = "update_nodes t (supersedable rid expected) (supersede now) s"
  let ?f = "\<lambda>r. r\<lparr>run_active_revision := expected + 1, run_status := Run_Queued,
              run_pause_requested := False, run_error_code := None, run_updated_at := now\<rparr>"
  let ?sb = "update_runs t (\<lambda>r. run_id r = rid \<and> run_active_revision r = expected) ?f ?s1"
  note v = insert_revision_Inr[OF 1(7)] and p = insert_plan_Inr[OF 1(8)]
  have row: "row \<in> set (runs_of t s)" "run_id row = rid" "run_active_revision row = expected"
    using locked_run_Inr[OF 1(1)] run_from_row_status[OF 1(2)] 1(4) by simp_all
  have "preserves t {rid} l l' s s'"
  proof (rule preserves_under_inv)
    assume inv: "wf_inv t l s"
    have "preserves t {rid} l l' s ?s1"
      by (rule preserves_update_nodes[OF assms(2)])
        (auto simp: supersedable_def supersede_def same_node_def node_move_def)
    also have "preserves t {rid} l' l' ?s1 ?sb"
    proof (rule preserves_advance[OF order_refl])
      fix n assume n: "n \<in> set (nodes_of t ?s1)" "node_run n = rid"
      then obtain m where m: "m \<in> set (nodes_of t s)" "n = upd_row (supersedable rid expected) (supersede now) m"
        by auto
      then have "node_run m = rid"
        using n(2) by (simp add: upd_row_def supersede_def split: if_splits)
      then show "node_terminal (node_status n)"
        using superseded_terminal[OF inv row 1(5) m(1)] m(2) by simp
    qed (simp_all add: run_check_def)
    also have "preserves t {rid} l' l' ?sb s'"
    proof (rule preserves_insert_plan[OF order_refl, where v = "expected + 1" and r = "?f row"])
      show "?f row \<in> set (runs_of t ?sb)"
        using row by (auto intro!: image_eqI[of _ _ row])
      show "\<not> key_clash node_id (nodes_of t ?sb) (mark_roots nodes es)"
        using p(3) v by simp
      show "node_run n = rid \<and> node_plan_revision n = expected + 1 \<and> node_check n
          \<and> (node_status n = Node_Pending \<or> node_status n = Node_Ready \<and> incoming es (node_id n) = {})"
        if "n \<in> set (mark_roots nodes es)" for n
        using marked_nodes[OF 1(6) that] p(2)[OF that] by blast
    qed (use p(1) v row 1(9-12) well_formed_edges[OF 1(6)] in auto)
    finally show "preserves t {rid} l l' s s'" .
  qed
  then show ?thesis by (rule preserves_locked[OF 1(1-3)])
qed

text \<open>Instructions touch no other table.\<close>

lemma preserves_same_view:
  assumes "l \<le> l'" "runs_t s' = runs_t s" "nodes_t s' = nodes_t s" "edges_t s' = edges_t s"
    "attempts_t s' = attempts_t s"
  shows "preserves t X l l' s s'"
proof (rule preservesI)
  assume "wf_inv t l s"
  then have "wf_inv t l' s" using assms(1) by (rule wf_inv_mono)
  then show "wf_inv t l' s' \<and> (\<forall>rid st. rid \<notin> X \<longrightarrow> closed_run t rid st s \<longrightarrow> closed_run t rid st s')
      \<and> terminal_nodes_kept t s s'"
    using assms by (auto simp: wf_inv_def wf_inv_parts closed_run_def terminal_nodes_kept_def)
qed

lemma add_instruction_preserves [preserved]:
  assumes "add_instruction t new_id rid instruction expected key now s = Inr (s', i)" and "l \<le> l'"
  shows "preserves t X l l' s s'"
proof -
  have "s' = s \<or> (\<exists>tb. s' = s\<lparr>instructions_t := tb\<rparr>)"
    using assms(1) unfolding add_instruction_def persist_instruction_def Let_def insert_instruction_def
    by (auto simp: result_simps split: option.splits)
  then show ?thesis
    by (intro preserves_same_view[OF assms(2)]) auto
qed

end
