(* ===== verification/Workflow_Machine.thy ===== *)
theory Workflow_Machine
  imports Workflow_Planning
begin

text \<open>
  The repository as a state machine: a call is one method of
  \<open>SqlAlchemyWorkflowRepository\<close> with its arguments, \<open>exec_call\<close> runs it for a tenant, and
  \<open>wf_step\<close> is one call of any tenant at any later time. A call that raises is rolled back by
  its unit of work and changes nothing. The clock readings of one call lie between the time of
  the step before it and the time it leaves.
\<close>

section \<open>Calls\<close>

datatype wf_call =
    Create workflow_run "workflow_node list" "workflow_edge list"
  | Append_Plan uuid int plan_reason "uuid option" "workflow_node list" "workflow_edge list"
  | Claim_Ready string instant int "string set" bool
  | Renew attempt_claim instant
  | Complete attempt_claim json "string list" "string option"
  | Retry attempt_claim instant string
  | Defer attempt_claim instant json
  | Wait_Approval attempt_claim json
  | Wait_Input attempt_claim json
  | Fail attempt_claim string
  | Abandon attempt_claim
  | Request_Pause uuid
  | Resume uuid
  | Cancel uuid
  | Reserve_Budget uuid int int
  | Upgrade_Budget uuid workflow_budget
  | Add_Instruction uuid uuid string int string

definition keep_store :: "wf_error + wf_store \<times> 'a \<Rightarrow> wf_error + wf_store" where
  "keep_store = map_sum id fst"

lemma keep_store_Inr: "keep_store x = Inr s' \<longleftrightarrow> (\<exists>y. x = Inr (s', y))"
  by (cases x) (auto simp: keep_store_def)

fun exec_call :: "tenant \<Rightarrow> clock \<Rightarrow> wf_call \<Rightarrow> wf_store \<Rightarrow> wf_error + wf_store" where
  "exec_call t clk (Create run nodes es) s = keep_store (create_workflow t run nodes es s)"
| "exec_call t clk (Append_Plan rid v reason i nodes es) s =
     keep_store (append_plan t rid v reason i nodes es (clk 0) s)"
| "exec_call t clk (Claim_Ready worker lease_until limit kinds reserve) s =
     keep_store (claim_ready t worker lease_until limit kinds reserve (clk 0) s)"
| "exec_call t clk (Renew c lease_until) s = keep_store (renew t c lease_until clk s)"
| "exec_call t clk (Complete c result evidence summary) s =
     keep_store (complete t c result evidence summary clk s)"
| "exec_call t clk (Retry c available_at e) s = keep_store (retry t c available_at e clk s)"
| "exec_call t clk (Defer c available_at result) s =
     keep_store (defer_claim t c available_at result clk s)"
| "exec_call t clk (Wait_Approval c result) s = keep_store (wait_for_approval t c result clk s)"
| "exec_call t clk (Wait_Input c result) s = keep_store (wait_for_input t c result clk s)"
| "exec_call t clk (Fail c e) s = keep_store (fail t c e clk s)"
| "exec_call t clk (Abandon c) s = keep_store (abandon t c (clk 0) s)"
| "exec_call t clk (Request_Pause rid) s = keep_store (request_pause t rid (clk 0) s)"
| "exec_call t clk (Resume rid) s = keep_store (resume t rid (clk 0) s)"
| "exec_call t clk (Cancel rid) s = keep_store (cancel t rid (clk 0) s)"
| "exec_call t clk (Reserve_Budget rid rounds tools) s =
     keep_store (reserve_budget t rid rounds tools (clk 0) s)"
| "exec_call t clk (Upgrade_Budget rid budget) s =
     keep_store (upgrade_budget t rid budget (clk 0) s)"
| "exec_call t clk (Add_Instruction new_id rid instruction v key) s =
     keep_store (add_instruction t new_id rid instruction v key (clk 0) s)"

lemma exec_call_preserves:
  assumes "exec_call t clk c s = Inr s'" and "l \<le> clk 0" "monotone_clock clk" "clk 2 \<le> l'"
  shows "preserves t {} l l' s s'"
proof -
  have le: "l \<le> clk 0" "clk 0 \<le> clk 1" "clk 1 \<le> l'" "clk 2 \<le> l'" "clk 0 \<le> l'" "l \<le> l'"
    using assms(2,4) monotone_clockD[OF assms(3), of 0 1] monotone_clockD[OF assms(3), of 1 2] by auto
  show ?thesis
    using assms(1) by (cases c) (auto simp: keep_store_Inr intro: preserved le)
qed

section \<open>Other tenants\<close>

lemma same_view_refl [simp]: "same_view t s s"
  by (simp add: same_view_def)

lemma same_view_trans: "same_view t s s' \<Longrightarrow> same_view t s' s'' \<Longrightarrow> same_view t s s''"
  by (simp add: same_view_def)

lemma same_view_update [simp]:
  assumes "t' \<noteq> t"
  shows "same_view t' s (update_runs t p f s') = same_view t' s s'"
    and "same_view t' s (update_nodes t q g s') = same_view t' s s'"
    and "same_view t' s (update_attempts t u h s') = same_view t' s s'"
    and "same_view t' s (update_instructions t w k s') = same_view t' s s'"
  using assms by (simp_all add: same_view_def)

lemma same_view_insert [simp]:
  assumes "t' \<noteq> t"
  shows "same_view t' s (s'\<lparr>runs_t := insert_rows t x (runs_t s')\<rparr>) = same_view t' s s'"
    and "same_view t' s (s'\<lparr>revisions_t := insert_rows t y (revisions_t s')\<rparr>) = same_view t' s s'"
    and "same_view t' s (s'\<lparr>nodes_t := insert_rows t z (nodes_t s')\<rparr>) = same_view t' s s'"
    and "same_view t' s (s'\<lparr>edges_t := insert_rows t e (edges_t s')\<rparr>) = same_view t' s s'"
    and "same_view t' s (s'\<lparr>attempts_t := insert_rows t a (attempts_t s')\<rparr>) = same_view t' s s'"
    and "same_view t' s (s'\<lparr>instructions_t := insert_rows t i (instructions_t s')\<rparr>) = same_view t' s s'"
  using assms by (simp_all add: same_view_def)

lemma same_view_fold:
  assumes "\<And>x s'. same_view t' s (f x s') = same_view t' s s'"
  shows "same_view t' s (fold f xs s') = same_view t' s s'"
  by (induction xs arbitrary: s') (simp_all add: assms)

lemma same_view_helpers [simp]:
  assumes "t' \<noteq> t"
  shows "same_view t' s (settle_attempt t c st e now tm s') = same_view t' s s'"
    and "same_view t' s (cancel_running_attempts t rid now ex s') = same_view t' s s'"
    and "same_view t' s (expire_run t now r s') = same_view t' s s'"
    and "same_view t' s (settle_pause t rid now s') = same_view t' s s'"
    and "same_view t' s (promote_target t rid v now u s') = same_view t' s s'"
    and "same_view t' s (requeue_run t rid now s') = same_view t' s s'"
    and "same_view t' s (park_attempt t c j now tm s') = same_view t' s s'"
  using assms
  by (simp_all add: settle_attempt_def cancel_running_attempts_def expire_run_def settle_pause_def
      promote_target_def requeue_run_def park_attempt_def Let_def)

lemma same_view_sweeps [simp]:
  assumes "t' \<noteq> t"
  shows "same_view t' s (expire_overdue t now s') = same_view t' s s'"
    and "same_view t' s (release_node t n r e now s') = same_view t' s s'"
    and "same_view t' s (promote_dependents t rid v now s') = same_view t' s s'"
  using assms
  by (simp_all add: expire_overdue_def promote_dependents_def release_node_def Let_def same_view_fold)

lemma reclaim_expired_frame:
  assumes "reclaim_expired t now s = Inr s'" "t' \<noteq> t"
  shows "same_view t' s s'"
  using assms(1) unfolding reclaim_expired_def
  by (rule foldM_invariant) (use assms(2) in \<open>auto simp: reclaim_attempt_def result_simps\<close>)

lemma claim_one_frame:
  assumes "claim_one t worker u now row (s, cs) = Inr (s', cs')" "t' \<noteq> t"
  shows "same_view t' s s'"
  using assms unfolding claim_one_def insert_attempt_def Let_def
  by (auto simp: result_simps same_view_def split: prod.splits if_splits)

lemma claim_ready_frame:
  assumes "claim_ready t worker u limit kinds reserve now s = Inr (s', cs)" "t' \<noteq> t"
  shows "same_view t' s s'"
proof -
  obtain s1 where s1: "reclaim_expired t now (expire_overdue t now s) = Inr s1"
    and fold: "foldM (claim_one t worker u now) (select_claims t now limit kinds reserve s1) (s1, [])
       = Inr (s', cs)"
    by (rule claim_ready_Inr[OF assms(1)])
  have "same_view t' s (expire_overdue t now s)"
    using assms(2) by simp
  then have "same_view t' s s1"
    using reclaim_expired_frame[OF s1 assms(2)] same_view_trans by blast
  moreover have "same_view t' s1 (fst (s', cs))"
    by (rule foldM_invariant[OF fold, where P = "\<lambda>acc. same_view t' s1 (fst acc)"])
      (use claim_one_frame[OF _ assms(2)] same_view_trans in \<open>(fastforce)+\<close>)
  ultimately show ?thesis using same_view_trans by simp
qed

lemma create_workflow_frame:
  assumes "create_workflow t run nodes es s = Inr (s', sn)" "t' \<noteq> t"
  shows "same_view t' s s'"
  using assms(1)
proof (cases rule: create_workflow_cases)
  case (new s1 s2)
  then show ?thesis
    using assms(2) insert_run_Inr[OF new(5)] insert_revision_Inr[OF new(6)] insert_plan_Inr(1)[OF new(7)]
    by (simp add: same_view_def)
qed simp

lemma append_plan_frame:
  assumes "append_plan t rid v reason i nodes es now s = Inr (s', sn)" "t' \<noteq> t"
  shows "same_view t' s s'"
  using assms unfolding append_plan_def Let_def insert_plan_def insert_revision_def insert_nodes_def
    insert_edges_def
  by (auto simp: result_simps same_view_def split: option.splits dest!: with_snapshot_Inr)

lemma fail_frame:
  assumes "fail t c e clk s = Inr (s', sn)" "t' \<noteq> t"
  shows "same_view t' s s'"
  by (rule fail_Inr[OF assms(1)]) (simp add: assms(2))

lemma settle_run_frame:
  assumes "settle_run t rid now s = Inr s'" "t' \<noteq> t"
  shows "same_view t' s0 s' = same_view t' s0 s"
  by (rule settle_run_Inr[OF assms(1)]) (simp add: assms(2))

lemma claim_frames:
  assumes "t' \<noteq> t"
  shows "complete t c result evidence summary clk s = Inr (s', sn) \<Longrightarrow> same_view t' s s'"
    and "retry t c available_at e clk s = Inr (s', sn) \<Longrightarrow> same_view t' s s'"
    and "defer_claim t c available_at result clk s = Inr (s', sn) \<Longrightarrow> same_view t' s s'"
    and "wait_for_approval t c result clk s = Inr (s', sn) \<Longrightarrow> same_view t' s s'"
    and "wait_for_input t c result clk s = Inr (s', sn) \<Longrightarrow> same_view t' s s'"
    and "abandon t c now s = Inr (s', done) \<Longrightarrow> same_view t' s s'"
    and "renew t c u clk s = Inr (s', done) \<Longrightarrow> same_view t' s s'"
  using assms fail_frame[OF _ assms]
  by (auto simp: complete_def retry_def defer_claim_def wait_for_approval_def wait_for_input_def
      abandon_def renew_def Let_def result_simps settle_run_frame split: option.splits if_splits
      dest!: with_snapshot_Inr)

lemma steering_frames:
  assumes "t' \<noteq> t"
  shows "request_pause t rid now s = Inr (s', sn) \<Longrightarrow> same_view t' s s'"
    and "resume t rid now s = Inr (s', sn) \<Longrightarrow> same_view t' s s'"
    and "cancel t rid now s = Inr (s', sn) \<Longrightarrow> same_view t' s s'"
  using assms
  by (auto simp: request_pause_def resume_def cancel_def Let_def result_simps map_sum_Pair_Inr
      split: if_splits dest!: with_snapshot_Inr)

lemma reserve_budget_frame:
  assumes "reserve_budget t rid rounds tools now s = Inr (s', sn)" "t' \<noteq> t"
  shows "same_view t' s s'"
  by (rule reserve_budget_cases[OF assms(1)]) (simp add: update_run_checked_Inr assms(2))

lemma upgrade_budget_frame:
  assumes "upgrade_budget t rid budget now s = Inr (s', sn)" "t' \<noteq> t"
  shows "same_view t' s s'"
  by (rule upgrade_budget_cases[OF assms(1)]) (simp_all add: update_run_checked_Inr assms(2))

lemma add_instruction_frame:
  assumes "add_instruction t new_id rid text v key now s = Inr (s', i)" "t' \<noteq> t"
  shows "same_view t' s s'"
  using assms
  unfolding add_instruction_def persist_instruction_def insert_instruction_def Let_def
  by (auto simp: result_simps split: option.splits)

lemmas frames = create_workflow_frame append_plan_frame claim_ready_frame fail_frame
  reserve_budget_frame upgrade_budget_frame add_instruction_frame

text \<open>No call touches a row of another tenant.\<close>

lemma exec_call_frame:
  assumes "exec_call t clk c s = Inr s'" "t' \<noteq> t"
  shows "same_view t' s s'"
  using assms(1)
  by (cases c) (auto simp: keep_store_Inr
      elim: frames[OF _ assms(2)] claim_frames[OF assms(2)] steering_frames[OF assms(2)])

lemma closed_run_same_view: "same_view t s s' \<Longrightarrow> closed_run t rid st s' = closed_run t rid st s"
  by (simp add: same_view_def closed_run_def)

lemma terminal_nodes_same_view: "same_view t s s' \<Longrightarrow> terminal_nodes_kept t s s'"
  by (auto simp: same_view_def terminal_nodes_kept_def)

section \<open>Steps and reachable states\<close>

inductive wf_step :: "instant \<times> wf_store \<Rightarrow> instant \<times> wf_store \<Rightarrow> bool" where
  commit: "exec_call t clk c s = Inr s' \<Longrightarrow> monotone_clock clk \<Longrightarrow> l \<le> clk 0 \<Longrightarrow> clk 2 \<le> l' \<Longrightarrow>
    wf_step (l, s) (l', s')"
| rollback: "l \<le> l' \<Longrightarrow> wf_step (l, s) (l', s)"

definition initial :: "instant \<times> wf_store \<Rightarrow> bool" where
  "initial ls \<longleftrightarrow> snd ls = empty_store"

definition store_inv :: "instant \<times> wf_store \<Rightarrow> bool" where
  "store_inv ls \<longleftrightarrow> (\<forall>t. wf_inv t (fst ls) (snd ls))"

lemma wf_step_preserves:
  assumes "wf_step (l, s) (l', s')" and "wf_inv t l s"
  shows "wf_inv t l' s' \<and> (\<forall>rid st. closed_run t rid st s \<longrightarrow> closed_run t rid st s')
    \<and> terminal_nodes_kept t s s'"
  using assms(1)
proof cases
  case (commit u clk c)
  show ?thesis
  proof (cases "u = t")
    case True
    then show ?thesis
      using exec_call_preserves[OF commit(1,3,2,4)] assms(2) by (simp add: preserves_def)
  next
    case False
    then have v: "same_view t s s'"
      using exec_call_frame[OF commit(1)] by simp
    have "l \<le> l'"
      using commit(3,4) monotone_clockD[OF commit(2), of 0 2] by simp
    then have "wf_inv t l' s'"
      using wf_inv_same_view[OF v] wf_inv_mono[OF assms(2)] by simp
    then show ?thesis
      using closed_run_same_view[OF v] terminal_nodes_same_view[OF v] by simp
  qed
next
  case rollback
  then show ?thesis
    using assms(2) wf_inv_mono by (auto simp: terminal_nodes_kept_def)
qed

interpretation workflow: invariant_system initial wf_step store_inv
proof
  show "store_inv s" if "initial s" for s
    using that wf_inv_empty by (simp add: initial_def store_inv_def)
  show "store_inv s'" if "store_inv s" "wf_step s s'" for s s'
    using that wf_step_preserves[of "fst s" "snd s" "fst s'" "snd s'"]
    by (simp add: store_inv_def)
qed

definition reachable :: "instant \<times> wf_store \<Rightarrow> bool" where
  "reachable ls \<longleftrightarrow> (\<exists>l0. wf_step\<^sup>*\<^sup>* (l0, empty_store) ls)"

lemma reachable_wf_inv: "reachable (l, s) \<Longrightarrow> wf_inv t l s"
  unfolding reachable_def
  using workflow.reachable_inv by (fastforce simp: initial_def store_inv_def)

lemma reachable_path: "reachable ls \<Longrightarrow> wf_step\<^sup>*\<^sup>* ls ls' \<Longrightarrow> reachable ls'"
  unfolding reachable_def using rtranclp_trans by fast

text \<open>What every step keeps from a state of the invariant, every path from a reachable state keeps.\<close>

lemma reachable_stable:
  assumes "reachable ls" "wf_step\<^sup>*\<^sup>* ls ls'" "P (snd ls)"
    and "\<And>l s l' s'. store_inv (l, s) \<Longrightarrow> P s \<Longrightarrow> wf_step (l, s) (l', s') \<Longrightarrow> P s'"
  shows "P (snd ls')"
proof (rule workflow.path_stable[OF assms(2), where P = "\<lambda>x. P (snd x)"])
  show "store_inv ls"
    using assms(1) reachable_wf_inv[of "fst ls" "snd ls"] by (simp add: store_inv_def)
  show "P (snd y)" if "store_inv x" "P (snd x)" "wf_step x y" for x y
    using assms(4)[of "fst x" "snd x" "fst y" "snd y"] that by simp
qed (rule assms(3))

section \<open>Executions\<close>

text \<open>A schedule: calls with the tenant that makes them and the time at which they run.\<close>

fun run_schedule :: "(tenant \<times> instant \<times> wf_call) list \<Rightarrow> wf_store \<Rightarrow> wf_error + wf_store" where
  "run_schedule [] s = Inr s"
| "run_schedule ((t, now, c) # rest) s = rbind (exec_call t (\<lambda>i. now) c s) (run_schedule rest)"

fun schedule_times :: "instant \<Rightarrow> (tenant \<times> instant \<times> wf_call) list \<Rightarrow> bool" where
  "schedule_times l [] = True"
| "schedule_times l ((t, now, c) # rest) \<longleftrightarrow> l \<le> now \<and> schedule_times now rest"

fun schedule_end :: "instant \<Rightarrow> (tenant \<times> instant \<times> wf_call) list \<Rightarrow> instant" where
  "schedule_end l [] = l"
| "schedule_end l ((t, now, c) # rest) = schedule_end now rest"

lemma schedule_path:
  "run_schedule cs s = Inr s' \<Longrightarrow> schedule_times l cs \<Longrightarrow> wf_step\<^sup>*\<^sup>* (l, s) (schedule_end l cs, s')"
proof (induction l cs arbitrary: s rule: schedule_times.induct)
  case (2 l t now c rest)
  then obtain s1 where s1: "exec_call t (\<lambda>i. now) c s = Inr s1" "run_schedule rest s1 = Inr s'"
    by (auto simp: result_simps)
  have "wf_step (l, s) (now, s1)"
    by (rule wf_step.commit[OF s1(1)]) (use "2.prems"(2) in simp_all)
  then show ?case
    using "2.IH"[OF s1(2)] "2.prems"(2) by (simp add: converse_rtranclp_into_rtranclp)
qed simp

lemma schedule_reachable:
  "run_schedule cs empty_store = Inr s \<Longrightarrow> schedule_times l cs \<Longrightarrow> reachable (schedule_end l cs, s)"
  unfolding reachable_def using schedule_path by blast

end
