(* ===== verification/Workflow_Examples.thy ===== *)
theory Workflow_Examples
  imports Workflow_Machine
begin

text \<open>
  A concrete run for the witnesses: a plan of two nodes in sequence, made with the constructors
  of the model, and schedules of calls on it.
\<close>

definition ex_tenant :: tenant where
  "ex_tenant = ''t1''"

definition ex_run :: workflow_run where
  "ex_run =
     \<lparr>run_id = 1, run_owner_kind = ''turn'', run_owner_id = ''o1'', run_conversation = Some 5,
      run_task = None, run_project = None, run_target = Target_Cloud, run_trigger = Trigger_User_Turn,
      run_parent = None, run_status = Run_Queued, run_budget = budget_normal,
      run_model_rounds_used = 0, run_tool_invocations_used = 0, run_active_revision = 1,
      run_cancellation_revision = 0, run_engine_version = 1, run_pause_requested = False,
      run_idempotency_key = ''k1'', run_error_code = None, run_created_at = 0,
      run_updated_at = 0, run_started_at = None, run_completed_at = None\<rparr>"

definition ex_node :: "uuid \<Rightarrow> string \<Rightarrow> int \<Rightarrow> workflow_node" where
  "ex_node i key attempts =
     \<lparr>node_id = i, node_run = 1, node_plan_revision = 1, node_key = key, node_kind = ''model'',
      node_payload = JNull, node_payload_version = 1, node_status = Node_Pending,
      node_policy = Serial, node_resource_keys = [], node_max_attempts = attempts,
      node_attempt_count = 0, node_available_at = 0, node_public_summary = ''s'',
      node_result = None, node_evidence_refs = [], node_error_code = None, node_created_at = 0,
      node_updated_at = 0, node_started_at = None, node_completed_at = None\<rparr>"

definition ex_edge :: workflow_edge where
  "ex_edge = \<lparr>edge_run = 1, edge_plan_revision = 1, edge_from = 11, edge_to = 12\<rparr>"

definition ex_create :: wf_call where
  "ex_create = Create ex_run [ex_node 11 ''a'' 2, ex_node 12 ''b'' 2] [ex_edge]"

text \<open>The claim a worker gets on a first attempt of a node.\<close>

definition ex_claim :: "uuid \<Rightarrow> int \<Rightarrow> int \<Rightarrow> attempt_claim" where
  "ex_claim i number lease_until =
     \<lparr>claim_run = 1, claim_node = i, claim_number = number, claim_lease_owner = ''w'',
      claim_lease_fence = number, claim_lease_until = lease_until,
      claim_cancellation_revision = 0, claim_plan_revision = 1\<rparr>"

definition ex_store :: "(tenant \<times> instant \<times> wf_call) list \<Rightarrow> wf_store" where
  "ex_store cs = (case run_schedule cs empty_store of Inl e \<Rightarrow> empty_store | Inr s \<Rightarrow> s)"

definition ex_ok :: "(tenant \<times> instant \<times> wf_call) list \<Rightarrow> bool" where
  "ex_ok cs \<longleftrightarrow> schedule_times 0 cs \<and> \<not> isl (run_schedule cs empty_store)"

lemma ex_store_reachable: "ex_ok cs \<Longrightarrow> reachable (schedule_end 0 cs, ex_store cs)"
  unfolding ex_ok_def ex_store_def
  by (cases "run_schedule cs empty_store") (auto intro: schedule_reachable)

definition ex_claimed :: "(tenant \<times> instant \<times> wf_call) list" where
  "ex_claimed = [(ex_tenant, 0, ex_create), (ex_tenant, 1, Claim_Ready ''w'' 100 5 {} False)]"

definition ex_half :: "(tenant \<times> instant \<times> wf_call) list" where
  "ex_half = ex_claimed @ [(ex_tenant, 2, Complete (ex_claim 11 1 100) JNull [] None)]"

definition ex_second :: "(tenant \<times> instant \<times> wf_call) list" where
  "ex_second = ex_half @ [(ex_tenant, 3, Claim_Ready ''w'' 100 5 {} False)]"

definition ex_done :: "(tenant \<times> instant \<times> wf_call) list" where
  "ex_done = ex_second @ [(ex_tenant, 4, Complete (ex_claim 12 1 100) JNull [] None)]"

lemma ex_claimed_ok: "ex_ok ex_claimed"
  by code_simp

lemma ex_done_ok: "ex_ok ex_done"
  by code_simp

lemma ex_claimed_reachable: "reachable (1, ex_store ex_claimed)"
  using ex_store_reachable[OF ex_claimed_ok] by (simp add: ex_claimed_def)

lemma ex_done_reachable: "reachable (4, ex_store ex_done)"
  using ex_store_reachable[OF ex_done_ok] by (simp add: ex_done_def ex_second_def ex_half_def ex_claimed_def)

definition ex_ready :: "tenant \<times> instant \<times> wf_call" where
  "ex_ready = (ex_tenant, 0, ex_create)"

lemma ex_created_reachable: "reachable (0, ex_store [ex_ready])"
proof -
  have "ex_ok [ex_ready]" by code_simp
  from ex_store_reachable[OF this] show ?thesis by (simp add: ex_ready_def)
qed

end
