(* ===== verification/Workflow_Facts.thy ===== *)
theory Workflow_Facts
  imports Workflow_Machine
begin

text \<open>
  What the operations achieve, beyond keeping the invariant: which calls close a run, what the
  sweeps and the claim leave, how budgets, instructions and repeated creation behave.
\<close>

section \<open>Leases and fences\<close>

lemma claims_agree:
  assumes inv: "wf_inv t l s" and "require_claim t c now s = Inr n" and "require_claim t d now' s = Inr m"
    and "claim_node c = claim_node d"
  shows "d\<lparr>claim_lease_until := claim_lease_until c\<rparr> = c"
proof -
  obtain a where a: "a \<in> set (attempts_of t s)" "claim_predicates c a" "n \<in> set (nodes_of t s)"
      "node_id n = claim_node c" "claim_number c = node_attempt_count n"
    using require_claimD[OF assms(2) inv] by metis
  obtain b where b: "b \<in> set (attempts_of t s)" "claim_predicates d b" "m \<in> set (nodes_of t s)"
      "node_id m = claim_node d" "claim_number d = node_attempt_count m"
    using require_claimD[OF assms(3) inv] by metis
  have "n = m"
    using unique_node[OF wf_invD(1)[OF inv] a(3) b(3)] a(4) b(4) assms(4) by simp
  then have "a = b"
    using unique_attempt[OF wf_invD(1)[OF inv] a(1) b(1)] a(2,5) b(2,5) assms(4)
    by (simp add: claim_predicates_def)
  then show ?thesis
    using a(2) b(2) by (cases c, cases d) (simp add: claim_predicates_def)
qed

lemma closed_runI:
  assumes "run_terminal st" "r \<in> set (runs_of t s)" "run_id r = rid"
    and f: "\<And>q. run_id (f q) = run_id q \<and> run_status (f q) = st"
    and p: "\<And>q. q \<in> set (runs_of t s) \<Longrightarrow> run_id q = rid \<Longrightarrow> p q"
    and nodes: "\<And>n. n \<in> set (nodes_of t s) \<Longrightarrow> node_run n = rid \<Longrightarrow> node_terminal (node_status n)"
  shows "closed_run t rid st (update_runs t p f s)"
proof -
  have id: "run_id (upd_row p f q) = run_id q" for q
    using f[of q] by (simp add: upd_row_def)
  have "\<exists>q\<in>set (runs_of t (update_runs t p f s)). run_id q = rid"
    using assms(2,3) id by auto
  moreover have "run_status q = st" if q: "q \<in> set (runs_of t (update_runs t p f s))" "run_id q = rid" for q
  proof -
    obtain x where "x \<in> set (runs_of t s)" "q = upd_row p f x"
      using q(1) by auto
    then show ?thesis using f[of x] p[of x] id[of x] q(2) by simp
  qed
  ultimately show ?thesis
    using assms(1) nodes unfolding closed_run_def by simp
qed

lemma fail_closes:
  assumes "wf_inv t l s" and "fail t c e clk s = Inr (s', sn)"
  shows "closed_run t (claim_run c) Run_Failed s'"
proof -
  obtain n where rc: "require_claim t c (clk 0) s = Inr n" and s': "s' =
    update_runs t (\<lambda>r. run_id r = claim_run c)
      (\<lambda>r. r\<lparr>run_status := Run_Failed, run_cancellation_revision := run_cancellation_revision r + 1,
             run_error_code := Some (take 128 e), run_updated_at := clk 0,
             run_completed_at := Some (clk 0)\<rparr>)
    (cancel_running_attempts t (claim_run c) (clk 0) (Some (claim_node c))
    (update_nodes t (\<lambda>n. node_id n = claim_node c) (\<lambda>n. n\<lparr>node_status := Node_Failed\<rparr>)
    (update_nodes t (failable (claim_run c))
      (\<lambda>n. n\<lparr>node_status := Node_Cancelled, node_error_code := Some (take 128 e),
             node_updated_at := clk 0, node_completed_at := Some (clk 0)\<rparr>)
    (settle_attempt t c Attempt_Failed e (clk 0) (clk 1) s))))"
    by (rule fail_Inr[OF assms(2)])
  obtain r where "r \<in> set (runs_of t s)" "run_id r = claim_run c"
    using require_claimD[OF rc assms(1)] by metis
  then show ?thesis
    unfolding s'
    by (intro closed_runI[where r = r])
      (auto simp: cancel_running_attempts_def settle_attempt_def upd_row_def failable_iff split: if_splits)
qed

lemma cancel_closes:
  assumes "cancel t rid now s = Inr (s', sn)" and "r \<in> set (runs_of t s)" "run_id r = rid"
    and "\<And>q. q \<in> set (runs_of t s) \<Longrightarrow> run_id q = rid \<Longrightarrow> \<not> run_terminal (run_status q)"
  shows "closed_run t rid Run_Cancelled s'"
  using assms(1)
proof (cases rule: cancel_cases)
  case (1 row)
  then show ?thesis
    using locked_run_Inr[OF 1(2)] assms(4) by blast
next
  case (2 row run)
  show ?thesis
    unfolding 2(4) using assms(2,3)
    by (intro closed_runI[where r = r]) (auto simp: upd_row_def split: if_splits)
qed

section \<open>Deadlines\<close>

lemma expire_run_closes:
  assumes "overdue now r" and "q \<in> set (runs_of t s)" "run_id q = run_id r"
    and "\<And>q. q \<in> set (runs_of t s) \<Longrightarrow> run_id q = run_id r \<Longrightarrow> \<not> run_terminal (run_status q)"
  shows "closed_run t (run_id r) Run_Failed (expire_run t now r s)"
  unfolding expire_run_def using assms
  by (auto intro!: closed_runI[where r = q] simp: upd_row_def split: if_splits)

lemma expire_run_other:
  assumes "run_id r \<noteq> rid" and "q \<in> set (runs_of t (expire_run t now r s))" "run_id q = rid"
  shows "q \<in> set (runs_of t s)"
  using assms unfolding expire_run_def by (auto simp: upd_row_def split: if_splits)

lemma expire_run_open:
  assumes "run_id q \<noteq> run_id r"
    and "\<And>x. x \<in> set (runs_of t s) \<Longrightarrow> run_id x = run_id q \<Longrightarrow> \<not> run_terminal (run_status x)"
    and "y \<in> set (runs_of t (expire_run t now r s))" "run_id y = run_id q"
  shows "\<not> run_terminal (run_status y)"
  using expire_run_other[of r "run_id q" y t now s] assms by simp

definition expiring :: "tenant \<Rightarrow> uuid \<Rightarrow> wf_store \<Rightarrow> bool" where
  "expiring t rid s \<longleftrightarrow> closed_run t rid Run_Failed s
     \<or> (\<exists>q\<in>set (runs_of t s). run_id q = rid)
       \<and> (\<forall>q\<in>set (runs_of t s). run_id q = rid \<longrightarrow> \<not> run_terminal (run_status q))"

lemma expire_run_ids: "run_id ` set (runs_of t (expire_run t now r s)) = run_id ` set (runs_of t s)"
proof -
  have "map run_id (runs_of t (expire_run t now r s)) = map run_id (runs_of t s)"
    by (auto simp: expire_run_def upd_row_def)
  then show ?thesis by (metis set_map)
qed

lemma expire_run_expiring:
  assumes "expiring t rid s" "wf_inv t now s"
  shows "expiring t rid (expire_run t now r s)"
proof (cases "closed_run t rid Run_Failed s")
  case True
  have "preserves t {} now now s (expire_run t now r s)"
    by (rule expire_run_preserves) simp
  then show ?thesis
    using True assms(2) unfolding preserves_def expiring_def by blast
next
  case False
  then obtain q where q: "q \<in> set (runs_of t s)" "run_id q = rid"
    and all: "\<And>q. q \<in> set (runs_of t s) \<Longrightarrow> run_id q = rid \<Longrightarrow> \<not> run_terminal (run_status q)"
    using assms(1) unfolding expiring_def by blast
  show ?thesis
  proof (cases "run_id r = rid")
    case True
    show ?thesis
    proof (cases "overdue now r")
      case over: True
      then show ?thesis
        using expire_run_closes[OF over q(1)] q(2) True all unfolding expiring_def by auto
    next
      case False
      then show ?thesis using assms(1) by (simp add: expire_run_def)
    qed
  next
    case False
    have "\<exists>y\<in>set (runs_of t (expire_run t now r s)). run_id y = rid"
      using expire_run_ids[of t now r s] q by (metis imageE imageI)
    then show ?thesis
      using expire_run_other[OF False] all unfolding expiring_def by blast
  qed
qed

lemma expire_fold:
  assumes "wf_inv t now s" "expiring t rid s"
  shows "wf_inv t now (fold (expire_run t now) rs s) \<and> expiring t rid (fold (expire_run t now) rs s)"
  using assms
proof (induction rs arbitrary: s)
  case (Cons r rs)
  have "wf_inv t now (expire_run t now r s)"
    using preserves_inv[OF expire_run_preserves[OF order_refl] Cons.prems(1)] .
  then show ?case
    using Cons expire_run_expiring by simp
qed simp

lemma expire_overdue_closes:
  assumes inv: "wf_inv t now s" and r: "r \<in> set (runs_of t s)" "\<not> run_terminal (run_status r)" "overdue now r"
  shows "closed_run t (run_id r) Run_Failed (expire_overdue t now s)"
proof -
  let ?f = "fold (expire_run t now)"
  have "r \<in> set (select_where t (\<lambda>r. \<not> run_terminal (run_status r)) (runs_t s))"
    using r by simp
  then obtain as bs where split: "select_where t (\<lambda>r. \<not> run_terminal (run_status r)) (runs_t s) = as @ r # bs"
    by (auto simp: in_set_conv_decomp)
  have "expiring t (run_id r) s"
    using r unique_run[OF wf_invD(1)[OF inv]] unfolding expiring_def by blast
  then have as: "wf_inv t now (?f as s)" "expiring t (run_id r) (?f as s)"
    using expire_fold[OF inv] by blast+
  have closed: "closed_run t (run_id r) Run_Failed (expire_run t now r (?f as s))"
  proof (cases "closed_run t (run_id r) Run_Failed (?f as s)")
    case True
    then show ?thesis
      using expire_run_preserves[OF order_refl, of t "{}" now "?f as s" now r] as(1)
      unfolding preserves_def by blast
  next
    case False
    then obtain q where "q \<in> set (runs_of t (?f as s))" "run_id q = run_id r"
      and "\<And>q. q \<in> set (runs_of t (?f as s)) \<Longrightarrow> run_id q = run_id r \<Longrightarrow> \<not> run_terminal (run_status q)"
      using as(2) unfolding expiring_def by blast
    then show ?thesis by (rule expire_run_closes[OF r(3)])
  qed
  have "preserves t {} now now (expire_run t now r (?f as s)) (?f bs (expire_run t now r (?f as s)))"
    by (rule fold_preserves) (simp_all add: expire_run_preserves)
  then have "closed_run t (run_id r) Run_Failed (?f bs (expire_run t now r (?f as s)))"
    using closed preserves_inv[OF expire_run_preserves[OF order_refl] as(1)]
    unfolding preserves_def by blast
  then show ?thesis
    by (simp add: expire_overdue_def split)
qed

lemma claim_ready_closes_overdue:
  assumes "claim_ready t worker u limit kinds reserve now s = Inr (s', cs)" and inv: "wf_inv t l s" "l \<le> now"
    and r: "r \<in> set (runs_of t s)" "\<not> run_terminal (run_status r)" "overdue now r"
  shows "closed_run t (run_id r) Run_Failed s'" and "\<forall>c\<in>set cs. claim_run c \<noteq> run_id r"
proof -
  obtain s1 where s1: "wf_inv t now s1" "preserves t {} now now s1 s'" "\<forall>c\<in>set cs. granted t c s'"
    "reclaim_expired t now (expire_overdue t now s) = Inr s1"
    by (rule claim_ready_step[OF assms(1) inv])
  have now: "wf_inv t now s" using wf_inv_mono[OF inv] .
  have "closed_run t (run_id r) Run_Failed (expire_overdue t now s)"
    by (rule expire_overdue_closes[OF now r])
  moreover have "wf_inv t now (expire_overdue t now s)"
    using preserves_inv[OF expire_overdue_preserves[OF order_refl] now] .
  moreover have "preserves t {} now now (expire_overdue t now s) s1"
    by (rule reclaim_expired_preserves[OF s1(4) order_refl])
  ultimately have "closed_run t (run_id r) Run_Failed s1"
    unfolding preserves_def by blast
  then show cl: "closed_run t (run_id r) Run_Failed s'"
    using s1(1,2) unfolding preserves_def by blast
  show "\<forall>c\<in>set cs. claim_run c \<noteq> run_id r"
  proof
    fix c assume "c \<in> set cs"
    then obtain n where "n \<in> set (nodes_of t s')" "node_run n = claim_run c" "node_status n = Node_Running"
      using s1(3) unfolding granted_def by blast
    then show "claim_run c \<noteq> run_id r"
      using cl unfolding closed_run_def by auto
  qed
qed

section \<open>Attempt budgets\<close>

lemma attempts_bounded:
  assumes inv: "wf_inv t l s" and n: "n \<in> set (nodes_of t s)"
  shows "int (length (filter (\<lambda>a. att_node a = node_id n) (attempts_of t s))) \<le> node_max_attempts n"
proof -
  let ?as = "filter (\<lambda>a. att_node a = node_id n) (attempts_of t s)"
  have "distinct (map (\<lambda>a. (att_node a, att_number a)) ?as)"
    using wf_invD(1)[OF inv] by (auto simp: keys_ok_def intro: distinct_map_filter)
  then have "inj_on (\<lambda>a. (att_node a, att_number a)) (set ?as)" "distinct ?as"
    unfolding distinct_map by simp_all
  then have d: "distinct (map att_number ?as)"
    unfolding distinct_map by (auto simp: inj_on_def)
  have "set (map att_number ?as) \<subseteq> {1..node_attempt_count n}"
  proof
    fix k assume "k \<in> set (map att_number ?as)"
    then obtain a where a: "a \<in> set (attempts_of t s)" "att_node a = node_id n" "k = att_number a"
      by auto
    then have "0 < k"
      using wf_invD(5)[OF inv] unfolding attempts_ok_def attempt_check_def by blast
    moreover have "k \<le> node_attempt_count n"
      using attempt_run(2)[OF inv n a(1,2)] a(3) by simp
    ultimately show "k \<in> {1..node_attempt_count n}" by simp
  qed
  then have "card (set (map att_number ?as)) \<le> card {1..node_attempt_count n}"
    by (intro card_mono) simp_all
  then have "length ?as \<le> nat (node_attempt_count n)"
    using distinct_card[OF d] by simp
  moreover have "node_attempt_count n \<le> node_max_attempts n" "0 \<le> node_attempt_count n"
    using wf_invD(3)[OF inv] n unfolding nodes_ok_def node_check_def by blast+
  ultimately show ?thesis by linarith
qed

section \<open>Repeated calls\<close>

lemma get_snapshot_run:
  assumes "with_snapshot t rid s = Inr (s', sn)"
  obtains r r' where "select_where t (\<lambda>r. run_id r = rid) (runs_t s) = [r]" "run_from_row r = Inr r'"
    "snap_run sn = r'"
proof -
  obtain x where x: "get_snapshot t rid s = Inr (Some x)" "sn = x"
    using assms by (auto simp: with_snapshot_def result_simps split: option.splits)
  then obtain r r' where "select_where t (\<lambda>r. run_id r = rid) (runs_t s) = [r]" "run_from_row r = Inr r'"
      "map_sum id Some (load_snapshot t r' s) = Inr (Some x)"
    unfolding get_snapshot_def by (auto simp: result_simps split: option.splits)
  moreover have "load_snapshot t r' s = Inr x"
    using calculation(3) by (cases "load_snapshot t r' s") auto
  ultimately show ?thesis
    using that load_snapshot_run x(2) by blast
qed

lemma create_again:
  assumes "create_workflow t run nodes es s = Inr (s', sn)"
  shows "create_workflow t run nodes es s' = Inr (s', sn)"
proof -
  let ?sel = "\<lambda>s. select_where t (\<lambda>r. run_idempotency_key r = run_idempotency_key run) (runs_t s)"
  obtain ex where ex: "one_or_none (?sel s) = Inr ex"
    using assms unfolding create_workflow_def by (auto simp: result_simps)
  show ?thesis
  proof (cases ex)
    case (Some row)
    then have "s' = s"
      using assms ex unfolding create_workflow_def by (auto simp: result_simps dest!: with_snapshot_Inr)
    then show ?thesis using assms by simp
  next
    case None
    then have empty: "?sel s = []"
      using ex by (simp add: result_simps)
    obtain s1 s2 where s1: "insert_run t run s = Inr s1"
      and s2: "insert_revision t \<lparr>rev_run = run_id run, rev_number = 1, rev_reason = Reason_Initial,
         rev_instruction = None, rev_created_at = run_created_at run\<rparr> s1 = Inr s2"
      and s3: "insert_plan t (mark_roots nodes es) es s2 = Inr s'"
      and sn: "with_snapshot t (run_id run) s' = Inr (s', sn)"
      using assms ex None unfolding create_workflow_def
      by (auto simp: result_simps validate_plan_Inr dest: with_snapshot_Inr)
    have runs: "runs_t s' = insert_rows t [run] (runs_t s)"
      using insert_run_Inr[OF s1] insert_revision_Inr[OF s2] insert_plan_Inr(1)[OF s3] by simp
    then have again: "?sel s' = [run]"
      using empty by (simp add: select_where_def)
    obtain r r' where r: "select_where t (\<lambda>r. run_id r = run_id run) (runs_t s') = [r]"
        "run_from_row r = Inr r'" "snap_run sn = r'"
      by (rule get_snapshot_run[OF sn])
    have "run \<in> set (select_where t (\<lambda>r. run_id r = run_id run) (runs_t s'))"
      unfolding select_where_mem using runs by simp
    then have "r = run" using r(1) by simp
    then have "run_owner_kind (snap_run sn) = run_owner_kind run"
        "run_owner_id (snap_run sn) = run_owner_id run" "run_target (snap_run sn) = run_target run"
      using run_from_row_Inr[OF r(2)] r(3) by simp_all
    then show ?thesis
      unfolding create_workflow_def again using sn by (simp add: ensure_pass)
  qed
qed

lemma add_instruction_again:
  assumes "add_instruction t new_id rid text v key now s = Inr (s', i)"
  shows "add_instruction t new_id' rid text v key now' s' = Inr (s', i)"
proof -
  let ?sel = "\<lambda>s. select_where t (\<lambda>i. ins_run i = rid \<and> ins_idempotency_key i = strip key) (instructions_t s)"
  note defs = add_instruction_def persist_instruction_def Let_def
  obtain ex where ex: "one_or_none (?sel s) = Inr ex"
    and ok: "\<not> (strip text = [] \<or> length (strip text) > 8000)" "\<not> (strip key = [] \<or> length (strip key) > 512)"
    using assms unfolding defs by (auto simp: result_simps)
  show ?thesis
  proof (cases ex)
    case (Some row)
    then have "s' = s"
      using assms ex unfolding defs by (auto simp: result_simps)
    then show ?thesis
      using assms ex ok Some unfolding defs by (auto simp: result_simps)
  next
    case None
    then have empty: "?sel s = []"
      using ex by (simp add: result_simps)
    define m where "m = \<lparr>ins_id = new_id, ins_run = rid, ins_idempotency_key = strip key,
      ins_text = strip text, ins_expected_revision = v, ins_status = Instruction_Pending,
      ins_applied_revision = None, ins_created_at = now, ins_applied_at = None\<rparr>"
    obtain m' where m': "instruction_post_init m = Inr m'" "insert_instruction t m' s = Inr s'" "i = m'"
      using assms ex None unfolding defs by (auto simp: result_simps m_def)
    then have "m' = m" by (simp add: instruction_post_init_def result_simps)
    with m' have s': "s' = s\<lparr>instructions_t := insert_rows t [m] (instructions_t s)\<rparr>"
      by (simp add: insert_instruction_def result_simps)
    have "?sel s' = [m]"
      using empty by (simp add: s' select_where_def m_def)
    moreover have "instruction_from_row m = Inr m"
      using m'(1) \<open>m' = m\<close> by (simp add: instruction_from_row_def m_def)
    ultimately show ?thesis
      unfolding defs using ok m' \<open>m' = m\<close>
      by (simp add: ensure_pass) (simp add: m_def ensure_pass)
  qed
qed

section \<open>Plans and budgets\<close>

text \<open>Of two writers that read the same revision, one appends.\<close>

lemma append_advances:
  assumes "append_plan t rid v reason i nodes es now s = Inr (s', sn)"
  obtains row where "row \<in> set (runs_of t s')" "run_id row = rid" "run_active_revision row = v + 1"
    "locked_run t rid s' = Inr row" "\<exists>r. run_from_row row = Inr r" "run_status row = Run_Queued"
  using assms
proof (cases rule: append_plan_cases)
  case (1 row run s2 s3)
  have runs: "runs_of t s' = map (upd_row (\<lambda>r. run_id r = rid \<and> run_active_revision r = v)
      (\<lambda>r. r\<lparr>run_active_revision := v + 1, run_status := Run_Queued, run_pause_requested := False,
             run_error_code := None, run_updated_at := now\<rparr>)) (runs_of t s)"
    using 1(9) insert_revision_Inr[OF 1(7)] insert_plan_Inr(1)[OF 1(8)] by simp
  have row: "row \<in> set (runs_of t s)" "run_id row = rid" "run_active_revision row = v"
    using locked_run_Inr[OF 1(1)] run_from_row_status[OF 1(2)] 1(4) by simp_all
  let ?new = "row\<lparr>run_active_revision := v + 1, run_status := Run_Queued, run_pause_requested := False,
             run_error_code := None, run_updated_at := now\<rparr>"
  have mem: "?new \<in> set (runs_of t s')"
    unfolding runs set_map using row by (intro image_eqI[of _ _ row]) simp_all
  have "with_snapshot t rid s' = Inr (s', sn)"
    using assms unfolding append_plan_def Let_def
    by (auto simp: result_simps dest: with_snapshot_Inr)
  then obtain r r' where r: "select_where t (\<lambda>r. run_id r = rid) (runs_t s') = [r]" "run_from_row r = Inr r'"
    by (rule get_snapshot_run)
  have "?new \<in> set (select_where t (\<lambda>r. run_id r = rid) (runs_t s'))"
    unfolding select_where_mem using mem row(2) by simp
  then have "r = ?new" using r(1) by simp
  then show ?thesis
    using that[OF mem] row(2) r by (simp add: locked_run_def)
qed

lemma append_once:
  assumes "append_plan t rid v reason i nodes es now s = Inr (s', sn)"
  shows "append_plan t rid v reason' i' nodes' es' now' s' = Inl WorkflowRevisionError"
proof -
  obtain row where row: "run_active_revision row = v + 1" "locked_run t rid s' = Inr row"
      "\<exists>r. run_from_row row = Inr r" "run_status row = Run_Queued"
    by (rule append_advances[OF assms])
  then obtain r where r: "run_from_row row = Inr r" by blast
  have "ensure
       [(run_terminal (run_status r), ValueError ''Terminal Workflow cannot accept another plan''),
        (run_active_revision r \<noteq> v, WorkflowRevisionError),
        (has_running_attempt t rid s', WorkflowRevisionError)] () = Inl WorkflowRevisionError"
    using run_from_row_status[OF r] row(1,4) by (simp add: ensure.simps)
  then show ?thesis
    using row(2) r unfolding append_plan_def by simp
qed

section \<open>Promotion\<close>

definition source_states :: "tenant \<Rightarrow> uuid \<Rightarrow> int \<Rightarrow> uuid \<Rightarrow> wf_store \<Rightarrow> node_status list" where
  "source_states t rid v target s = [node_status n. n \<leftarrow> nodes_of t s, e \<leftarrow> edges_of t s,
     edge_from e = node_id n \<and> edge_run e = rid \<and> edge_plan_revision e = v \<and> edge_to e = target]"

definition promotable :: "tenant \<Rightarrow> uuid \<Rightarrow> int \<Rightarrow> uuid \<Rightarrow> wf_store \<Rightarrow> bool" where
  "promotable t rid v target s \<longleftrightarrow> source_states t rid v target s \<noteq> []
     \<and> list_all (\<lambda>st. st = Node_Succeeded) (source_states t rid v target s)"

lemma promote_target_eq:
  "promote_target t rid v now target s =
     (if promotable t rid v target s
      then update_nodes t (\<lambda>n. node_id n = target \<and> node_status n = Node_Pending)
             (\<lambda>n. n\<lparr>node_status := Node_Ready, node_updated_at := now\<rparr>) s
      else s)"
  by (simp add: promote_target_def promotable_def source_states_def Let_def)

lemma promotable_iff:
  "promotable t rid v target s \<longleftrightarrow>
     (\<exists>n\<in>set (nodes_of t s). \<exists>e\<in>set (edges_of t s). edge_from e = node_id n \<and> edge_run e = rid
        \<and> edge_plan_revision e = v \<and> edge_to e = target)
     \<and> (\<forall>n\<in>set (nodes_of t s). \<forall>e\<in>set (edges_of t s). edge_from e = node_id n \<longrightarrow> edge_run e = rid \<longrightarrow>
        edge_plan_revision e = v \<longrightarrow> edge_to e = target \<longrightarrow> node_status n = Node_Succeeded)"
proof -
  have set: "set (source_states t rid v target s) = {node_status n |n e. n \<in> set (nodes_of t s)
      \<and> e \<in> set (edges_of t s) \<and> edge_from e = node_id n \<and> edge_run e = rid
      \<and> edge_plan_revision e = v \<and> edge_to e = target}"
    by (auto simp: source_states_def)
  show ?thesis
    unfolding promotable_def list_all_iff set_empty[symmetric] set by blast
qed

lemma promote_keeps_promotable:
  "promotable t rid v y (promote_target t rid v now x s) = promotable t rid v y s"
proof (cases "promotable t rid v x s")
  case True
  let ?f = "upd_row (\<lambda>n. node_id n = x \<and> node_status n = Node_Pending)
     (\<lambda>n. n\<lparr>node_status := Node_Ready, node_updated_at := now\<rparr>)"
  have f: "node_id (?f n) = node_id n" "node_status (?f n) = Node_Succeeded \<longleftrightarrow> node_status n = Node_Succeeded" for n
    by (auto simp: upd_row_def)
  have nodes: "nodes_of t (promote_target t rid v now x s) = map ?f (nodes_of t s)"
    and edges: "edges_of t (promote_target t rid v now x s) = edges_of t s"
    using True by (simp_all add: promote_target_eq)
  show ?thesis
    unfolding promotable_iff nodes edges set_map ball_simps(9) bex_simps(7) f ..
qed (simp add: promote_target_eq)

lemma promote_target_tables [simp]:
  "edges_t (promote_target t rid v now x s) = edges_t s"
  "runs_t (promote_target t rid v now x s) = runs_t s"
  "attempts_t (promote_target t rid v now x s) = attempts_t s"
  by (simp_all add: promote_target_eq)

lemma promote_dependents_tables [simp]:
  "edges_t (promote_dependents t rid v now s) = edges_t s"
  "runs_t (promote_dependents t rid v now s) = runs_t s"
  "attempts_t (promote_dependents t rid v now s) = attempts_t s"
proof -
  have "edges_t (fold (promote_target t rid v now) ts s) = edges_t s
      \<and> runs_t (fold (promote_target t rid v now) ts s) = runs_t s
      \<and> attempts_t (fold (promote_target t rid v now) ts s) = attempts_t s" for ts
    by (induction ts arbitrary: s) simp_all
  then show "edges_t (promote_dependents t rid v now s) = edges_t s"
    "runs_t (promote_dependents t rid v now s) = runs_t s"
    "attempts_t (promote_dependents t rid v now s) = attempts_t s"
    by (simp_all add: promote_dependents_def)
qed

lemma promote_dependents_promotable:
  "promotable t rid v y (promote_dependents t rid v now s) = promotable t rid v y s"
proof -
  have "promotable t rid v y (fold (promote_target t rid v now) ts s) = promotable t rid v y s" for ts
    by (induction ts arbitrary: s) (simp_all add: promote_keeps_promotable)
  then show ?thesis by (simp add: promote_dependents_def)
qed

lemma complete_Inr:
  assumes "complete t c result evidence summary clk s = Inr (s', sn)"
  obtains n s2 where "require_claim t c (clk 0) s = Inr n"
    "s2 = update_nodes t (claimed_node c)
      (\<lambda>n. n\<lparr>node_status := Node_Succeeded, node_result := Some result,
             node_evidence_refs := evidence, node_error_code := None,
             node_updated_at := clk 0, node_completed_at := Some (clk 0),
             node_public_summary := (case summary of None \<Rightarrow> node_public_summary n
                                     | Some x \<Rightarrow> take 500 (strip x))\<rparr>)
      (update_attempts t (live_claim_predicates c (clk 1))
        (\<lambda>a. (close_attempt Attempt_Succeeded (clk 0) a)
               \<lparr>att_result := Some result, att_evidence_refs := evidence\<rparr>) s)"
    "settle_run t (claim_run c) (clk 0)
      (promote_dependents t (claim_run c) (claim_plan_revision c) (clk 0) s2) = Inr s'"
  using assms unfolding complete_def Let_def by (auto simp: result_simps dest!: with_snapshot_Inr)

lemma settle_run_status:
  assumes "settle_run t rid now s = Inr s'"
  shows "\<forall>r\<in>set (runs_of t s'). run_id r = rid \<longrightarrow> run_status r =
      settled_status (run_pause_requested r \<and> \<not> has_running_attempt t rid s')
        (map node_status (filter (\<lambda>n. node_run n = rid \<and> node_plan_revision n = run_active_revision r)
           (nodes_of t s')))"
    and "nodes_of t s' = nodes_of t s" and "edges_of t s' = edges_of t s"
    and "attempts_of t s' = attempts_of t s"
proof -
  define st where "st = (\<lambda>run::workflow_run. settled_status (run_pause_requested run \<and> \<not> has_running_attempt t rid s)
    (map node_status (select_where t (\<lambda>n. node_run n = rid
       \<and> node_plan_revision n = run_active_revision run) (nodes_t s))))"
  define f where "f = (\<lambda>run (q::workflow_run). q\<lparr>run_status := st run, run_updated_at := now,
    run_completed_at := (if run_terminal (st run) then Some now else None)\<rparr>)"
  obtain row run where row: "select_where t (\<lambda>r. run_id r = rid) (runs_t s) = [row]"
      and run: "run_from_row row = Inr run" and s': "s' = update_runs t (\<lambda>q. run_id q = rid) (f run) s"
    using assms unfolding settle_run_def Let_def locked_run_def f_def st_def
    by (auto simp: result_simps split: option.splits)
  show nodes: "nodes_of t s' = nodes_of t s" and "edges_of t s' = edges_of t s"
    "attempts_of t s' = attempts_of t s"
    unfolding s' by simp_all
  have run_eq: "run_pause_requested run = run_pause_requested row"
      "run_active_revision run = run_active_revision row"
    using run_from_row_Inr[OF run] by simp_all
  have has: "has_running_attempt t rid s' = has_running_attempt t rid s"
    unfolding s' has_running_attempt_def by simp
  show "\<forall>r\<in>set (runs_of t s'). run_id r = rid \<longrightarrow> run_status r =
      settled_status (run_pause_requested r \<and> \<not> has_running_attempt t rid s')
        (map node_status (filter (\<lambda>n. node_run n = rid \<and> node_plan_revision n = run_active_revision r)
           (nodes_of t s')))"
  proof (intro ballI impI)
    fix r assume r: "r \<in> set (runs_of t s')" "run_id r = rid"
    then obtain x where x: "x \<in> set (runs_of t s)" "r = upd_row (\<lambda>q. run_id q = rid) (f run) x"
      unfolding s' by auto
    have id: "run_id x = rid"
      using x(2) r(2) by (simp add: upd_row_def f_def split: if_splits)
    then have "x \<in> set (select_where t (\<lambda>r. run_id r = rid) (runs_t s))"
      using x(1) by simp
    then have "x = row" using row by simp
    moreover have "r = f run x" using x(2) id by simp
    ultimately show "run_status r = settled_status (run_pause_requested r \<and> \<not> has_running_attempt t rid s')
        (map node_status (filter (\<lambda>n. node_run n = rid \<and> node_plan_revision n = run_active_revision r)
           (nodes_of t s')))"
      using run_eq unfolding has nodes by (simp add: f_def st_def select_where_def)
  qed
qed

lemma promotable_same: "nodes_of t s' = nodes_of t s \<Longrightarrow> edges_of t s' = edges_of t s \<Longrightarrow>
  promotable t rid v y s' = promotable t rid v y s"
  by (simp add: promotable_iff)

section \<open>Where a settled run ends\<close>

lemma settled_status_completed:
  "settled_status p sts = Run_Completed \<longleftrightarrow>
     \<not> p \<and> sts \<noteq> [] \<and> (\<forall>st\<in>set sts. st \<in> {Node_Succeeded, Node_Skipped, Node_Superseded})"
proof -
  have "node_terminal st \<and> st \<noteq> Node_Failed \<and> st \<noteq> Node_Cancelled
      \<longleftrightarrow> st \<in> {Node_Succeeded, Node_Skipped, Node_Superseded}" for st
    by (cases st) simp_all
  then show ?thesis
    unfolding settled_status_def list_all_iff by auto
qed

end
