(* ===== verification/Workflow_Effects.thy ===== *)
theory Workflow_Effects
  imports Workflow_Facts
begin

text \<open>
  The exact effect of some calls. The two that write the budget of a run, \<open>reserve_budget\<close> and
  \<open>upgrade_budget\<close>, on a run that can be read: when each of them succeeds, with what error it
  fails, and what it writes. And a completion: which pending nodes it makes ready.
\<close>

section \<open>A run that can be read\<close>

lemma select_run:
  assumes "keys_ok t s" and "r \<in> set (runs_of t s)"
  shows "select_where t (\<lambda>q. run_id q = run_id r) (runs_t s) = [r]"
proof -
  have "filter (\<lambda>q. run_id q = run_id r) xs = [r]" if "distinct (map run_id xs)" "r \<in> set xs" for xs
    using that
  proof (induction xs)
    case (Cons x xs)
    then show ?case
      by (cases "x = r") (auto simp: filter_empty_conv image_iff)
  qed simp
  then show ?thesis
    using assms by (simp add: select_where_def keys_ok_def)
qed

lemma locked_run_eq:
  assumes "keys_ok t s" and "r \<in> set (runs_of t s)"
  shows "locked_run t (run_id r) s = Inr r"
  by (simp add: locked_run_def select_run[OF assms] one_or_none_def rbind_def)

lemma load_snapshot_other:
  assumes "load_snapshot t r s = Inr sn" and "run_id r' = run_id r"
    and "s' = s\<lparr>runs_t := rs\<rparr>"
  shows "load_snapshot t r' s' = Inr (sn\<lparr>snap_run := r'\<rparr>)"
  using assms by (auto simp: load_snapshot_def Let_def result_simps)

lemma map_sum_Some [result_simps]: "map_sum id Some m = Inr (Some x) \<longleftrightarrow> m = Inr x"
  by (cases m) auto

lemma snapshot_run_reads:
  assumes "keys_ok t s" and "r \<in> set (runs_of t s)" and "get_snapshot t (run_id r) s = Inr (Some sn)"
  obtains run where "run_from_row r = Inr run" and "load_snapshot t run s = Inr sn"
  using assms(3) by (auto simp: get_snapshot_def select_run[OF assms(1,2)] one_or_none_def result_simps)

text \<open>The run after an update that leaves its identifier, read back.\<close>

lemma updated_run_reads:
  assumes keys: "keys_ok t s" and r: "r \<in> set (runs_of t s)" and reads: "get_snapshot t (run_id r) s = Inr (Some sn)"
    and f: "\<And>q. run_id (f q) = run_id q" and run: "run_from_row (f r) = Inr run"
  shows "\<exists>sn'. with_snapshot t (run_id r) (update_runs t (\<lambda>q. run_id q = run_id r) f s)
    = Inr (update_runs t (\<lambda>q. run_id q = run_id r) f s, sn')"
proof -
  define s' where "s' = update_runs t (\<lambda>q. run_id q = run_id r) f s"
  obtain old where loaded: "load_snapshot t old s = Inr sn" and old: "run_from_row r = Inr old"
    using snapshot_run_reads[OF keys r reads] by blast
  have "run_id run = run_id old"
    using run_from_row_Inr[OF run] run_from_row_Inr[OF old] f by simp
  then have load: "load_snapshot t run s' = Inr (sn\<lparr>snap_run := run\<rparr>)"
    by (rule load_snapshot_other[OF loaded]) (simp add: s'_def update_runs_def)
  have runs: "runs_of t s' = map (upd_row (\<lambda>q. run_id q = run_id r) f) (runs_of t s)"
    by (simp add: s'_def)
  have ids: "run_id (upd_row p f q) = run_id q" for p q
    by (simp add: upd_row_def f)
  then have names: "map run_id (runs_of t s') = map run_id (runs_of t s)"
    by (simp add: runs comp_def)
  have others: "nodes_of t s' = nodes_of t s" "attempts_of t s' = attempts_of t s"
    by (simp_all add: s'_def)
  have "keys_ok t s'"
    using keys unfolding keys_ok_def names others .
  moreover have "f r \<in> set (runs_of t s')"
    unfolding runs set_map by (rule image_eqI[OF _ r]) (simp add: upd_row_def)
  ultimately have "select_where t (\<lambda>q. run_id q = run_id r) (runs_t s') = [f r]"
    using select_run[of t s' "f r"] by (simp add: f)
  then have "with_snapshot t (run_id r) s' = Inr (s', sn\<lparr>snap_run := run\<rparr>)"
    by (simp add: with_snapshot_def get_snapshot_def one_or_none_def run load rbind_def)
  then show ?thesis
    unfolding s'_def by blast
qed

section \<open>Reservations\<close>

definition amounts_ok :: "int \<Rightarrow> int \<Rightarrow> bool" where
  "amounts_ok rounds tools \<longleftrightarrow> 0 \<le> rounds \<and> 0 \<le> tools \<and> (rounds \<noteq> 0 \<or> tools \<noteq> 0)"

definition budget_covers :: "workflow_run \<Rightarrow> int \<Rightarrow> int \<Rightarrow> bool" where
  "budget_covers r rounds tools \<longleftrightarrow> run_model_rounds_used r + rounds \<le> max_model_rounds (run_budget r)
     \<and> run_tool_invocations_used r + tools \<le> max_tool_invocations (run_budget r)"

definition charged :: "int \<Rightarrow> int \<Rightarrow> instant \<Rightarrow> workflow_run \<Rightarrow> workflow_run" where
  "charged rounds tools now q = q\<lparr>run_model_rounds_used := run_model_rounds_used q + rounds,
     run_tool_invocations_used := run_tool_invocations_used q + tools, run_updated_at := now\<rparr>"

lemma reserve_refuses:
  assumes "keys_ok t s" and "r \<in> set (runs_of t s)" and "get_snapshot t (run_id r) s = Inr (Some sn)"
  shows "\<not> amounts_ok rounds tools \<Longrightarrow> reserve_budget t (run_id r) rounds tools now s
      = Inl (ValueError ''Workflow budget reservation must be positive'')"
    and "amounts_ok rounds tools \<Longrightarrow> run_terminal (run_status r) \<Longrightarrow> reserve_budget t (run_id r) rounds tools now s
      = Inl (WorkflowBudgetExceeded ''Terminal Workflow cannot reserve budget'')"
    and "amounts_ok rounds tools \<Longrightarrow> \<not> run_terminal (run_status r) \<Longrightarrow> \<not> budget_covers r rounds tools \<Longrightarrow>
      reserve_budget t (run_id r) rounds tools now s = Inl (WorkflowBudgetExceeded ''Workflow execution budget is exhausted'')"
proof -
  obtain run where run: "run_from_row r = Inr run"
    using snapshot_run_reads[OF assms] by blast
  note reads = locked_run_eq[OF assms(1,2)] run run_from_row_status[OF run]
  show "\<not> amounts_ok rounds tools \<Longrightarrow> reserve_budget t (run_id r) rounds tools now s
      = Inl (ValueError ''Workflow budget reservation must be positive'')"
    by (auto simp: reserve_budget_def amounts_ok_def ensure.simps rbind_def)
  show "amounts_ok rounds tools \<Longrightarrow> run_terminal (run_status r) \<Longrightarrow> reserve_budget t (run_id r) rounds tools now s
      = Inl (WorkflowBudgetExceeded ''Terminal Workflow cannot reserve budget'')"
    using reads by (auto simp: reserve_budget_def amounts_ok_def ensure.simps rbind_def Let_def)
  show "amounts_ok rounds tools \<Longrightarrow> \<not> run_terminal (run_status r) \<Longrightarrow> \<not> budget_covers r rounds tools \<Longrightarrow>
      reserve_budget t (run_id r) rounds tools now s = Inl (WorkflowBudgetExceeded ''Workflow execution budget is exhausted'')"
    using reads by (auto simp: reserve_budget_def amounts_ok_def budget_covers_def ensure.simps rbind_def Let_def not_le)
qed

lemma reserve_charges:
  assumes inv: "wf_inv t l s" and r: "r \<in> set (runs_of t s)" and reads: "get_snapshot t (run_id r) s = Inr (Some sn)"
    and ok: "amounts_ok rounds tools" "\<not> run_terminal (run_status r)" "budget_covers r rounds tools"
  shows "\<exists>sn'. reserve_budget t (run_id r) rounds tools now s
    = Inr (update_runs t (\<lambda>q. run_id q = run_id r) (charged rounds tools now) s, sn')"
proof -
  define p where "p = (\<lambda>q::workflow_run. run_id q = run_id r \<and> run_model_rounds_used q = run_model_rounds_used r
    \<and> run_tool_invocations_used q = run_tool_invocations_used r)"
  define f where "f = (\<lambda>q::workflow_run. q\<lparr>run_model_rounds_used := run_model_rounds_used r + rounds,
    run_tool_invocations_used := run_tool_invocations_used r + tools, run_updated_at := now\<rparr>)"
  define s' where "s' = update_runs t (\<lambda>q. run_id q = run_id r) (charged rounds tools now) s"
  note keys = wf_invD(1)[OF inv]
  have only: "q = r" if "q \<in> set (runs_of t s)" "run_id q = run_id r" for q
    using unique_run[OF keys that(1) r that(2)] .
  have "run_check r"
    using wf_invD(2)[OF inv] r by (simp add: runs_ok_def)
  then have check: "run_check (f r)"
    using ok(1,3) by (simp add: run_check_def f_def amounts_ok_def budget_covers_def)
  obtain run where run: "run_from_row r = Inr run"
    using snapshot_run_reads[OF keys r reads] by blast
  then have "run_from_row (charged rounds tools now r) = Inr (charged rounds tools now run)"
    using ok(1,3) by (auto simp: run_from_row_def run_post_init_def budget_post_init_def charged_def amounts_ok_def
        budget_covers_def ensure_eq_Inr rbind_eq_Inr)
  then obtain sn' where sn': "with_snapshot t (run_id r) s' = Inr (s', sn')"
    using updated_run_reads[OF keys r reads, of "charged rounds tools now"] unfolding s'_def by (auto simp: charged_def)
  have "update_runs t p f s = s'"
    unfolding s'_def update_runs_def update_where_def
    by (rule arg_cong[of _ _ "\<lambda>x. s\<lparr>runs_t := x\<rparr>"], rule map_cong[OF refl])
      (use only in \<open>force simp: p_def f_def charged_def rows_def\<close>)
  then have "update_run_checked t p f s = Inr s'"
    using check only by (auto simp: update_run_checked_Inr p_def)
  then have "reserve_budget t (run_id r) rounds tools now s = Inr (s', sn')"
    using locked_run_eq[OF keys r] run run_from_row_status[OF run] ok sn' unfolding p_def f_def
    by (simp add: reserve_budget_def amounts_ok_def budget_covers_def ensure.simps rbind_def Let_def not_less)
  then show ?thesis
    unfolding s'_def by blast
qed

section \<open>Upgrades\<close>

definition budget_upgrades :: "workflow_budget \<Rightarrow> workflow_budget \<Rightarrow> bool" where
  "budget_upgrades b b' \<longleftrightarrow> tier b = Tier_Normal \<and> tier b' = Tier_Deep
     \<and> max_model_rounds b \<le> max_model_rounds b' \<and> max_tool_invocations b \<le> max_tool_invocations b'
     \<and> max_duration_seconds b \<le> max_duration_seconds b' \<and> max_parallel_nodes b \<le> max_parallel_nodes b'"

lemma upgrade_answers:
  assumes inv: "wf_inv t l s" and r: "r \<in> set (runs_of t s)" and reads: "get_snapshot t (run_id r) s = Inr (Some sn)"
  shows "b = run_budget r \<Longrightarrow> upgrade_budget t (run_id r) b now s = Inr (s, sn)"
    and "b \<noteq> run_budget r \<Longrightarrow> \<not> budget_upgrades (run_budget r) b \<Longrightarrow> upgrade_budget t (run_id r) b now s
      = Inl (ValueError ''Workflow budget can only upgrade from normal to deep'')"
    and "budget_upgrades (run_budget r) b \<Longrightarrow> run_terminal (run_status r) \<Longrightarrow> upgrade_budget t (run_id r) b now s
      = Inl (ValueError ''Terminal Workflow budget cannot change'')"
    and "budget_upgrades (run_budget r) b \<Longrightarrow> \<not> run_terminal (run_status r) \<Longrightarrow> \<exists>sn'. upgrade_budget t (run_id r) b now s
      = Inr (update_runs t (\<lambda>q. run_id q = run_id r) (\<lambda>q. q\<lparr>run_budget := b, run_updated_at := now\<rparr>) s, sn')"
proof -
  note keys = wf_invD(1)[OF inv]
  obtain run where run: "run_from_row r = Inr run" and load: "load_snapshot t run s = Inr sn"
    using snapshot_run_reads[OF keys r reads] by blast
  note same = locked_run_eq[OF keys r] run run_from_row_status[OF run]
  show "b = run_budget r \<Longrightarrow> upgrade_budget t (run_id r) b now s = Inr (s, sn)"
    using same load by (simp add: upgrade_budget_def rbind_def)
  show "b \<noteq> run_budget r \<Longrightarrow> \<not> budget_upgrades (run_budget r) b \<Longrightarrow> upgrade_budget t (run_id r) b now s
      = Inl (ValueError ''Workflow budget can only upgrade from normal to deep'')"
    using same by (auto simp: upgrade_budget_def budget_upgrades_def ensure.simps rbind_def not_le)
  assume up: "budget_upgrades (run_budget r) b"
  then have other: "run_budget r \<noteq> b"
    by (auto simp: budget_upgrades_def)
  show "run_terminal (run_status r) \<Longrightarrow> upgrade_budget t (run_id r) b now s
      = Inl (ValueError ''Terminal Workflow budget cannot change'')"
    using same up other by (auto simp: upgrade_budget_def budget_upgrades_def ensure.simps rbind_def)
  assume open_run: "\<not> run_terminal (run_status r)"
  define f where "f = (\<lambda>q::workflow_run. q\<lparr>run_budget := b, run_updated_at := now\<rparr>)"
  have "run_check r"
    using wf_invD(2)[OF inv] r by (simp add: runs_ok_def)
  then have check: "run_check (f r)"
    using up by (simp add: run_check_def f_def budget_upgrades_def)
  have "run_from_row (f r) = Inr (f run)"
    using run up \<open>run_check r\<close> by (auto simp: run_from_row_def run_post_init_def budget_post_init_def f_def
        budget_upgrades_def run_check_def ensure_eq_Inr rbind_eq_Inr)
  then obtain sn' where sn': "with_snapshot t (run_id r) (update_runs t (\<lambda>q. run_id q = run_id r) f s)
      = Inr (update_runs t (\<lambda>q. run_id q = run_id r) f s, sn')"
    using updated_run_reads[OF keys r reads, of f] by (auto simp: f_def)
  have "update_run_checked t (\<lambda>q. run_id q = run_id r) f s = Inr (update_runs t (\<lambda>q. run_id q = run_id r) f s)"
    using check unique_run[OF keys _ r] by (auto simp: update_run_checked_Inr)
  then show "\<exists>sn'. upgrade_budget t (run_id r) b now s
      = Inr (update_runs t (\<lambda>q. run_id q = run_id r) (\<lambda>q. q\<lparr>run_budget := b, run_updated_at := now\<rparr>) s, sn')"
    using same up other open_run sn' unfolding f_def
    by (simp add: upgrade_budget_def budget_upgrades_def ensure.simps rbind_def not_less)
qed

section \<open>Promotion, node by node\<close>

lemma promote_target_nodes:
  "nodes_of t (promote_target t rid v now x s) = map (upd_row
     (\<lambda>n. promotable t rid v x s \<and> node_id n = x \<and> node_status n = Node_Pending)
     (\<lambda>n. n\<lparr>node_status := Node_Ready, node_updated_at := now\<rparr>)) (nodes_of t s)"
  by (auto simp: promote_target_eq upd_row_def intro!: map_idI[symmetric])

lemma updated_ids:
  assumes "\<And>n. node_id (f n) = node_id n"
  shows "node_id ` set (map (upd_row p f) xs) = node_id ` set xs"
proof -
  have "node_id (upd_row p f n) = node_id n" for n
    by (simp add: upd_row_def assms)
  then show ?thesis
    by (simp add: image_image)
qed

lemma promote_target_keeps:
  fixes n :: workflow_node
  assumes "n \<in> set (nodes_of t s)" and "node_status n \<noteq> Node_Pending \<or> node_id n \<noteq> x \<or> \<not> promotable t rid v x s"
  shows "n \<in> set (nodes_of t (promote_target t rid v now x s))"
  unfolding promote_target_nodes set_map by (rule image_eqI[OF _ assms(1)]) (use assms(2) in \<open>auto simp: upd_row_def\<close>)

lemma promote_fold_keeps:
  fixes n :: workflow_node
  assumes "n \<in> set (nodes_of t s)" and "node_status n \<noteq> Node_Pending \<or> node_id n \<notin> set ts \<or> \<not> promotable t rid v (node_id n) s"
  shows "n \<in> set (nodes_of t (fold (promote_target t rid v now) ts s))"
  using assms
proof (induction ts arbitrary: s)
  case (Cons x ts)
  have "n \<in> set (nodes_of t (promote_target t rid v now x s))"
    by (rule promote_target_keeps) (use Cons.prems in auto)
  then show ?case
    using Cons.IH[of "promote_target t rid v now x s"] Cons.prems(2) by (auto simp: promote_keeps_promotable)
qed simp

lemma promote_fold_makes_ready:
  fixes n :: workflow_node
  assumes "n \<in> set (nodes_of t s)" and "node_status n = Node_Pending" and "node_id n \<in> set ts" and "promotable t rid v (node_id n) s"
  shows "\<exists>n'\<in>set (nodes_of t (fold (promote_target t rid v now) ts s)). node_id n' = node_id n \<and> node_status n' = Node_Ready"
  using assms
proof (induction ts arbitrary: s)
  case (Cons x ts)
  show ?case
  proof (cases "node_id n = x")
    case True
    define n' where "n' = n\<lparr>node_status := Node_Ready, node_updated_at := now\<rparr>"
    have "n' \<in> set (nodes_of t (promote_target t rid v now x s))"
      unfolding promote_target_nodes set_map
      by (rule image_eqI[OF _ Cons.prems(1)]) (use Cons.prems True in \<open>simp add: upd_row_def n'_def\<close>)
    then have "n' \<in> set (nodes_of t (fold (promote_target t rid v now) ts (promote_target t rid v now x s)))"
      by (rule promote_fold_keeps) (simp add: n'_def)
    then show ?thesis
      by (intro bexI[of _ n']) (simp_all add: n'_def)
  next
    case False
    have "n \<in> set (nodes_of t (promote_target t rid v now x s))"
      by (rule promote_target_keeps) (use Cons.prems False in auto)
    then show ?thesis
      using Cons False by (simp add: promote_keeps_promotable)
  qed
qed simp

lemma promote_dependents_node:
  fixes n :: workflow_node
  assumes n: "n \<in> set (nodes_of t s)" "node_status n = Node_Pending"
  shows "\<exists>n'\<in>set (nodes_of t (promote_dependents t rid v now s)). node_id n' = node_id n
    \<and> node_status n' = (if promotable t rid v (node_id n) s then Node_Ready else Node_Pending)"
proof (cases "promotable t rid v (node_id n) s")
  case True
  then obtain e where e: "e \<in> set (edges_of t s)" "edge_run e = rid" "edge_plan_revision e = v" "edge_to e = node_id n"
    unfolding promotable_iff by blast
  have "node_id n \<in> set (remdups (map edge_to (select_where t
      (\<lambda>e. edge_run e = rid \<and> edge_plan_revision e = v) (edges_t s))))"
    unfolding set_remdups set_map by (rule image_eqI[of _ _ e]) (use e in simp_all)
  then show ?thesis
    using promote_fold_makes_ready[OF n _ True] True unfolding promote_dependents_def by auto
next
  case False
  then show ?thesis
    using promote_fold_keeps[OF n(1), of _ rid v now] n(2) unfolding promote_dependents_def by force
qed

lemma promote_dependents_ids:
  "node_id ` set (nodes_of t (promote_dependents t rid v now s)) = node_id ` set (nodes_of t s)"
proof -
  have "node_id ` set (nodes_of t (promote_target t rid v now x s)) = node_id ` set (nodes_of t s)" for x s
    unfolding promote_target_nodes by (rule updated_ids) simp
  then have "node_id ` set (nodes_of t (fold (promote_target t rid v now) ts s)) = node_id ` set (nodes_of t s)" for ts
    by (induction ts arbitrary: s) simp_all
  then show ?thesis
    by (simp add: promote_dependents_def)
qed

text \<open>A node that waits in the plan of a completed node is ready afterwards exactly when its sources have all succeeded.\<close>

lemma complete_promotion:
  assumes inv: "wf_inv t l s" and fin: "complete t c result evidence summary clk s = Inr (s', sn)"
    and v: "v \<in> set (nodes_of t s)" "node_status v = Node_Pending"
    and e: "e \<in> set (edges_of t s)" "edge_run e = claim_run c" "edge_plan_revision e = claim_plan_revision c" "edge_to e = node_id v"
  shows "\<exists>v'\<in>set (nodes_of t s'). node_id v' = node_id v
    \<and> node_status v' = (if promotable t (claim_run c) (claim_plan_revision c) (node_id v) s' then Node_Ready else Node_Pending)"
    and "promotable t (claim_run c) (claim_plan_revision c) (node_id v) s' \<longleftrightarrow>
      (\<forall>u\<in>set (nodes_of t s'). \<forall>d\<in>set (edges_of t s'). edge_from d = node_id u \<longrightarrow> edge_run d = claim_run c
        \<longrightarrow> edge_plan_revision d = claim_plan_revision c \<longrightarrow> edge_to d = node_id v \<longrightarrow> node_status u = Node_Succeeded)"
proof -
  obtain n s2 where req: "require_claim t c (clk 0) s = Inr n" and s2: "s2 = update_nodes t (claimed_node c)
      (\<lambda>n. n\<lparr>node_status := Node_Succeeded, node_result := Some result,
             node_evidence_refs := evidence, node_error_code := None,
             node_updated_at := clk 0, node_completed_at := Some (clk 0),
             node_public_summary := (case summary of None \<Rightarrow> node_public_summary n
                                     | Some x \<Rightarrow> take 500 (strip x))\<rparr>)
      (update_attempts t (live_claim_predicates c (clk 1))
        (\<lambda>a. (close_attempt Attempt_Succeeded (clk 0) a)
               \<lparr>att_result := Some result, att_evidence_refs := evidence\<rparr>) s)"
    and settle: "settle_run t (claim_run c) (clk 0)
      (promote_dependents t (claim_run c) (claim_plan_revision c) (clk 0) s2) = Inr s'"
    by (rule complete_Inr[OF fin])
  note st = settle_run_status[OF settle]
  have same: "promotable t (claim_run c) (claim_plan_revision c) (node_id v) s'
      = promotable t (claim_run c) (claim_plan_revision c) (node_id v) s2"
    by (simp add: promotable_same[OF st(2,3)] promote_dependents_promotable)
  have "\<not> claimed_node c v"
    using v(2) by simp
  then have "v \<in> set (nodes_of t s2)"
    using v(1) unfolding s2 by (auto simp: upd_row_def)
  then show "\<exists>v'\<in>set (nodes_of t s'). node_id v' = node_id v
    \<and> node_status v' = (if promotable t (claim_run c) (claim_plan_revision c) (node_id v) s' then Node_Ready else Node_Pending)"
    using promote_dependents_node[of v t s2] v(2) unfolding st(2) same by blast
  have edges: "edges_of t s' = edges_of t s2" "edges_of t s2 = edges_of t s"
    unfolding st(3) by (simp_all add: s2)
  obtain u where u: "u \<in> set (nodes_of t s)" "node_id u = edge_from e"
    using wf_invD(4)[OF inv] e(1) unfolding edges_ok_def by blast
  have "node_id ` set (nodes_of t s2) = node_id ` set (nodes_of t s)"
    unfolding s2 update_tables rows_update by (rule updated_ids) simp
  then have ids: "edge_from e \<in> node_id ` set (nodes_of t s')"
    using u unfolding st(2) promote_dependents_ids by (metis image_eqI)
  show "promotable t (claim_run c) (claim_plan_revision c) (node_id v) s' \<longleftrightarrow>
      (\<forall>u\<in>set (nodes_of t s'). \<forall>d\<in>set (edges_of t s'). edge_from d = node_id u \<longrightarrow> edge_run d = claim_run c
        \<longrightarrow> edge_plan_revision d = claim_plan_revision c \<longrightarrow> edge_to d = node_id v \<longrightarrow> node_status u = Node_Succeeded)"
    unfolding promotable_iff[of t "claim_run c"] using e by (metis (no_types, lifting) edges imageE ids)
qed

end
