(* ===== verification/Workflow_Properties.thy ===== *)
theory Workflow_Properties
  imports Workflow_Examples Workflow_Effects
begin

text \<open>
  The properties of the workflow repository, each with a witness where it has hypotheses. They
  speak of the states that calls of any tenants reach from the empty store, at the time the
  last call left.
\<close>

section \<open>Leases and fences\<close>

text \<open>
  C1. Mutual exclusion: in every reachable state two claims on one node that both pass the
  fence, at whatever times they are presented, are the same claim up to the lease end the
  worker remembers. Two workers never both hold a node.
\<close>

theorem claim_excludes_others:
  assumes "reachable (l, s)" and "require_claim t c now s = Inr n"
    and "require_claim t d now' s = Inr m" and "claim_node c = claim_node d"
  shows "d\<lparr>claim_lease_until := claim_lease_until c\<rparr> = c"
  using claims_agree[OF reachable_wf_inv[OF assms(1)] assms(2-4)] .

theorem claim_excludes_others_witness:
  "(ex_claim 11 1 200)\<lparr>claim_lease_until := claim_lease_until (ex_claim 11 1 100)\<rparr> = ex_claim 11 1 100"
proof -
  have "\<not> isl (require_claim ex_tenant (ex_claim 11 1 100) 50 (ex_store ex_claimed))"
    "\<not> isl (require_claim ex_tenant (ex_claim 11 1 200) 60 (ex_store ex_claimed))"
    by code_simp+
  then obtain n m where "require_claim ex_tenant (ex_claim 11 1 100) 50 (ex_store ex_claimed) = Inr n"
    "require_claim ex_tenant (ex_claim 11 1 200) 60 (ex_store ex_claimed) = Inr m"
    unfolding not_isl_iff by blast
  then show ?thesis
    by (rule claim_excludes_others[OF ex_claimed_reachable]) (simp add: ex_claim_def)
qed

text \<open>
  C2. Final runs are final: once a run is terminal and none of its nodes can move, no sequence
  of calls changes its status or revives a node, and every claim on it is fenced for ever.
\<close>

theorem closed_run_stays_closed:
  assumes "reachable (l, s)" and "closed_run t rid st s" and "wf_step\<^sup>*\<^sup>* (l, s) (l', s')"
  shows "closed_run t rid st s'
    \<and> (\<forall>c now. claim_run c = rid \<longrightarrow> require_claim t c now s' = Inl WorkflowFenceError)"
proof -
  have "closed_run t rid st (snd (l', s'))"
    using assms(2) wf_step_preserves
    by (intro reachable_stable[OF assms(1,3), where P = "closed_run t rid st"]) (auto simp: store_inv_def)
  then have closed: "closed_run t rid st s'" by simp
  have "wf_inv t l' s'"
    by (rule reachable_wf_inv[OF reachable_path[OF assms(1,3)]])
  then show ?thesis
    using closed closed_run_fenced by blast
qed

definition ex_after :: "(tenant \<times> instant \<times> wf_call) list" where
  "ex_after = [(ex_tenant, 5, Claim_Ready ''w'' 100 5 {} False), (ex_tenant, 6, Resume 1)]"

theorem closed_run_stays_closed_witness:
  "\<exists>s'. run_schedule ex_after (ex_store ex_done) = Inr s' \<and> closed_run ex_tenant 1 Run_Completed s'
     \<and> require_claim ex_tenant (ex_claim 12 1 100) 6 s' = Inl WorkflowFenceError"
proof -
  have "\<not> isl (run_schedule ex_after (ex_store ex_done))" by code_simp
  then obtain s' where s': "run_schedule ex_after (ex_store ex_done) = Inr s'"
    unfolding not_isl_iff by blast
  have "closed_run ex_tenant 1 Run_Completed (ex_store ex_done)" by code_simp
  moreover have "wf_step\<^sup>*\<^sup>* (4, ex_store ex_done) (6, s')"
    using schedule_path[OF s', of 4] by (simp add: ex_after_def)
  ultimately show ?thesis
    using closed_run_stays_closed[OF ex_done_reachable] s' by (auto simp: ex_claim_def)
qed

text \<open>
  C3. A failure reported by the worker that holds the claim closes the whole run: it is failed
  and none of its nodes can move, so by C2 every other worker on the run is fenced from then on.
\<close>

theorem fail_closes_run:
  assumes "reachable (l, s)" and "fail t c error_code clk s = Inr (s', sn)"
  shows "closed_run t (claim_run c) Run_Failed s'"
  using fail_closes[OF reachable_wf_inv[OF assms(1)] assms(2)] .

theorem fail_closes_run_witness:
  "\<exists>s' sn. fail ex_tenant (ex_claim 11 1 100) ''E'' (\<lambda>i. 2) (ex_store ex_claimed) = Inr (s', sn)
     \<and> closed_run ex_tenant 1 Run_Failed s'"
proof -
  have "\<not> isl (fail ex_tenant (ex_claim 11 1 100) ''E'' (\<lambda>i. 2) (ex_store ex_claimed))" by code_simp
  then obtain s' sn where "fail ex_tenant (ex_claim 11 1 100) ''E'' (\<lambda>i. 2) (ex_store ex_claimed) = Inr (s', sn)"
    unfolding not_isl_iff by auto
  with fail_closes_run[OF ex_claimed_reachable this] show ?thesis
    by (auto simp: ex_claim_def)
qed

text \<open>
  C4. Cancelling a run that is not terminal closes it as cancelled.
\<close>

theorem cancel_closes_run:
  assumes "reachable (l, s)" and "cancel t rid now s = Inr (s', sn)"
    and "r \<in> set (runs_of t s)" and "run_id r = rid" and "\<not> run_terminal (run_status r)"
  shows "closed_run t rid Run_Cancelled s'"
proof (rule cancel_closes[OF assms(2-4)])
  show "\<not> run_terminal (run_status q)" if "q \<in> set (runs_of t s)" "run_id q = rid" for q
    using unique_run[OF wf_invD(1)[OF reachable_wf_inv[OF assms(1)]] that(1) assms(3)] that(2) assms(4,5)
    by simp
qed

theorem cancel_closes_run_witness:
  "\<exists>s' sn. cancel ex_tenant 1 7 (ex_store ex_claimed) = Inr (s', sn)
     \<and> closed_run ex_tenant 1 Run_Cancelled s'"
proof -
  have "\<not> isl (cancel ex_tenant 1 7 (ex_store ex_claimed))"
    "\<exists>r\<in>set (runs_of ex_tenant (ex_store ex_claimed)). run_id r = 1 \<and> \<not> run_terminal (run_status r)"
    by code_simp+
  then obtain s' sn r where "cancel ex_tenant 1 7 (ex_store ex_claimed) = Inr (s', sn)"
      "r \<in> set (runs_of ex_tenant (ex_store ex_claimed))" "run_id r = 1" "\<not> run_terminal (run_status r)"
    unfolding not_isl_iff by auto
  then show ?thesis
    using cancel_closes_run[OF ex_claimed_reachable] by blast
qed

text \<open>
  C5. Deadlines: the next claim at or after the deadline of an unfinished run closes the run as
  failed and hands out no claim on it.
\<close>

theorem claim_enforces_deadline:
  assumes "reachable (l, s)" and "l \<le> now"
    and "claim_ready t worker lease_until limit kinds reserve now s = Inr (s', cs)"
    and "r \<in> set (runs_of t s)" and "\<not> run_terminal (run_status r)" and "overdue now r"
  shows "closed_run t (run_id r) Run_Failed s' \<and> (\<forall>c\<in>set cs. claim_run c \<noteq> run_id r)"
  using claim_ready_closes_overdue[OF assms(3) reachable_wf_inv[OF assms(1)] assms(2,4-6)] by blast

theorem claim_enforces_deadline_witness:
  "\<exists>s' cs. claim_ready ex_tenant ''w'' 2000000001 5 {} False 1800000000 (ex_store ex_claimed) = Inr (s', cs)
     \<and> closed_run ex_tenant 1 Run_Failed s' \<and> (\<forall>c\<in>set cs. claim_run c \<noteq> 1)"
proof -
  have "\<not> isl (claim_ready ex_tenant ''w'' 2000000001 5 {} False 1800000000 (ex_store ex_claimed))"
    "\<exists>r\<in>set (runs_of ex_tenant (ex_store ex_claimed)). run_id r = 1 \<and> \<not> run_terminal (run_status r)
       \<and> overdue 1800000000 r"
    by code_simp+
  then obtain s' cs r where
      "claim_ready ex_tenant ''w'' 2000000001 5 {} False 1800000000 (ex_store ex_claimed) = Inr (s', cs)"
      "r \<in> set (runs_of ex_tenant (ex_store ex_claimed))" "run_id r = 1" "\<not> run_terminal (run_status r)"
      "overdue 1800000000 r"
    unfolding not_isl_iff by auto
  then show ?thesis
    using claim_enforces_deadline[OF ex_claimed_reachable, of 1800000000] by fastforce
qed

section \<open>Claiming work\<close>

text \<open>
  C6. Every claim that \<open>claim_ready\<close> returns can be used: it carries the worker's name and
  lease, and the fence accepts it at every moment before the lease ends.
\<close>

theorem claims_are_usable:
  assumes "reachable (l, s)" and "l \<le> now"
    and "claim_ready t worker lease_until limit kinds reserve now s = Inr (s', cs)"
    and "c \<in> set cs" and "now' < lease_until"
  shows "claim_lease_owner c = worker \<and> claim_lease_until c = lease_until
    \<and> (\<exists>n. require_claim t c now' s' = Inr n)"
proof -
  obtain s1 where s1: "wf_inv t now s1" "preserves t {} now now s1 s'" "\<forall>c\<in>set cs. granted t c s'"
    "cs = map (claim_of_row worker lease_until) (select_claims t now limit kinds reserve s1)"
    by (rule claim_ready_step[OF assms(3) reachable_wf_inv[OF assms(1)] assms(2)])
  have own: "claim_lease_owner c = worker" "claim_lease_until c = lease_until"
    using assms(4) s1(4) by (auto simp: claim_of_row_def new_claim_def)
  have "\<exists>n. require_claim t c now' s' = Inr n"
    by (rule require_claim_granted[OF _ preserves_inv[OF s1(2,1)]]) (use s1(3) own assms(4,5) in auto)
  with own show ?thesis by blast
qed

theorem claims_are_usable_witness:
  "\<exists>s' c cs. claim_ready ex_tenant ''w'' 100 5 {} False 1 (ex_store [ex_ready]) = Inr (s', c # cs)
     \<and> (\<exists>n. require_claim ex_tenant c 99 s' = Inr n)"
proof -
  have "case claim_ready ex_tenant ''w'' 100 5 {} False 1 (ex_store [ex_ready]) of
      Inl e \<Rightarrow> False | Inr (s', cs) \<Rightarrow> cs \<noteq> []"
    by code_simp
  then obtain s' c cs where
      r: "claim_ready ex_tenant ''w'' 100 5 {} False 1 (ex_store [ex_ready]) = Inr (s', c # cs)"
    by (auto split: sum.splits prod.splits) (metis list.exhaust)
  from claims_are_usable[OF ex_created_reachable _ this, of c 99] show ?thesis
    using r by auto
qed

text \<open>
  C7. A claim hands out at most \<open>limit\<close> nodes, no node twice, and keeps the reserved slot: with
  the reservation asked for, or a blocking parent among the chosen, and no child chosen, at
  most \<open>limit - 1\<close>. The claims are exactly those of the rows chosen after the recovery sweeps,
  in that order.
\<close>

theorem claim_ready_takes_the_selection:
  assumes "reachable (l, s)" and "l \<le> now"
    and "claim_ready t worker lease_until limit kinds reserve now s = Inr (s', cs)"
  shows "\<exists>s1. reclaim_expired t now (expire_overdue t now s) = Inr s1
    \<and> cs = map (claim_of_row worker lease_until) (select_claims t now limit kinds reserve s1)
    \<and> int (length cs) \<le> limit \<and> distinct (map claim_node cs)
    \<and> reserve_kept limit kinds reserve (select_claims t now limit kinds reserve s1)"
proof -
  obtain s1 where s1: "reclaim_expired t now (expire_overdue t now s) = Inr s1" "1 \<le> limit" "wf_inv t now s1"
    "cs = map (claim_of_row worker lease_until) (select_claims t now limit kinds reserve s1)"
    by (rule claim_ready_step[OF assms(3) reachable_wf_inv[OF assms(1)] assms(2)])
  have "map claim_node cs = map (node_id \<circ> fst) (select_claims t now limit kinds reserve s1)"
    unfolding s1(4) by (simp add: claim_of_row_def new_claim_def)
  then have "distinct (map claim_node cs)"
    using select_claims_distinct[OF wf_invD(1)[OF s1(3)] s1(2)] by simp
  then show ?thesis
    using s1 select_claims_ok(2,3)[OF s1(2)] by auto
qed

theorem claim_ready_takes_the_selection_witness:
  "\<exists>s' cs. claim_ready ex_tenant ''w'' 100 5 {} False 1 (ex_store [ex_ready]) = Inr (s', cs)
     \<and> int (length cs) \<le> 5"
proof -
  have "\<not> isl (claim_ready ex_tenant ''w'' 100 5 {} False 1 (ex_store [ex_ready]))" by code_simp
  then obtain s' cs where r: "claim_ready ex_tenant ''w'' 100 5 {} False 1 (ex_store [ex_ready]) = Inr (s', cs)"
    unfolding not_isl_iff by auto
  from claim_ready_takes_the_selection[OF ex_created_reachable _ this] r show ?thesis by auto
qed

text \<open>
  C8. The claim wastes no capacity: a row that was eligible and is not chosen could not have been
  added, because the limit is reached, its run has no slot or a conflicting node beside the
  chosen ones, or the only slot left is the one kept for a child run.
\<close>

theorem selection_is_maximal:
  assumes "1 \<le> limit" and "row \<in> set (eligible_rows t now s)"
    and "row \<notin> set (select_claims t now limit kinds reserve s)"
  shows "limit \<le> int (length (select_claims t now limit kinds reserve s))
    \<or> full (fold occupy (select_claims t now limit kinds reserve s) (active_by_run t s)) row
    \<or> \<not> is_child row \<and> \<not> (\<exists>x\<in>set (select_claims t now limit kinds reserve s). is_child x)
      \<and> (reserve \<or> (\<exists>x\<in>set (row # select_claims t now limit kinds reserve s). is_blocking_parent kinds x))
      \<and> limit - 1 \<le> int (length (select_claims t now limit kinds reserve s))"
  using select_claims_stop[OF assms] .

theorem selection_is_maximal_witness:
  "\<exists>row\<in>set (eligible_rows ex_tenant 1 (ex_store [ex_ready])).
     row \<notin> set (select_claims ex_tenant 1 1 {} True (ex_store [ex_ready])) \<and> \<not> is_child row
     \<and> 1 - 1 \<le> int (length (select_claims ex_tenant 1 1 {} True (ex_store [ex_ready])))"
proof -
  have e: "\<exists>row\<in>set (eligible_rows ex_tenant 1 (ex_store [ex_ready])).
      row \<notin> set (select_claims ex_tenant 1 1 {} True (ex_store [ex_ready]))
      \<and> \<not> full (fold occupy (select_claims ex_tenant 1 1 {} True (ex_store [ex_ready]))
           (active_by_run ex_tenant (ex_store [ex_ready]))) row
      \<and> \<not> 1 \<le> int (length (select_claims ex_tenant 1 1 {} True (ex_store [ex_ready])))"
    by code_simp
  then show ?thesis
    using selection_is_maximal[of 1 _ ex_tenant 1 "ex_store [ex_ready]" "{}" True] by fastforce
qed

text \<open>
  C9. Recovery: after a claim every attempt of the tenant that is still marked running holds a
  lease that ends in the future, so a crashed worker's node is never stranded.
\<close>

theorem claim_recovers_expired_leases:
  assumes "reachable (l, s)" and "l \<le> now"
    and "claim_ready t worker lease_until limit kinds reserve now s = Inr (s', cs)"
    and "a \<in> set (attempts_of t s')" and "att_status a = Attempt_Running"
  shows "lease_live now a"
proof -
  obtain s1 where s1: "wf_inv t now s1" "preserves t {} now now s1 s'" "live t now s'"
    by (rule claim_ready_step[OF assms(3) reachable_wf_inv[OF assms(1)] assms(2)])
  have "attempt_check a"
    using wf_invD(5)[OF preserves_inv[OF s1(2,1)]] assms(4) unfolding attempts_ok_def by blast
  then obtain u where "att_lease_until a = Some u"
    using assms(5) by (auto simp: attempt_check_def)
  then show ?thesis
    using s1(3) assms(4,5) by (auto simp: live_def stale_def lease_live_def)
qed

theorem claim_recovers_expired_leases_witness:
  "\<exists>s' cs. claim_ready ex_tenant ''v'' 900 5 {} False 500 (ex_store ex_claimed) = Inr (s', cs)
     \<and> (\<exists>a\<in>set (attempts_of ex_tenant s'). att_lease_owner a = Some ''v'' \<and> lease_live 500 a)"
proof -
  have "case claim_ready ex_tenant ''v'' 900 5 {} False 500 (ex_store ex_claimed) of
      Inl e \<Rightarrow> False | Inr (s', cs) \<Rightarrow> \<exists>a\<in>set (attempts_of ex_tenant s').
        att_lease_owner a = Some ''v'' \<and> att_status a = Attempt_Running"
    by code_simp
  then obtain s' cs a where
      r: "claim_ready ex_tenant ''v'' 900 5 {} False 500 (ex_store ex_claimed) = Inr (s', cs)"
      "a \<in> set (attempts_of ex_tenant s')" "att_lease_owner a = Some ''v''" "att_status a = Attempt_Running"
    by (auto split: sum.splits prod.splits)
  from claim_recovers_expired_leases[OF ex_claimed_reachable _ r(1,2,4)] r show ?thesis by auto
qed

section \<open>Safety of every reachable state\<close>

text \<open>
  C10. Order of work: wherever a plan has an edge, its target has not become ready, run, waited,
  succeeded or failed unless its source succeeded.
\<close>

theorem work_follows_the_plan:
  assumes "reachable (l, s)" and "e \<in> set (edges_of t s)"
    and "u \<in> set (nodes_of t s)" and "node_id u = edge_from e"
    and "v \<in> set (nodes_of t s)" and "node_id v = edge_to e" and "started (node_status v)"
  shows "node_status u = Node_Succeeded"
  using wf_invD(7)[OF reachable_wf_inv[OF assms(1)]] assms(2-7) unfolding deps_ok_def by blast

theorem work_follows_the_plan_witness:
  "\<exists>u\<in>set (nodes_of ex_tenant (ex_store ex_done)). node_id u = 11 \<and> node_status u = Node_Succeeded"
proof -
  have e: "ex_edge \<in> set (edges_of ex_tenant (ex_store ex_done))"
    and "\<exists>u\<in>set (nodes_of ex_tenant (ex_store ex_done)). node_id u = edge_from ex_edge"
    and "\<exists>v\<in>set (nodes_of ex_tenant (ex_store ex_done)). node_id v = edge_to ex_edge
       \<and> started (node_status v)"
    by code_simp+
  then obtain u v where u: "u \<in> set (nodes_of ex_tenant (ex_store ex_done))" "node_id u = edge_from ex_edge"
    and v: "v \<in> set (nodes_of ex_tenant (ex_store ex_done))" "node_id v = edge_to ex_edge" "started (node_status v)"
    by blast
  from work_follows_the_plan[OF ex_done_reachable e u v] u show ?thesis
    by (auto simp: ex_edge_def)
qed

text \<open>
  C11. Concurrency: no run has more running nodes than its budget allows, a serial node runs
  alone in its run, and two nodes of a run that run together share no resource key.
\<close>

theorem concurrency_is_bounded:
  assumes "reachable (l, s)" and "r \<in> set (runs_of t s)"
  shows "int (length (filter (running_in (run_id r)) (nodes_of t s))) \<le> max_parallel_nodes (run_budget r)
    \<and> (\<forall>m\<in>set (nodes_of t s). \<forall>n\<in>set (nodes_of t s). running_in (run_id r) m \<longrightarrow>
         running_in (run_id r) n \<longrightarrow> node_id m \<noteq> node_id n \<longrightarrow>
         node_policy m = Parallel_Read \<and> node_policy n = Parallel_Read
         \<and> set (node_resource_keys m) \<inter> set (node_resource_keys n) = {})"
  using wf_invD(8)[OF reachable_wf_inv[OF assms(1)]] assms(2)
  unfolding slots_ok_def running_in_def[abs_def] compatible_def by (auto simp: disjoint_iff)

theorem concurrency_is_bounded_witness:
  "\<exists>r\<in>set (runs_of ex_tenant (ex_store ex_claimed)).
     int (length (filter (running_in (run_id r)) (nodes_of ex_tenant (ex_store ex_claimed)))) = 1
     \<and> 1 \<le> max_parallel_nodes (run_budget r)"
proof -
  have "\<exists>r\<in>set (runs_of ex_tenant (ex_store ex_claimed)).
     int (length (filter (running_in (run_id r)) (nodes_of ex_tenant (ex_store ex_claimed)))) = 1"
    by code_simp
  then show ?thesis
    using concurrency_is_bounded[OF ex_claimed_reachable] by metis
qed

text \<open>
  C12. Attempts are bounded: a node is never started more often than its plan allows.
\<close>

theorem attempts_are_bounded:
  assumes "reachable (l, s)" and "n \<in> set (nodes_of t s)"
  shows "int (length (filter (\<lambda>a. att_node a = node_id n) (attempts_of t s))) \<le> node_max_attempts n"
  using attempts_bounded[OF reachable_wf_inv[OF assms(1)] assms(2)] .

theorem attempts_are_bounded_witness:
  "\<exists>n\<in>set (nodes_of ex_tenant (ex_store ex_claimed)).
     int (length (filter (\<lambda>a. att_node a = node_id n) (attempts_of ex_tenant (ex_store ex_claimed)))) = 1
     \<and> 1 \<le> node_max_attempts n"
proof -
  have "\<exists>n\<in>set (nodes_of ex_tenant (ex_store ex_claimed)).
     int (length (filter (\<lambda>a. att_node a = node_id n) (attempts_of ex_tenant (ex_store ex_claimed)))) = 1"
    by code_simp
  then show ?thesis
    using attempts_are_bounded[OF ex_claimed_reachable] by metis
qed

text \<open>
  C13. Budgets are enforced. On a run that can be read a reservation succeeds exactly when its
  amounts are not negative and not both zero, the run has not ended and the budget covers them;
  one that the budget does not cover is refused as exhausted; and one that succeeds adds the
  amounts to the counters of this run and of no other. A change of the budget succeeds exactly
  when it leaves the budget as it is, or lifts a run that has not ended from the normal to the
  deep tier without lowering a limit; anything else is refused, and nothing else is written.
\<close>

theorem budgets_are_enforced:
  assumes "reachable (l, s)" and "r \<in> set (runs_of t s)" and "get_snapshot t (run_id r) s = Inr (Some sn)"
  shows "((\<exists>x. reserve_budget t (run_id r) rounds tools now s = Inr x) \<longleftrightarrow>
      amounts_ok rounds tools \<and> \<not> run_terminal (run_status r) \<and> budget_covers r rounds tools)
    \<and> (amounts_ok rounds tools \<longrightarrow> \<not> run_terminal (run_status r) \<longrightarrow> \<not> budget_covers r rounds tools \<longrightarrow>
        reserve_budget t (run_id r) rounds tools now s = Inl (WorkflowBudgetExceeded ''Workflow execution budget is exhausted''))
    \<and> (reserve_budget t (run_id r) rounds tools now s = Inr (s', sn') \<longrightarrow>
        s' = update_runs t (\<lambda>q. run_id q = run_id r) (charged rounds tools now) s)
    \<and> ((\<exists>x. upgrade_budget t (run_id r) b now s = Inr x) \<longleftrightarrow>
      b = run_budget r \<or> budget_upgrades (run_budget r) b \<and> \<not> run_terminal (run_status r))
    \<and> (upgrade_budget t (run_id r) b now s = Inr (s'', sn'') \<longrightarrow> s'' = (if b = run_budget r then s
        else update_runs t (\<lambda>q. run_id q = run_id r) (\<lambda>q. q\<lparr>run_budget := b, run_updated_at := now\<rparr>) s))"
proof -
  note inv = reachable_wf_inv[OF assms(1)]
  note refuses = reserve_refuses[OF wf_invD(1)[OF inv] assms(2,3)]
  note answers = upgrade_answers[OF inv assms(2,3), of b now]
  have reserve: "(\<exists>x. reserve_budget t (run_id r) rounds tools now s = Inr x) \<longleftrightarrow>
      amounts_ok rounds tools \<and> \<not> run_terminal (run_status r) \<and> budget_covers r rounds tools"
    using refuses reserve_charges[OF inv assms(2,3)] by (metis Inr_not_Inl)
  have upgrade: "(\<exists>x. upgrade_budget t (run_id r) b now s = Inr x) \<longleftrightarrow>
      b = run_budget r \<or> budget_upgrades (run_budget r) b \<and> \<not> run_terminal (run_status r)"
    using answers by (metis Inr_not_Inl)
  show ?thesis
  proof (intro conjI impI reserve upgrade)
    show "reserve_budget t (run_id r) rounds tools now s = Inl (WorkflowBudgetExceeded ''Workflow execution budget is exhausted'')"
      if "amounts_ok rounds tools" "\<not> run_terminal (run_status r)" "\<not> budget_covers r rounds tools"
      using refuses(3)[OF that] .
  next
    assume "reserve_budget t (run_id r) rounds tools now s = Inr (s', sn')"
    then show "s' = update_runs t (\<lambda>q. run_id q = run_id r) (charged rounds tools now) s"
      using reserve reserve_charges[OF inv assms(2,3)] by (metis Inr_inject prod.inject)
  next
    assume "upgrade_budget t (run_id r) b now s = Inr (s'', sn'')"
    then show "s'' = (if b = run_budget r then s
        else update_runs t (\<lambda>q. run_id q = run_id r) (\<lambda>q. q\<lparr>run_budget := b, run_updated_at := now\<rparr>) s)"
      using upgrade answers(1,4) by (metis Inr_inject prod.inject)
  qed
qed

theorem budgets_are_enforced_witness:
  "(\<exists>x. reserve_budget ex_tenant 1 12 32 5 (ex_store ex_claimed) = Inr x)
    \<and> reserve_budget ex_tenant 1 13 0 5 (ex_store ex_claimed)
      = Inl (WorkflowBudgetExceeded ''Workflow execution budget is exhausted'')
    \<and> (\<exists>x. upgrade_budget ex_tenant 1 budget_deep 5 (ex_store ex_claimed) = Inr x)
    \<and> (\<nexists>x. upgrade_budget ex_tenant 1 (budget_deep\<lparr>max_parallel_nodes := 1\<rparr>) 5 (ex_store ex_claimed) = Inr x)"
proof -
  have "case get_snapshot ex_tenant 1 (ex_store ex_claimed) of Inr (Some sn) \<Rightarrow> True | _ \<Rightarrow> False"
    by code_simp
  then obtain sn where sn: "get_snapshot ex_tenant 1 (ex_store ex_claimed) = Inr (Some sn)"
    by (auto split: sum.splits option.splits)
  have "\<exists>r\<in>set (runs_of ex_tenant (ex_store ex_claimed)). run_id r = 1 \<and> run_budget r = budget_normal
      \<and> \<not> run_terminal (run_status r) \<and> run_model_rounds_used r = 0 \<and> run_tool_invocations_used r = 0"
    by code_simp
  then obtain r where r: "r \<in> set (runs_of ex_tenant (ex_store ex_claimed))" "run_id r = 1" "run_budget r = budget_normal"
      "\<not> run_terminal (run_status r)" "run_model_rounds_used r = 0" "run_tool_invocations_used r = 0"
    by blast
  note exact = budgets_are_enforced[OF ex_claimed_reachable r(1), unfolded r(2), OF sn]
  show ?thesis
    using exact[of 12 32 5 _ _ budget_deep] exact[of 13 0 5 _ _ "budget_deep\<lparr>max_parallel_nodes := 1\<rparr>"] r(3-6)
    by (simp add: amounts_ok_def budget_covers_def budget_upgrades_def budget_normal_def budget_deep_def)
qed

text \<open>
  C14. Terminal nodes are final: whatever calls follow, a node that succeeded, failed, was
  cancelled or superseded keeps that status.
\<close>

theorem terminal_nodes_are_final:
  assumes "reachable (l, s)" and "n \<in> set (nodes_of t s)" and "node_terminal (node_status n)"
    and "wf_step\<^sup>*\<^sup>* (l, s) (l', s')"
  shows "\<exists>n'\<in>set (nodes_of t s'). node_id n' = node_id n \<and> node_status n' = node_status n"
proof -
  have "terminal_nodes_kept t s (snd (l', s'))"
    using wf_step_preserves terminal_nodes_kept_trans
    by (intro reachable_stable[OF assms(1,4), where P = "terminal_nodes_kept t s"])
      (auto simp: store_inv_def terminal_nodes_kept_def)
  then show ?thesis
    using assms(2,3) unfolding terminal_nodes_kept_def by auto
qed

theorem terminal_nodes_are_final_witness:
  "\<exists>s'. run_schedule ex_after (ex_store ex_done) = Inr s'
     \<and> (\<exists>n'\<in>set (nodes_of ex_tenant s'). node_id n' = 11 \<and> node_status n' = Node_Succeeded)"
proof -
  have "\<not> isl (run_schedule ex_after (ex_store ex_done))"
    and "\<exists>n\<in>set (nodes_of ex_tenant (ex_store ex_done)). node_id n = 11 \<and> node_status n = Node_Succeeded"
    by code_simp+
  then obtain s' n where s': "run_schedule ex_after (ex_store ex_done) = Inr s'"
    and n: "n \<in> set (nodes_of ex_tenant (ex_store ex_done))" "node_id n = 11" "node_status n = Node_Succeeded"
    unfolding not_isl_iff by blast
  have "wf_step\<^sup>*\<^sup>* (4, ex_store ex_done) (6, s')"
    using schedule_path[OF s', of 4] by (simp add: ex_after_def)
  from terminal_nodes_are_final[OF ex_done_reachable n(1) _ this] n s' show ?thesis by auto
qed

text \<open>
  C15. Tenant isolation: a call of one tenant changes no row that another tenant can see, in any
  of the six tables.
\<close>

theorem tenants_are_isolated:
  assumes "exec_call t clk c s = Inr s'" and "t' \<noteq> t"
  shows "runs_of t' s' = runs_of t' s \<and> nodes_of t' s' = nodes_of t' s
    \<and> attempts_of t' s' = attempts_of t' s \<and> edges_of t' s' = edges_of t' s
    \<and> revisions_of t' s' = revisions_of t' s \<and> instructions_of t' s' = instructions_of t' s"
  using exec_call_frame[OF assms] by (simp add: same_view_def)

theorem tenants_are_isolated_witness:
  "\<exists>s'. exec_call ''t2'' (\<lambda>i. 7) (Claim_Ready ''w'' 100 5 {} False) (ex_store ex_claimed) = Inr s'
     \<and> attempts_of ex_tenant s' = attempts_of ex_tenant (ex_store ex_claimed)"
proof -
  have "\<not> isl (exec_call ''t2'' (\<lambda>i. 7) (Claim_Ready ''w'' 100 5 {} False) (ex_store ex_claimed))"
    by code_simp
  then obtain s' where
      r: "exec_call ''t2'' (\<lambda>i. 7) (Claim_Ready ''w'' 100 5 {} False) (ex_store ex_claimed) = Inr s'"
    unfolding not_isl_iff by blast
  have "ex_tenant \<noteq> ''t2''" by (simp add: ex_tenant_def)
  from tenants_are_isolated[OF r this] r show ?thesis by blast
qed

section \<open>Repeated and concurrent calls\<close>

text \<open>
  Creation is idempotent: repeating a creation that succeeded changes nothing and returns
  the same snapshot, so a caller may retry after a lost answer.
\<close>

theorem create_is_idempotent:
  assumes "create_workflow t run nodes es s = Inr (s', snapshot)"
  shows "create_workflow t run nodes es s' = Inr (s', snapshot)"
  using create_again[OF assms] .

theorem create_is_idempotent_witness:
  "\<exists>s' sn. create_workflow ex_tenant ex_run [ex_node 11 ''a'' 2] [] empty_store = Inr (s', sn)
     \<and> s' \<noteq> empty_store
     \<and> create_workflow ex_tenant ex_run [ex_node 11 ''a'' 2] [] s' = Inr (s', sn)"
proof -
  have "case create_workflow ex_tenant ex_run [ex_node 11 ''a'' 2] [] empty_store of
      Inl e \<Rightarrow> False | Inr (s', sn) \<Rightarrow> runs_t s' \<noteq> []"
    by code_simp
  then obtain s' sn where
      r: "create_workflow ex_tenant ex_run [ex_node 11 ''a'' 2] [] empty_store = Inr (s', sn)" "runs_t s' \<noteq> []"
    by (auto split: sum.splits prod.splits)
  then have "s' \<noteq> empty_store" by (auto simp: empty_store_def)
  with r create_is_idempotent[OF r(1)] show ?thesis by blast
qed

text \<open>
  Optimistic replanning: of two writers that replan the same revision of a run, the second
  gets \<open>WorkflowRevisionError\<close>.
\<close>

theorem one_writer_replans:
  assumes "append_plan t rid v reason i nodes es now s = Inr (s', snapshot)"
  shows "append_plan t rid v reason' i' nodes' es' now' s' = Inl WorkflowRevisionError"
  using append_once[OF assms] .

theorem one_writer_replans_witness:
  "\<exists>s' sn. append_plan ex_tenant 1 1 Reason_Repair None
       [(ex_node 21 ''c'' 1)\<lparr>node_plan_revision := 2\<rparr>] [] 5 (ex_store [ex_ready]) = Inr (s', sn)
     \<and> append_plan ex_tenant 1 1 Reason_Repair None
       [(ex_node 31 ''d'' 1)\<lparr>node_plan_revision := 2\<rparr>] [] 6 s' = Inl WorkflowRevisionError"
proof -
  have "\<not> isl (append_plan ex_tenant 1 1 Reason_Repair None
       [(ex_node 21 ''c'' 1)\<lparr>node_plan_revision := 2\<rparr>] [] 5 (ex_store [ex_ready]))"
    by code_simp
  then obtain s' sn where r: "append_plan ex_tenant 1 1 Reason_Repair None
       [(ex_node 21 ''c'' 1)\<lparr>node_plan_revision := 2\<rparr>] [] 5 (ex_store [ex_ready]) = Inr (s', sn)"
    unfolding not_isl_iff by auto
  from one_writer_replans[OF r] r show ?thesis by blast
qed

text \<open>
  Instructions are idempotent: the same instruction with the same key is stored once, and
  every later call returns the stored one.
\<close>

theorem instruction_is_stored_once:
  assumes "add_instruction t new_id rid instruction v key now s = Inr (s', i)"
  shows "add_instruction t new_id' rid instruction v key now' s' = Inr (s', i)"
  using add_instruction_again[OF assms] .

theorem instruction_is_stored_once_witness:
  "\<exists>s' i. add_instruction ex_tenant 91 1 '' be brief '' 1 ''k'' 5 (ex_store [ex_ready]) = Inr (s', i)
     \<and> add_instruction ex_tenant 92 1 '' be brief '' 1 ''k'' 9 s' = Inr (s', i)"
proof -
  have "\<not> isl (add_instruction ex_tenant 91 1 '' be brief '' 1 ''k'' 5 (ex_store [ex_ready]))"
    by code_simp
  then obtain s' i where
      r: "add_instruction ex_tenant 91 1 '' be brief '' 1 ''k'' 5 (ex_store [ex_ready]) = Inr (s', i)"
    unfolding not_isl_iff by auto
  from instruction_is_stored_once[OF r] r show ?thesis by blast
qed

section \<open>Progress\<close>

text \<open>
  C20. A completion promotes exactly what can start: every pending node with an incoming edge in
  the plan of the completed node, the revision of its claim, is ready afterwards when all the
  sources of its edges in this plan have succeeded, and is still pending otherwise.
\<close>

theorem completion_promotes_dependents:
  assumes "reachable (l, s)" and "complete t c result evidence summary clk s = Inr (s', snapshot)"
    and "v \<in> set (nodes_of t s)" and "node_status v = Node_Pending"
    and "e \<in> set (edges_of t s)" and "edge_run e = claim_run c"
    and "edge_plan_revision e = claim_plan_revision c" and "edge_to e = node_id v"
  shows "\<exists>v'\<in>set (nodes_of t s'). node_id v' = node_id v \<and> node_status v' =
    (if \<forall>u\<in>set (nodes_of t s'). \<forall>d\<in>set (edges_of t s'). edge_from d = node_id u \<longrightarrow> edge_run d = claim_run c
        \<longrightarrow> edge_plan_revision d = claim_plan_revision c \<longrightarrow> edge_to d = node_id v \<longrightarrow> node_status u = Node_Succeeded
     then Node_Ready else Node_Pending)"
  using complete_promotion[OF reachable_wf_inv[OF assms(1)] assms(2-8)] by simp

definition ex_join :: wf_call where
  "ex_join = Create ex_run
     [(ex_node 11 ''a'' 2)\<lparr>node_policy := Parallel_Read\<rparr>, (ex_node 12 ''b'' 2)\<lparr>node_policy := Parallel_Read\<rparr>,
      ex_node 13 ''c'' 2]
     [ex_edge\<lparr>edge_to := 13\<rparr>, ex_edge\<lparr>edge_from := 12, edge_to := 13\<rparr>]"

definition ex_join_claimed :: "(tenant \<times> instant \<times> wf_call) list" where
  "ex_join_claimed = [(ex_tenant, 0, ex_join), (ex_tenant, 1, Claim_Ready ''w'' 100 5 {} False)]"

text \<open>One source has succeeded and the other is running: the join goes on waiting.\<close>

theorem completion_promotes_dependents_witness:
  "\<exists>s' sn. complete ex_tenant (ex_claim 11 1 100) JNull [] None (\<lambda>i. 2) (ex_store ex_join_claimed) = Inr (s', sn)
     \<and> (\<exists>v'\<in>set (nodes_of ex_tenant s'). node_id v' = 13 \<and> node_status v' = Node_Pending)"
proof -
  have "case complete ex_tenant (ex_claim 11 1 100) JNull [] None (\<lambda>i. 2) (ex_store ex_join_claimed) of
      Inl e \<Rightarrow> False | Inr (s', sn) \<Rightarrow> \<not> (\<forall>u\<in>set (nodes_of ex_tenant s'). \<forall>d\<in>set (edges_of ex_tenant s').
        edge_from d = node_id u \<longrightarrow> edge_run d = claim_run (ex_claim 11 1 100)
        \<longrightarrow> edge_plan_revision d = claim_plan_revision (ex_claim 11 1 100) \<longrightarrow> edge_to d = 13 \<longrightarrow> node_status u = Node_Succeeded)"
    by code_simp
  then obtain s' sn where
      r: "complete ex_tenant (ex_claim 11 1 100) JNull [] None (\<lambda>i. 2) (ex_store ex_join_claimed) = Inr (s', sn)"
    and waits: "\<not> (\<forall>u\<in>set (nodes_of ex_tenant s'). \<forall>d\<in>set (edges_of ex_tenant s').
        edge_from d = node_id u \<longrightarrow> edge_run d = claim_run (ex_claim 11 1 100)
        \<longrightarrow> edge_plan_revision d = claim_plan_revision (ex_claim 11 1 100) \<longrightarrow> edge_to d = 13 \<longrightarrow> node_status u = Node_Succeeded)"
    by (auto split: sum.splits prod.splits)
  have "ex_ok ex_join_claimed" by code_simp
  from ex_store_reachable[OF this] have reach: "reachable (1, ex_store ex_join_claimed)"
    by (simp add: ex_join_claimed_def)
  have "\<exists>v\<in>set (nodes_of ex_tenant (ex_store ex_join_claimed)). node_id v = 13 \<and> node_status v = Node_Pending"
    and e: "ex_edge\<lparr>edge_to := 13\<rparr> \<in> set (edges_of ex_tenant (ex_store ex_join_claimed))"
    by code_simp+
  then obtain v where v: "v \<in> set (nodes_of ex_tenant (ex_store ex_join_claimed))" "node_id v = 13" "node_status v = Node_Pending"
    by blast
  have "edge_run (ex_edge\<lparr>edge_to := 13\<rparr>) = claim_run (ex_claim 11 1 100)"
    "edge_plan_revision (ex_edge\<lparr>edge_to := 13\<rparr>) = claim_plan_revision (ex_claim 11 1 100)"
    "edge_to (ex_edge\<lparr>edge_to := 13\<rparr>) = node_id v"
    using v(2) by (simp_all add: ex_edge_def ex_claim_def)
  from completion_promotes_dependents[OF reach r v(1,3) e this] r waits show ?thesis
    unfolding v(2) by auto
qed

text \<open>
  C21. A completion settles the run: it is completed exactly when no pause takes effect and every
  node of the active plan has ended without a failure or a cancellation.
\<close>

theorem completion_settles_the_run:
  assumes "complete t c result evidence summary clk s = Inr (s', snapshot)"
    and "r \<in> set (runs_of t s')" and "run_id r = claim_run c"
  shows "run_status r = Run_Completed \<longleftrightarrow>
    \<not> (run_pause_requested r \<and> \<not> has_running_attempt t (claim_run c) s')
    \<and> (\<exists>n\<in>set (nodes_of t s'). node_run n = claim_run c \<and> node_plan_revision n = run_active_revision r)
    \<and> (\<forall>n\<in>set (nodes_of t s'). node_run n = claim_run c \<longrightarrow> node_plan_revision n = run_active_revision r \<longrightarrow>
         node_status n \<in> {Node_Succeeded, Node_Skipped, Node_Superseded})"
proof -
  obtain s2 where "settle_run t (claim_run c) (clk 0)
      (promote_dependents t (claim_run c) (claim_plan_revision c) (clk 0) s2) = Inr s'"
    by (rule complete_Inr[OF assms(1)])
  from settle_run_status(1)[OF this] assms(2,3) show ?thesis
    by (auto simp: settled_status_completed filter_empty_conv)
qed

theorem completion_settles_the_run_witness:
  "\<exists>s' sn r. complete ex_tenant (ex_claim 12 1 100) JNull [] None (\<lambda>i. 4) (ex_store ex_second) = Inr (s', sn)
     \<and> r \<in> set (runs_of ex_tenant s') \<and> run_status r = Run_Completed"
proof -
  have "case complete ex_tenant (ex_claim 12 1 100) JNull [] None (\<lambda>i. 4) (ex_store ex_second) of
      Inl e \<Rightarrow> False | Inr (s', sn) \<Rightarrow> (\<exists>r\<in>set (runs_of ex_tenant s'). run_id r = claim_run (ex_claim 12 1 100)
        \<and> \<not> run_pause_requested r
        \<and> (\<exists>n\<in>set (nodes_of ex_tenant s'). node_run n = claim_run (ex_claim 12 1 100)
             \<and> node_plan_revision n = run_active_revision r)
        \<and> (\<forall>n\<in>set (nodes_of ex_tenant s'). node_status n = Node_Succeeded))"
    by code_simp
  then obtain s' sn r where
      r: "complete ex_tenant (ex_claim 12 1 100) JNull [] None (\<lambda>i. 4) (ex_store ex_second) = Inr (s', sn)"
      "r \<in> set (runs_of ex_tenant s')" "run_id r = claim_run (ex_claim 12 1 100)" "\<not> run_pause_requested r"
      "\<exists>n\<in>set (nodes_of ex_tenant s'). node_run n = claim_run (ex_claim 12 1 100)
             \<and> node_plan_revision n = run_active_revision r"
      "\<forall>n\<in>set (nodes_of ex_tenant s'). node_status n = Node_Succeeded"
    by (auto split: sum.splits prod.splits)
  from completion_settles_the_run[OF r(1-3)] r show ?thesis by blast
qed

section \<open>Plans\<close>

text \<open>
  C22. The plan validator accepts exactly the plans that are not empty, have distinct node
  identifiers, belong to the run and revision, have edges between their own nodes only, and are
  acyclic; it marks as ready exactly the nodes without a predecessor. Its breadth-first count is
  therefore equivalent to acyclicity.
\<close>

theorem plan_validation_is_exact:
  "validate_plan run revision nodes es = Inr marked \<longleftrightarrow>
     nodes \<noteq> [] \<and> distinct (map node_id nodes)
     \<and> (\<forall>n\<in>set nodes. node_run n = run \<and> node_plan_revision n = revision)
     \<and> (\<forall>e\<in>set es. edge_run e = run \<and> edge_plan_revision e = revision
          \<and> edge_from e \<in> node_id ` set nodes \<and> edge_to e \<in> node_id ` set nodes)
     \<and> acyclic (edge_rel es)
     \<and> marked = mark_roots nodes es"
  using validate_plan_Inr[of run revision nodes es marked] by (simp add: plan_well_formed_def conj_assoc)

theorem plan_validation_is_exact_witness:
  "validate_plan 1 1 [ex_node 11 ''a'' 2, ex_node 12 ''b'' 2] [ex_edge]
     = Inr (mark_roots [ex_node 11 ''a'' 2, ex_node 12 ''b'' 2] [ex_edge])"
  unfolding plan_validation_is_exact
  by (simp add: ex_node_def ex_edge_def edge_rel_def acyclic_insert wf_acyclic)

end
