(* ===== verification/Scheduler_Model.thy ===== *)
theory Scheduler_Model
  imports Workflow_Facts
begin

text \<open>
  \<open>WorkflowScheduler\<close> of \<open>workflow/scheduler.py\<close>: the registry of node adapters, the
  cancellation token, and the atomic blocks of the coordinator thread, the worker threads and
  the public methods. A block is what runs between two points at which another thread may
  act: one critical section of the scheduler's lock, or one unit of work on the store. A
  function that touches the store takes it and returns it as the unit of work leaves it: the
  block's calls are committed together, or the store is unchanged.

  An adapter is foreign code: what its \<open>execute\<close>, \<open>heartbeat\<close> and \<open>replan_after_pause\<close>
  answer is a parameter of the block that calls it. The events \<open>_wake\<close> and \<open>_changed\<close> only
  shorten a wait: the coordinator polls without them, so they are not part of the state.
\<close>

section \<open>Adapters\<close>

datatype sched_error = Workflow_Error wf_error | RuntimeError string | TimeoutError

record node_result =
  res_output :: json
  res_evidence_refs :: "string list"
  res_public_summary :: "string option"
  res_available_at :: "instant option"

text \<open>
  How a call of \<open>execute\<close> ends. \<open>Raised_Error\<close> is any other exception, with the
  \<open>error_code\<close> attribute it has or the default \<open>''WORKFLOW_NODE_FAILED''\<close>.
\<close>

datatype adapter_outcome =
    Returned node_result
  | Raised_Retryable string
  | Raised_Waiting_For_Approval json
  | Raised_Waiting_For_Input json
  | Raised_Cancelled
  | Raised_Paused
  | Raised_Provider_Cancelled
  | Raised_Error string

definition node_failed :: string where
  "node_failed = ''WORKFLOW_NODE_FAILED''"

record node_adapter =
  may_wait_for_child :: bool
  has_heartbeat :: bool

type_synonym registry = "(string \<times> node_adapter) list"

definition register :: "string \<Rightarrow> node_adapter \<Rightarrow> registry \<Rightarrow> sched_error + registry" where
  "register kind adapter adapters =
     (let normalized = strip kind in ensure
       [(normalized = [] \<or> normalized \<in> fst ` set adapters, Workflow_Error
          (ValueError ''Workflow node kind is invalid or already registered''))]
       (adapters @ [(normalized, adapter)]))"

definition require_adapter :: "registry \<Rightarrow> string \<Rightarrow> sched_error + node_adapter" where
  "require_adapter adapters kind = (case map_of adapters kind of
     None \<Rightarrow> Inl (RuntimeError ''Workflow adapter is unavailable'')
   | Some adapter \<Rightarrow> Inr adapter)"

definition child_waiting_kinds :: "registry \<Rightarrow> string set" where
  "child_waiting_kinds adapters = fst ` set (filter (may_wait_for_child \<circ> snd) adapters)"

section \<open>Cancellation tokens\<close>

datatype cancel_reason = User_Cancelled | Worker_Interrupted

type_synonym token = "cancel_reason option"

text \<open>The first reason set stays.\<close>

definition set_reason :: "cancel_reason \<Rightarrow> token \<Rightarrow> token" where
  "set_reason reason tok = (case tok of None \<Rightarrow> Some reason | Some r \<Rightarrow> Some r)"

definition is_cancelled :: "token \<Rightarrow> bool" where
  "is_cancelled tok \<longleftrightarrow> tok \<noteq> None"

definition is_interrupted :: "token \<Rightarrow> bool" where
  "is_interrupted tok \<longleftrightarrow> tok = Some Worker_Interrupted"

section \<open>State\<close>

text \<open>
  An \<open>_ActiveNode\<close> with the identity of its token, which is the identity of the object: the
  scheduler makes one token for each. A job is a call of \<open>_execute\<close> in the thread pool, with
  how far it has come.
\<close>

record active_node =
  act_claim :: attempt_claim
  act_kind :: string
  act_parent :: "uuid option"
  act_token :: nat

definition act_node :: "active_node \<Rightarrow> uuid" where
  "act_node a = claim_node (act_claim a)"

definition act_run :: "active_node \<Rightarrow> uuid" where
  "act_run a = claim_run (act_claim a)"

datatype job_phase =
    Job_Submitted
  | Job_Executing workflow_node
  | Job_Outcome adapter_outcome
  | Job_Committing node_result
  | Job_Settled bool
  | Job_Finishing

type_synonym job = "active_node \<times> job_phase"

text \<open>
  Where the coordinator thread is: waiting for its next iteration, in the heartbeats of the
  items it still has to renew, before its claim with the capacity and reservation it has read,
  or registering the claims it got, each with the kind of its node and the parent of its run.
  Between the registration of an item and the submission of its job it holds no lock, and after a
  submission that was refused it still has to abandon the claim.
\<close>

type_synonym claimed = "attempt_claim \<times> (string \<times> uuid option) option"

datatype coordinator =
    Coord_Polling
  | Coord_Beating "active_node list"
  | Coord_Claiming int "string set" bool
  | Coord_Registering "claimed list"
  | Coord_Submitting active_node "claimed list"
  | Coord_Withdrawing active_node
  | Coord_Stopped

datatype closer =
    Close_None
  | Close_Pausing "active_node list"
  | Close_Joining
  | Close_Waiting
  | Close_Abandoning "active_node list"
  | Close_Done

record scheduler =
  sch_adapters :: registry
  sch_max_workers :: int
  sch_lease_duration :: instant
  sch_heartbeat_interval :: instant
  sch_owner :: string
  sch_active :: "active_node list"
  sch_boundary :: "uuid set"
  sch_closed :: bool
  sch_started :: bool
  sch_last_heartbeat :: instant
  sch_tokens :: "token list"
  sch_jobs :: "job list"
  sch_coordinator :: coordinator
  sch_closer :: closer
  sch_checking :: "uuid list"
  sch_resuming :: "(uuid \<times> bool) list"
  sch_cancelling :: "uuid list"

definition new_scheduler ::
  "registry \<Rightarrow> int \<Rightarrow> instant \<Rightarrow> instant \<Rightarrow> instant \<Rightarrow> string \<Rightarrow> bool \<Rightarrow> instant \<Rightarrow>
   sched_error + scheduler" where
  "new_scheduler adapters max_workers lease heartbeat poll owner autostart mono_now = ensure
     [(max_workers < 1, Workflow_Error (ValueError ''Workflow max_workers must be positive'')),
      (lease \<le> 0, Workflow_Error (ValueError ''Workflow lease duration must be positive'')),
      (min heartbeat poll \<le> 0, Workflow_Error (ValueError ''Workflow worker intervals must be positive'')),
      (lease \<le> heartbeat, Workflow_Error (ValueError ''Workflow heartbeat must be shorter than its lease''))]
     \<lparr>sch_adapters = adapters, sch_max_workers = max_workers, sch_lease_duration = lease,
      sch_heartbeat_interval = heartbeat, sch_owner = ''workflow-worker:'' @ owner, sch_active = [],
      sch_boundary = {}, sch_closed = False, sch_started = autostart, sch_last_heartbeat = mono_now,
      sch_tokens = [], sch_jobs = [], sch_coordinator = Coord_Polling, sch_closer = Close_None,
      sch_checking = [], sch_resuming = [], sch_cancelling = []\<rparr>"

text \<open>The token of an item, and a reason set on the tokens of some items.\<close>

definition token_of :: "scheduler \<Rightarrow> active_node \<Rightarrow> token" where
  "token_of \<sigma> a = (if act_token a < length (sch_tokens \<sigma>) then sch_tokens \<sigma> ! act_token a else None)"

definition set_reasons :: "cancel_reason \<Rightarrow> active_node list \<Rightarrow> scheduler \<Rightarrow> scheduler" where
  "set_reasons reason items \<sigma> = \<sigma>\<lparr>sch_tokens :=
     map (\<lambda>i. if i \<in> act_token ` set items then set_reason reason (sch_tokens \<sigma> ! i)
              else sch_tokens \<sigma> ! i) [0..<length (sch_tokens \<sigma>)]\<rparr>"

section \<open>Units of work\<close>

text \<open>\<open>with factory() as u: u.workflows.call(...); u.commit()\<close>\<close>

definition in_unit_of_work :: "wf_error + wf_store \<times> 'a \<Rightarrow> wf_store \<Rightarrow> wf_store \<times> (wf_error + 'a)" where
  "in_unit_of_work r s = (case r of Inl e \<Rightarrow> (s, Inl e) | Inr (s', x) \<Rightarrow> (s', Inr x))"

definition abandon_claim :: "tenant \<Rightarrow> attempt_claim \<Rightarrow> instant \<Rightarrow> wf_store \<Rightarrow> wf_store \<times> bool" where
  "abandon_claim t c now s = (case abandon t c now s of
     Inr (s', True) \<Rightarrow> (s', True) | _ \<Rightarrow> (s, False))"

section \<open>The coordinator\<close>

definition heartbeat_due :: "instant \<Rightarrow> scheduler \<Rightarrow> bool" where
  "heartbeat_due mono_now \<sigma> \<longleftrightarrow> \<not> mono_now - sch_last_heartbeat \<sigma> < sch_heartbeat_interval \<sigma>"

definition coordinate :: "instant \<Rightarrow> scheduler \<Rightarrow> scheduler" where
  "coordinate mono_now \<sigma> =
     (if sch_closed \<sigma> then \<sigma>\<lparr>sch_coordinator := Coord_Stopped\<rparr>
      else if heartbeat_due mono_now \<sigma>
      then \<sigma>\<lparr>sch_last_heartbeat := mono_now, sch_coordinator := Coord_Beating (sch_active \<sigma>)\<rparr>
      else \<sigma>\<lparr>sch_coordinator := Coord_Beating []\<rparr>)"

definition find_node :: "uuid \<Rightarrow> workflow_snapshot \<Rightarrow> workflow_node option" where
  "find_node i sn = find (\<lambda>n. node_id n = i) (snap_nodes sn)"

text \<open>
  One item of \<open>_heartbeat_if_due\<close>: the store after the unit of work and whether the lease was
  renewed and the adapter's own heartbeat, \<open>beat\<close>, agreed.
\<close>

definition heartbeat_item ::
  "tenant \<Rightarrow> clock \<Rightarrow> bool \<Rightarrow> scheduler \<Rightarrow> active_node \<Rightarrow> wf_store \<Rightarrow> wf_store \<times> bool" where
  "heartbeat_item t clk beat \<sigma> item s =
     (case renew t (act_claim item) (clk 0 + sch_lease_duration \<sigma>) (clock_from 1 clk) s of
        Inr (s', True) \<Rightarrow>
          (s', case get_snapshot t (act_run item) s' of
                 Inl _ \<Rightarrow> False
               | Inr None \<Rightarrow> True
               | Inr (Some sn) \<Rightarrow> (case find_node (act_node item) sn of
                   None \<Rightarrow> False
                 | Some n \<Rightarrow> (case require_adapter (sch_adapters \<sigma>) (node_kind n) of
                     Inl _ \<Rightarrow> False
                   | Inr adapter \<Rightarrow> has_heartbeat adapter \<longrightarrow> beat)))
      | _ \<Rightarrow> (s, False))"

definition heartbeat ::
  "tenant \<Rightarrow> clock \<Rightarrow> bool \<Rightarrow> active_node \<Rightarrow> active_node list \<Rightarrow> scheduler \<times> wf_store \<Rightarrow>
   scheduler \<times> wf_store" where
  "heartbeat t clk beat item rest st = (case st of (\<sigma>, s) \<Rightarrow>
     case heartbeat_item t clk beat \<sigma> item s of (s', renewed) \<Rightarrow>
       let \<sigma>' = \<sigma>\<lparr>sch_coordinator := Coord_Beating rest\<rparr>
       in (if renewed then \<sigma>' else set_reasons Worker_Interrupted [item] \<sigma>', s'))"

definition blocking_parent_kinds :: "scheduler \<Rightarrow> string set" where
  "blocking_parent_kinds \<sigma> =
     (if 1 < sch_max_workers \<sigma> then child_waiting_kinds (sch_adapters \<sigma>) else {})"

definition reads_capacity :: "scheduler \<Rightarrow> scheduler" where
  "reads_capacity \<sigma> =
     (let capacity = sch_max_workers \<sigma> - int (length (sch_active \<sigma>));
          kinds = blocking_parent_kinds \<sigma>;
          reserve = (\<exists>a\<in>set (sch_active \<sigma>). act_parent a = None \<and> act_kind a \<in> kinds)
      in \<sigma>\<lparr>sch_coordinator :=
            (if capacity \<le> 0 then Coord_Polling else Coord_Claiming capacity kinds reserve)\<rparr>)"

text \<open>
  \<open>claim_nodes\<close>: the kind and parent of each claim, read back in the same unit of work. A run
  that is not found has no entry; a node that is not found raises.
\<close>

definition claim_info ::
  "tenant \<Rightarrow> wf_store \<Rightarrow> attempt_claim \<Rightarrow> wf_error + claimed" where
  "claim_info t s c = rbind (get_snapshot t (claim_run c) s) (\<lambda>sn. case sn of
       None \<Rightarrow> Inr (c, None)
     | Some x \<Rightarrow> (case find_node (claim_node c) x of
         None \<Rightarrow> Inl KeyError
       | Some n \<Rightarrow> Inr (c, Some (node_kind n, run_parent (snap_run x)))))"

definition claim_available ::
  "tenant \<Rightarrow> clock \<Rightarrow> int \<Rightarrow> string set \<Rightarrow> bool \<Rightarrow> scheduler \<times> wf_store \<Rightarrow> scheduler \<times> wf_store" where
  "claim_available t clk capacity kinds reserve st = (case st of (\<sigma>, s) \<Rightarrow>
     case claim_ready t (sch_owner \<sigma>) (clk 0 + sch_lease_duration \<sigma>) capacity kinds reserve (clk 1) s of
       Inl _ \<Rightarrow> (\<sigma>\<lparr>sch_coordinator := Coord_Polling\<rparr>, s)
     | Inr (s', claims) \<Rightarrow> (case traverse (claim_info t s') claims of
         Inl _ \<Rightarrow> (\<sigma>\<lparr>sch_coordinator := Coord_Polling\<rparr>, s)
       | Inr infos \<Rightarrow> (\<sigma>\<lparr>sch_coordinator := Coord_Registering infos\<rparr>, if claims = [] then s else s')))"

text \<open>
  One iteration of the registration loop, up to the end of its critical section: the claim is
  abandoned, or its item enters the pool and its job is to be submitted.
\<close>

definition new_active :: "claimed \<Rightarrow> nat \<Rightarrow> active_node" where
  "new_active e tok = \<lparr>act_claim = fst e,
     act_kind = (case snd e of None \<Rightarrow> [] | Some (kind, _) \<Rightarrow> kind),
     act_parent = (case snd e of None \<Rightarrow> None | Some (_, parent) \<Rightarrow> parent), act_token = tok\<rparr>"

definition register_claim ::
  "tenant \<Rightarrow> instant \<Rightarrow> claimed \<Rightarrow> claimed list \<Rightarrow> scheduler \<times> wf_store \<Rightarrow> scheduler \<times> wf_store" where
  "register_claim t now e rest st = (case st of (\<sigma>, s) \<Rightarrow>
     let abandoned = fst (abandon_claim t (fst e) now s);
         item = new_active e (length (sch_tokens \<sigma>))
     in if snd e = None then (\<sigma>\<lparr>sch_coordinator := Coord_Registering rest\<rparr>, abandoned)
        else if sch_closed \<sigma> then (\<sigma>\<lparr>sch_coordinator := Coord_Polling\<rparr>, abandoned)
        else if claim_node (fst e) \<in> act_node ` set (sch_active \<sigma>)
        then (\<sigma>\<lparr>sch_coordinator := Coord_Registering rest\<rparr>, abandoned)
        else (\<sigma>\<lparr>sch_tokens := sch_tokens \<sigma> @ [None], sch_active := sch_active \<sigma> @ [item],
                sch_coordinator := Coord_Submitting item rest\<rparr>, s))"

text \<open>
  The submission, outside the lock. \<open>accepts\<close> is whether the thread pool takes the job: where it
  does not, the item leaves the pool again, under the lock, then the claim is abandoned and the
  exception ends the iteration of the coordinator.
\<close>

definition submit_item :: "bool \<Rightarrow> active_node \<Rightarrow> claimed list \<Rightarrow> scheduler \<Rightarrow> scheduler" where
  "submit_item accepts item rest \<sigma> =
     (if accepts
      then \<sigma>\<lparr>sch_jobs := sch_jobs \<sigma> @ [(item, Job_Submitted)], sch_coordinator := Coord_Registering rest\<rparr>
      else \<sigma>\<lparr>sch_active := filter (\<lambda>a. act_node a \<noteq> act_node item) (sch_active \<sigma>),
             sch_coordinator := Coord_Withdrawing item\<rparr>)"

definition withdraw_item ::
  "tenant \<Rightarrow> instant \<Rightarrow> active_node \<Rightarrow> scheduler \<times> wf_store \<Rightarrow> scheduler \<times> wf_store" where
  "withdraw_item t now item st = (case st of (\<sigma>, s) \<Rightarrow>
     (\<sigma>\<lparr>sch_coordinator := Coord_Polling\<rparr>, fst (abandon_claim t (act_claim item) now s)))"

section \<open>The workers\<close>

text \<open>The start of \<open>_execute\<close>, up to the call of the adapter.\<close>

definition begin_node :: "tenant \<Rightarrow> scheduler \<Rightarrow> attempt_claim \<Rightarrow> wf_store \<Rightarrow> job_phase" where
  "begin_node t \<sigma> c s = (case get_snapshot t (claim_run c) s of
     Inr (Some sn) \<Rightarrow> (case find_node (claim_node c) sn of
         Some n \<Rightarrow> (case require_adapter (sch_adapters \<sigma>) (node_kind n) of
             Inr _ \<Rightarrow> Job_Executing n
           | Inl _ \<Rightarrow> Job_Outcome (Raised_Error node_failed))
       | None \<Rightarrow> Job_Outcome (Raised_Error node_failed))
   | _ \<Rightarrow> Job_Outcome (Raised_Error node_failed))"

text \<open>
  The delay before a retry, \<open>min(5.0, 0.25 * 2 ** (attempt_number - 1))\<close> seconds: from the
  power 1024 on the product with a float raises \<open>OverflowError\<close>.
\<close>

definition retry_delay :: "int \<Rightarrow> instant option" where
  "retry_delay attempt = (if 1024 \<le> attempt - 1 then None
     else Some (min 5000000 (250000 * 2 ^ nat (attempt - 1))))"

text \<open>A settlement inside \<open>try\<close>: committed and settled, or logged and left to \<open>finally\<close>.\<close>

definition try_settle :: "wf_error + wf_store \<times> 'a \<Rightarrow> wf_store \<Rightarrow> wf_store \<times> job_phase" where
  "try_settle r s = (case in_unit_of_work r s of (s', x) \<Rightarrow> (s', Job_Settled (\<not> isl x)))"

definition commit_result ::
  "tenant \<Rightarrow> clock \<Rightarrow> attempt_claim \<Rightarrow> node_result \<Rightarrow> wf_store \<Rightarrow> wf_store \<times> job_phase" where
  "commit_result t clk c result s =
     (case in_unit_of_work (case res_available_at result of
         None \<Rightarrow> complete t c (res_output result) (res_evidence_refs result) (res_public_summary result) clk s
       | Some available_at \<Rightarrow> defer_claim t c available_at (res_output result) clk s) s of
        (s', Inr _) \<Rightarrow> (s', Job_Settled True)
      | (s', Inl _) \<Rightarrow> (s', Job_Outcome (Raised_Error node_failed)))"

fun settle_outcome ::
  "tenant \<Rightarrow> clock \<Rightarrow> attempt_claim \<Rightarrow> token \<Rightarrow> adapter_outcome \<Rightarrow> wf_store \<Rightarrow> wf_store \<times> job_phase" where
  "settle_outcome t clk c tok (Returned result) s =
     (s, if is_cancelled tok then Job_Outcome Raised_Provider_Cancelled else Job_Committing result)"
| "settle_outcome t clk c tok (Raised_Retryable error_code) s =
     (if is_interrupted tok then (fst (abandon_claim t c (clk 0) s), Job_Settled True)
      else case retry_delay (claim_number c) of
        None \<Rightarrow> (s, Job_Settled False)
      | Some delay \<Rightarrow> try_settle (retry t c (clk 0 + delay) error_code (clock_from 1 clk) s) s)"
| "settle_outcome t clk c tok (Raised_Waiting_For_Approval result) s =
     try_settle (wait_for_approval t c result clk s) s"
| "settle_outcome t clk c tok (Raised_Waiting_For_Input result) s =
     try_settle (wait_for_input t c result clk s) s"
| "settle_outcome t clk c tok Raised_Cancelled s =
     try_settle (cancel t (claim_run c) (clk 0) s) s"
| "settle_outcome t clk c tok Raised_Paused s =
     (case abandon_claim t c (clk 0) s of (s', abandoned) \<Rightarrow> (s', Job_Settled abandoned))"
| "settle_outcome t clk c tok Raised_Provider_Cancelled s =
     (if is_interrupted tok then (fst (abandon_claim t c (clk 0) s), Job_Settled True)
      else (s, Job_Settled (is_cancelled tok)))"
| "settle_outcome t clk c tok (Raised_Error error_code) s =
     (if is_interrupted tok then (fst (abandon_claim t c (clk 0) s), Job_Settled True)
      else try_settle (fail t c (take 128 error_code) clk s) s)"

definition leave_node :: "tenant \<Rightarrow> instant \<Rightarrow> attempt_claim \<Rightarrow> bool \<Rightarrow> wf_store \<Rightarrow> wf_store" where
  "leave_node t now c settled s = (if settled then s else fst (abandon_claim t c now s))"

definition run_is_active :: "uuid \<Rightarrow> scheduler \<Rightarrow> bool" where
  "run_is_active rid \<sigma> \<longleftrightarrow> (\<exists>a\<in>set (sch_active \<sigma>). act_run a = rid)"

text \<open>
  The critical section of \<open>_resume_after_boundary_if_ready\<close>, for a thread that has called it,
  and the rest of it: the unit of work and the discarding of the intent.
\<close>

definition check_boundary :: "uuid \<Rightarrow> scheduler \<Rightarrow> scheduler" where
  "check_boundary rid \<sigma> =
     (let \<sigma>' = \<sigma>\<lparr>sch_checking := remove1 rid (sch_checking \<sigma>)\<rparr>
      in if rid \<notin> sch_boundary \<sigma> then \<sigma>'
         else \<sigma>'\<lparr>sch_resuming := sch_resuming \<sigma> @ [(rid, run_is_active rid \<sigma>)]\<rparr>)"

definition boundary_resolved ::
  "tenant \<Rightarrow> uuid \<Rightarrow> bool \<Rightarrow> instant \<Rightarrow> wf_store \<Rightarrow> wf_store \<times> bool" where
  "boundary_resolved t rid has_active now s = (case get_snapshot t rid s of
     Inl _ \<Rightarrow> (s, False)
   | Inr None \<Rightarrow> (s, True)
   | Inr (Some sn) \<Rightarrow>
       if run_status (snap_run sn) \<in> {Run_Waiting_For_Approval, Run_Waiting_For_Input, Run_Paused}
       then (case in_unit_of_work (resume t rid now s) s of (s', x) \<Rightarrow> (s', \<not> isl x))
       else (s, run_terminal (run_status (snap_run sn)) \<or> \<not> has_active))"

definition resume_boundary ::
  "tenant \<Rightarrow> instant \<Rightarrow> uuid \<Rightarrow> bool \<Rightarrow> scheduler \<times> wf_store \<Rightarrow> scheduler \<times> wf_store" where
  "resume_boundary t now rid has_active st = (case st of (\<sigma>, s) \<Rightarrow>
     case boundary_resolved t rid has_active now s of (s', resolved) \<Rightarrow>
       let \<sigma>' = \<sigma>\<lparr>sch_resuming := remove1 (rid, has_active) (sch_resuming \<sigma>)\<rparr>
       in (if resolved then \<sigma>'\<lparr>sch_boundary := sch_boundary \<sigma> - {rid}\<rparr> else \<sigma>', s'))"

definition finish_active :: "active_node \<Rightarrow> scheduler \<Rightarrow> scheduler" where
  "finish_active item \<sigma> = \<sigma>\<lparr>
     sch_active := filter (\<lambda>a. a \<noteq> item) (sch_active \<sigma>),
     sch_jobs := filter (\<lambda>j. act_token (fst j) \<noteq> act_token item) (sch_jobs \<sigma>),
     sch_checking := sch_checking \<sigma> @ [act_run item]\<rparr>"

section \<open>Public methods\<close>

definition start_scheduler :: "scheduler \<Rightarrow> sched_error + scheduler" where
  "start_scheduler \<sigma> = ensure [(sch_closed \<sigma>, RuntimeError ''Workflow Scheduler is closing'')]
     (\<sigma>\<lparr>sch_started := True\<rparr>)"

definition wake_scheduler :: "scheduler \<Rightarrow> sched_error + scheduler" where
  "wake_scheduler \<sigma> = ensure [(sch_closed \<sigma>, RuntimeError ''Workflow Scheduler is closing'')] \<sigma>"

definition pause_run :: "tenant \<Rightarrow> uuid \<Rightarrow> instant \<Rightarrow> wf_store \<Rightarrow> wf_store \<times> (wf_error + workflow_snapshot)" where
  "pause_run t rid now s = in_unit_of_work (request_pause t rid now s) s"

definition resume_run :: "tenant \<Rightarrow> uuid \<Rightarrow> instant \<Rightarrow> wf_store \<Rightarrow> wf_store \<times> (wf_error + workflow_snapshot)" where
  "resume_run t rid now s = in_unit_of_work (resume t rid now s) s"

definition resume_after_boundary :: "uuid \<Rightarrow> scheduler \<Rightarrow> sched_error + scheduler" where
  "resume_after_boundary rid \<sigma> = ensure
     [(sch_closed \<sigma>, RuntimeError ''Workflow Scheduler is closing'')]
     (\<sigma>\<lparr>sch_boundary := insert rid (sch_boundary \<sigma>), sch_checking := sch_checking \<sigma> @ [rid]\<rparr>)"

text \<open>\<open>cancel\<close>: the tokens of the run's items first, then the run in a unit of work.\<close>

definition cancel_tokens :: "uuid \<Rightarrow> scheduler \<Rightarrow> scheduler" where
  "cancel_tokens rid \<sigma> =
     set_reasons User_Cancelled (filter (\<lambda>a. act_run a = rid) (sch_active \<sigma>))
       (\<sigma>\<lparr>sch_cancelling := sch_cancelling \<sigma> @ [rid]\<rparr>)"

definition cancel_run :: "tenant \<Rightarrow> uuid \<Rightarrow> instant \<Rightarrow> scheduler \<times> wf_store \<Rightarrow> scheduler \<times> wf_store" where
  "cancel_run t rid now st = (case st of (\<sigma>, s) \<Rightarrow>
     (\<sigma>\<lparr>sch_cancelling := remove1 rid (sch_cancelling \<sigma>)\<rparr>, fst (in_unit_of_work (cancel t rid now s) s)))"

text \<open>
  \<open>wait\<close> on the successive readings it makes of the run and, after each, of the monotonic
  clock. \<open>Inr None\<close> is that it still waits after the last of them.
\<close>

definition wait_settled :: "run_status \<Rightarrow> bool" where
  "wait_settled st \<longleftrightarrow> run_terminal st
     \<or> st \<in> {Run_Paused, Run_Waiting_For_Approval, Run_Waiting_For_Input}"

fun wait_loop ::
  "instant \<Rightarrow> ((wf_error + workflow_snapshot option) \<times> instant) list \<Rightarrow>
   sched_error + workflow_snapshot option" where
  "wait_loop deadline [] = Inr None"
| "wait_loop deadline ((reading, mono_now) # rest) = (case reading of
     Inl e \<Rightarrow> Inl (Workflow_Error e)
   | Inr None \<Rightarrow> Inl (Workflow_Error KeyError)
   | Inr (Some sn) \<Rightarrow>
       if wait_settled (run_status (snap_run sn)) then Inr (Some sn)
       else if deadline - mono_now \<le> 0 then Inl TimeoutError
       else wait_loop deadline rest)"

definition wait_run ::
  "instant \<Rightarrow> instant \<Rightarrow> ((wf_error + workflow_snapshot option) \<times> instant) list \<Rightarrow>
   sched_error + workflow_snapshot option" where
  "wait_run timeout mono_now readings = rbind (ensure
     [(timeout \<le> 0, Workflow_Error (ValueError ''Workflow wait timeout must be positive''))] ())
     (\<lambda>_. wait_loop (mono_now + timeout) readings)"

section \<open>Closing\<close>

definition close_scheduler :: "scheduler \<Rightarrow> scheduler" where
  "close_scheduler \<sigma> = (if sch_closed \<sigma> then \<sigma>
     else \<sigma>\<lparr>sch_closed := True, sch_closer := Close_Pausing (sch_active \<sigma>)\<rparr>)"

definition close_item ::
  "tenant \<Rightarrow> instant \<Rightarrow> active_node \<Rightarrow> active_node list \<Rightarrow> scheduler \<times> wf_store \<Rightarrow> scheduler \<times> wf_store" where
  "close_item t now item rest st = (case st of (\<sigma>, s) \<Rightarrow>
     (set_reasons Worker_Interrupted [item] (\<sigma>\<lparr>sch_closer := Close_Pausing rest\<rparr>),
      fst (pause_run t (act_run item) now s)))"

text \<open>
  \<open>shutdown(wait=True, cancel_futures=True)\<close> drops jobs that no thread has taken and waits for
  the others; \<open>dropped\<close> says which of those still submitted it finds in the queue.
\<close>

definition shutdown_executor :: "nat set \<Rightarrow> scheduler \<Rightarrow> scheduler" where
  "shutdown_executor dropped \<sigma> = \<sigma>\<lparr>sch_closer := Close_Waiting,
     sch_jobs := filter (\<lambda>j. \<not> (snd j = Job_Submitted \<and> act_token (fst j) \<in> dropped)) (sch_jobs \<sigma>)\<rparr>"

definition close_remaining :: "scheduler \<Rightarrow> scheduler" where
  "close_remaining \<sigma> = \<sigma>\<lparr>sch_closer := Close_Abandoning (sch_active \<sigma>), sch_active := [], sch_boundary := {}\<rparr>"

definition close_abandon ::
  "tenant \<Rightarrow> instant \<Rightarrow> active_node \<Rightarrow> active_node list \<Rightarrow> scheduler \<times> wf_store \<Rightarrow> scheduler \<times> wf_store" where
  "close_abandon t now item rest st = (case st of (\<sigma>, s) \<Rightarrow>
     (\<sigma>\<lparr>sch_closer := (if rest = [] then Close_Done else Close_Abandoning rest)\<rparr>,
      fst (abandon_claim t (act_claim item) now s)))"

end
