(* ===== verification/Scheduler_Machine.thy ===== *)
theory Scheduler_Machine
  imports Scheduler_Model
begin

text \<open>
  The scheduler as a state machine. An action is one atomic block of one of its threads, or a
  call of another client on the same store; \<open>exec_action\<close> runs it where it is enabled. The
  actions of the threads interleave in any order that the threads' own program order allows.
  A job is named by its token.
\<close>

section \<open>Actions\<close>

datatype sched_action =
    Coordinate instant
  | Heartbeat bool
  | Read_Capacity
  | Claim_Available
  | Register
  | Submit_Job bool
  | Withdraw
  | Begin_Node nat
  | Adapter_Ends nat adapter_outcome
  | Settle_Node nat
  | Leave_Node nat
  | Finish_Node nat
  | Check_Boundary
  | Resume_Boundary
  | Start
  | Pause_Run uuid
  | Resume_Run uuid
  | Resume_After_Boundary uuid
  | Cancel_Tokens uuid
  | Cancel_Run
  | Close
  | Close_Item
  | Shutdown_Executor "nat set"
  | Close_Remaining
  | Close_Abandon
  | Other_Client tenant wf_call

definition job_of :: "nat \<Rightarrow> scheduler \<Rightarrow> job option" where
  "job_of i \<sigma> = find (\<lambda>j. act_token (fst j) = i) (sch_jobs \<sigma>)"

definition set_phase :: "nat \<Rightarrow> job_phase \<Rightarrow> scheduler \<Rightarrow> scheduler" where
  "set_phase i ph \<sigma> = \<sigma>\<lparr>sch_jobs :=
     map (\<lambda>j. if act_token (fst j) = i then (fst j, ph) else j) (sch_jobs \<sigma>)\<rparr>"

definition enter_phase :: "nat \<Rightarrow> scheduler \<Rightarrow> wf_store \<times> job_phase \<Rightarrow> scheduler \<times> wf_store" where
  "enter_phase i \<sigma> r = (set_phase i (snd r) \<sigma>, fst r)"

section \<open>The coordinator thread\<close>

fun coordinator_action ::
  "tenant \<Rightarrow> clock \<Rightarrow> sched_action \<Rightarrow> scheduler \<times> wf_store \<Rightarrow> (scheduler \<times> wf_store) option" where
  "coordinator_action t clk (Coordinate mono_now) (\<sigma>, s) =
     (if sch_coordinator \<sigma> = Coord_Polling \<and> sch_started \<sigma> then Some (coordinate mono_now \<sigma>, s) else None)"
| "coordinator_action t clk (Heartbeat beat) (\<sigma>, s) = (case sch_coordinator \<sigma> of
     Coord_Beating (item # rest) \<Rightarrow> Some (heartbeat t clk beat item rest (\<sigma>, s))
   | _ \<Rightarrow> None)"
| "coordinator_action t clk Read_Capacity (\<sigma>, s) = (case sch_coordinator \<sigma> of
     Coord_Beating [] \<Rightarrow> Some (reads_capacity \<sigma>, s)
   | _ \<Rightarrow> None)"
| "coordinator_action t clk Claim_Available (\<sigma>, s) = (case sch_coordinator \<sigma> of
     Coord_Claiming capacity kinds reserve \<Rightarrow>
       Some (claim_available t clk capacity kinds reserve (\<sigma>, s))
   | _ \<Rightarrow> None)"
| "coordinator_action t clk Register (\<sigma>, s) = (case sch_coordinator \<sigma> of
     Coord_Registering (e # rest) \<Rightarrow> Some (register_claim t (clk 0) e rest (\<sigma>, s))
   | Coord_Registering [] \<Rightarrow> Some (\<sigma>\<lparr>sch_coordinator := Coord_Polling\<rparr>, s)
   | _ \<Rightarrow> None)"
| "coordinator_action t clk (Submit_Job accepts) (\<sigma>, s) = (case sch_coordinator \<sigma> of
     Coord_Submitting item rest \<Rightarrow> Some (submit_item accepts item rest \<sigma>, s)
   | _ \<Rightarrow> None)"
| "coordinator_action t clk Withdraw (\<sigma>, s) = (case sch_coordinator \<sigma> of
     Coord_Withdrawing item \<Rightarrow> Some (withdraw_item t (clk 0) item (\<sigma>, s))
   | _ \<Rightarrow> None)"
| "coordinator_action t clk _ (\<sigma>, s) = None"

section \<open>The worker threads\<close>

fun settle_phase :: "tenant \<Rightarrow> clock \<Rightarrow> attempt_claim \<Rightarrow> token \<Rightarrow> job_phase \<Rightarrow> wf_store \<Rightarrow>
  (wf_store \<times> job_phase) option" where
  "settle_phase t clk c tok (Job_Outcome out) s = Some (settle_outcome t clk c tok out s)"
| "settle_phase t clk c tok (Job_Committing result) s = Some (commit_result t clk c result s)"
| "settle_phase t clk c tok _ s = None"

fun worker_action ::
  "tenant \<Rightarrow> clock \<Rightarrow> sched_action \<Rightarrow> scheduler \<times> wf_store \<Rightarrow> (scheduler \<times> wf_store) option" where
  "worker_action t clk (Begin_Node i) (\<sigma>, s) = (case job_of i \<sigma> of
     Some (item, Job_Submitted) \<Rightarrow> Some (set_phase i (begin_node t \<sigma> (act_claim item) s) \<sigma>, s)
   | _ \<Rightarrow> None)"
| "worker_action t clk (Adapter_Ends i out) (\<sigma>, s) = (case job_of i \<sigma> of
     Some (item, Job_Executing n) \<Rightarrow> Some (set_phase i (Job_Outcome out) \<sigma>, s)
   | _ \<Rightarrow> None)"
| "worker_action t clk (Settle_Node i) (\<sigma>, s) = (case job_of i \<sigma> of
     Some (item, ph) \<Rightarrow>
       map_option (enter_phase i \<sigma>) (settle_phase t clk (act_claim item) (token_of \<sigma> item) ph s)
   | _ \<Rightarrow> None)"
| "worker_action t clk (Leave_Node i) (\<sigma>, s) = (case job_of i \<sigma> of
     Some (item, Job_Settled settled) \<Rightarrow>
       Some (set_phase i Job_Finishing \<sigma>, leave_node t (clk 0) (act_claim item) settled s)
   | _ \<Rightarrow> None)"
| "worker_action t clk (Finish_Node i) (\<sigma>, s) = (case job_of i \<sigma> of
     Some (item, Job_Finishing) \<Rightarrow> Some (finish_active item \<sigma>, s)
   | _ \<Rightarrow> None)"
| "worker_action t clk _ (\<sigma>, s) = None"

section \<open>The threads of the callers\<close>

definition if_allowed :: "sched_error + scheduler \<Rightarrow> wf_store \<Rightarrow> (scheduler \<times> wf_store) option" where
  "if_allowed r s = (case r of Inl _ \<Rightarrow> None | Inr \<sigma> \<Rightarrow> Some (\<sigma>, s))"

fun caller_action ::
  "tenant \<Rightarrow> clock \<Rightarrow> sched_action \<Rightarrow> scheduler \<times> wf_store \<Rightarrow> (scheduler \<times> wf_store) option" where
  "caller_action t clk Start (\<sigma>, s) = if_allowed (start_scheduler \<sigma>) s"
| "caller_action t clk (Pause_Run rid) (\<sigma>, s) = Some (\<sigma>, fst (pause_run t rid (clk 0) s))"
| "caller_action t clk (Resume_Run rid) (\<sigma>, s) = Some (\<sigma>, fst (resume_run t rid (clk 0) s))"
| "caller_action t clk (Resume_After_Boundary rid) (\<sigma>, s) = if_allowed (resume_after_boundary rid \<sigma>) s"
| "caller_action t clk Check_Boundary (\<sigma>, s) = (case sch_checking \<sigma> of
     [] \<Rightarrow> None | rid # _ \<Rightarrow> Some (check_boundary rid \<sigma>, s))"
| "caller_action t clk Resume_Boundary (\<sigma>, s) = (case sch_resuming \<sigma> of
     [] \<Rightarrow> None | (rid, has_active) # _ \<Rightarrow> Some (resume_boundary t (clk 0) rid has_active (\<sigma>, s)))"
| "caller_action t clk (Cancel_Tokens rid) (\<sigma>, s) = Some (cancel_tokens rid \<sigma>, s)"
| "caller_action t clk Cancel_Run (\<sigma>, s) = (case sch_cancelling \<sigma> of
     [] \<Rightarrow> None | rid # _ \<Rightarrow> Some (cancel_run t rid (clk 0) (\<sigma>, s)))"
| "caller_action t clk Close (\<sigma>, s) = Some (close_scheduler \<sigma>, s)"
| "caller_action t clk Close_Item (\<sigma>, s) = (case sch_closer \<sigma> of
     Close_Pausing (item # rest) \<Rightarrow> Some (close_item t (clk 0) item rest (\<sigma>, s))
   | Close_Pausing [] \<Rightarrow> Some (\<sigma>\<lparr>sch_closer := Close_Joining\<rparr>, s)
   | _ \<Rightarrow> None)"
| "caller_action t clk (Shutdown_Executor dropped) (\<sigma>, s) =
     (if sch_closer \<sigma> = Close_Joining \<and> (sch_started \<sigma> \<longrightarrow> sch_coordinator \<sigma> = Coord_Stopped)
      then Some (shutdown_executor dropped \<sigma>, s) else None)"
| "caller_action t clk Close_Remaining (\<sigma>, s) =
     (if sch_closer \<sigma> = Close_Waiting \<and> sch_jobs \<sigma> = [] then Some (close_remaining \<sigma>, s) else None)"
| "caller_action t clk Close_Abandon (\<sigma>, s) = (case sch_closer \<sigma> of
     Close_Abandoning (item # rest) \<Rightarrow> Some (close_abandon t (clk 0) item rest (\<sigma>, s))
   | Close_Abandoning [] \<Rightarrow> Some (\<sigma>\<lparr>sch_closer := Close_Done\<rparr>, s)
   | _ \<Rightarrow> None)"
| "caller_action t clk _ (\<sigma>, s) = None"

fun exec_action ::
  "tenant \<Rightarrow> clock \<Rightarrow> sched_action \<Rightarrow> scheduler \<times> wf_store \<Rightarrow> (scheduler \<times> wf_store) option" where
  "exec_action t clk (Other_Client u c) (\<sigma>, s) = (case exec_call u clk c s of
     Inl _ \<Rightarrow> Some (\<sigma>, s) | Inr s' \<Rightarrow> Some (\<sigma>, s'))"
| "exec_action t clk a st = (case coordinator_action t clk a st of
     Some st' \<Rightarrow> Some st'
   | None \<Rightarrow> (case worker_action t clk a st of
       Some st' \<Rightarrow> Some st'
     | None \<Rightarrow> caller_action t clk a st))"

section \<open>Steps\<close>

type_synonym sched_state = "instant \<times> scheduler \<times> wf_store"

inductive sched_step :: "tenant \<Rightarrow> sched_state \<Rightarrow> sched_state \<Rightarrow> bool" for t where
  action: "exec_action t clk a st = Some st' \<Longrightarrow> monotone_clock clk \<Longrightarrow> l \<le> clk 0 \<Longrightarrow> clk 4 \<le> l' \<Longrightarrow>
    sched_step t (l, st) (l', st')"

inductive_cases sched_stepE: "sched_step t (l, st) (l', st')"

text \<open>A scheduler starts on a store that any history of calls may have left.\<close>

definition sched_initial :: "sched_state \<Rightarrow> bool" where
  "sched_initial x \<longleftrightarrow> (case x of (l, \<sigma>, s) \<Rightarrow> reachable (l, s)
     \<and> (\<exists>adapters max_workers lease heartbeat poll owner autostart mono_now.
          new_scheduler adapters max_workers lease heartbeat poll owner autostart mono_now = Inr \<sigma>))"

text \<open>A concrete run of actions, each with the time at which it happens.\<close>

fun run_actions ::
  "tenant \<Rightarrow> (instant \<times> sched_action) list \<Rightarrow> scheduler \<times> wf_store \<Rightarrow> (scheduler \<times> wf_store) option" where
  "run_actions t [] st = Some st"
| "run_actions t ((now, a) # rest) st = (case exec_action t (\<lambda>i. now) a st of
     None \<Rightarrow> None | Some st' \<Rightarrow> run_actions t rest st')"

end
