(* ===== verification/Workflow_Attempts.thy ===== *)
theory Workflow_Attempts
  imports Workflow_Facts
begin

text \<open>
  How an attempt row develops: no call deletes it, reopens it, or changes the fields its claim
  is checked against, and only a renewal while the lease lives moves its lease. A claim that
  can no longer be used therefore stays unusable.
\<close>

section \<open>One row\<close>

definition att_next :: "instant \<Rightarrow> workflow_attempt \<Rightarrow> workflow_attempt \<Rightarrow> bool" where
  "att_next l a a' \<longleftrightarrow> att_node a' = att_node a \<and> att_number a' = att_number a
     \<and> (att_status a' = Attempt_Running \<longrightarrow> att_status a = Attempt_Running
          \<and> att_run a' = att_run a \<and> att_lease_owner a' = att_lease_owner a
          \<and> att_lease_fence a' = att_lease_fence a
          \<and> att_cancellation_revision a' = att_cancellation_revision a
          \<and> att_plan_revision a' = att_plan_revision a
          \<and> (att_lease_until a' = att_lease_until a \<or> lease_live l a))"

definition attempts_evolve :: "tenant \<Rightarrow> instant \<Rightarrow> wf_store \<Rightarrow> wf_store \<Rightarrow> bool" where
  "attempts_evolve t l s s' \<longleftrightarrow>
     (\<forall>a\<in>set (attempts_of t s). \<exists>a'\<in>set (attempts_of t s'). att_next l a a')"

lemma lease_live_mono: "lease_live l' a \<Longrightarrow> l \<le> l' \<Longrightarrow> lease_live l a"
  by (auto simp: lease_live_def split: option.splits)

lemma att_next_refl [simp]: "att_next l a a"
  by (simp add: att_next_def)

lemma att_next_trans: "att_next l a b \<Longrightarrow> att_next l b c \<Longrightarrow> att_next l a c"
  by (auto simp: att_next_def lease_live_def split: option.splits)

lemma att_next_mono: "att_next l' a a' \<Longrightarrow> l \<le> l' \<Longrightarrow> att_next l a a'"
  using lease_live_mono by (auto simp: att_next_def)

lemma att_next_closed:
  "att_node a' = att_node a \<Longrightarrow> att_number a' = att_number a \<Longrightarrow> att_status a' \<noteq> Attempt_Running \<Longrightarrow>
   att_next l a a'"
  by (simp add: att_next_def)

lemma attempts_evolve_refl [simp]: "attempts_evolve t l s s"
  by (auto simp: attempts_evolve_def intro: att_next_refl)

lemma attempts_evolve_trans:
  assumes 1: "attempts_evolve t l s s'" and 2: "attempts_evolve t l s' s''"
  shows "attempts_evolve t l s s''"
  unfolding attempts_evolve_def
proof
  fix a assume "a \<in> set (attempts_of t s)"
  then obtain b where "b \<in> set (attempts_of t s')" "att_next l a b"
    using 1 unfolding attempts_evolve_def by blast
  moreover then obtain c where "c \<in> set (attempts_of t s'')" "att_next l b c"
    using 2 unfolding attempts_evolve_def by blast
  ultimately show "\<exists>c\<in>set (attempts_of t s''). att_next l a c"
    using att_next_trans by blast
qed

lemma attempts_evolve_mono: "attempts_evolve t l' s s' \<Longrightarrow> l \<le> l' \<Longrightarrow> attempts_evolve t l s s'"
  unfolding attempts_evolve_def using att_next_mono by blast

section \<open>Statements\<close>

lemma attempts_evolve_other [simp]:
  shows "attempts_evolve t l s0 (update_runs u p f s) = attempts_evolve t l s0 s"
    and "attempts_evolve t l s0 (update_nodes u q g s) = attempts_evolve t l s0 s"
    and "attempts_evolve t l s0 (update_instructions u w k s) = attempts_evolve t l s0 s"
    and "attempts_evolve t l s0 (s\<lparr>runs_t := a\<rparr>) = attempts_evolve t l s0 s"
    and "attempts_evolve t l s0 (s\<lparr>revisions_t := b\<rparr>) = attempts_evolve t l s0 s"
    and "attempts_evolve t l s0 (s\<lparr>nodes_t := c\<rparr>) = attempts_evolve t l s0 s"
    and "attempts_evolve t l s0 (s\<lparr>edges_t := d\<rparr>) = attempts_evolve t l s0 s"
    and "attempts_evolve t l s0 (s\<lparr>instructions_t := i\<rparr>) = attempts_evolve t l s0 s"
  by (simp_all add: attempts_evolve_def)

lemma attempts_evolve_update:
  assumes "attempts_evolve t l s0 s" and "\<And>a. p a \<Longrightarrow> att_next l a (f a)"
  shows "attempts_evolve t l s0 (update_attempts u p f s)"
proof (cases "t = u")
  case True
  have "attempts_evolve t l s (update_attempts u p f s)"
    unfolding attempts_evolve_def
  proof
    fix a assume "a \<in> set (attempts_of t s)"
    then have "upd_row p f a \<in> set (attempts_of t (update_attempts u p f s))"
      by (simp add: True)
    moreover have "att_next l a (upd_row p f a)"
      by (cases "p a") (simp_all add: assms(2))
    ultimately show "\<exists>a'\<in>set (attempts_of t (update_attempts u p f s)). att_next l a a'" ..
  qed
  then show ?thesis by (rule attempts_evolve_trans[OF assms(1)])
next
  case False
  then show ?thesis
    using assms(1) by (simp add: attempts_evolve_def)
qed

lemma attempts_evolve_insert [simp]:
  assumes "attempts_evolve t l s0 s" and "rows t tb = attempts_of t s"
  shows "attempts_evolve t l s0 (s\<lparr>attempts_t := insert_rows u as tb\<rparr>)"
proof -
  have "set (attempts_of t s) \<subseteq> set (attempts_of t (s\<lparr>attempts_t := insert_rows u as tb\<rparr>))"
    unfolding assms(2)[symmetric] by auto
  then have "attempts_evolve t l s (s\<lparr>attempts_t := insert_rows u as tb\<rparr>)"
    unfolding attempts_evolve_def using att_next_refl by blast
  then show ?thesis by (rule attempts_evolve_trans[OF assms(1)])
qed

lemma attempts_evolve_fold:
  assumes "\<And>x s. attempts_evolve t l s (f x s)"
  shows "attempts_evolve t l s (fold f xs s)"
proof (induction xs arbitrary: s)
  case (Cons x xs)
  show ?case
    using attempts_evolve_trans[OF assms Cons.IH] by simp
qed simp

lemma attempts_evolve_foldM:
  assumes "foldM f xs s = Inr s'" and "\<And>x s s'. f x s = Inr s' \<Longrightarrow> attempts_evolve t l (g s) (g s')"
  shows "attempts_evolve t l (g s) (g s')"
  using assms(1) by (induction xs arbitrary: s)
    (auto simp: result_simps intro: attempts_evolve_trans[OF assms(2)])

lemma close_attempt_next:
  "st \<noteq> Attempt_Running \<Longrightarrow> att_next l a ((close_attempt st now a)\<lparr>att_error_code := e\<rparr>)"
  "st \<noteq> Attempt_Running \<Longrightarrow> att_next l a ((close_attempt st now a)\<lparr>att_result := r\<rparr>)"
  "st \<noteq> Attempt_Running \<Longrightarrow>
     att_next l a ((close_attempt st now a)\<lparr>att_result := r, att_evidence_refs := ev\<rparr>)"
  by (simp_all add: att_next_closed close_attempt_def)

lemma attempts_evolve_close [simp]:
  assumes "attempts_evolve t l s0 s" and "st \<noteq> Attempt_Running"
  shows "attempts_evolve t l s0 (update_attempts u p (\<lambda>a. (close_attempt st now a)\<lparr>att_error_code := e\<rparr>) s)"
    and "attempts_evolve t l s0 (update_attempts u p (\<lambda>a. (close_attempt st now a)\<lparr>att_result := r\<rparr>) s)"
    and "attempts_evolve t l s0 (update_attempts u p
      (\<lambda>a. (close_attempt st now a)\<lparr>att_result := r, att_evidence_refs := ev\<rparr>) s)"
  using assms by (auto intro!: attempts_evolve_update close_attempt_next)

lemma attempts_evolve_helpers [simp]:
  assumes "attempts_evolve t l s0 s"
  shows "attempts_evolve t l s0 (settle_attempt u c Attempt_Failed e now tm s)"
    and "attempts_evolve t l s0 (cancel_running_attempts u rid now ex s)"
    and "attempts_evolve t l s0 (park_attempt u c j now tm s)"
    and "attempts_evolve t l s0 (settle_pause u rid now s)"
    and "attempts_evolve t l s0 (requeue_run u rid now s)"
    and "attempts_evolve t l s0 (promote_target u rid v now i s)"
    and "attempts_evolve t l s0 (expire_run u now r s)"
  using assms
  by (auto simp: settle_attempt_def cancel_running_attempts_def park_attempt_def settle_pause_def
      requeue_run_def promote_target_def expire_run_def Let_def)

lemma attempts_evolve_sweeps [simp]:
  shows "attempts_evolve t l s (expire_overdue u now s)"
    and "attempts_evolve t l s (promote_dependents u rid v now s)"
  by (auto simp: expire_overdue_def promote_dependents_def intro!: attempts_evolve_fold)

lemma attempts_evolve_sweeps_from [simp]:
  assumes "attempts_evolve t l s0 s"
  shows "attempts_evolve t l s0 (expire_overdue u now s)"
    and "attempts_evolve t l s0 (promote_dependents u rid v now s)"
    and "attempts_evolve t l s0 (release_node u n r e now s)"
    and "attempts_evolve t l s0 (settle_pause u rid now s)"
  using attempts_evolve_trans[OF assms attempts_evolve_sweeps(1)]
    attempts_evolve_trans[OF assms attempts_evolve_sweeps(2)]
  by (simp_all add: release_node_def settle_pause_def Let_def assms)

lemma reclaim_expired_evolves:
  "reclaim_expired u now s = Inr s' \<Longrightarrow> attempts_evolve t l s s'"
  unfolding reclaim_expired_def
  by (drule attempts_evolve_foldM[where g = id and t = t and l = l])
    (auto simp: reclaim_attempt_def result_simps)

section \<open>Calls\<close>

lemma claim_ready_evolves:
  assumes "claim_ready u worker until limit kinds reserve now s = Inr (s', cs)"
  shows "attempts_evolve t l s s'"
proof -
  obtain s1 where s1: "reclaim_expired u now (expire_overdue u now s) = Inr s1"
    and fold: "foldM (claim_one u worker until now) (select_claims u now limit kinds reserve s1) (s1, [])
       = Inr (s', cs)"
    by (rule claim_ready_Inr[OF assms])
  have "attempts_evolve t l s s1"
    using reclaim_expired_evolves[OF s1] attempts_evolve_sweeps(1) attempts_evolve_trans by blast
  moreover have "attempts_evolve t l (fst (s1, [] :: attempt_claim list)) (fst (s', cs))"
    by (rule attempts_evolve_foldM[OF fold, where g = fst])
      (auto simp: claim_one_def insert_attempt_def Let_def result_simps split: prod.splits if_splits)
  ultimately show ?thesis using attempts_evolve_trans by simp
qed

lemma settle_run_evolves:
  "settle_run u rid now s = Inr s' \<Longrightarrow> attempts_evolve t l s0 s' = attempts_evolve t l s0 s"
  by (erule settle_run_Inr) simp

lemma fail_evolves: "fail u c e clk s = Inr (s', sn) \<Longrightarrow> attempts_evolve t l s s'"
  by (erule fail_Inr) simp

lemma renew_evolves:
  assumes "renew u c until clk s = Inr (s', ok)" "l \<le> clk 1"
  shows "attempts_evolve t l s s'"
proof -
  have "att_next l a (a\<lparr>att_lease_until := Some until\<rparr>)" if "live_claim_predicates c (clk 1) a" for a
    using that lease_live_mono[OF _ assms(2)] by (simp add: att_next_def live_claim_predicates_def)
  then show ?thesis
    unfolding renew_Inr(1)[OF assms(1)] by (intro attempts_evolve_update) simp_all
qed

lemma claim_evolves:
  shows "complete u c result evidence summary clk s = Inr (s', sn) \<Longrightarrow> attempts_evolve t l s s'"
    and "retry u c available_at e clk s = Inr (s', sn) \<Longrightarrow> attempts_evolve t l s s'"
    and "defer_claim u c available_at result clk s = Inr (s', sn) \<Longrightarrow> attempts_evolve t l s s'"
    and "wait_for_approval u c result clk s = Inr (s', sn) \<Longrightarrow> attempts_evolve t l s s'"
    and "wait_for_input u c result clk s = Inr (s', sn) \<Longrightarrow> attempts_evolve t l s s'"
    and "abandon u c now s = Inr (s', ok) \<Longrightarrow> attempts_evolve t l s s'"
  by (auto simp: complete_def retry_def defer_claim_def wait_for_approval_def wait_for_input_def
      abandon_def Let_def result_simps settle_run_evolves split: option.splits if_splits
      dest!: with_snapshot_Inr intro: fail_evolves)

lemma steering_evolves:
  shows "request_pause u rid now s = Inr (s', sn) \<Longrightarrow> attempts_evolve t l s s'"
    and "resume u rid now s = Inr (s', sn) \<Longrightarrow> attempts_evolve t l s s'"
    and "cancel u rid now s = Inr (s', sn) \<Longrightarrow> attempts_evolve t l s s'"
  by (auto simp: request_pause_def resume_def cancel_def Let_def result_simps map_sum_Pair_Inr
      split: if_splits dest!: with_snapshot_Inr)

lemma create_workflow_evolves:
  assumes "create_workflow u run nodes es s = Inr (s', sn)"
  shows "attempts_evolve t l s s'"
  using assms
proof (cases rule: create_workflow_cases)
  case (new s1 s2)
  then show ?thesis
    using insert_run_Inr[OF new(5)] insert_revision_Inr[OF new(6)] insert_plan_Inr(1)[OF new(7)] by simp
qed simp

lemma append_plan_evolves:
  assumes "append_plan u rid v reason i nodes es now s = Inr (s', sn)"
  shows "attempts_evolve t l s s'"
  using assms unfolding append_plan_def Let_def insert_plan_def insert_revision_def insert_nodes_def
    insert_edges_def
  by (auto simp: result_simps split: option.splits dest!: with_snapshot_Inr)

lemma budget_evolves:
  shows "reserve_budget u rid rounds tools now s = Inr (s', sn) \<Longrightarrow> attempts_evolve t l s s'"
    and "upgrade_budget u rid budget now s = Inr (s', sn') \<Longrightarrow> attempts_evolve t l s s'"
  by (erule reserve_budget_cases, simp add: update_run_checked_Inr)
    (erule upgrade_budget_cases, simp_all add: update_run_checked_Inr)

lemma add_instruction_evolves:
  assumes "add_instruction u new_id rid text v key now s = Inr (s', i)"
  shows "attempts_evolve t l s s'"
  using assms unfolding add_instruction_def persist_instruction_def insert_instruction_def Let_def
  by (auto simp: result_simps split: option.splits)

lemma exec_call_evolves:
  assumes "exec_call u clk c s = Inr s'" and "l \<le> clk 0" "monotone_clock clk"
  shows "attempts_evolve t l s s'"
proof -
  have "l \<le> clk 1"
    using assms(2) monotone_clockD[OF assms(3), of 0 1] by simp
  then show ?thesis
    using assms(1) by (cases c) (auto simp: keep_store_Inr
      intro: claim_evolves steering_evolves budget_evolves create_workflow_evolves
        append_plan_evolves claim_ready_evolves renew_evolves fail_evolves add_instruction_evolves)
qed

lemma wf_step_evolves: "wf_step (l, s) (l', s') \<Longrightarrow> attempts_evolve t l s s'"
  by (erule wf_step.cases) (auto intro: exec_call_evolves)

section \<open>Claims\<close>

text \<open>
  A claim that was handed out: its attempt is there, and while it runs it is the one the claim
  describes. A claim that is spent: its attempt is over, or its lease has ended.
\<close>

definition same_attempt_key :: "attempt_claim \<Rightarrow> workflow_attempt \<Rightarrow> bool" where
  "same_attempt_key c a \<longleftrightarrow> att_node a = claim_node c \<and> att_number a = claim_number c"

definition issued :: "tenant \<Rightarrow> attempt_claim \<Rightarrow> wf_store \<Rightarrow> bool" where
  "issued t c s \<longleftrightarrow> (\<exists>a\<in>set (attempts_of t s). same_attempt_key c a
     \<and> (att_status a = Attempt_Running \<longrightarrow> claim_predicates c a))"

definition spent :: "tenant \<Rightarrow> attempt_claim \<Rightarrow> instant \<Rightarrow> wf_store \<Rightarrow> bool" where
  "spent t c l s \<longleftrightarrow> (\<exists>a\<in>set (attempts_of t s). same_attempt_key c a
     \<and> (att_status a = Attempt_Running \<longrightarrow> \<not> lease_live l a))"

lemma issued_evolves: "attempts_evolve t l s s' \<Longrightarrow> issued t c s \<Longrightarrow> issued t c s'"
  unfolding issued_def attempts_evolve_def
  by (fastforce simp: att_next_def same_attempt_key_def claim_predicates_def)

lemma spent_evolves:
  assumes "attempts_evolve t l s s'" "l \<le> l'" "spent t c l s"
  shows "spent t c l' s'"
proof -
  obtain a where a: "a \<in> set (attempts_of t s)" "same_attempt_key c a"
      "att_status a = Attempt_Running \<longrightarrow> \<not> lease_live l a"
    using assms(3) unfolding spent_def by blast
  obtain b where b: "b \<in> set (attempts_of t s')" "att_next l a b"
    using assms(1) a(1) unfolding attempts_evolve_def by blast
  have "\<not> lease_live l' b" if "att_status b = Attempt_Running"
    using that b(2) a(3) assms(2) by (auto simp: att_next_def lease_live_def split: option.splits)
  then show ?thesis
    using b a(2) unfolding spent_def same_attempt_key_def att_next_def by auto
qed

lemma spent_fenced:
  assumes "spent t c l s" and "wf_inv t l s" and "l \<le> now"
  shows "require_claim t c now s \<noteq> Inr n"
proof
  assume r: "require_claim t c now s = Inr n"
  obtain b where b: "b \<in> set (attempts_of t s)" "claim_predicates c b" "lease_live now b"
    using require_claimD[OF r assms(2)] by metis
  obtain a where a: "a \<in> set (attempts_of t s)" "same_attempt_key c a"
      "att_status a = Attempt_Running \<longrightarrow> \<not> lease_live l a"
    using assms(1) unfolding spent_def by blast
  have "a = b"
    using unique_attempt[OF wf_invD(1)[OF assms(2)] a(1) b(1)] a(2) b(2)
    by (simp add: same_attempt_key_def claim_predicates_def)
  then show False
    using a(3) b(2,3) lease_live_mono[OF _ assms(3)] by (simp add: claim_predicates_def)
qed

end
