(* ===== verification/Scheduler_Invariants.thy ===== *)
theory Scheduler_Invariants
  imports Scheduler_Machine Workflow_Attempts
begin

text \<open>
  Every block of the scheduler is at most one committed call of the repository, so the
  scheduler refines the repository's machine. Its own invariant bounds the items in the pool,
  keeps them apart, keeps the slot a child run needs, and says that each claim it holds was
  issued by the store.
\<close>

section \<open>Blocks as calls of the repository\<close>

lemma wf_step_call:
  "exec_call t clk c s = Inr s' \<Longrightarrow> monotone_clock clk \<Longrightarrow> l \<le> clk 0 \<Longrightarrow> clk 2 \<le> l' \<Longrightarrow> wf_step (l, s) (l', s')"
  by (rule wf_step.commit)

lemma wf_step_unit_of_work:
  assumes "exec_call t clk c s = keep_store r" and "monotone_clock clk" "l \<le> clk 0" "clk 2 \<le> l'"
  shows "wf_step (l, s) (l', fst (in_unit_of_work r s))"
proof (cases r)
  case (Inl e)
  then show ?thesis
    using assms monotone_clockD[OF assms(2), of 0 2] by (simp add: in_unit_of_work_def wf_step.rollback)
next
  case (Inr x)
  then have "exec_call t clk c s = Inr (fst x)"
    using assms(1) by (simp add: keep_store_def)
  then show ?thesis
    using wf_step_call[OF _ assms(2-4)] Inr by (cases x) (simp add: in_unit_of_work_def)
qed

lemma fst_try_settle [simp]: "fst (try_settle r s) = fst (in_unit_of_work r s)"
  by (simp add: try_settle_def split: prod.splits)

lemma wf_step_abandon:
  assumes "l \<le> now" "now \<le> l'"
  shows "wf_step (l, s) (l', fst (abandon_claim t c now s))"
proof (cases "abandon t c now s")
  case (Inr x)
  then show ?thesis
    using assms wf_step_call[of t "\<lambda>i. now" "Abandon c" s "fst x" l l']
    by (cases x) (auto simp: abandon_claim_def keep_store_def wf_step.rollback split: bool.split)
qed (use assms in \<open>simp add: abandon_claim_def wf_step.rollback\<close>)

named_theorems block_steps \<open>each block is a step of the repository\<close>

text \<open>The readings of the clock within one block lie between two instants.\<close>

definition block_time :: "clock \<Rightarrow> instant \<Rightarrow> instant \<Rightarrow> bool" where
  "block_time clk l l' \<longleftrightarrow> monotone_clock clk \<and> l \<le> clk 0 \<and> clk 4 \<le> l'"

lemma block_timeD:
  assumes "block_time clk l l'"
  shows "monotone_clock clk" "l \<le> clk 0" "clk 0 \<le> l'" "l \<le> l'" "clk 2 \<le> l'" "l \<le> clk 1" "clk 3 \<le> l'"
proof -
  show m: "monotone_clock clk" and "l \<le> clk 0"
    using assms by (simp_all add: block_time_def)
  show "clk 0 \<le> l'" "l \<le> l'" "clk 2 \<le> l'" "l \<le> clk 1" "clk 3 \<le> l'"
    using assms monotone_clockD[OF m, of 0 4] monotone_clockD[OF m, of 0 1]
      monotone_clockD[OF m, of 2 4] monotone_clockD[OF m, of 3 4] by (simp_all add: block_time_def)
qed

lemma wf_step_same [block_steps]: "block_time clk l l' \<Longrightarrow> wf_step (l, s) (l', s)"
  by (rule wf_step.rollback) (rule block_timeD)

lemma wf_step_first:
  "block_time clk l l' \<Longrightarrow> exec_call t clk c s = keep_store r \<Longrightarrow>
   wf_step (l, s) (l', fst (in_unit_of_work r s))"
  using wf_step_unit_of_work block_timeD by metis

lemma wf_step_now:
  assumes "block_time clk l l'" "exec_call t (\<lambda>i. clk 0) c s = keep_store r"
  shows "wf_step (l, s) (l', fst (in_unit_of_work r s))"
  using block_timeD[OF assms(1)] by (intro wf_step_unit_of_work[OF assms(2)]) simp_all

lemma wf_step_later:
  assumes "block_time clk l l'" "exec_call t (clock_from 1 clk) c s = keep_store r"
  shows "wf_step (l, s) (l', fst (in_unit_of_work r s))"
  using block_timeD[OF assms(1)]
  by (intro wf_step_unit_of_work[OF assms(2)] monotone_clock_from) (simp_all add: numeral_3_eq_3 numeral_2_eq_2)

lemma wf_step_commit_later:
  "block_time clk l l' \<Longrightarrow> exec_call t (clock_from 1 clk) c s = Inr s' \<Longrightarrow> wf_step (l, s) (l', s')"
  using wf_step_later[of clk l l' t c s "Inr (s', ())"] by (simp add: keep_store_def in_unit_of_work_def)

lemma heartbeat_step [block_steps]:
  assumes "block_time clk l l'"
  shows "wf_step (l, s) (l', fst (heartbeat_item t clk beat \<sigma> item s))"
proof -
  have "wf_step (l, s) (l', s')"
    if "renew t (act_claim item) (clk 0 + sch_lease_duration \<sigma>) (clock_from 1 clk) s = Inr (s', True)" for s'
    by (rule wf_step_commit_later[OF assms, of t "Renew (act_claim item) (clk 0 + sch_lease_duration \<sigma>)"])
      (use that in \<open>simp add: keep_store_def\<close>)
  then show ?thesis
    by (auto simp: heartbeat_item_def wf_step_same[OF assms] split: sum.splits bool.splits)
qed

lemma heartbeat_block [block_steps]:
  "block_time clk l l' \<Longrightarrow> wf_step (l, s) (l', snd (heartbeat t clk beat item rest (\<sigma>, s)))"
  using heartbeat_step[of clk l l' s t beat \<sigma> item] by (auto simp: heartbeat_def Let_def split: prod.splits)

lemma claim_available_step [block_steps]:
  assumes "block_time clk l l'"
  shows "wf_step (l, s) (l', snd (claim_available t clk capacity kinds reserve (\<sigma>, s)))"
proof -
  have "wf_step (l, s) (l', s')"
    if "claim_ready t (sch_owner \<sigma>) (clk 0 + sch_lease_duration \<sigma>) capacity kinds reserve (clk 1) s = Inr (s', cs)"
    for s' cs
    by (rule wf_step_commit_later[OF assms, of t
          "Claim_Ready (sch_owner \<sigma>) (clk 0 + sch_lease_duration \<sigma>) capacity kinds reserve"])
      (use that in \<open>simp add: keep_store_def\<close>)
  then show ?thesis
    by (auto simp: claim_available_def wf_step_same[OF assms] split: sum.splits)
qed

lemma abandon_step [block_steps]:
  "block_time clk l l' \<Longrightarrow> wf_step (l, s) (l', fst (abandon_claim t c (clk 0) s))"
  using wf_step_abandon block_timeD(2,3) by blast

lemma register_step [block_steps]:
  "block_time clk l l' \<Longrightarrow> wf_step (l, s) (l', snd (register_claim t (clk 0) e rest (\<sigma>, s)))"
  by (simp add: register_claim_def Let_def abandon_step wf_step_same)

lemma withdraw_step [block_steps]:
  "block_time clk l l' \<Longrightarrow> wf_step (l, s) (l', snd (withdraw_item t (clk 0) item (\<sigma>, s)))"
  by (simp add: withdraw_item_def abandon_step)

lemma settle_step [block_steps]:
  assumes "block_time clk l l'"
  shows "wf_step (l, s) (l', fst (settle_outcome t clk c tok out s))"
proof (cases out)
  case (Raised_Retryable e)
  have "wf_step (l, s) (l', fst (in_unit_of_work (retry t c (clk 0 + d) e (clock_from 1 clk) s) s))" for d
    by (rule wf_step_later[OF assms, where c = "Retry c (clk 0 + d) e"]) simp
  then show ?thesis
    by (auto simp: Raised_Retryable abandon_step[OF assms] wf_step_same[OF assms] split: option.splits)
next
  case (Raised_Waiting_For_Approval r)
  show ?thesis unfolding Raised_Waiting_For_Approval settle_outcome.simps fst_try_settle
    by (rule wf_step_first[OF assms, where c = "Wait_Approval c r"]) simp
next
  case (Raised_Waiting_For_Input r)
  show ?thesis unfolding Raised_Waiting_For_Input settle_outcome.simps fst_try_settle
    by (rule wf_step_first[OF assms, where c = "Wait_Input c r"]) simp
next
  case Raised_Cancelled
  show ?thesis unfolding Raised_Cancelled settle_outcome.simps fst_try_settle
    by (rule wf_step_now[OF assms, where c = "Cancel (claim_run c)"]) simp
next
  case (Raised_Error e)
  have "wf_step (l, s) (l', fst (in_unit_of_work (fail t c (take 128 e) clk s) s))"
    by (rule wf_step_first[OF assms, where c = "Fail c (take 128 e)"]) simp
  then show ?thesis by (simp add: Raised_Error abandon_step[OF assms])
qed (use abandon_step[OF assms, of s t c] in \<open>auto simp: wf_step_same[OF assms] split: prod.splits\<close>)

lemma commit_step [block_steps]:
  assumes "block_time clk l l'"
  shows "wf_step (l, s) (l', fst (commit_result t clk c result s))"
proof -
  define r where "r = (case res_available_at result of
      None \<Rightarrow> complete t c (res_output result) (res_evidence_refs result) (res_public_summary result) clk s
    | Some available_at \<Rightarrow> defer_claim t c available_at (res_output result) clk s)"
  have "wf_step (l, s) (l', fst (in_unit_of_work r s))"
  proof (cases "res_available_at result")
    case None
    show ?thesis
      by (rule wf_step_first[OF assms, where c = "Complete c (res_output result) (res_evidence_refs result)
        (res_public_summary result)"]) (simp add: r_def None)
  next
    case (Some u)
    show ?thesis
      by (rule wf_step_first[OF assms, where c = "Defer c u (res_output result)"]) (simp add: r_def Some)
  qed
  then show ?thesis
    unfolding commit_result_def r_def[symmetric] by (auto split: prod.splits sum.splits)
qed

lemma settle_phase_step:
  "block_time clk l l' \<Longrightarrow> settle_phase t clk c tok ph s = Some r \<Longrightarrow> wf_step (l, s) (l', fst r)"
  by (cases ph) (auto simp: block_steps)

lemma leave_step [block_steps]:
  "block_time clk l l' \<Longrightarrow> wf_step (l, s) (l', leave_node t (clk 0) c settled s)"
  by (simp add: leave_node_def abandon_step wf_step_same)

lemma pause_step [block_steps]: "block_time clk l l' \<Longrightarrow> wf_step (l, s) (l', fst (pause_run t rid (clk 0) s))"
  unfolding pause_run_def by (rule wf_step_now[where c = "Request_Pause rid"]) simp_all

lemma resume_step [block_steps]: "block_time clk l l' \<Longrightarrow> wf_step (l, s) (l', fst (resume_run t rid (clk 0) s))"
  unfolding resume_run_def by (rule wf_step_now[where c = "Resume rid"]) simp_all

lemma boundary_step [block_steps]:
  "block_time clk l l' \<Longrightarrow> wf_step (l, s) (l', snd (resume_boundary t (clk 0) rid has_active (\<sigma>, s)))"
  using resume_step[of clk l l' s t rid]
  by (auto simp: resume_boundary_def boundary_resolved_def resume_run_def Let_def wf_step_same
      split: sum.splits option.splits prod.splits)

lemma cancel_step [block_steps]:
  "block_time clk l l' \<Longrightarrow> wf_step (l, s) (l', snd (cancel_run t rid (clk 0) (\<sigma>, s)))"
  unfolding cancel_run_def by simp (rule wf_step_now[where c = "Cancel rid"], simp_all)

lemma close_item_step [block_steps]:
  "block_time clk l l' \<Longrightarrow> wf_step (l, s) (l', snd (close_item t (clk 0) item rest (\<sigma>, s)))"
  by (simp add: close_item_def pause_step)

lemma close_abandon_step [block_steps]:
  "block_time clk l l' \<Longrightarrow> wf_step (l, s) (l', snd (close_abandon t (clk 0) item rest (\<sigma>, s)))"
  by (simp add: close_abandon_def abandon_step)

section \<open>The simulation\<close>

lemma coordinator_sim:
  "block_time clk l l' \<Longrightarrow> coordinator_action t clk a (\<sigma>, s) = Some (\<sigma>', s') \<Longrightarrow> wf_step (l, s) (l', s')"
  by (cases a) (auto simp: wf_step_same split: if_splits coordinator.splits list.splits
      dest!: arg_cong[where f = snd and x = "_ :: scheduler \<times> wf_store"] intro: block_steps)

lemma worker_sim:
  "block_time clk l l' \<Longrightarrow> worker_action t clk a (\<sigma>, s) = Some (\<sigma>', s') \<Longrightarrow> wf_step (l, s) (l', s')"
  by (cases a) (auto simp: wf_step_same enter_phase_def split: option.splits prod.splits job_phase.splits
      intro: block_steps dest: settle_phase_step)

lemma caller_sim:
  "block_time clk l l' \<Longrightarrow> caller_action t clk a (\<sigma>, s) = Some (\<sigma>', s') \<Longrightarrow> wf_step (l, s) (l', s')"
  by (cases a) (auto simp: wf_step_same if_allowed_def pause_step resume_step
      split: if_splits closer.splits list.splits sum.splits
      dest!: arg_cong[where f = snd and x = "_ :: scheduler \<times> wf_store"] intro: block_steps)

lemma exec_action_cases:
  assumes "exec_action t clk a (\<sigma>, s) = Some st"
  obtains (other) u c where "a = Other_Client u c"
      "st = (\<sigma>, case exec_call u clk c s of Inl e \<Rightarrow> s | Inr s' \<Rightarrow> s')"
    | (coordinator) "coordinator_action t clk a (\<sigma>, s) = Some st"
    | (worker) "worker_action t clk a (\<sigma>, s) = Some st"
    | (caller) "caller_action t clk a (\<sigma>, s) = Some st"
proof (cases "\<exists>u c. a = Other_Client u c")
  case True
  then show ?thesis
    using assms other by (auto split: sum.splits)
next
  case False
  then have "coordinator_action t clk a (\<sigma>, s) = Some st \<or> worker_action t clk a (\<sigma>, s) = Some st
      \<or> caller_action t clk a (\<sigma>, s) = Some st"
    using assms
    by (cases a; cases "coordinator_action t clk a (\<sigma>, s)"; cases "worker_action t clk a (\<sigma>, s)")
      (simp_all del: coordinator_action.simps worker_action.simps caller_action.simps)
  then show ?thesis using coordinator worker caller by blast
qed

lemma action_sim:
  assumes "block_time clk l l'" and "exec_action t clk a (\<sigma>, s) = Some (\<sigma>', s')"
  shows "wf_step (l, s) (l', s')"
  using assms(2)
proof (cases rule: exec_action_cases)
  case (other u c)
  then show ?thesis
    using wf_step_same[OF assms(1)] block_timeD[OF assms(1)]
    by (auto split: sum.splits intro: wf_step_call)
qed (rule coordinator_sim[OF assms(1)] worker_sim[OF assms(1)] caller_sim[OF assms(1)], assumption)+

definition sched_store :: "sched_state \<Rightarrow> instant \<times> wf_store" where
  "sched_store x = (fst x, snd (snd x))"

interpretation scheduled: simulation initial wf_step store_inv sched_initial "sched_step t" sched_store for t
proof
  show "\<exists>a. initial a \<and> wf_step\<^sup>*\<^sup>* a (sched_store x)" if "sched_initial x" for x
    using that by (auto simp: sched_initial_def sched_store_def reachable_def initial_def split: prod.splits)
  show "wf_step\<^sup>*\<^sup>* (sched_store x) (sched_store y)" if "sched_step t x y" for x y
    using that by cases (auto simp: sched_store_def block_time_def intro!: r_into_rtranclp action_sim)
qed

end
