(* ===== verification/Scheduler_Pool.thy ===== *)
theory Scheduler_Pool
  imports Scheduler_Invariants
begin

text \<open>
  The items in the scheduler's pool: never more than the workers, one for a node, and with a
  root item that may wait for a child run always a worker that no other root item occupies.
  The last is what the reservation in \<open>claim_ready\<close> is for: it needs the capacity and the
  flag the coordinator passes and the selection the repository makes.
\<close>

section \<open>The slot for a child run\<close>

definition sch_pending :: "scheduler \<Rightarrow> claimed list" where
  "sch_pending \<sigma> = (case sch_coordinator \<sigma> of Coord_Registering es \<Rightarrow> es | Coord_Submitting _ es \<Rightarrow> es | _ \<Rightarrow> [])"

definition sch_reserved :: "scheduler \<Rightarrow> int" where
  "sch_reserved \<sigma> = (case sch_coordinator \<sigma> of
     Coord_Claiming capacity _ _ \<Rightarrow> capacity | Coord_Registering es \<Rightarrow> int (length es)
   | Coord_Submitting _ es \<Rightarrow> int (length es) | _ \<Rightarrow> 0)"

definition item_info :: "active_node \<Rightarrow> string \<times> uuid option" where
  "item_info a = (act_kind a, act_parent a)"

abbreviation is_root :: "string \<times> uuid option \<Rightarrow> bool" where
  "is_root x \<equiv> snd x = None"

definition blocks :: "string set \<Rightarrow> string \<times> uuid option \<Rightarrow> bool" where
  "blocks kinds x \<longleftrightarrow> is_root x \<and> fst x \<in> kinds"

definition slot_kept :: "int \<Rightarrow> string set \<Rightarrow> (string \<times> uuid option) list \<Rightarrow> bool" where
  "slot_kept workers kinds xs \<longleftrightarrow>
     ((\<exists>x\<in>set xs. blocks kinds x) \<longrightarrow> int (length (filter is_root xs)) \<le> workers - 1)"

lemma slot_kept_mset:
  assumes "slot_kept w k xs" and "mset ys \<subseteq># mset xs"
  shows "slot_kept w k ys"
proof -
  have "size (filter_mset is_root (mset ys)) \<le> size (filter_mset is_root (mset xs))"
    using assms(2) by (intro size_mset_mono multiset_filter_mono)
  then have "length (filter is_root ys) \<le> length (filter is_root xs)"
    by (simp flip: size_mset)
  moreover have "set ys \<subseteq> set xs"
    using set_mset_mono[OF assms(2)] by simp
  ultimately show ?thesis
    using assms(1) unfolding slot_kept_def by fastforce
qed

lemma slot_kept_no_kinds [simp]: "slot_kept w {} xs"
  by (simp add: slot_kept_def blocks_def)

section \<open>The invariant of the pool\<close>

definition pool_view :: "scheduler \<Rightarrow> int \<times> registry \<times> active_node list \<times> coordinator" where
  "pool_view \<sigma> = (sch_max_workers \<sigma>, sch_adapters \<sigma>, sch_active \<sigma>, sch_coordinator \<sigma>)"

definition pool_infos :: "scheduler \<Rightarrow> (string \<times> uuid option) list" where
  "pool_infos \<sigma> = map item_info (sch_active \<sigma>) @ List.map_filter snd (sch_pending \<sigma>)"

definition claiming_ok :: "scheduler \<Rightarrow> bool" where
  "claiming_ok \<sigma> \<longleftrightarrow> (case sch_coordinator \<sigma> of
     Coord_Claiming capacity kinds reserve \<Rightarrow> kinds = blocking_parent_kinds \<sigma> \<and> 1 \<le> capacity
       \<and> ((\<exists>a\<in>set (sch_active \<sigma>). blocks kinds (item_info a)) \<longrightarrow> reserve)
   | _ \<Rightarrow> True)"

definition pool_ok :: "scheduler \<Rightarrow> bool" where
  "pool_ok \<sigma> \<longleftrightarrow> 1 \<le> sch_max_workers \<sigma>
     \<and> int (length (sch_active \<sigma>)) + sch_reserved \<sigma> \<le> sch_max_workers \<sigma>
     \<and> distinct (map act_node (sch_active \<sigma>))
     \<and> slot_kept (sch_max_workers \<sigma>) (blocking_parent_kinds \<sigma>) (pool_infos \<sigma>)
     \<and> claiming_ok \<sigma>"

lemmas pool_defs = pool_ok_def sch_reserved_def sch_pending_def pool_infos_def claiming_ok_def
  blocking_parent_kinds_def

lemma blocking_parent_kinds_cong:
  "sch_max_workers \<sigma>' = sch_max_workers \<sigma> \<Longrightarrow> sch_adapters \<sigma>' = sch_adapters \<sigma> \<Longrightarrow>
   blocking_parent_kinds \<sigma>' = blocking_parent_kinds \<sigma>"
  by (simp add: blocking_parent_kinds_def)

lemma pool_ok_view:
  assumes "pool_view \<sigma>' = pool_view \<sigma>"
  shows "pool_ok \<sigma>' = pool_ok \<sigma>"
proof -
  have eq: "sch_max_workers \<sigma>' = sch_max_workers \<sigma>" "sch_adapters \<sigma>' = sch_adapters \<sigma>"
      "sch_active \<sigma>' = sch_active \<sigma>" "sch_coordinator \<sigma>' = sch_coordinator \<sigma>"
    using assms by (simp_all add: pool_view_def)
  show ?thesis
    unfolding pool_ok_def sch_reserved_def sch_pending_def pool_infos_def claiming_ok_def
      blocking_parent_kinds_cong[OF eq(1,2)] eq ..
qed

lemma pool_ok_shrink:
  assumes "pool_ok \<sigma>"
    and "pool_view \<sigma>' = (sch_max_workers \<sigma>, sch_adapters \<sigma>, filter P (sch_active \<sigma>), sch_coordinator \<sigma>)"
  shows "pool_ok \<sigma>'"
proof -
  have eq: "sch_max_workers \<sigma>' = sch_max_workers \<sigma>" "sch_adapters \<sigma>' = sch_adapters \<sigma>"
      "sch_active \<sigma>' = filter P (sch_active \<sigma>)" "sch_coordinator \<sigma>' = sch_coordinator \<sigma>"
    using assms(2) by (simp_all add: pool_view_def)
  have kinds: "blocking_parent_kinds \<sigma>' = blocking_parent_kinds \<sigma>"
    by (rule blocking_parent_kinds_cong[OF eq(1,2)])
  have sub: "mset (pool_infos \<sigma>') \<subseteq># mset (pool_infos \<sigma>)"
    by (simp add: pool_infos_def sch_pending_def eq mset_filter image_mset_subseteq_mono)
  have "int (length (filter P (sch_active \<sigma>))) \<le> int (length (sch_active \<sigma>))"
      "sch_reserved \<sigma>' = sch_reserved \<sigma>"
    by (simp_all add: sch_reserved_def eq)
  then have "int (length (sch_active \<sigma>')) + sch_reserved \<sigma>' \<le> sch_max_workers \<sigma>'"
    using assms(1) unfolding pool_ok_def eq by linarith
  moreover have "distinct (map act_node (sch_active \<sigma>'))"
    using assms(1) by (simp add: pool_ok_def eq distinct_map_filter)
  moreover have "slot_kept (sch_max_workers \<sigma>') (blocking_parent_kinds \<sigma>') (pool_infos \<sigma>')"
    using slot_kept_mset[OF _ sub] assms(1) by (simp add: pool_ok_def eq kinds)
  moreover have "claiming_ok \<sigma>'"
    using assms(1) by (auto simp: pool_ok_def claiming_ok_def eq kinds split: coordinator.splits)
  ultimately show ?thesis
    using assms(1) by (simp add: pool_ok_def eq)
qed

section \<open>What a claim tells the coordinator\<close>

text \<open>The kind of a node and the parent of a run, which a claim leaves alone.\<close>

definition node_infos :: "tenant \<Rightarrow> wf_store \<Rightarrow> (uuid \<times> string) set" where
  "node_infos t s = (\<lambda>n. (node_id n, node_kind n)) ` set (nodes_of t s)"

definition run_infos :: "tenant \<Rightarrow> wf_store \<Rightarrow> (uuid \<times> uuid option) set" where
  "run_infos t s = (\<lambda>r. (run_id r, run_parent r)) ` set (runs_of t s)"

definition same_info :: "tenant \<Rightarrow> wf_store \<Rightarrow> wf_store \<Rightarrow> bool" where
  "same_info t s s' \<longleftrightarrow> node_infos t s' \<subseteq> node_infos t s \<and> run_infos t s' \<subseteq> run_infos t s"

lemma same_info_trans: "same_info t s s' \<Longrightarrow> same_info t s' s'' \<Longrightarrow> same_info t s s''"
  by (auto simp: same_info_def)

lemma same_info_node:
  assumes "same_info t s s'" and "keys_ok t s" and "n \<in> set (nodes_of t s)" "m \<in> set (nodes_of t s')"
    "node_id m = node_id n"
  shows "node_kind m = node_kind n"
proof -
  have "(node_id m, node_kind m) \<in> node_infos t s'"
    using assms(4) by (auto simp: node_infos_def)
  then have "(node_id m, node_kind m) \<in> node_infos t s"
    using assms(1) by (auto simp: same_info_def)
  then obtain k where k: "k \<in> set (nodes_of t s)" "node_id k = node_id m" "node_kind k = node_kind m"
    by (auto simp: node_infos_def)
  then have "k = n"
    using unique_node[OF assms(2) k(1) assms(3)] assms(5) by simp
  then show ?thesis using k(3) by simp
qed

lemma same_info_run:
  assumes "same_info t s s'" and "keys_ok t s" and "r \<in> set (runs_of t s)" "q \<in> set (runs_of t s')"
    "run_id q = run_id r"
  shows "run_parent q = run_parent r"
proof -
  have "(run_id q, run_parent q) \<in> run_infos t s'"
    using assms(4) by (auto simp: run_infos_def)
  then have "(run_id q, run_parent q) \<in> run_infos t s"
    using assms(1) by (auto simp: same_info_def)
  then obtain k where k: "k \<in> set (runs_of t s)" "run_id k = run_id q" "run_parent k = run_parent q"
    by (auto simp: run_infos_def)
  then have "k = r"
    using unique_run[OF assms(2) k(1) assms(3)] assms(5) by simp
  then show ?thesis using k(3) by simp
qed

lemma same_info_map:
  assumes "nodes_of t s' = map g (nodes_of t s)" "runs_of t s' = map k (runs_of t s)"
    and "\<And>n. node_id (g n) = node_id n \<and> node_kind (g n) = node_kind n"
    and "\<And>r. run_id (k r) = run_id r \<and> run_parent (k r) = run_parent r"
  shows "same_info t s s'"
  using assms by (simp add: same_info_def node_infos_def run_infos_def image_image)

lemma claim_one_info:
  assumes "claim_one t worker until now row (s, cs) = Inr (s', cs')"
  shows "same_info t s s'"
proof -
  obtain n r where row: "row = (n, r)" by (cases row)
  have g: "node_id (upd_row (matches n) (start_node i now n) m) = node_id m
      \<and> node_kind (upd_row (matches n) (start_node i now n) m) = node_kind m" for i m
    by (simp add: upd_row_def start_node_def)
  have k: "run_id (run_starts now n r q) = run_id q \<and> run_parent (run_starts now n r q) = run_parent q" for q
    by (simp add: upd_row_def run_starts_def)
  show ?thesis
    using assms unfolding row
  proof (cases rule: claim_one_cases)
    case miss
    then show ?thesis
      by (intro same_info_map[where k = id, OF _ _ g[of "node_attempt_count n + 1"]]) simp_all
  next
    case hit
    then show ?thesis
      by (intro same_info_map[OF _ _ g k])
  qed
qed

lemma claim_fold_info:
  assumes "foldM (claim_one t worker until now) chosen (s, cs) = Inr (s', cs')"
  shows "same_info t s s'"
proof -
  have "same_info t s (fst (s', cs'))"
  proof (rule foldM_invariant[OF assms, where P = "\<lambda>acc. same_info t s (fst acc)"])
    fix row and x y :: "wf_store \<times> attempt_claim list"
    assume "same_info t s (fst x)" "claim_one t worker until now row x = Inr y"
    then show "same_info t s (fst y)"
      using claim_one_info[of t worker until now row "fst x" "snd x" "fst y" "snd y"]
      by (auto elim: same_info_trans)
  qed (simp add: same_info_def)
  then show ?thesis by simp
qed

text \<open>What a snapshot shows of a node and of its run.\<close>

lemma traverse_source:
  "traverse f xs = Inr ys \<Longrightarrow> y \<in> set ys \<Longrightarrow> \<exists>x\<in>set xs. f x = Inr y"
  by (induction xs arbitrary: ys) (auto simp: result_simps)

lemma node_from_row_info: "node_from_row m = Inr n \<Longrightarrow> node_id n = node_id m \<and> node_kind n = node_kind m"
  by (auto simp: node_from_row_def node_post_init_def result_simps)

lemma snapshot_nodes:
  assumes "load_snapshot t r s = Inr sn" and "n \<in> set (snap_nodes sn)"
  shows "\<exists>m\<in>set (nodes_of t s). node_id m = node_id n \<and> node_kind m = node_kind n"
proof -
  obtain ns where "traverse node_from_row (sort_key (\<lambda>n. (node_plan_revision n, node_created_at n))
        (select_where t (\<lambda>n. node_run n = run_id r) (nodes_t s))) = Inr ns" "snap_nodes sn = ns"
    using assms(1) unfolding load_snapshot_def Let_def by (auto simp: result_simps)
  then obtain m where "m \<in> set (nodes_of t s)" "node_from_row m = Inr n"
    using traverse_source assms(2) by fastforce
  then show ?thesis using node_from_row_info by metis
qed

lemma snapshot_reads:
  assumes "get_snapshot t rid s = Inr (Some sn)"
  obtains r r' where "r \<in> set (runs_of t s)" "run_id r = rid" "run_parent (snap_run sn) = run_parent r"
    "load_snapshot t r' s = Inr sn"
proof -
  obtain r r' where r: "select_where t (\<lambda>r. run_id r = rid) (runs_t s) = [r]" "run_from_row r = Inr r'"
      and "map_sum id Some (load_snapshot t r' s) = Inr (Some sn)"
    using assms unfolding get_snapshot_def by (auto simp: result_simps split: option.splits)
  then have load: "load_snapshot t r' s = Inr sn"
    by (cases "load_snapshot t r' s") auto
  have "run_parent r' = run_parent r"
    using r(2) by (auto simp: run_from_row_def run_post_init_def result_simps)
  then show ?thesis
    using that select_where_singleton[OF r(1)] load load_snapshot_run[OF load] by metis
qed

lemma claim_info_reads:
  assumes "claim_info t s' c = Inr e" and "same_info t s s'" and keys: "keys_ok t s"
    and n: "n \<in> set (nodes_of t s)" "node_id n = claim_node c"
    and r: "r \<in> set (runs_of t s)" "run_id r = claim_run c"
  shows "fst e = c \<and> (snd e = None \<or> snd e = Some (node_kind n, run_parent r))"
proof (cases "\<exists>x. get_snapshot t (claim_run c) s' = Inr (Some x)")
  case True
  then obtain sn where sn: "get_snapshot t (claim_run c) s' = Inr (Some sn)" by blast
  then obtain m where m: "find_node (claim_node c) sn = Some m"
      "e = (c, Some (node_kind m, run_parent (snap_run sn)))"
    using assms(1) by (auto simp: claim_info_def split: option.splits)
  obtain q q' where q: "q \<in> set (runs_of t s')" "run_id q = claim_run c"
      "run_parent (snap_run sn) = run_parent q" and load: "load_snapshot t q' s' = Inr sn"
    by (rule snapshot_reads[OF sn])
  have "m \<in> set (snap_nodes sn)" "node_id m = claim_node c"
    using m(1) unfolding find_node_def by (auto simp: find_Some_iff in_set_conv_nth)
  then obtain k where k: "k \<in> set (nodes_of t s')" "node_id k = claim_node c" "node_kind k = node_kind m"
    using snapshot_nodes[OF load] by metis
  have "node_kind m = node_kind n"
    using same_info_node[OF assms(2) keys n(1) k(1)] k(2,3) n(2) by simp
  moreover have "run_parent q = run_parent r"
    using same_info_run[OF assms(2) keys r(1) q(1)] q(2) r(2) by simp
  ultimately show ?thesis
    using m(2) q(3) by simp
next
  case False
  then show ?thesis
    using assms(1) by (auto simp: claim_info_def result_simps split: option.splits)
qed

end
