(* ===== verification/Scheduler_Capacity.thy ===== *)
theory Scheduler_Capacity
  imports Scheduler_Pool
begin

text \<open>
  The blocks keep the invariant of the pool. The interesting one is the claim: the capacity and
  the reservation the coordinator read, with the selection of \<open>claim_ready\<close>, leave the slot.
\<close>

section \<open>The claim\<close>

definition row_info :: "claim_row \<Rightarrow> string \<times> uuid option" where
  "row_info row = (node_kind (fst row), run_parent (snd row))"

lemma is_root_row [simp]: "is_root (row_info row) \<longleftrightarrow> \<not> is_child row"
  by (simp add: row_info_def is_child_def)

lemma blocks_row [simp]: "blocks kinds (row_info row) \<longleftrightarrow> is_blocking_parent kinds row"
  by (auto simp: blocks_def is_blocking_parent_def is_child_def row_info_def)

lemma slot_kept_claims:
  assumes kept: "reserve_kept limit kinds reserve picked" "int (length picked) \<le> limit"
    and cap: "int (length items) + limit \<le> workers"
    and old: "slot_kept workers kinds items" and "(\<exists>x\<in>set items. blocks kinds x) \<longrightarrow> reserve"
  shows "slot_kept workers kinds (items @ map row_info picked)"
  unfolding slot_kept_def
proof
  assume some: "\<exists>x\<in>set (items @ map row_info picked). blocks kinds x"
  have roots: "length (filter is_root (items @ map row_info picked))
      = length (filter is_root items) + length (filter (\<lambda>row. \<not> is_child row) picked)"
    by (simp add: filter_map comp_def)
  have le: "length (filter is_root items) \<le> length items"
    by simp
  have less: "int (length (filter (\<lambda>row. \<not> is_child row) picked)) \<le> limit - 1"
  proof (cases "\<exists>row\<in>set picked. is_child row")
    case True
    then have "length (filter (\<lambda>row. \<not> is_child row) picked) < length picked"
      using length_filter_less[of _ picked "\<lambda>row. \<not> is_child row"] by blast
    then show ?thesis using kept(2) by linarith
  next
    case False
    have "reserve \<or> (\<exists>row\<in>set picked. is_blocking_parent kinds row)"
      using some assms(5) by auto
    then have "int (length picked) \<le> limit - 1"
      using kept(1) False unfolding reserve_kept_def by blast
    moreover have "length (filter (\<lambda>row. \<not> is_child row) picked) \<le> length picked"
      by simp
    ultimately show ?thesis by linarith
  qed
  show "int (length (filter is_root (items @ map row_info picked))) \<le> workers - 1"
    unfolding roots using le less cap by linarith
qed

lemma mset_map_filter:
  assumes "list_all2 (\<lambda>x e. snd e = None \<or> snd e = Some (f x)) xs es"
  shows "mset (List.map_filter snd es) \<subseteq># mset (map f xs)"
  using assms
proof (induction rule: list_all2_induct)
  case (Cons x xs e es)
  have more: "mset (List.map_filter snd es) \<subseteq># add_mset (f x) (mset (map f xs))"
    using Cons.IH by (metis add_mset_add_single mset_subset_eq_add_left subset_mset.order_trans)
  from Cons(1) show ?case
    using Cons.IH more by (auto simp: List.map_filter_simps)
qed (simp add: List.map_filter_simps)

lemma claim_infos:
  assumes cr: "claim_ready t worker until limit kinds reserve now s = Inr (s', cs)"
    and inv: "wf_inv t l s" "l \<le> now"
    and infos: "traverse (claim_info t s') cs = Inr es"
  obtains picked where "list_all2 (\<lambda>row e. snd e = None \<or> snd e = Some (row_info row)) picked es"
    "map fst es = cs" "int (length picked) \<le> limit" "reserve_kept limit kinds reserve picked"
    "\<forall>c\<in>set cs. granted t c s'"
proof -
  obtain s1 where s1: "reclaim_expired t now (expire_overdue t now s) = Inr s1" "wf_inv t now s1" "1 \<le> limit"
    "cs = map (claim_of_row worker until) (select_claims t now limit kinds reserve s1)"
    "\<forall>c\<in>set cs. granted t c s'"
    by (rule claim_ready_step[OF cr inv])
  let ?picked = "select_claims t now limit kinds reserve s1"
  obtain s1' where "reclaim_expired t now (expire_overdue t now s) = Inr s1'"
      "foldM (claim_one t worker until now) (select_claims t now limit kinds reserve s1') (s1', []) = Inr (s', cs)"
    by (rule claim_ready_Inr[OF cr])
  then have info: "same_info t s1 s'"
    using claim_fold_info s1(1) by fastforce
  note keys = wf_invD(1)[OF s1(2)]
  have one: "fst e = claim_of_row worker until row \<and> (snd e = None \<or> snd e = Some (row_info row))"
    if e: "claim_info t s' (claim_of_row worker until row) = Inr e" and row: "row \<in> set ?picked" for row e
  proof -
    have "(fst row, snd row) \<in> set (eligible_rows t now s1)"
      using select_claims_ok(5)[OF s1(3), of t now kinds reserve s1] row by auto
    then have m: "fst row \<in> set (nodes_of t s1)" "snd row \<in> set (runs_of t s1)"
        "run_id (snd row) = node_run (fst row)"
      unfolding eligible_rows_mem by blast+
    show ?thesis
      using claim_info_reads[OF e info keys m(1) _ m(2)] m(3)
      by (simp add: claim_of_row_def new_claim_def row_info_def)
  qed
  have all: "list_all2 (\<lambda>row e. claim_info t s' (claim_of_row worker until row) = Inr e) ?picked es"
    using infos unfolding s1(4) traverse_eq_Inr_conv by (simp add: list_all2_map1)
  have "list_all2 (\<lambda>row e. fst e = claim_of_row worker until row
      \<and> (snd e = None \<or> snd e = Some (row_info row))) ?picked es"
    by (rule list.rel_mono_strong[OF all]) (use one in blast)
  then have "list_all2 (\<lambda>row e. snd e = None \<or> snd e = Some (row_info row)) ?picked es"
      and "list_all2 (\<lambda>row e. fst e = claim_of_row worker until row) ?picked es"
    by (auto elim!: list_all2_mono)
  moreover from this(2) have "map fst es = cs"
    unfolding s1(4) by (induction rule: list_all2_induct) simp_all
  ultimately show ?thesis
    using that s1(5) select_claims_ok(2,3)[OF s1(3)] by blast
qed

section \<open>The coordinator's blocks\<close>

lemma pool_ok_idle:
  assumes "pool_ok \<sigma>" and "sch_max_workers \<sigma>' = sch_max_workers \<sigma>" "sch_adapters \<sigma>' = sch_adapters \<sigma>"
    "sch_active \<sigma>' = sch_active \<sigma>" and "sch_reserved \<sigma>' = 0" "sch_pending \<sigma>' = []" "claiming_ok \<sigma>'"
  shows "pool_ok \<sigma>'"
proof -
  have "0 \<le> sch_reserved \<sigma>"
    using assms(1) by (auto simp: pool_ok_def claiming_ok_def sch_reserved_def split: coordinator.splits)
  moreover have "slot_kept (sch_max_workers \<sigma>) (blocking_parent_kinds \<sigma>) (pool_infos \<sigma>')"
    by (rule slot_kept_mset[of _ _ "pool_infos \<sigma>"])
      (use assms in \<open>simp_all add: pool_ok_def pool_infos_def List.map_filter_simps\<close>)
  ultimately show ?thesis
    using assms blocking_parent_kinds_cong[OF assms(2,3)] by (simp add: pool_ok_def)
qed

lemma pool_ok_rest:
  assumes "pool_ok \<sigma>" and "sch_coordinator \<sigma> = Coord_Registering (e # rest)"
    and "sch_max_workers \<sigma>' = sch_max_workers \<sigma>" "sch_adapters \<sigma>' = sch_adapters \<sigma>"
    "sch_pending \<sigma>' = rest" "sch_reserved \<sigma>' = int (length rest)" "claiming_ok \<sigma>'"
    and "sch_active \<sigma>' = sch_active \<sigma>
      \<or> sch_active \<sigma>' = sch_active \<sigma> @ [a] \<and> snd e = Some (item_info a) \<and> act_node a \<notin> act_node ` set (sch_active \<sigma>)"
  shows "pool_ok \<sigma>'"
proof -
  have "slot_kept (sch_max_workers \<sigma>) (blocking_parent_kinds \<sigma>) (pool_infos \<sigma>')"
    by (rule slot_kept_mset[of _ _ "pool_infos \<sigma>"])
      (use assms in \<open>auto simp: pool_ok_def pool_infos_def sch_pending_def List.map_filter_simps
        split: option.splits\<close>)
  then show ?thesis
    using assms blocking_parent_kinds_cong[OF assms(3,4)]
    by (auto simp: pool_ok_def sch_reserved_def)
qed

lemma coordinate_pool: "pool_ok \<sigma> \<Longrightarrow> pool_ok (coordinate mono_now \<sigma>)"
  by (erule pool_ok_idle) (simp_all add: coordinate_def sch_reserved_def sch_pending_def claiming_ok_def)

lemma set_reasons_view [simp]: "pool_view (set_reasons reason items \<sigma>) = pool_view \<sigma>"
  by (simp add: pool_view_def set_reasons_def)

lemma heartbeat_pool: "pool_ok \<sigma> \<Longrightarrow> pool_ok (fst (heartbeat t clk beat item rest (\<sigma>, s)))"
  by (erule pool_ok_idle) (simp_all add: heartbeat_def set_reasons_def sch_reserved_def sch_pending_def
      claiming_ok_def Let_def split: prod.splits)

lemma reads_capacity_pool:
  assumes "pool_ok \<sigma>" and "sch_coordinator \<sigma> = Coord_Beating []"
  shows "pool_ok (reads_capacity \<sigma>)"
proof (cases "sch_max_workers \<sigma> - int (length (sch_active \<sigma>)) \<le> 0")
  case True
  then show ?thesis
    by (intro pool_ok_idle[OF assms(1)])
      (simp_all add: reads_capacity_def Let_def sch_reserved_def sch_pending_def claiming_ok_def)
next
  case False
  define K where "K = blocking_parent_kinds \<sigma>"
  define reserve where "reserve = (\<exists>a\<in>set (sch_active \<sigma>). act_parent a = None \<and> act_kind a \<in> K)"
  define cap where "cap = sch_max_workers \<sigma> - int (length (sch_active \<sigma>))"
  have \<sigma>': "reads_capacity \<sigma> = \<sigma>\<lparr>sch_coordinator := Coord_Claiming cap K reserve\<rparr>"
    using False by (simp add: reads_capacity_def Let_def K_def reserve_def cap_def)
  have kinds: "blocking_parent_kinds (\<sigma>\<lparr>sch_coordinator := x\<rparr>) = blocking_parent_kinds \<sigma>" for x
    by (rule blocking_parent_kinds_cong) simp_all
  have "pool_infos (\<sigma>\<lparr>sch_coordinator := Coord_Claiming cap K reserve\<rparr>) = pool_infos \<sigma>"
    by (simp add: pool_infos_def sch_pending_def assms(2))
  moreover have "(\<exists>a\<in>set (sch_active \<sigma>). blocks K (item_info a)) \<longrightarrow> reserve"
    by (auto simp: reserve_def blocks_def item_info_def)
  ultimately show ?thesis
    using assms(1) False unfolding \<sigma>'
    by (simp add: pool_ok_def sch_reserved_def claiming_ok_def kinds cap_def K_def)
qed

lemma claim_available_pool:
  assumes pool: "pool_ok \<sigma>" and at: "sch_coordinator \<sigma> = Coord_Claiming capacity kinds reserve"
    and inv: "wf_inv t l s" "l \<le> clk 1"
  shows "pool_ok (fst (claim_available t clk capacity kinds reserve (\<sigma>, s)))"
proof -
  have idle: "pool_ok (\<sigma>\<lparr>sch_coordinator := Coord_Polling\<rparr>)"
    by (rule pool_ok_idle[OF pool]) (simp_all add: sch_reserved_def sch_pending_def claiming_ok_def)
  have "pool_ok (\<sigma>\<lparr>sch_coordinator := Coord_Registering es\<rparr>)"
    if cr: "claim_ready t (sch_owner \<sigma>) until capacity kinds reserve (clk 1) s = Inr (s', cs)"
      and es: "traverse (claim_info t s') cs = Inr es" for s' cs es until
  proof -
    let ?\<sigma> = "\<sigma>\<lparr>sch_coordinator := Coord_Registering es\<rparr>"
    have k: "kinds = blocking_parent_kinds \<sigma>" "blocking_parent_kinds ?\<sigma> = kinds"
      and res: "(\<exists>a\<in>set (sch_active \<sigma>). blocks kinds (item_info a)) \<longrightarrow> reserve"
      and cap: "int (length (sch_active \<sigma>)) + capacity \<le> sch_max_workers \<sigma>"
      using pool at by (auto simp: pool_ok_def claiming_ok_def sch_reserved_def blocking_parent_kinds_def)
    obtain picked where picked: "list_all2 (\<lambda>row e. snd e = None \<or> snd e = Some (row_info row)) picked es"
        "int (length picked) \<le> capacity" "reserve_kept capacity kinds reserve picked"
      by (rule claim_infos[OF cr inv es])
    have len: "length es = length picked"
      using list_all2_lengthD[OF picked(1)] by simp
    have "slot_kept (sch_max_workers \<sigma>) kinds (map item_info (sch_active \<sigma>) @ map row_info picked)"
      using pool at res cap k(1)
      by (intro slot_kept_claims[OF picked(3,2)])
        (auto simp: pool_ok_def pool_infos_def sch_pending_def List.map_filter_simps)
    then have "slot_kept (sch_max_workers \<sigma>) kinds (pool_infos ?\<sigma>)"
      using slot_kept_mset mset_map_filter[OF picked(1)]
      by (simp add: pool_infos_def sch_pending_def)
    then show ?thesis
      using pool k cap picked(2) len by (simp add: pool_ok_def sch_reserved_def claiming_ok_def)
  qed
  then show ?thesis
    using idle by (auto simp: claim_available_def split: sum.splits)
qed

lemmas coordinator_parts_defs = sch_pending_def sch_reserved_def claiming_ok_def

lemma register_pool:
  assumes "pool_ok \<sigma>" and "sch_coordinator \<sigma> = Coord_Registering (e # rest)"
  shows "pool_ok (fst (register_claim t now e rest (\<sigma>, s)))"
proof -
  have idle: "pool_ok (\<sigma>\<lparr>sch_coordinator := Coord_Polling\<rparr>)"
    by (rule pool_ok_idle[OF assms(1)]) (simp_all add: coordinator_parts_defs)
  have skip: "pool_ok (\<sigma>\<lparr>sch_coordinator := Coord_Registering rest\<rparr>)"
    by (rule pool_ok_rest[OF assms]) (simp_all add: coordinator_parts_defs)
  have "snd e = Some (item_info (new_active e tok)) \<and> act_node (new_active e tok) = claim_node (fst e)"
    if "snd e \<noteq> None" for tok
    using that by (auto simp: new_active_def item_info_def act_node_def)
  then show ?thesis
    using idle skip unfolding register_claim_def Let_def
    by (auto intro!: pool_ok_rest[OF assms, where a = "new_active e (length (sch_tokens \<sigma>))"] simp: coordinator_parts_defs)
qed

lemma submit_pool:
  assumes "pool_ok \<sigma>" and "sch_coordinator \<sigma> = Coord_Submitting item rest"
  shows "pool_ok (submit_item accepts item rest \<sigma>)"
proof (cases accepts)
  case True
  have "blocking_parent_kinds (submit_item accepts item rest \<sigma>) = blocking_parent_kinds \<sigma>"
    by (rule blocking_parent_kinds_cong) (simp_all add: submit_item_def True)
  then show ?thesis
    using assms by (simp add: pool_ok_def pool_infos_def coordinator_parts_defs submit_item_def True)
next
  case False
  let ?P = "\<lambda>a. act_node a \<noteq> act_node item"
  have "pool_ok (\<sigma>\<lparr>sch_active := filter ?P (sch_active \<sigma>)\<rparr>)"
    by (rule pool_ok_shrink[OF assms(1), where P = ?P]) (simp add: pool_view_def)
  then show ?thesis
    by (rule pool_ok_idle) (simp_all add: submit_item_def False coordinator_parts_defs)
qed

lemma withdraw_pool: "pool_ok \<sigma> \<Longrightarrow> pool_ok (fst (withdraw_item t now item (\<sigma>, s)))"
  by (erule pool_ok_idle) (simp_all add: withdraw_item_def coordinator_parts_defs)

section \<open>Every action\<close>

lemma coordinator_pool:
  assumes "coordinator_action t clk a (\<sigma>, s) = Some (\<sigma>', s')" and "pool_ok \<sigma>"
    and "wf_inv t l s" "l \<le> clk 1"
  shows "pool_ok \<sigma>'"
proof (cases a)
  case (Coordinate mono_now)
  then show ?thesis
    using assms(1,2) coordinate_pool by (auto split: if_splits)
next
  case (Heartbeat beat)
  then obtain item rest where "heartbeat t clk beat item rest (\<sigma>, s) = (\<sigma>', s')"
    using assms(1) by (auto split: coordinator.splits list.splits)
  then show ?thesis
    using heartbeat_pool[OF assms(2), of t clk beat item rest s] by simp
next
  case Read_Capacity
  then show ?thesis
    using assms(1) reads_capacity_pool[OF assms(2)] by (auto split: coordinator.splits list.splits)
next
  case Claim_Available
  then obtain capacity kinds reserve where "sch_coordinator \<sigma> = Coord_Claiming capacity kinds reserve"
      "claim_available t clk capacity kinds reserve (\<sigma>, s) = (\<sigma>', s')"
    using assms(1) by (auto split: coordinator.splits)
  then show ?thesis
    using claim_available_pool[OF assms(2) _ assms(3), of capacity kinds reserve clk] assms(4) by simp
next
  case Register
  show ?thesis
  proof (cases "sch_coordinator \<sigma>")
    case (Coord_Registering es)
    have "pool_ok (\<sigma>\<lparr>sch_coordinator := Coord_Polling\<rparr>)"
      by (rule pool_ok_idle[OF assms(2)]) (simp_all add: coordinator_parts_defs)
    moreover have "pool_ok (fst (register_claim t (clk 0) e rest (\<sigma>, s)))" if "es = e # rest" for e rest
      using register_pool[OF assms(2)] Coord_Registering that by blast
    ultimately show ?thesis
      using assms(1) Register Coord_Registering by (cases es) auto
  qed (use assms(1) Register in simp_all)
next
  case (Submit_Job accepts)
  then show ?thesis
    using assms(1) submit_pool[OF assms(2)] by (auto split: coordinator.splits)
next
  case Withdraw
  then show ?thesis
    using assms(1) withdraw_pool[OF assms(2)] by (auto split: coordinator.splits) (metis fst_conv)
qed (use assms(1) in simp_all)

lemma phase_view [simp]: "pool_view (set_phase i ph \<sigma>) = pool_view \<sigma>"
  by (simp add: pool_view_def set_phase_def)

lemma finish_pool: "pool_ok \<sigma> \<Longrightarrow> pool_ok (finish_active item \<sigma>)"
  by (erule pool_ok_shrink) (simp add: pool_view_def finish_active_def)

lemma worker_pool:
  assumes "worker_action t clk a (\<sigma>, s) = Some (\<sigma>', s')" and "pool_ok \<sigma>"
  shows "pool_ok \<sigma>'"
  using assms pool_ok_view[OF phase_view] finish_pool
  by (cases a) (auto simp: enter_phase_def split: option.splits prod.splits job_phase.splits)

lemma caller_views [simp]:
  "pool_view (check_boundary rid \<sigma>) = pool_view \<sigma>"
  "pool_view (cancel_tokens rid \<sigma>) = pool_view \<sigma>"
  "pool_view (close_scheduler \<sigma>) = pool_view \<sigma>"
  "pool_view (shutdown_executor dropped \<sigma>) = pool_view \<sigma>"
  by (simp_all add: pool_view_def check_boundary_def cancel_tokens_def set_reasons_def
      close_scheduler_def shutdown_executor_def Let_def)

lemma caller_block_views:
  "resume_boundary t now rid active (\<sigma>, s) = (\<sigma>', s') \<Longrightarrow> pool_view \<sigma>' = pool_view \<sigma>"
  "cancel_run t rid now (\<sigma>, s) = (\<sigma>', s') \<Longrightarrow> pool_view \<sigma>' = pool_view \<sigma>"
  "close_item t now item rest (\<sigma>, s) = (\<sigma>', s') \<Longrightarrow> pool_view \<sigma>' = pool_view \<sigma>"
  "close_abandon t now item rest (\<sigma>, s) = (\<sigma>', s') \<Longrightarrow> pool_view \<sigma>' = pool_view \<sigma>"
  by (auto simp: pool_view_def resume_boundary_def set_reasons_def cancel_run_def close_item_def
      close_abandon_def Let_def split: prod.splits if_splits)

lemma coordinator_field_view [simp]:
  "pool_view (\<sigma>\<lparr>sch_closer := x\<rparr>) = pool_view \<sigma>"
  by (simp add: pool_view_def)

lemma if_allowed_view:
  "if_allowed (start_scheduler \<sigma>) s = Some (\<sigma>', s') \<Longrightarrow> pool_view \<sigma>' = pool_view \<sigma>"
  "if_allowed (resume_after_boundary rid \<sigma>) s = Some (\<sigma>', s') \<Longrightarrow> pool_view \<sigma>' = pool_view \<sigma>"
  by (auto simp: if_allowed_def start_scheduler_def resume_after_boundary_def ensure_eq_Inr pool_view_def
      split: sum.splits)

lemma close_remaining_pool: "pool_ok \<sigma> \<Longrightarrow> pool_ok (close_remaining \<sigma>)"
  by (erule pool_ok_shrink[where P = "\<lambda>a. False"]) (simp add: pool_view_def close_remaining_def)

lemma caller_view:
  assumes act: "caller_action t clk a (\<sigma>, s) = Some (\<sigma>', s')" and "a \<noteq> Close_Remaining"
  shows "pool_view \<sigma>' = pool_view \<sigma>"
proof (cases a)
  case Start
  then show ?thesis using act if_allowed_view(1) by simp
next
  case (Resume_After_Boundary rid)
  then show ?thesis using act if_allowed_view(2) by simp
next
  case Check_Boundary
  then show ?thesis using act by (auto split: list.splits)
next
  case Resume_Boundary
  then show ?thesis using act by (auto split: list.splits dest: caller_block_views(1))
next
  case (Cancel_Tokens rid)
  then show ?thesis using act by auto
next
  case Cancel_Run
  then show ?thesis using act by (auto split: list.splits dest: caller_block_views(2))
next
  case Close
  then show ?thesis using act by auto
next
  case Close_Item
  then show ?thesis using act by (auto split: closer.splits list.splits dest: caller_block_views(3))
next
  case (Shutdown_Executor dropped)
  then show ?thesis using act by (auto split: if_splits)
next
  case Close_Abandon
  then show ?thesis using act by (auto split: closer.splits list.splits dest: caller_block_views(4))
qed (use assms in simp_all)

lemma caller_pool:
  assumes "caller_action t clk a (\<sigma>, s) = Some (\<sigma>', s')" and "pool_ok \<sigma>"
  shows "pool_ok \<sigma>'"
proof (cases "a = Close_Remaining")
  case True
  then show ?thesis
    using assms close_remaining_pool by (auto split: if_splits)
next
  case False
  show ?thesis
    using pool_ok_view[OF caller_view[OF assms(1) False]] assms(2) by simp
qed

lemma action_pool:
  assumes "exec_action t clk a (\<sigma>, s) = Some (\<sigma>', s')" and "pool_ok \<sigma>"
    and "wf_inv t l s" "l \<le> clk 1"
  shows "pool_ok \<sigma>'"
  using assms(1)
proof (cases rule: exec_action_cases)
  case coordinator
  then show ?thesis using coordinator_pool assms(2-4) by blast
qed (use assms(2) worker_pool caller_pool in auto)

end
