(* ===== verification/Scheduler_Claims.thy ===== *)
theory Scheduler_Claims
  imports Scheduler_Capacity
begin

text \<open>
  The claims the scheduler holds: each was issued by the store, and the block that settles one
  spends it. With the tokens and the states of \<open>close\<close> this completes the invariant of the
  scheduler's machine.
\<close>

section \<open>Settling spends a claim\<close>

lemma spent_update:
  assumes "issued t c s" and "tm \<le> l'"
    and "\<And>a. att_node (f a) = att_node a \<and> att_number (f a) = att_number a \<and> att_status (f a) \<noteq> Attempt_Running"
  shows "spent t c l' (update_attempts t (live_claim_predicates c tm) f s)"
proof -
  obtain a where a: "a \<in> set (attempts_of t s)" "same_attempt_key c a"
      "att_status a = Attempt_Running \<longrightarrow> claim_predicates c a"
    using assms(1) unfolding issued_def by blast
  let ?b = "upd_row (live_claim_predicates c tm) f a"
  have "?b \<in> set (attempts_of t (update_attempts t (live_claim_predicates c tm) f s))"
    using a(1) by simp
  moreover have "same_attempt_key c ?b"
    using a(2) assms(3)[of a] by (simp add: upd_row_def same_attempt_key_def)
  moreover have "att_status ?b = Attempt_Running \<longrightarrow> \<not> lease_live l' ?b"
  proof (cases "live_claim_predicates c tm a")
    case True
    then show ?thesis using assms(3)[of a] by simp
  next
    case False
    then have "att_status a = Attempt_Running \<longrightarrow> \<not> lease_live tm a"
      using a(3) by (simp add: live_claim_predicates_def)
    then show ?thesis
      using False assms(2) lease_live_mono[of l' a tm] by auto
  qed
  ultimately show ?thesis unfolding spent_def by blast
qed

lemma closes_attempt [simp]:
  "att_node (close_attempt st now a) = att_node a"
  "att_number (close_attempt st now a) = att_number a"
  by (simp_all add: close_attempt_def)

lemma spent_later: "spent t c l s \<Longrightarrow> attempts_evolve t l s s' \<Longrightarrow> spent t c l s'"
  by (rule spent_evolves) simp_all

lemma spent_settle_attempt:
  "issued t c s \<Longrightarrow> tm \<le> l' \<Longrightarrow> st \<noteq> Attempt_Running \<Longrightarrow> spent t c l' (settle_attempt t c st e now tm s)"
  unfolding settle_attempt_def by (rule spent_update) simp_all

lemma spent_park_attempt:
  "issued t c s \<Longrightarrow> tm \<le> l' \<Longrightarrow> spent t c l' (park_attempt t c j now tm s)"
  unfolding park_attempt_def by (rule spent_update) simp_all

lemma spent_other [simp]:
  "spent t c l (update_runs u p f s) = spent t c l s"
  "spent t c l (update_nodes u q g s) = spent t c l s"
  "spent t c l (requeue_run u rid now s) = spent t c l s"
  by (simp_all add: spent_def requeue_run_def)

lemma spent_cancel [simp]: "spent t c l s \<Longrightarrow> spent t c l (cancel_running_attempts u rid now ex s)"
  by (erule spent_later) simp

lemma fail_spends:
  assumes "fail t c e clk s = Inr (s', sn)" and "issued t c s" "clk 1 \<le> l'"
  shows "spent t c l' s'"
proof -
  have "spent t c l' (settle_attempt t c Attempt_Failed e (clk 0) (clk (Suc 0)) s)"
    by (rule spent_settle_attempt[OF assms(2)]) (use assms(3) in simp_all)
  note this [simp]
  show ?thesis
    by (rule fail_Inr[OF assms(1)]) simp
qed

lemma complete_spends:
  assumes "complete t c result evidence summary clk s = Inr (s', sn)" and "issued t c s" "clk 1 \<le> l'"
  shows "spent t c l' s'"
proof -
  define s1 where "s1 = update_attempts t (live_claim_predicates c (clk 1))
    (\<lambda>a. (close_attempt Attempt_Succeeded (clk 0) a)
       \<lparr>att_result := Some result, att_evidence_refs := evidence\<rparr>) s"
  have "spent t c l' s1"
    unfolding s1_def by (rule spent_update[OF assms(2,3)]) simp
  moreover have "attempts_evolve t l' s1 s'"
    using assms(1) unfolding complete_def Let_def s1_def[symmetric]
    by (auto simp: result_simps settle_run_evolves dest!: with_snapshot_Inr)
  ultimately show ?thesis by (rule spent_later)
qed

lemma parks_spend:
  assumes "issued t c s" "clk 1 \<le> l'"
  shows "wait_for_approval t c result clk s = Inr (s', sn) \<Longrightarrow> spent t c l' s'"
    and "wait_for_input t c result clk s = Inr (s', sn) \<Longrightarrow> spent t c l' s'"
  using spent_park_attempt[OF assms, of result "clk 0"]
  by (auto simp: wait_for_approval_def wait_for_input_def Let_def result_simps dest!: with_snapshot_Inr)

lemma retry_spends:
  assumes "retry t c available_at e clk s = Inr (s', sn)" and "issued t c s" "clk 1 \<le> l'" "clk 2 \<le> l'"
  shows "spent t c l' s'"
proof -
  have "spent t c l' s'" if "fail t c e (clock_from 1 clk) s = Inr (s', sn)"
    by (rule fail_spends[OF that assms(2)]) (use assms(4) in \<open>simp add: numeral_2_eq_2\<close>)
  then show ?thesis
    using assms(1) spent_settle_attempt[OF assms(2,3), of Attempt_Failed e "clk 0"]
    by (auto simp: retry_def Let_def result_simps split: if_splits dest!: with_snapshot_Inr)
qed

lemma defer_spends:
  assumes "defer_claim t c available_at result clk s = Inr (s', sn)" and "issued t c s"
    and "clk 1 \<le> l'" "clk 2 \<le> l'"
  shows "spent t c l' s'"
proof -
  have "spent t c l' s'" if "fail t c e (clock_from 1 clk) s = Inr (s', sn)" for e
    by (rule fail_spends[OF that assms(2)]) (use assms(4) in \<open>simp add: numeral_2_eq_2\<close>)
  then show ?thesis
    using assms(1) spent_park_attempt[OF assms(2,3), of result "clk 0"]
    by (auto simp: defer_claim_def Let_def result_simps split: if_splits dest!: with_snapshot_Inr)
qed

lemma filter_only:
  assumes "distinct xs" "a \<in> set xs" "P a" and only: "\<And>b. b \<in> set xs \<Longrightarrow> P b \<Longrightarrow> b = a"
  shows "filter P xs = [a]"
proof -
  have "filter P xs = filter (\<lambda>b. b = a) xs"
    using assms(3) only by (intro filter_cong) auto
  then show ?thesis
    using filter_unique_key[of id xs a] assms(1,2) by simp
qed

lemma abandon_total:
  assumes "wf_inv t l s" shows "abandon t c now s \<noteq> Inl e"
proof
  assume err: "abandon t c now s = Inl e"
  note keys = wf_invD(1)[OF assms]
  have attempts: "select_where t (claim_predicates c) (attempts_t s) = []
      \<or> (\<exists>a\<in>set (attempts_of t s). claim_predicates c a
           \<and> select_where t (claim_predicates c) (attempts_t s) = [a])"
  proof (cases "\<exists>a\<in>set (attempts_of t s). claim_predicates c a")
    case True
    then obtain a where a: "a \<in> set (attempts_of t s)" "claim_predicates c a" by blast
    have "b = a" if "b \<in> set (attempts_of t s)" "claim_predicates c b" for b
      using unique_attempt[OF keys that(1) a(1)] that(2) a(2) by (simp add: claim_predicates_def)
    moreover have "distinct (attempts_of t s)"
      using keys by (auto simp: keys_ok_def dest: distinct_map_imp)
    ultimately have "filter (claim_predicates c) (attempts_of t s) = [a]"
      using filter_only a by metis
    then show ?thesis using a by (auto simp: select_where_def)
  qed (auto simp: select_where_def filter_empty_conv)
  then obtain a where a: "a \<in> set (attempts_of t s)" "claim_predicates c a"
      "select_where t (claim_predicates c) (attempts_t s) = [a]"
    using err by (auto simp: abandon_def one_or_none_def)
  obtain n where n: "n \<in> set (nodes_of t s)" "node_id n = claim_node c" "node_run n = claim_run c"
    using wf_invD(5)[OF assms] a unfolding attempts_ok_def claim_predicates_def by metis
  obtain r where r: "r \<in> set (runs_of t s)" "run_id r = claim_run c"
    using wf_invD(3)[OF assms] n(1,3) unfolding nodes_ok_def by metis
  have "select_where t (\<lambda>r. run_id r = claim_run c) (runs_t s) = [r]"
    using filter_unique_key[of run_id "runs_of t s" r] keys r by (simp add: select_where_def keys_ok_def)
  moreover have "select_where t (\<lambda>n. node_id n = claim_node c) (nodes_t s) = [n]"
    using filter_unique_key[of node_id "nodes_of t s" n] keys n by (simp add: select_where_def keys_ok_def)
  ultimately show False
    using err a(3) by (simp add: abandon_def one_or_none_def one_def Let_def)
qed

lemma abandon_spends:
  assumes "wf_inv t l s" and "issued t c s"
  shows "spent t c l' (fst (abandon_claim t c now s))"
proof -
  obtain s' ok where r: "abandon t c now s = Inr (s', ok)"
    using abandon_total[OF assms(1)] by (metis sumE surj_pair)
  show ?thesis
  proof (cases ok)
    case True
    then obtain n q where "s' = release_node t n q ''WORKER_INTERRUPTED'' now
        (update_attempts t (claim_predicates c) (\<lambda>a. (close_attempt Attempt_Abandoned now a)
           \<lparr>att_error_code := Some ''WORKER_INTERRUPTED''\<rparr>) s)" (is "_ = release_node _ _ _ _ _ ?s1")
      using r by (auto simp: abandon_def Let_def result_simps split: option.splits)
    moreover obtain a where a: "a \<in> set (attempts_of t s)" "same_attempt_key c a"
        "att_status a = Attempt_Running \<longrightarrow> claim_predicates c a"
      using assms(2) unfolding issued_def by blast
    have "spent t c l' ?s1"
      unfolding spent_def
      by (rule bexI[of _ "upd_row (claim_predicates c) (\<lambda>a. (close_attempt Attempt_Abandoned now a)
           \<lparr>att_error_code := Some ''WORKER_INTERRUPTED''\<rparr>) a"])
        (use a in \<open>auto simp: upd_row_def same_attempt_key_def\<close>)
    ultimately show ?thesis
      using r True by (simp add: abandon_claim_def spent_later)
  next
    case False
    then have "select_where t (claim_predicates c) (attempts_t s) = []"
      using r by (auto simp: abandon_def Let_def result_simps split: option.splits)
    then have "\<not> claim_predicates c a" if "a \<in> set (attempts_of t s)" for a
      using that by (auto simp: select_where_def filter_empty_conv)
    then show ?thesis
      using r False assms(2) unfolding issued_def spent_def by (auto simp: abandon_claim_def)
  qed
qed

section \<open>The claims, tokens and jobs of the scheduler\<close>

definition closer_items :: "scheduler \<Rightarrow> active_node list" where
  "closer_items \<sigma> = (case sch_closer \<sigma> of Close_Pausing xs \<Rightarrow> xs | Close_Abandoning xs \<Rightarrow> xs | _ \<Rightarrow> [])"

definition job_token :: "job \<Rightarrow> nat" where
  "job_token j = act_token (fst j)"

definition job_claim :: "job \<Rightarrow> attempt_claim" where
  "job_claim j = act_claim (fst j)"

definition item_claims :: "scheduler \<Rightarrow> attempt_claim set" where
  "item_claims \<sigma> = act_claim ` set (sch_active \<sigma>) \<union> job_claim ` set (sch_jobs \<sigma>)
     \<union> act_claim ` set (closer_items \<sigma>)"

text \<open>The item that the coordinator has in its hands while it submits its job or withdraws it.\<close>

definition sch_at_hand :: "scheduler \<Rightarrow> active_node list" where
  "sch_at_hand \<sigma> = (case sch_coordinator \<sigma> of
     Coord_Submitting item _ \<Rightarrow> [item] | Coord_Withdrawing item \<Rightarrow> [item] | _ \<Rightarrow> [])"

definition claims_held :: "scheduler \<Rightarrow> attempt_claim set" where
  "claims_held \<sigma> = item_claims \<sigma> \<union> fst ` set (sch_pending \<sigma>) \<union> act_claim ` set (sch_at_hand \<sigma>)"

lemma item_claims_coordinator [simp]: "item_claims (\<sigma>\<lparr>sch_coordinator := x\<rparr>) = item_claims \<sigma>"
  by (simp add: item_claims_def closer_items_def)

definition issued_ok :: "tenant \<Rightarrow> scheduler \<Rightarrow> wf_store \<Rightarrow> bool" where
  "issued_ok t \<sigma> s \<longleftrightarrow> (\<forall>c\<in>claims_held \<sigma>. issued t c s)"

definition tokens_ok :: "scheduler \<Rightarrow> bool" where
  "tokens_ok \<sigma> \<longleftrightarrow> distinct (map job_token (sch_jobs \<sigma>))
     \<and> (\<forall>j\<in>set (sch_jobs \<sigma>). job_token j < length (sch_tokens \<sigma>))
     \<and> (\<forall>a\<in>set (sch_at_hand \<sigma>). act_token a < length (sch_tokens \<sigma>))
     \<and> (\<forall>j\<in>set (sch_jobs \<sigma>). \<forall>a\<in>set (sch_at_hand \<sigma>). job_token j \<noteq> act_token a)"

definition idle_coordinator :: "scheduler \<Rightarrow> bool" where
  "idle_coordinator \<sigma> \<longleftrightarrow> sch_coordinator \<sigma> = Coord_Stopped
     \<or> \<not> sch_started \<sigma> \<and> sch_coordinator \<sigma> = Coord_Polling"

definition closing_ok :: "scheduler \<Rightarrow> bool" where
  "closing_ok \<sigma> \<longleftrightarrow> (\<not> sch_closed \<sigma> \<longrightarrow> sch_closer \<sigma> = Close_None)
     \<and> (\<not> sch_started \<sigma> \<longrightarrow> sch_coordinator \<sigma> = Coord_Polling)
     \<and> (case sch_closer \<sigma> of
          Close_Waiting \<Rightarrow> idle_coordinator \<sigma>
        | Close_Abandoning _ \<Rightarrow> idle_coordinator \<sigma> \<and> sch_jobs \<sigma> = [] \<and> sch_active \<sigma> = []
        | Close_Done \<Rightarrow> idle_coordinator \<sigma> \<and> sch_jobs \<sigma> = [] \<and> sch_active \<sigma> = []
        | _ \<Rightarrow> True)"

lemma issued_ok_mono:
  "issued_ok t \<sigma> s \<Longrightarrow> attempts_evolve t l s s' \<Longrightarrow> claims_held \<sigma>' \<subseteq> claims_held \<sigma> \<Longrightarrow> issued_ok t \<sigma>' s'"
  unfolding issued_ok_def using issued_evolves by blast

lemma length_set_reasons [simp]: "length (sch_tokens (set_reasons r xs \<sigma>)) = length (sch_tokens \<sigma>)"
  by (simp add: set_reasons_def)

text \<open>
  What every block does to these parts: the jobs keep their tokens but for one new job, tokens
  are only added, and but for the claim no block adds a claim.
\<close>

definition keeps_parts :: "scheduler \<Rightarrow> scheduler \<Rightarrow> bool" where
  "keeps_parts \<sigma> \<sigma>' \<longleftrightarrow> (tokens_ok \<sigma> \<longrightarrow> tokens_ok \<sigma>') \<and> (closing_ok \<sigma> \<longrightarrow> closing_ok \<sigma>')
     \<and> claims_held \<sigma>' \<subseteq> claims_held \<sigma>"

lemma set_phase_jobs: "map fst (sch_jobs (set_phase i ph \<sigma>)) = map fst (sch_jobs \<sigma>)"
  by (simp add: set_phase_def)

lemma set_phase_tokens: "map job_token (sch_jobs (set_phase i ph \<sigma>)) = map job_token (sch_jobs \<sigma>)"
  using arg_cong[OF set_phase_jobs, of "map act_token"] by (simp add: job_token_def[abs_def] comp_def)

lemma set_phase_claims: "job_claim ` set (sch_jobs (set_phase i ph \<sigma>)) = job_claim ` set (sch_jobs \<sigma>)"
proof -
  have "map job_claim (sch_jobs (set_phase i ph \<sigma>)) = map job_claim (sch_jobs \<sigma>)"
    using arg_cong[OF set_phase_jobs, of "map act_claim"] by (simp add: job_claim_def[abs_def] comp_def)
  then show ?thesis by (metis set_map)
qed

lemma set_phase_parts [simp]: "keeps_parts \<sigma> (set_phase i ph \<sigma>)"
proof -
  have "tokens_ok (set_phase i ph \<sigma>) = tokens_ok \<sigma>"
  proof -
    have "job_token ` set (sch_jobs (set_phase i ph \<sigma>)) = job_token ` set (sch_jobs \<sigma>)"
      using set_phase_tokens by (metis set_map)
    then have all: "(\<forall>j\<in>set (sch_jobs (set_phase i ph \<sigma>)). P (job_token j))
        = (\<forall>j\<in>set (sch_jobs \<sigma>). P (job_token j))" for P
      by (metis (no_types, lifting) image_iff)
    have same: "sch_at_hand (set_phase i ph \<sigma>) = sch_at_hand \<sigma>" "sch_tokens (set_phase i ph \<sigma>) = sch_tokens \<sigma>"
      by (simp_all add: sch_at_hand_def set_phase_def)
    show ?thesis
      unfolding tokens_ok_def set_phase_tokens same all[of "\<lambda>k. k < length (sch_tokens \<sigma>)"]
        all[of "\<lambda>k. \<forall>a\<in>set (sch_at_hand \<sigma>). k \<noteq> act_token a"] ..
  qed
  moreover have "claims_held (set_phase i ph \<sigma>) = claims_held \<sigma>"
    unfolding claims_held_def item_claims_def set_phase_claims
    by (simp add: set_phase_def sch_pending_def sch_at_hand_def closer_items_def)
  moreover have "closing_ok (set_phase i ph \<sigma>) = closing_ok \<sigma>"
    by (simp add: closing_ok_def set_phase_def idle_coordinator_def cong: closer.case_cong)
  ultimately show ?thesis by (simp add: keeps_parts_def)
qed

section \<open>The coordinator's blocks\<close>

lemma keeps_coordinator:
  assumes "sch_started \<sigma> \<or> sch_coordinator \<sigma>' = Coord_Polling"
    and "\<not> idle_coordinator \<sigma>" and "sch_closed \<sigma>' = sch_closed \<sigma>" "sch_started \<sigma>' = sch_started \<sigma>"
    "sch_closer \<sigma>' = sch_closer \<sigma>"
    and "tokens_ok \<sigma> \<longrightarrow> tokens_ok \<sigma>'" "claims_held \<sigma>' \<subseteq> claims_held \<sigma>"
  shows "keeps_parts \<sigma> \<sigma>'"
  using assms by (auto simp: keeps_parts_def closing_ok_def split: closer.splits)

lemma closing_busy:
  "closing_ok \<sigma> \<Longrightarrow> sch_coordinator \<sigma> \<noteq> Coord_Polling \<Longrightarrow> sch_started \<sigma>"
  by (auto simp: closing_ok_def)

lemma keeps_idle_change:
  assumes "sch_jobs \<sigma>' = sch_jobs \<sigma>" "length (sch_tokens \<sigma>') = length (sch_tokens \<sigma>)"
    "sch_active \<sigma>' = sch_active \<sigma>" "sch_closer \<sigma>' = sch_closer \<sigma>" "set (sch_pending \<sigma>') \<subseteq> set (sch_pending \<sigma>)"
    "set (sch_at_hand \<sigma>') \<subseteq> set (sch_at_hand \<sigma>)"
  shows "(tokens_ok \<sigma> \<longrightarrow> tokens_ok \<sigma>') \<and> claims_held \<sigma>' \<subseteq> claims_held \<sigma>"
  using assms by (auto simp: tokens_ok_def claims_held_def item_claims_def closer_items_def)

lemma coordinate_parts:
  assumes "sch_coordinator \<sigma> = Coord_Polling" "sch_started \<sigma>"
  shows "keeps_parts \<sigma> (coordinate mono_now \<sigma>)"
  using assms keeps_idle_change[of "coordinate mono_now \<sigma>" \<sigma>]
  by (intro keeps_coordinator) (auto simp: coordinate_def idle_coordinator_def sch_pending_def sch_at_hand_def)

lemma heartbeat_parts:
  assumes "sch_coordinator \<sigma> = Coord_Beating (item # rest)" and "closing_ok \<sigma>"
  shows "keeps_parts \<sigma> (fst (heartbeat t clk beat item rest (\<sigma>, s)))"
  using assms(1) closing_busy[OF assms(2)] keeps_idle_change[of "fst (heartbeat t clk beat item rest (\<sigma>, s))" \<sigma>]
  by (intro keeps_coordinator)
    (auto simp: heartbeat_def set_reasons_def idle_coordinator_def sch_pending_def sch_at_hand_def Let_def split: prod.splits)

lemma reads_capacity_parts:
  assumes "sch_coordinator \<sigma> = Coord_Beating []" and "closing_ok \<sigma>"
  shows "keeps_parts \<sigma> (reads_capacity \<sigma>)"
  using assms(1) closing_busy[OF assms(2)] keeps_idle_change[of "reads_capacity \<sigma>" \<sigma>]
  by (intro keeps_coordinator) (auto simp: reads_capacity_def idle_coordinator_def sch_pending_def sch_at_hand_def Let_def)

lemma register_parts:
  assumes "sch_coordinator \<sigma> = Coord_Registering (e # rest)" and "closing_ok \<sigma>"
  shows "keeps_parts \<sigma> (fst (register_claim t now e rest (\<sigma>, s)))"
proof -
  have st: "sch_started \<sigma>" "\<not> idle_coordinator \<sigma>"
    using assms(1) closing_busy[OF assms(2)] by (simp_all add: idle_coordinator_def)
  show ?thesis
    by (rule keeps_coordinator)
      (use st assms(1) in \<open>auto simp: register_claim_def new_active_def tokens_ok_def claims_held_def item_claims_def
        sch_pending_def sch_at_hand_def closer_items_def job_token_def job_claim_def Let_def less_Suc_eq\<close>)
qed

lemma submit_parts:
  assumes "sch_coordinator \<sigma> = Coord_Submitting item rest" and "closing_ok \<sigma>"
  shows "keeps_parts \<sigma> (submit_item accepts item rest \<sigma>)"
proof -
  have st: "sch_started \<sigma>" "\<not> idle_coordinator \<sigma>"
    using assms(1) closing_busy[OF assms(2)] by (simp_all add: idle_coordinator_def)
  show ?thesis
    by (rule keeps_coordinator)
      (use st assms(1) in \<open>auto simp: submit_item_def tokens_ok_def claims_held_def item_claims_def
        sch_pending_def sch_at_hand_def closer_items_def job_token_def job_claim_def\<close>)
qed

lemma withdraw_parts:
  assumes "sch_coordinator \<sigma> = Coord_Withdrawing item" and "closing_ok \<sigma>"
  shows "keeps_parts \<sigma> (fst (withdraw_item t now item (\<sigma>, s)))"
  using assms(1) closing_busy[OF assms(2)] keeps_idle_change[of "fst (withdraw_item t now item (\<sigma>, s))" \<sigma>]
  by (intro keeps_coordinator) (auto simp: withdraw_item_def idle_coordinator_def sch_pending_def sch_at_hand_def)

lemma claim_available_parts:
  assumes at: "sch_coordinator \<sigma> = Coord_Claiming capacity kinds reserve" and "closing_ok \<sigma>"
    and inv: "wf_inv t l s" "l \<le> clk 1"
    and r: "claim_available t clk capacity kinds reserve (\<sigma>, s) = (\<sigma>', s')"
  shows "(tokens_ok \<sigma> \<longrightarrow> tokens_ok \<sigma>') \<and> closing_ok \<sigma>'
    \<and> (\<forall>c\<in>claims_held \<sigma>'. c \<in> claims_held \<sigma> \<or> issued t c s')"
proof -
  have st: "sch_started \<sigma>" "\<not> idle_coordinator \<sigma>"
    using at closing_busy[OF assms(2)] by (simp_all add: idle_coordinator_def)
  have issued: "issued t (fst e) s1"
    if cr: "claim_ready t (sch_owner \<sigma>) until capacity kinds reserve (clk 1) s = Inr (s1, cs)"
      and es: "traverse (claim_info t s1) cs = Inr es" "e \<in> set es" for s1 cs es until e
  proof -
    obtain picked where "map fst es = cs" "\<forall>c\<in>set cs. granted t c s1"
      by (rule claim_infos[OF cr inv es(1)])
    then have "granted t (fst e) s1"
      using es(2) by auto
    then show ?thesis
      unfolding granted_def issued_def same_attempt_key_def claim_predicates_def by blast
  qed
  have "closing_ok \<sigma>'"
    using r assms(2) st by (auto simp: claim_available_def closing_ok_def split: sum.splits closer.splits)
  moreover have "tokens_ok \<sigma> \<longrightarrow> tokens_ok \<sigma>'"
    using r by (auto simp: claim_available_def tokens_ok_def sch_at_hand_def split: sum.splits)
  moreover have "c \<in> claims_held \<sigma> \<or> issued t c s'" if "c \<in> claims_held \<sigma>'" for c
    using r that issued at
    by (auto simp: claim_available_def claims_held_def sch_pending_def sch_at_hand_def split: sum.splits if_splits)
  ultimately show ?thesis by blast
qed

end
