(* ===== verification/Scheduler_Safety.thy ===== *)
theory Scheduler_Safety
  imports Scheduler_Claims
begin

text \<open>
  The invariant of the scheduler's machine, kept by every action, and the facts on reachable
  states that follow from it.
\<close>

section \<open>The workers' and the callers' blocks\<close>

lemma finish_parts: "keeps_parts \<sigma> (finish_active item \<sigma>)"
  by (auto simp: keeps_parts_def finish_active_def tokens_ok_def closing_ok_def idle_coordinator_def
      claims_held_def item_claims_def sch_pending_def sch_at_hand_def closer_items_def distinct_map_filter
      split: closer.splits)

lemma enter_phase_parts: "enter_phase i \<sigma> r = (\<sigma>', s') \<Longrightarrow> keeps_parts \<sigma> \<sigma>'"
  by (auto simp: enter_phase_def)

lemma worker_parts:
  assumes "worker_action t clk a (\<sigma>, s) = Some (\<sigma>', s')"
  shows "keeps_parts \<sigma> \<sigma>'"
  using assms finish_parts enter_phase_parts
  by (cases a) (auto split: option.splits prod.splits job_phase.splits)

lemma keeps_parts_same:
  assumes "sch_jobs \<sigma>' = sch_jobs \<sigma>" "length (sch_tokens \<sigma>') = length (sch_tokens \<sigma>)"
    "sch_active \<sigma>' = sch_active \<sigma>" "sch_closer \<sigma>' = sch_closer \<sigma>" "sch_coordinator \<sigma>' = sch_coordinator \<sigma>"
    "sch_closed \<sigma>' = sch_closed \<sigma>" "sch_started \<sigma>' = sch_started \<sigma>"
  shows "keeps_parts \<sigma> \<sigma>'"
proof -
  have "idle_coordinator \<sigma>' = idle_coordinator \<sigma>"
    by (simp add: idle_coordinator_def assms)
  then have "closing_ok \<sigma>' = closing_ok \<sigma>"
    unfolding closing_ok_def by (simp add: assms cong: closer.case_cong)
  moreover have "claims_held \<sigma>' = claims_held \<sigma>"
    by (simp add: claims_held_def item_claims_def closer_items_def sch_pending_def sch_at_hand_def assms)
  moreover have "sch_at_hand \<sigma>' = sch_at_hand \<sigma>"
    by (simp add: sch_at_hand_def assms)
  ultimately show ?thesis
    by (simp add: keeps_parts_def tokens_ok_def assms)
qed

lemma caller_same_parts [simp]:
  "keeps_parts \<sigma> \<sigma>"
  "keeps_parts \<sigma> (check_boundary rid \<sigma>)"
  "keeps_parts \<sigma> (cancel_tokens rid \<sigma>)"
  by (rule keeps_parts_same; simp add: check_boundary_def cancel_tokens_def set_reasons_def Let_def)+

lemma caller_block_parts:
  "resume_boundary t now rid active (\<sigma>, s) = (\<sigma>', s') \<Longrightarrow> keeps_parts \<sigma> \<sigma>'"
  "cancel_run t rid now (\<sigma>, s) = (\<sigma>', s') \<Longrightarrow> keeps_parts \<sigma> \<sigma>'"
  "if_allowed (resume_after_boundary rid \<sigma>) s = Some (\<sigma>', s') \<Longrightarrow> keeps_parts \<sigma> \<sigma>'"
  by (rule keeps_parts_same; auto simp: resume_boundary_def cancel_run_def Let_def if_allowed_def
      resume_after_boundary_def ensure_eq_Inr split: prod.splits if_splits sum.splits)+

lemma start_parts:
  assumes "if_allowed (start_scheduler \<sigma>) s = Some (\<sigma>', s')"
  shows "keeps_parts \<sigma> \<sigma>'"
proof -
  have \<sigma>': "\<sigma>' = \<sigma>\<lparr>sch_started := True\<rparr>" "\<not> sch_closed \<sigma>"
    using assms by (auto simp: if_allowed_def start_scheduler_def ensure_eq_Inr split: sum.splits)
  then show ?thesis
    by (auto simp: keeps_parts_def tokens_ok_def closing_ok_def claims_held_def item_claims_def closer_items_def
        sch_pending_def sch_at_hand_def)
qed

lemma sch_pending_update [simp]:
  "sch_pending (\<sigma>\<lparr>sch_closer := x\<rparr>) = sch_pending \<sigma>"
  "sch_pending (\<sigma>\<lparr>sch_tokens := y\<rparr>) = sch_pending \<sigma>"
  "sch_pending (\<sigma>\<lparr>sch_jobs := j\<rparr>) = sch_pending \<sigma>"
  "sch_pending (\<sigma>\<lparr>sch_active := z\<rparr>) = sch_pending \<sigma>"
  "sch_pending (\<sigma>\<lparr>sch_boundary := b\<rparr>) = sch_pending \<sigma>"
  "sch_pending (\<sigma>\<lparr>sch_closed := c\<rparr>) = sch_pending \<sigma>"
  by (simp_all add: sch_pending_def)

lemma sch_at_hand_update [simp]:
  "sch_at_hand (\<sigma>\<lparr>sch_closer := x\<rparr>) = sch_at_hand \<sigma>"
  "sch_at_hand (\<sigma>\<lparr>sch_tokens := y\<rparr>) = sch_at_hand \<sigma>"
  "sch_at_hand (\<sigma>\<lparr>sch_jobs := j\<rparr>) = sch_at_hand \<sigma>"
  "sch_at_hand (\<sigma>\<lparr>sch_active := z\<rparr>) = sch_at_hand \<sigma>"
  "sch_at_hand (\<sigma>\<lparr>sch_boundary := b\<rparr>) = sch_at_hand \<sigma>"
  "sch_at_hand (\<sigma>\<lparr>sch_closed := c\<rparr>) = sch_at_hand \<sigma>"
  by (simp_all add: sch_at_hand_def)

lemma close_parts:
  "closing_ok \<sigma> \<Longrightarrow> keeps_parts \<sigma> (close_scheduler \<sigma>)"
  "sch_closer \<sigma> = Close_Pausing (item # rest) \<Longrightarrow> close_item t now item rest (\<sigma>, s) = (\<sigma>', s') \<Longrightarrow>
     keeps_parts \<sigma> \<sigma>'"
  "sch_closer \<sigma> = Close_Pausing [] \<Longrightarrow> keeps_parts \<sigma> (\<sigma>\<lparr>sch_closer := Close_Joining\<rparr>)"
  "sch_closer \<sigma> = Close_Joining \<Longrightarrow> sch_started \<sigma> \<longrightarrow> sch_coordinator \<sigma> = Coord_Stopped \<Longrightarrow>
     keeps_parts \<sigma> (shutdown_executor dropped \<sigma>)"
  "sch_closer \<sigma> = Close_Waiting \<Longrightarrow> sch_jobs \<sigma> = [] \<Longrightarrow> keeps_parts \<sigma> (close_remaining \<sigma>)"
  "sch_closer \<sigma> = Close_Abandoning (item # rest) \<Longrightarrow> close_abandon t now item rest (\<sigma>, s) = (\<sigma>', s') \<Longrightarrow>
     keeps_parts \<sigma> \<sigma>'"
  "sch_closer \<sigma> = Close_Abandoning [] \<Longrightarrow> keeps_parts \<sigma> (\<sigma>\<lparr>sch_closer := Close_Done\<rparr>)"
  by (auto simp: keeps_parts_def close_scheduler_def close_item_def set_reasons_def shutdown_executor_def
      close_remaining_def close_abandon_def tokens_ok_def closing_ok_def idle_coordinator_def
      claims_held_def item_claims_def closer_items_def distinct_map_filter split: if_splits)

lemma caller_parts:
  assumes act: "caller_action t clk a (\<sigma>, s) = Some (\<sigma>', s')" and ok: "closing_ok \<sigma>"
  shows "keeps_parts \<sigma> \<sigma>'"
proof (cases a)
  case Start
  then show ?thesis using act start_parts by simp
next
  case (Resume_After_Boundary rid)
  then show ?thesis using act caller_block_parts(3) by simp
next
  case Check_Boundary
  then show ?thesis using act by (auto split: list.splits)
next
  case Resume_Boundary
  then show ?thesis using act by (auto split: list.splits dest: caller_block_parts(1))
next
  case (Cancel_Tokens rid)
  then show ?thesis using act by auto
next
  case Cancel_Run
  then show ?thesis using act by (auto split: list.splits dest: caller_block_parts(2))
next
  case Close
  then show ?thesis using act close_parts(1)[OF ok] by auto
next
  case Close_Item
  then show ?thesis using act close_parts(3) by (auto split: closer.splits list.splits dest: close_parts(2))
next
  case (Shutdown_Executor dropped)
  then show ?thesis using act close_parts(4) by (auto split: if_splits)
next
  case Close_Remaining
  then show ?thesis using act close_parts(5) by (auto split: if_splits)
next
  case Close_Abandon
  then show ?thesis using act close_parts(7) by (auto split: closer.splits list.splits dest: close_parts(6))
qed (use act in simp_all)

section \<open>The invariant\<close>

lemma coordinator_parts:
  assumes act: "coordinator_action t clk a (\<sigma>, s) = Some (\<sigma>', s')" and ok: "closing_ok \<sigma>"
    and inv: "wf_inv t l s" "l \<le> clk 1"
  shows "(tokens_ok \<sigma> \<longrightarrow> tokens_ok \<sigma>') \<and> closing_ok \<sigma>'
    \<and> (\<forall>c\<in>claims_held \<sigma>'. c \<in> claims_held \<sigma> \<or> issued t c s')"
proof -
  have kept: "(tokens_ok \<sigma> \<longrightarrow> tokens_ok \<sigma>') \<and> closing_ok \<sigma>'
      \<and> (\<forall>c\<in>claims_held \<sigma>'. c \<in> claims_held \<sigma> \<or> issued t c s')" if "keeps_parts \<sigma> \<sigma>'"
    using that ok by (auto simp: keeps_parts_def)
  show ?thesis
  proof (cases a)
    case (Coordinate mono_now)
    then show ?thesis using act kept coordinate_parts by (auto split: if_splits)
  next
    case (Heartbeat beat)
    then obtain item rest where "sch_coordinator \<sigma> = Coord_Beating (item # rest)"
        "heartbeat t clk beat item rest (\<sigma>, s) = (\<sigma>', s')"
      using act by (auto split: coordinator.splits list.splits)
    then show ?thesis using kept heartbeat_parts[OF _ ok] by (metis fst_conv)
  next
    case Read_Capacity
    then show ?thesis
      using act kept reads_capacity_parts[OF _ ok] by (auto split: coordinator.splits list.splits)
  next
    case Claim_Available
    then obtain capacity kinds reserve where "sch_coordinator \<sigma> = Coord_Claiming capacity kinds reserve"
        "claim_available t clk capacity kinds reserve (\<sigma>, s) = (\<sigma>', s')"
      using act by (auto split: coordinator.splits)
    then show ?thesis using claim_available_parts[where clk = clk, OF _ ok inv] by blast
  next
    case Register
    show ?thesis
    proof (cases "sch_coordinator \<sigma>")
      case (Coord_Registering es)
      have "sch_started \<sigma>"
        using Coord_Registering ok by (intro closing_busy) simp_all
      then have "keeps_parts \<sigma> (\<sigma>\<lparr>sch_coordinator := Coord_Polling\<rparr>)" if "es = []"
        using that Coord_Registering keeps_idle_change[of "\<sigma>\<lparr>sch_coordinator := Coord_Polling\<rparr>" \<sigma>]
        by (intro keeps_coordinator) (auto simp: idle_coordinator_def sch_pending_def sch_at_hand_def)
      moreover have "keeps_parts \<sigma> (fst (register_claim t (clk 0) e rest (\<sigma>, s)))" if "es = e # rest" for e rest
        using register_parts[OF _ ok] Coord_Registering that by blast
      ultimately show ?thesis
        using act Register Coord_Registering kept by (cases es) auto
    qed (use act Register in simp_all)
  next
    case (Submit_Job accepts)
    then show ?thesis
      using act kept submit_parts[OF _ ok] by (auto split: coordinator.splits)
  next
    case Withdraw
    then obtain item where "sch_coordinator \<sigma> = Coord_Withdrawing item" "withdraw_item t (clk 0) item (\<sigma>, s) = (\<sigma>', s')"
      using act by (auto split: coordinator.splits)
    then show ?thesis
      using kept withdraw_parts[OF _ ok] by (metis fst_conv)
  qed (use act in simp_all)
qed

definition sched_inv :: "tenant \<Rightarrow> sched_state \<Rightarrow> bool" where
  "sched_inv t x \<longleftrightarrow> (case x of (l, \<sigma>, s) \<Rightarrow>
     store_inv (l, s) \<and> pool_ok \<sigma> \<and> tokens_ok \<sigma> \<and> closing_ok \<sigma> \<and> issued_ok t \<sigma> s)"

lemma action_parts:
  assumes act: "exec_action t clk a (\<sigma>, s) = Some (\<sigma>', s')" and ok: "closing_ok \<sigma>"
    and inv: "wf_inv t l s" "l \<le> clk 1"
  shows "(tokens_ok \<sigma> \<longrightarrow> tokens_ok \<sigma>') \<and> closing_ok \<sigma>'
    \<and> (\<forall>c\<in>claims_held \<sigma>'. c \<in> claims_held \<sigma> \<or> issued t c s')"
proof -
  have kept: "(tokens_ok \<sigma> \<longrightarrow> tokens_ok \<sigma>') \<and> closing_ok \<sigma>'
      \<and> (\<forall>c\<in>claims_held \<sigma>'. c \<in> claims_held \<sigma> \<or> issued t c s')" if "keeps_parts \<sigma> \<sigma>'"
    using that ok by (auto simp: keeps_parts_def)
  show ?thesis
    using act
  proof (cases rule: exec_action_cases)
    case coordinator
    then show ?thesis by (rule coordinator_parts[where clk = clk, OF _ ok inv])
  next
    case worker
    then show ?thesis using kept worker_parts by blast
  next
    case caller
    then show ?thesis using kept caller_parts ok by blast
  next
    case (other u c)
    then show ?thesis using kept by simp
  qed
qed

lemma sched_step_inv:
  assumes "sched_inv t x" and "sched_step t x y"
  shows "sched_inv t y"
proof -
  obtain l \<sigma> s l' \<sigma>' s' where xy: "x = (l, \<sigma>, s)" "y = (l', \<sigma>', s')"
    by (metis surj_pair)
  from assms(2) obtain a clk where act: "exec_action t clk a (\<sigma>, s) = Some (\<sigma>', s')"
      and time: "block_time clk l l'"
    unfolding xy by cases (auto simp: block_time_def)
  have inv: "store_inv (l, s)" "pool_ok \<sigma>" "tokens_ok \<sigma>" "closing_ok \<sigma>" "issued_ok t \<sigma> s"
    using assms(1) by (simp_all add: sched_inv_def xy)
  have wf: "wf_inv t l s"
    using inv(1) by (simp add: store_inv_def)
  have step: "wf_step (l, s) (l', s')"
    by (rule action_sim[OF time act])
  have "store_inv (l', s')"
    by (rule workflow.step_inv[OF inv(1) step])
  moreover have "pool_ok \<sigma>'"
    by (rule action_pool[OF act inv(2) wf block_timeD(6)[OF time]])
  moreover have parts: "(tokens_ok \<sigma> \<longrightarrow> tokens_ok \<sigma>') \<and> closing_ok \<sigma>'
      \<and> (\<forall>c\<in>claims_held \<sigma>'. c \<in> claims_held \<sigma> \<or> issued t c s')"
    by (rule action_parts[OF act inv(4) wf block_timeD(6)[OF time]])
  moreover have "issued_ok t \<sigma>' s'"
    using parts inv(5) issued_evolves[OF wf_step_evolves[OF step]] unfolding issued_ok_def by blast
  ultimately show ?thesis
    using inv(3) by (simp add: sched_inv_def xy)
qed

lemma sched_initial_inv:
  assumes "sched_initial x" shows "sched_inv t x"
proof -
  obtain l \<sigma> s where x: "x = (l, \<sigma>, s)" by (metis surj_pair)
  obtain adapters max_workers lease heartbeat poll owner autostart mono_now where
      "new_scheduler adapters max_workers lease heartbeat poll owner autostart mono_now = Inr \<sigma>"
      and r: "reachable (l, s)"
    using assms unfolding sched_initial_def x by auto
  then have \<sigma>: "1 \<le> max_workers" "\<sigma> = \<lparr>sch_adapters = adapters, sch_max_workers = max_workers, sch_lease_duration = lease,
      sch_heartbeat_interval = heartbeat, sch_owner = ''workflow-worker:'' @ owner, sch_active = [],
      sch_boundary = {}, sch_closed = False, sch_started = autostart, sch_last_heartbeat = mono_now,
      sch_tokens = [], sch_jobs = [], sch_coordinator = Coord_Polling, sch_closer = Close_None,
      sch_checking = [], sch_resuming = [], sch_cancelling = []\<rparr>"
    by (auto simp: new_scheduler_def ensure_eq_Inr)
  have "store_inv (l, s)"
    using reachable_wf_inv[OF r] by (simp add: store_inv_def)
  then show ?thesis
    using \<sigma>(1) by (simp add: x \<sigma>(2) sched_inv_def pool_ok_def sch_reserved_def pool_infos_def sch_pending_def
        sch_at_hand_def claiming_ok_def tokens_ok_def closing_ok_def issued_ok_def claims_held_def item_claims_def
        closer_items_def slot_kept_def List.map_filter_simps)
qed

interpretation pool: invariant_system sched_initial "sched_step t" "sched_inv t" for t
  by unfold_locales (rule sched_initial_inv, assumption, rule sched_step_inv)

definition sched_reachable :: "tenant \<Rightarrow> sched_state \<Rightarrow> bool" where
  "sched_reachable t x \<longleftrightarrow> (\<exists>x0. sched_initial x0 \<and> (sched_step t)\<^sup>*\<^sup>* x0 x)"

lemma sched_reachable_inv: "sched_reachable t x \<Longrightarrow> sched_inv t x"
  unfolding sched_reachable_def using pool.reachable_inv by blast

lemma sched_reachable_store: "sched_reachable t (l, \<sigma>, s) \<Longrightarrow> reachable (l, s)"
  unfolding sched_reachable_def reachable_def
  using scheduled.reachable_sim[of _ t "(l, \<sigma>, s)"] by (fastforce simp: initial_def sched_store_def)

end
