(* ===== verification/Scheduler_Release.thy ===== *)
theory Scheduler_Release
  imports Scheduler_Safety
begin

text \<open>
  The way of one job through \<open>_execute\<close>, among the actions of all other threads: once the
  adapter has ended, the job leaves with its claim spent, unless the run was cancelled by a
  caller, or the adapter itself asked for the run to be cancelled.
\<close>

section \<open>The job and the token\<close>

definition job_at :: "nat \<Rightarrow> scheduler \<Rightarrow> job list" where
  "job_at i \<sigma> = filter (\<lambda>j. job_token j = i) (sch_jobs \<sigma>)"

definition token_grows :: "token \<Rightarrow> token \<Rightarrow> bool" where
  "token_grows x y \<longleftrightarrow> x = None \<or> y = x"

definition tokens_grow :: "scheduler \<Rightarrow> scheduler \<Rightarrow> bool" where
  "tokens_grow \<sigma> \<sigma>' \<longleftrightarrow> length (sch_tokens \<sigma>) \<le> length (sch_tokens \<sigma>')
     \<and> (\<forall>i<length (sch_tokens \<sigma>). token_grows (sch_tokens \<sigma> ! i) (sch_tokens \<sigma>' ! i))"

lemma tokens_grow_refl [simp]: "tokens_grow \<sigma> \<sigma>"
  by (simp add: tokens_grow_def token_grows_def)

lemma tokens_grow_same [intro]: "sch_tokens \<sigma>' = sch_tokens \<sigma> \<Longrightarrow> tokens_grow \<sigma> \<sigma>'"
  by (simp add: tokens_grow_def token_grows_def)

lemma set_reasons_grow: "sch_tokens \<sigma>0 = sch_tokens \<sigma> \<Longrightarrow> tokens_grow \<sigma> (set_reasons r xs \<sigma>0)"
  by (auto simp: tokens_grow_def token_grows_def set_reasons_def set_reason_def split: option.splits)

lemma set_reasons_jobs [simp]: "job_at i (set_reasons r xs \<sigma>) = job_at i \<sigma>"
  by (simp add: job_at_def set_reasons_def)

text \<open>What the actions of other threads do to job \<open>i\<close>.\<close>

definition job_kept :: "nat \<Rightarrow> scheduler \<Rightarrow> scheduler \<Rightarrow> bool" where
  "job_kept i \<sigma> \<sigma>' \<longleftrightarrow> tokens_grow \<sigma> \<sigma>' \<and> job_at i \<sigma>' = job_at i \<sigma>"

lemma job_kept_same [intro]:
  "sch_tokens \<sigma>' = sch_tokens \<sigma> \<Longrightarrow> sch_jobs \<sigma>' = sch_jobs \<sigma> \<Longrightarrow> job_kept i \<sigma> \<sigma>'"
  by (auto simp: job_kept_def job_at_def)

lemma job_kept_coordinator [simp]: "job_kept i \<sigma> (\<sigma>\<lparr>sch_coordinator := x\<rparr>)"
  by (rule job_kept_same) simp_all

text \<open>Job \<open>i\<close> is not the one that the coordinator is submitting.\<close>

definition not_at_hand :: "nat \<Rightarrow> scheduler \<Rightarrow> bool" where
  "not_at_hand i \<sigma> \<longleftrightarrow> i \<notin> act_token ` set (sch_at_hand \<sigma>)"

lemma not_at_hand_same: "sch_coordinator \<sigma>' = sch_coordinator \<sigma> \<Longrightarrow> not_at_hand i \<sigma>' = not_at_hand i \<sigma>"
  by (simp add: not_at_hand_def sch_at_hand_def)

lemma worker_coordinator:
  "worker_action t clk a (\<sigma>, s) = Some (\<sigma>', s') \<Longrightarrow> sch_coordinator \<sigma>' = sch_coordinator \<sigma>"
  by (cases a) (auto simp: enter_phase_def set_phase_def finish_active_def split: option.splits prod.splits job_phase.splits)

lemma caller_coordinator:
  "caller_action t clk a (\<sigma>, s) = Some (\<sigma>', s') \<Longrightarrow> sch_coordinator \<sigma>' = sch_coordinator \<sigma>"
  by (cases a) (auto simp: if_allowed_def start_scheduler_def resume_after_boundary_def check_boundary_def
      resume_boundary_def cancel_tokens_def cancel_run_def close_scheduler_def close_item_def shutdown_executor_def
      close_remaining_def close_abandon_def set_reasons_def Let_def ensure_eq_Inr
      split: if_splits sum.splits list.splits prod.splits closer.splits)

lemma coordinator_not_at_hand:
  assumes act: "coordinator_action t clk a (\<sigma>, s) = Some (\<sigma>', s')" and "i < length (sch_tokens \<sigma>)" and "not_at_hand i \<sigma>"
  shows "not_at_hand i \<sigma>'"
proof (cases a)
  case (Coordinate mono_now)
  then show ?thesis
    using act by (auto simp: coordinate_def not_at_hand_def sch_at_hand_def split: if_splits)
next
  case (Heartbeat beat)
  then obtain item rest where "heartbeat t clk beat item rest (\<sigma>, s) = (\<sigma>', s')"
    using act by (auto split: coordinator.splits list.splits)
  then show ?thesis
    by (auto simp: heartbeat_def set_reasons_def not_at_hand_def sch_at_hand_def Let_def split: prod.splits if_splits)
next
  case Read_Capacity
  then show ?thesis
    using act by (auto simp: reads_capacity_def not_at_hand_def sch_at_hand_def Let_def split: coordinator.splits list.splits if_splits)
next
  case Claim_Available
  then obtain capacity kinds reserve where "claim_available t clk capacity kinds reserve (\<sigma>, s) = (\<sigma>', s')"
    using act by (auto split: coordinator.splits)
  then show ?thesis
    by (auto simp: claim_available_def not_at_hand_def sch_at_hand_def split: sum.splits)
next
  case Register
  have "not_at_hand i \<sigma>'" if "register_claim t (clk 0) e rest (\<sigma>, s) = (\<sigma>', s')" for e rest
    using that assms(2) by (auto simp: register_claim_def new_active_def not_at_hand_def sch_at_hand_def Let_def split: if_splits)
  then show ?thesis
    using act Register by (auto simp: not_at_hand_def sch_at_hand_def split: coordinator.splits list.splits)
next
  case (Submit_Job accepts)
  then show ?thesis
    using act assms(3) by (auto simp: submit_item_def not_at_hand_def sch_at_hand_def split: coordinator.splits if_splits)
next
  case Withdraw
  then show ?thesis
    using act by (auto simp: withdraw_item_def not_at_hand_def sch_at_hand_def split: coordinator.splits)
qed (use act in simp_all)

lemma coordinator_kept:
  assumes act: "coordinator_action t clk a (\<sigma>, s) = Some (\<sigma>', s')" and i: "i < length (sch_tokens \<sigma>)"
    and free: "not_at_hand i \<sigma>"
  shows "job_kept i \<sigma> \<sigma>'"
proof (cases a)
  case (Coordinate mono_now)
  then show ?thesis using act by (auto simp: coordinate_def split: if_splits)
next
  case (Heartbeat beat)
  then obtain item rest where "heartbeat t clk beat item rest (\<sigma>, s) = (\<sigma>', s')"
    using act by (auto split: coordinator.splits list.splits)
  then show ?thesis
    by (auto simp: heartbeat_def job_kept_def Let_def job_at_def set_reasons_grow
        split: prod.splits if_splits) (simp add: set_reasons_def)
next
  case Read_Capacity
  then show ?thesis
    using act by (auto simp: reads_capacity_def Let_def split: coordinator.splits list.splits)
next
  case Claim_Available
  then obtain capacity kinds reserve where "claim_available t clk capacity kinds reserve (\<sigma>, s) = (\<sigma>', s')"
    using act by (auto split: coordinator.splits)
  then show ?thesis by (auto simp: claim_available_def split: sum.splits)
next
  case Register
  have "job_kept i \<sigma> \<sigma>'" if "register_claim t (clk 0) e rest (\<sigma>, s) = (\<sigma>', s')" for e rest
    using that i
    by (auto simp: register_claim_def job_kept_def Let_def job_at_def tokens_grow_def token_grows_def
        nth_append split: if_splits)
  then show ?thesis
    using act Register by (auto split: coordinator.splits list.splits)
next
  case (Submit_Job accepts)
  then show ?thesis
    using act free by (auto simp: submit_item_def job_kept_def tokens_grow_same job_at_def job_token_def not_at_hand_def
        sch_at_hand_def split: coordinator.splits)
next
  case Withdraw
  then show ?thesis
    using act by (auto simp: withdraw_item_def split: coordinator.splits)
qed (use act in simp_all)

lemma caller_kept:
  assumes act: "caller_action t clk a (\<sigma>, s) = Some (\<sigma>', s')"
    and busy: "\<forall>j\<in>set (job_at i \<sigma>). snd j \<noteq> Job_Submitted"
  shows "job_kept i \<sigma> \<sigma>'"
proof (cases a)
  case Start
  then show ?thesis
    using act by (auto simp: if_allowed_def start_scheduler_def ensure_eq_Inr split: sum.splits)
next
  case (Resume_After_Boundary rid)
  then show ?thesis
    using act by (auto simp: if_allowed_def resume_after_boundary_def ensure_eq_Inr split: sum.splits)
next
  case Check_Boundary
  then show ?thesis using act by (auto simp: check_boundary_def Let_def split: list.splits)
next
  case Resume_Boundary
  then show ?thesis
    using act by (auto simp: resume_boundary_def Let_def split: list.splits prod.splits if_splits)
next
  case (Cancel_Tokens rid)
  then show ?thesis
    using act by (auto simp: cancel_tokens_def job_kept_def job_at_def set_reasons_grow)
      (simp add: set_reasons_def)
next
  case Cancel_Run
  then show ?thesis using act by (auto simp: cancel_run_def split: list.splits)
next
  case Close
  then show ?thesis using act by (auto simp: close_scheduler_def)
next
  case Close_Item
  then show ?thesis
    using act by (auto simp: close_item_def job_kept_def job_at_def set_reasons_grow
        split: closer.splits list.splits) (simp add: set_reasons_def)
next
  case (Shutdown_Executor dropped)
  then have "\<sigma>' = shutdown_executor dropped \<sigma>"
    using act by (auto split: if_splits)
  moreover have "job_at i (shutdown_executor dropped \<sigma>) = job_at i \<sigma>"
    using busy by (auto simp: job_at_def shutdown_executor_def intro!: filter_cong)
  ultimately show ?thesis
    by (auto simp: job_kept_def shutdown_executor_def)
next
  case Close_Remaining
  then show ?thesis using act by (auto simp: close_remaining_def split: if_splits)
next
  case Close_Abandon
  then show ?thesis
    using act by (auto simp: close_abandon_def split: closer.splits list.splits)
qed (use act in auto)

lemma job_at_other:
  assumes "k \<noteq> i"
  shows "job_at i (set_phase k ph \<sigma>) = job_at i \<sigma>"
    and "act_token item = k \<Longrightarrow> job_at i (finish_active item \<sigma>) = job_at i \<sigma>"
proof -
  have "filter (\<lambda>j. act_token (fst j) = i) (map (\<lambda>j. if act_token (fst j) = k then (fst j, ph) else j) js)
      = filter (\<lambda>j. act_token (fst j) = i) js" for js :: "job list"
    using assms by (induction js) auto
  then show "job_at i (set_phase k ph \<sigma>) = job_at i \<sigma>"
    by (simp add: job_at_def set_phase_def job_token_def)
  show "job_at i (finish_active item \<sigma>) = job_at i \<sigma>" if "act_token item = k"
    using assms that by (auto simp: job_at_def finish_active_def job_token_def intro!: filter_cong)
qed

lemma job_of_Some: "job_of k \<sigma> = Some j \<Longrightarrow> j \<in> set (sch_jobs \<sigma>) \<and> act_token (fst j) = k"
  by (auto simp: job_of_def find_Some_iff in_set_conv_nth)

lemma job_at_job_of:
  assumes "tokens_ok \<sigma>" and "job_of i \<sigma> = Some j"
  shows "job_at i \<sigma> = [j]"
proof -
  have "distinct (sch_jobs \<sigma>)"
    using assms(1) by (auto simp: tokens_ok_def dest: distinct_map_imp)
  moreover have "k = j" if "k \<in> set (sch_jobs \<sigma>)" "job_token k = i" for k
    using distinct_map_unique[of job_token "sch_jobs \<sigma>" k j] assms that job_of_Some[OF assms(2)]
    by (simp add: tokens_ok_def job_token_def)
  ultimately show ?thesis
    unfolding job_at_def
    by (intro filter_only) (use job_of_Some[OF assms(2)] in \<open>simp_all add: job_token_def\<close>)
qed

lemma job_at_phase:
  assumes "tokens_ok \<sigma>" and "job_of i \<sigma> = Some (item, ph)"
  shows "job_at i (set_phase i ph' \<sigma>) = [(item, ph')]"
    and "job_at i (finish_active item \<sigma>) = []"
proof -
  have "filter (\<lambda>j. act_token (fst j) = i) (map (\<lambda>j. if act_token (fst j) = i then (fst j, ph') else j) js)
      = map (\<lambda>j. (fst j, ph')) (filter (\<lambda>j. act_token (fst j) = i) js)" for js :: "job list"
    by (induction js) auto
  then show "job_at i (set_phase i ph' \<sigma>) = [(item, ph')]"
    using job_at_job_of[OF assms] by (simp add: job_at_def set_phase_def job_token_def)
  show "job_at i (finish_active item \<sigma>) = []"
    using job_of_Some[OF assms(2)] by (simp add: job_at_def finish_active_def job_token_def filter_empty_conv)
qed

section \<open>From the adapter's end to the end of the job\<close>

definition released :: "tenant \<Rightarrow> attempt_claim \<Rightarrow> instant \<Rightarrow> wf_store \<Rightarrow> token \<Rightarrow> bool" where
  "released t c l s tok \<longleftrightarrow> spent t c l s \<or> tok = Some User_Cancelled"

fun releasing :: "tenant \<Rightarrow> attempt_claim \<Rightarrow> instant \<Rightarrow> wf_store \<Rightarrow> token \<Rightarrow> job_phase \<Rightarrow> bool" where
  "releasing t c l s tok (Job_Outcome out) \<longleftrightarrow> out \<noteq> Raised_Cancelled"
| "releasing t c l s tok (Job_Committing result) \<longleftrightarrow> True"
| "releasing t c l s tok (Job_Settled settled) \<longleftrightarrow> (settled \<longrightarrow> released t c l s tok)"
| "releasing t c l s tok Job_Finishing \<longleftrightarrow> released t c l s tok"
| "releasing t c l s tok _ \<longleftrightarrow> False"

definition on_its_way :: "tenant \<Rightarrow> nat \<Rightarrow> attempt_claim \<Rightarrow> sched_state \<Rightarrow> bool" where
  "on_its_way t i c x \<longleftrightarrow> (case x of (l, \<sigma>, s) \<Rightarrow>
     i < length (sch_tokens \<sigma>) \<and> not_at_hand i \<sigma>
     \<and> (\<forall>j\<in>set (job_at i \<sigma>). job_claim j = c \<and> releasing t c l s (sch_tokens \<sigma> ! i) (snd j))
     \<and> (job_at i \<sigma> = [] \<longrightarrow> released t c l s (sch_tokens \<sigma> ! i)))"

lemma released_later:
  assumes "released t c l s x" and "attempts_evolve t l s s'" "l \<le> l'" and "token_grows x y"
  shows "released t c l' s' y"
  using assms spent_evolves unfolding released_def token_grows_def by auto

lemma releasing_later:
  assumes "releasing t c l s x ph" and "attempts_evolve t l s s'" "l \<le> l'" and "token_grows x y"
  shows "releasing t c l' s' y ph"
  using assms released_later[OF _ assms(2-4)] by (cases ph) auto

lemma on_its_way_kept:
  assumes "on_its_way t i c (l, \<sigma>, s)" and "job_kept i \<sigma> \<sigma>'" and "attempts_evolve t l s s'" "l \<le> l'"
    and "not_at_hand i \<sigma>'"
  shows "on_its_way t i c (l', \<sigma>', s')"
proof -
  have grow: "token_grows (sch_tokens \<sigma> ! i) (sch_tokens \<sigma>' ! i)" "i < length (sch_tokens \<sigma>')"
      "job_at i \<sigma>' = job_at i \<sigma>"
    using assms(1,2) by (auto simp: on_its_way_def job_kept_def tokens_grow_def)
  then show ?thesis
    using assms(1,5) releasing_later[OF _ assms(3,4) grow(1)] released_later[OF _ assms(3,4) grow(1)]
    by (auto simp: on_its_way_def)
qed

lemma block_readings:
  assumes "block_time clk l l'"
  shows "clk 1 \<le> l'" "clk 2 \<le> l'" "clk 3 \<le> l'"
  using block_timeD(5,7)[OF assms] monotone_clockD[OF block_timeD(1)[OF assms], of 1 2] by auto

lemma try_settle_cases:
  "try_settle r s = (s', ph) \<Longrightarrow> (\<exists>x. r = Inr (s', x) \<and> ph = Job_Settled True) \<or> ph = Job_Settled False"
  by (cases r) (auto simp: try_settle_def in_unit_of_work_def split: prod.splits)

lemma settle_releases:
  assumes inv: "wf_inv t l s" and iss: "issued t c s" and time: "block_time clk l l'"
    and out: "out \<noteq> Raised_Cancelled" and r: "settle_outcome t clk c tok out s = (s', ph)"
  shows "releasing t c l' s' tok ph"
proof -
  note clk = block_readings[OF time]
  have ab: "spent t c l' (fst (abandon_claim t c now s))" for now
    by (rule abandon_spends[OF inv iss])
  show ?thesis
  proof (cases out)
    case (Returned result)
    then show ?thesis using r by (auto split: if_splits)
  next
    case (Raised_Retryable e)
    have "spent t c l' s1" if "retry t c u e (clock_from 1 clk) s = Inr (s1, sn)" for u s1 sn
      by (rule retry_spends[OF that iss]) (use clk in \<open>simp_all add: numeral_2_eq_2 numeral_3_eq_3\<close>)
    then show ?thesis
      using r ab Raised_Retryable
      by (auto simp: released_def split: if_splits option.splits dest!: try_settle_cases)
  next
    case (Raised_Waiting_For_Approval j)
    then show ?thesis
      using r parks_spend(1)[where clk = clk, OF iss clk(1)] by (auto simp: released_def dest!: try_settle_cases)
  next
    case (Raised_Waiting_For_Input j)
    then show ?thesis
      using r parks_spend(2)[where clk = clk, OF iss clk(1)] by (auto simp: released_def dest!: try_settle_cases)
  next
    case Raised_Paused
    then show ?thesis
      using r ab[of "clk 0"] by (auto simp: released_def split: prod.splits)
  next
    case Raised_Provider_Cancelled
    then show ?thesis
      using r ab by (cases tok) (auto simp: released_def is_interrupted_def is_cancelled_def split: if_splits
        intro: cancel_reason.exhaust)
  next
    case (Raised_Error e)
    then show ?thesis
      using r ab fail_spends[where clk = clk, OF _ iss clk(1)]
      by (auto simp: released_def split: if_splits dest!: try_settle_cases)
  qed (use out in simp)
qed

lemma commit_releases:
  assumes "issued t c s" and time: "block_time clk l l'" and r: "commit_result t clk c result s = (s', ph)"
  shows "releasing t c l' s' tok ph"
proof -
  note clk = block_readings[OF time]
  show ?thesis
    using r complete_spends[where clk = clk, OF _ assms(1) clk(1)] defer_spends[where clk = clk, OF _ assms(1) clk(1,2)]
    by (auto simp: commit_result_def in_unit_of_work_def released_def
        split: option.splits sum.splits prod.splits)
qed

lemma worker_on_its_way:
  assumes act: "worker_action t clk a (\<sigma>, s) = Some (\<sigma>', s')" and time: "block_time clk l l'"
    and inv: "sched_inv t (l, \<sigma>, s)" and way: "on_its_way t i c (l, \<sigma>, s)"
    and ev: "attempts_evolve t l s s'"
  shows "on_its_way t i c (l', \<sigma>', s')"
proof -
  have parts: "wf_inv t l s" "tokens_ok \<sigma>" "issued_ok t \<sigma> s"
    using inv by (auto simp: sched_inv_def store_inv_def)
  have i: "i < length (sch_tokens \<sigma>)" and free: "not_at_hand i \<sigma>'"
    using way not_at_hand_same[OF worker_coordinator[OF act]] by (simp_all add: on_its_way_def)
  have ll': "l \<le> l'" by (rule block_timeD(4)[OF time])
  have tok: "sch_tokens (set_phase k ph \<sigma>) = sch_tokens \<sigma>" "sch_tokens (finish_active it \<sigma>) = sch_tokens \<sigma>"
    for k ph it by (simp_all add: set_phase_def finish_active_def)
  have kept: "job_kept i \<sigma> (set_phase k ph \<sigma>)" if "k \<noteq> i" for k ph
    using job_at_other(1)[OF that] tok(1) by (auto simp: job_kept_def)
  have free_set: "not_at_hand i (set_phase k ph \<sigma>)" for k ph
    using free not_at_hand_same[OF worker_coordinator[OF act]] not_at_hand_same[of "set_phase k ph \<sigma>" \<sigma> i]
    by (simp add: set_phase_def)
  have moved: "on_its_way t i c (l', set_phase i ph \<sigma>, s')"
    if "job_of i \<sigma> = Some (it, ph0)" "releasing t c l' s' (sch_tokens \<sigma> ! i) ph" for it ph0 ph
    using job_at_phase(1)[OF parts(2) that(1), of ph] job_at_job_of[OF parts(2) that(1)] way i that(2) tok(1) free_set
    by (auto simp: on_its_way_def job_claim_def)
  have here: "act_claim it = c \<and> releasing t c l s (sch_tokens \<sigma> ! i) ph \<and> issued t c s \<and> token_of \<sigma> it = sch_tokens \<sigma> ! i"
    if j: "job_of i \<sigma> = Some (it, ph)" for it ph
  proof -
    have "job_at i \<sigma> = [(it, ph)]"
      by (rule job_at_job_of[OF parts(2) j])
    then have c: "act_claim it = c" "releasing t c l s (sch_tokens \<sigma> ! i) ph"
      using way by (auto simp: on_its_way_def job_claim_def)
    moreover have "issued t c s"
    proof -
      have "job_claim (it, ph) \<in> claims_held \<sigma>"
        using job_of_Some[OF j] by (simp add: claims_held_def item_claims_def)
      then show ?thesis
        using parts(3) c(1) by (simp add: issued_ok_def job_claim_def)
    qed
    ultimately show ?thesis
      using job_of_Some[OF j] i by (simp add: token_of_def)
  qed
  show ?thesis
  proof (cases a)
    case (Begin_Node k)
    then obtain it where j: "job_of k \<sigma> = Some (it, Job_Submitted)"
        "\<sigma>' = set_phase k (begin_node t \<sigma> (act_claim it) s) \<sigma>"
      using act by (auto split: option.splits prod.splits job_phase.splits)
    then have "k \<noteq> i" using here by auto
    then show ?thesis
      using on_its_way_kept[OF way kept ev ll' free_set] j(2) by simp
  next
    case (Adapter_Ends k out)
    then obtain it n where j: "job_of k \<sigma> = Some (it, Job_Executing n)" "\<sigma>' = set_phase k (Job_Outcome out) \<sigma>"
      using act by (auto split: option.splits prod.splits job_phase.splits)
    then have "k \<noteq> i" using here by auto
    then show ?thesis
      using on_its_way_kept[OF way kept ev ll' free_set] j(2) by simp
  next
    case (Settle_Node k)
    then obtain it ph r where j: "job_of k \<sigma> = Some (it, ph)" and
        r: "settle_phase t clk (act_claim it) (token_of \<sigma> it) ph s = Some r" "\<sigma>' = set_phase k (snd r) \<sigma>" "s' = fst r"
      using act by (auto simp: enter_phase_def split: option.splits prod.splits)
    show ?thesis
    proof (cases "k = i")
      case True
      have h: "act_claim it = c" "releasing t c l s (sch_tokens \<sigma> ! i) ph" "issued t c s"
          "token_of \<sigma> it = sch_tokens \<sigma> ! i"
        using here j True by auto
      have "releasing t c l' s' (sch_tokens \<sigma> ! i) (snd r)"
      proof (cases ph)
        case (Job_Outcome out)
        then show ?thesis
          using settle_releases[OF parts(1) h(3) time, of out "sch_tokens \<sigma> ! i" s' "snd r"] h r by simp
      next
        case (Job_Committing result)
        then show ?thesis
          using commit_releases[OF h(3) time, of result s' "snd r"] h r by simp
      qed (use r(1) in simp_all)
      then show ?thesis using moved[of it ph "snd r"] j r(2) True by simp
    next
      case False
      then show ?thesis
        using on_its_way_kept[OF way kept ev ll' free_set] r(2) by simp
    qed
  next
    case (Leave_Node k)
    then obtain it settled where j: "job_of k \<sigma> = Some (it, Job_Settled settled)"
        "\<sigma>' = set_phase k Job_Finishing \<sigma>" "s' = leave_node t (clk 0) (act_claim it) settled s"
      using act by (auto split: option.splits prod.splits job_phase.splits)
    show ?thesis
    proof (cases "k = i")
      case True
      have h: "act_claim it = c" "releasing t c l s (sch_tokens \<sigma> ! i) (Job_Settled settled)" "issued t c s"
        using here j(1) True by auto
      have "released t c l' s' (sch_tokens \<sigma> ! i)"
      proof (cases settled)
        case True
        then have "released t c l s (sch_tokens \<sigma> ! i)"
          using h(2) by simp
        then show ?thesis
          using released_later[OF _ ev ll'] by (simp add: token_grows_def)
      next
        case False
        then show ?thesis
          using abandon_spends[OF parts(1) h(3)] j(3) h(1) by (simp add: leave_node_def released_def)
      qed
      then show ?thesis
        using moved[of it "Job_Settled settled" Job_Finishing] j True by simp
    next
      case False
      then show ?thesis
        using on_its_way_kept[OF way kept ev ll' free_set] j(2) by simp
    qed
  next
    case (Finish_Node k)
    then obtain it where j: "job_of k \<sigma> = Some (it, Job_Finishing)" "\<sigma>' = finish_active it \<sigma>" "s' = s"
      using act by (auto split: option.splits prod.splits job_phase.splits)
    show ?thesis
    proof (cases "k = i")
      case True
      have "released t c l s (sch_tokens \<sigma> ! i)"
        using here[of it Job_Finishing] j True by simp
      then have "released t c l' s' (sch_tokens \<sigma> ! i)"
        using released_later[OF _ ev ll'] by (simp add: token_grows_def)
      then show ?thesis
        using job_at_phase(2)[OF parts(2), of i it] j True i tok(2) free by (simp add: on_its_way_def)
    next
      case False
      have "job_kept i \<sigma> \<sigma>'"
        unfolding j(2) job_kept_def
        using job_at_other(2)[OF False, of it] job_of_Some[OF j(1)] tok(2) by auto
      then show ?thesis by (rule on_its_way_kept[OF way _ ev ll' free])
    qed
  qed (use act in simp_all)
qed

lemma step_on_its_way:
  assumes inv: "sched_inv t x" and way: "on_its_way t i c x" and "sched_step t x y"
  shows "on_its_way t i c y"
proof -
  obtain l \<sigma> s l' \<sigma>' s' where xy: "x = (l, \<sigma>, s)" "y = (l', \<sigma>', s')"
    by (metis surj_pair)
  from assms(3) obtain a clk where act: "exec_action t clk a (\<sigma>, s) = Some (\<sigma>', s')"
      and time: "block_time clk l l'"
    unfolding xy by cases (auto simp: block_time_def)
  have ev: "attempts_evolve t l s s'"
    by (rule wf_step_evolves[OF action_sim[OF time act]])
  note way = way[unfolded xy]
  have busy: "\<forall>j\<in>set (job_at i \<sigma>). snd j \<noteq> Job_Submitted"
    using way by (auto simp: on_its_way_def)
  have i: "i < length (sch_tokens \<sigma>)" and free: "not_at_hand i \<sigma>"
    using way by (simp_all add: on_its_way_def)
  have keeps: "on_its_way t i c (l', \<sigma>', s')" if "job_kept i \<sigma> \<sigma>'" "not_at_hand i \<sigma>'"
    by (rule on_its_way_kept[OF way that(1) ev block_timeD(4)[OF time] that(2)])
  have "on_its_way t i c (l', \<sigma>', s')"
    using act
  proof (cases rule: exec_action_cases)
    case (other u d)
    have "job_kept i \<sigma> \<sigma>" by (rule job_kept_same) simp_all
    then show ?thesis using keeps free other(2) by simp
  next
    case coordinator
    then show ?thesis using keeps coordinator_kept coordinator_not_at_hand i free by blast
  next
    case worker
    then show ?thesis by (rule worker_on_its_way[OF _ time inv[unfolded xy] way ev])
  next
    case caller
    then show ?thesis using keeps caller_kept busy not_at_hand_same[OF caller_coordinator] free by blast
  qed
  then show ?thesis by (simp add: xy)
qed

lemma path_on_its_way:
  assumes "sched_reachable t x" and "on_its_way t i c x" and "(sched_step t)\<^sup>*\<^sup>* x y"
  shows "on_its_way t i c y"
  by (rule pool.path_stable[where P = "on_its_way t i c", OF assms(3) sched_reachable_inv[OF assms(1)] assms(2)])
    (rule step_on_its_way)

section \<open>What closing leaves\<close>

definition closing_way :: "tenant \<Rightarrow> active_node \<Rightarrow> sched_state \<Rightarrow> bool" where
  "closing_way t item x \<longleftrightarrow> (case x of (l, \<sigma>, s) \<Rightarrow> (case sch_closer \<sigma> of
     Close_Waiting \<Rightarrow> sch_jobs \<sigma> = [] \<and> (item \<in> set (sch_active \<sigma>) \<or> spent t (act_claim item) l s)
   | Close_Abandoning rest \<Rightarrow> item \<in> set rest \<or> spent t (act_claim item) l s
   | Close_Done \<Rightarrow> spent t (act_claim item) l s
   | _ \<Rightarrow> False))"

lemma closing_way_kept:
  assumes "closing_way t item (l, \<sigma>, s)" and "attempts_evolve t l s s'" "l \<le> l'"
    and "sch_closer \<sigma>' = sch_closer \<sigma>" "sch_jobs \<sigma>' = sch_jobs \<sigma>" "sch_active \<sigma>' = sch_active \<sigma>"
  shows "closing_way t item (l', \<sigma>', s')"
  using assms(1,4-6) spent_evolves[OF assms(2,3)] by (auto simp: closing_way_def split: closer.splits)

text \<open>In the states in which \<open>close\<close> waits or abandons, only its own blocks move the items.\<close>

definition winding_down :: "scheduler \<Rightarrow> bool" where
  "winding_down \<sigma> \<longleftrightarrow> idle_coordinator \<sigma> \<and> sch_jobs \<sigma> = [] \<and> sch_closed \<sigma>"

lemma winding_down_coordinator: "winding_down \<sigma> \<Longrightarrow> coordinator_action t clk a (\<sigma>, s) = None"
  by (cases a) (auto simp: winding_down_def idle_coordinator_def)

lemma winding_down_worker: "winding_down \<sigma> \<Longrightarrow> worker_action t clk a (\<sigma>, s) = None"
  by (cases a) (auto simp: winding_down_def job_of_def)

lemma winding_down_caller:
  assumes act: "caller_action t clk a (\<sigma>, s) = Some (\<sigma>', s')" and "winding_down \<sigma>"
    and "a \<noteq> Close_Remaining" "a \<noteq> Close_Abandon" and "\<forall>xs. sch_closer \<sigma> \<noteq> Close_Pausing xs" "sch_closer \<sigma> \<noteq> Close_Joining"
  shows "sch_closer \<sigma>' = sch_closer \<sigma> \<and> sch_jobs \<sigma>' = sch_jobs \<sigma> \<and> sch_active \<sigma>' = sch_active \<sigma>"
proof (cases a)
  case Start
  then show ?thesis
    using act by (auto simp: if_allowed_def start_scheduler_def ensure_eq_Inr split: sum.splits)
next
  case (Resume_After_Boundary rid)
  then show ?thesis
    using act by (auto simp: if_allowed_def resume_after_boundary_def ensure_eq_Inr split: sum.splits)
next
  case Check_Boundary
  then show ?thesis using act by (auto simp: check_boundary_def Let_def split: list.splits)
next
  case Resume_Boundary
  then show ?thesis
    using act by (auto simp: resume_boundary_def Let_def split: list.splits prod.splits if_splits)
next
  case (Cancel_Tokens rid)
  then show ?thesis using act by (auto simp: cancel_tokens_def set_reasons_def)
next
  case Cancel_Run
  then show ?thesis using act by (auto simp: cancel_run_def split: list.splits)
next
  case Close
  then show ?thesis using act assms(2) by (auto simp: close_scheduler_def winding_down_def)
next
  case Close_Item
  then show ?thesis using act assms(5) by (auto split: closer.splits list.splits)
next
  case (Shutdown_Executor dropped)
  then show ?thesis using act assms(6) by (auto split: if_splits)
qed (use act assms in auto)

lemma closing_winds_down:
  assumes "sched_inv t (l, \<sigma>, s)" and "closing_way t item (l, \<sigma>, s)"
  shows "winding_down \<sigma>" "\<forall>xs. sch_closer \<sigma> \<noteq> Close_Pausing xs" "sch_closer \<sigma> \<noteq> Close_Joining"
  using assms by (auto simp: closing_way_def winding_down_def sched_inv_def closing_ok_def split: closer.splits)

lemma step_closing_way:
  assumes inv: "sched_inv t x" and way: "closing_way t item x" and "sched_step t x y"
  shows "closing_way t item y"
proof -
  obtain l \<sigma> s l' \<sigma>' s' where xy: "x = (l, \<sigma>, s)" "y = (l', \<sigma>', s')"
    by (metis surj_pair)
  from assms(3) obtain a clk where act: "exec_action t clk a (\<sigma>, s) = Some (\<sigma>', s')"
      and time: "block_time clk l l'"
    unfolding xy by cases (auto simp: block_time_def)
  note ev = wf_step_evolves[OF action_sim[OF time act], of t]
  note later = closing_way_kept[OF way[unfolded xy] ev block_timeD(4)[OF time]]
  note down = closing_winds_down[OF inv[unfolded xy] way[unfolded xy]]
  have spends: "spent t c l' (fst (abandon_claim t c now s))" if "c \<in> claims_held \<sigma>" for c now
    by (rule abandon_spends[of t l]) (use inv that in \<open>auto simp: xy sched_inv_def store_inv_def issued_ok_def\<close>)
  have "closing_way t item (l', \<sigma>', s')"
    using act
  proof (cases rule: exec_action_cases)
    case (other u d)
    then show ?thesis using later[of \<sigma>] by simp
  next
    case coordinator
    then show ?thesis using winding_down_coordinator[OF down(1)] by simp
  next
    case worker
    then show ?thesis using winding_down_worker[OF down(1)] by simp
  next
    case caller
    consider "a = Close_Remaining" | "a = Close_Abandon" | "a \<noteq> Close_Remaining" "a \<noteq> Close_Abandon" by blast
    then show ?thesis
    proof cases
      case 1
      then have "sch_closer \<sigma> = Close_Waiting" "\<sigma>' = close_remaining \<sigma>" "s' = s"
        using caller by (auto split: if_splits)
      then show ?thesis
        using way[unfolded xy] spent_evolves[OF ev block_timeD(4)[OF time]]
        by (auto simp: closing_way_def close_remaining_def)
    next
      case 2
      show ?thesis
      proof (cases "sch_closer \<sigma> = Close_Abandoning []")
        case True
        then show ?thesis
          using 2 caller way[unfolded xy] spent_evolves[OF ev block_timeD(4)[OF time]]
          by (auto simp: closing_way_def)
      next
        case False
        then obtain first rest where cl: "sch_closer \<sigma> = Close_Abandoning (first # rest)"
            "close_abandon t (clk 0) first rest (\<sigma>, s) = (\<sigma>', s')"
          using 2 caller by (auto split: closer.splits list.splits)
        have "act_claim first \<in> claims_held \<sigma>"
          by (simp add: claims_held_def item_claims_def closer_items_def cl(1))
        then have "spent t (act_claim first) l' s'"
          using spends[of "act_claim first" "clk 0"] cl(2) by (auto simp: close_abandon_def)
        then show ?thesis
          using way[unfolded xy] cl spent_evolves[OF ev block_timeD(4)[OF time]]
          by (auto simp: closing_way_def close_abandon_def split: if_splits)
      qed
    next
      case 3
      then show ?thesis
        using winding_down_caller[OF caller down(1) 3 down(2,3)] later by blast
    qed
  qed
  then show ?thesis by (simp add: xy)
qed

lemma path_closing_way:
  assumes "sched_reachable t x" and "closing_way t item x" and "(sched_step t)\<^sup>*\<^sup>* x y"
  shows "closing_way t item y"
  by (rule pool.path_stable[where P = "closing_way t item", OF assms(3) sched_reachable_inv[OF assms(1)] assms(2)])
    (rule step_closing_way)

end
