(* ===== verification/Scheduler_Intents.thy ===== *)
theory Scheduler_Intents
  imports Scheduler_Release
begin

text \<open>
  The intents of \<open>resume_after_boundary\<close>: while one is registered, some thread is going to act
  on it. Either an item of the run is still in the pool, whose worker checks the intents when it
  ends, or a check is under way that will find no such item. There are two ways to lose this: a
  check that reads the run or resumes it raises, which the code logs and leaves, or the thread
  pool refuses the job of an item, which then leaves the pool without a check.
\<close>

definition intent_alive :: "scheduler \<Rightarrow> uuid \<Rightarrow> bool" where
  "intent_alive \<sigma> rid \<longleftrightarrow> run_is_active rid \<sigma> \<or> rid \<in> set (sch_checking \<sigma>)
     \<or> (rid, False) \<in> set (sch_resuming \<sigma>)"

definition intents_ok :: "scheduler \<Rightarrow> bool" where
  "intents_ok \<sigma> \<longleftrightarrow> (\<forall>rid\<in>sch_boundary \<sigma>. intent_alive \<sigma> rid)"

text \<open>The check that comes next, if it found no item of its run, can read the run and resume it.\<close>

definition boundary_reads :: "tenant \<Rightarrow> scheduler \<Rightarrow> wf_store \<Rightarrow> bool" where
  "boundary_reads t \<sigma> s \<longleftrightarrow> (case sch_resuming \<sigma> of
     (rid, False) # _ \<Rightarrow> (\<forall>now. snd (boundary_resolved t rid False now s))
   | _ \<Rightarrow> True)"

lemma intents_okI:
  assumes "intents_ok \<sigma>"
    and "\<And>rid. rid \<in> sch_boundary \<sigma>' \<Longrightarrow> intent_alive \<sigma>' rid
      \<or> rid \<in> sch_boundary \<sigma> \<and> (intent_alive \<sigma> rid \<longrightarrow> intent_alive \<sigma>' rid)"
  shows "intents_ok \<sigma>'"
  using assms unfolding intents_ok_def by blast

lemma intents_ok_mono:
  assumes "intents_ok \<sigma>" and "sch_boundary \<sigma>' = sch_boundary \<sigma>"
    and "set (sch_active \<sigma>) \<subseteq> set (sch_active \<sigma>')" "sch_checking \<sigma>' = sch_checking \<sigma>"
    "sch_resuming \<sigma>' = sch_resuming \<sigma>"
  shows "intents_ok \<sigma>'"
  by (rule intents_okI[OF assms(1)])
    (use assms(2-5) in \<open>auto simp: intent_alive_def run_is_active_def\<close>)

lemma coordinator_intents:
  assumes act: "coordinator_action t clk a (\<sigma>, s) = Some (\<sigma>', s')" and ok: "intents_ok \<sigma>"
    and taken: "\<nexists>item. sch_coordinator \<sigma>' = Coord_Withdrawing item"
  shows "intents_ok \<sigma>'"
proof -
  have "sch_boundary \<sigma>' = sch_boundary \<sigma> \<and> set (sch_active \<sigma>) \<subseteq> set (sch_active \<sigma>')
      \<and> sch_checking \<sigma>' = sch_checking \<sigma> \<and> sch_resuming \<sigma>' = sch_resuming \<sigma>"
  proof (cases a)
    case (Coordinate mono_now)
    then show ?thesis using act by (auto simp: coordinate_def split: if_splits)
  next
    case (Heartbeat beat)
    then obtain item rest where "heartbeat t clk beat item rest (\<sigma>, s) = (\<sigma>', s')"
      using act by (auto split: coordinator.splits list.splits)
    then show ?thesis
      by (auto simp: heartbeat_def set_reasons_def Let_def split: prod.splits if_splits)
  next
    case Read_Capacity
    then show ?thesis
      using act by (auto simp: reads_capacity_def Let_def split: coordinator.splits list.splits)
  next
    case Claim_Available
    then obtain capacity kinds reserve where "claim_available t clk capacity kinds reserve (\<sigma>, s) = (\<sigma>', s')"
      using act by (auto split: coordinator.splits)
    then show ?thesis by (auto simp: claim_available_def split: sum.splits)
  next
    case Register
    have "?thesis" if "register_claim t (clk 0) e rest (\<sigma>, s) = (\<sigma>', s')" for e rest
      using that by (auto simp: register_claim_def Let_def split: if_splits)
    then show ?thesis
      using act Register by (auto split: coordinator.splits list.splits)
  next
    case (Submit_Job accepts)
    then show ?thesis
      using act taken by (auto simp: submit_item_def split: coordinator.splits if_splits)
  next
    case Withdraw
    then show ?thesis
      using act by (auto simp: withdraw_item_def split: coordinator.splits)
  qed (use act in simp_all)
  then show ?thesis
    by (intro intents_ok_mono[OF ok]) auto
qed

lemma finish_intents: "intents_ok \<sigma> \<Longrightarrow> intents_ok (finish_active item \<sigma>)"
  by (erule intents_okI)
    (auto simp: intent_alive_def run_is_active_def finish_active_def act_run_def act_node_def)

lemma phase_intents: "intents_ok \<sigma> \<Longrightarrow> intents_ok (set_phase i ph \<sigma>)"
  by (erule intents_ok_mono) (simp_all add: set_phase_def)

lemma worker_intents:
  assumes "worker_action t clk a (\<sigma>, s) = Some (\<sigma>', s')" and "intents_ok \<sigma>"
  shows "intents_ok \<sigma>'"
  using assms phase_intents finish_intents
  by (cases a) (auto simp: enter_phase_def split: option.splits prod.splits job_phase.splits)

lemma check_intents:
  assumes "intents_ok \<sigma>"
  shows "intents_ok (check_boundary rid \<sigma>)"
proof (rule intents_okI[OF assms])
  fix i assume i: "i \<in> sch_boundary (check_boundary rid \<sigma>)"
  then have "i \<in> sch_boundary \<sigma>"
    by (auto simp: check_boundary_def Let_def split: if_splits)
  moreover have "intent_alive \<sigma> i \<longrightarrow> intent_alive (check_boundary rid \<sigma>) i"
    using calculation by (cases "i = rid")
      (auto simp: check_boundary_def intent_alive_def run_is_active_def Let_def in_set_remove1)
  ultimately show "intent_alive (check_boundary rid \<sigma>) i
      \<or> i \<in> sch_boundary \<sigma> \<and> (intent_alive \<sigma> i \<longrightarrow> intent_alive (check_boundary rid \<sigma>) i)"
    by blast
qed

lemma resume_intents:
  assumes ok: "intents_ok \<sigma>" and reads: "\<not> has_active \<Longrightarrow> snd (boundary_resolved t rid False now s)"
    and r: "resume_boundary t now rid has_active (\<sigma>, s) = (\<sigma>', s')"
  shows "intents_ok \<sigma>'"
proof (rule intents_okI[OF ok])
  fix i assume i: "i \<in> sch_boundary \<sigma>'"
  have same: "sch_active \<sigma>' = sch_active \<sigma>" "sch_checking \<sigma>' = sch_checking \<sigma>"
      "sch_resuming \<sigma>' = remove1 (rid, has_active) (sch_resuming \<sigma>)" "sch_boundary \<sigma>' \<subseteq> sch_boundary \<sigma>"
    using r by (auto simp: resume_boundary_def Let_def split: prod.splits if_splits)
  have "has_active" if "i = rid"
  proof (rule ccontr)
    assume "\<not> has_active"
    then have "snd (boundary_resolved t rid has_active now s)"
      using reads by simp
    then have "rid \<notin> sch_boundary \<sigma>'"
      using r by (auto simp: resume_boundary_def Let_def split: prod.splits)
    then show False using i that by simp
  qed
  then have "(i, False) \<in> set (sch_resuming \<sigma>')" if "(i, False) \<in> set (sch_resuming \<sigma>)"
    using that by (cases "i = rid") (auto simp: same(3) in_set_remove1)
  then show "intent_alive \<sigma>' i \<or> i \<in> sch_boundary \<sigma> \<and> (intent_alive \<sigma> i \<longrightarrow> intent_alive \<sigma>' i)"
    using i same by (auto simp: intent_alive_def run_is_active_def)
qed

lemma new_intent:
  assumes "if_allowed (resume_after_boundary rid \<sigma>) s = Some (\<sigma>', s')" and "intents_ok \<sigma>"
  shows "intents_ok \<sigma>'"
proof -
  have \<sigma>': "\<sigma>' = \<sigma>\<lparr>sch_boundary := insert rid (sch_boundary \<sigma>), sch_checking := sch_checking \<sigma> @ [rid]\<rparr>"
    using assms(1) by (auto simp: if_allowed_def resume_after_boundary_def ensure_eq_Inr split: sum.splits)
  show ?thesis
    by (rule intents_okI[OF assms(2)])
      (auto simp: \<sigma>' intent_alive_def run_is_active_def)
qed

lemma caller_intents:
  assumes act: "caller_action t clk a (\<sigma>, s) = Some (\<sigma>', s')" and ok: "intents_ok \<sigma>" and "boundary_reads t \<sigma> s"
  shows "intents_ok \<sigma>'"
proof (cases a)
  case Check_Boundary
  then show ?thesis using act check_intents[OF ok] by (auto split: list.splits)
next
  case Resume_Boundary
  then obtain rid has_active rest where "sch_resuming \<sigma> = (rid, has_active) # rest"
      "resume_boundary t (clk 0) rid has_active (\<sigma>, s) = (\<sigma>', s')"
    using act by (auto split: list.splits)
  moreover have "snd (boundary_resolved t rid False (clk 0) s)" if "\<not> has_active"
    using assms(3) calculation(1) that by (simp add: boundary_reads_def)
  ultimately show ?thesis
    using resume_intents[OF ok] by blast
next
  case (Resume_After_Boundary rid)
  then show ?thesis using act new_intent[OF _ ok] by simp
next
  case Close_Remaining
  then show ?thesis using act by (auto simp: close_remaining_def intents_ok_def split: if_splits)
next
  case Start
  then show ?thesis
    using act by (auto simp: if_allowed_def start_scheduler_def ensure_eq_Inr split: sum.splits
        intro: intents_ok_mono[OF ok])
next
  case (Cancel_Tokens rid)
  then show ?thesis
    using act by (auto simp: cancel_tokens_def set_reasons_def intro: intents_ok_mono[OF ok])
next
  case Cancel_Run
  then show ?thesis
    using act by (auto simp: cancel_run_def split: list.splits intro: intents_ok_mono[OF ok])
next
  case Close
  then show ?thesis
    using act by (intro intents_ok_mono[OF ok]) (auto simp: close_scheduler_def split: if_splits)
next
  case Close_Item
  then show ?thesis
    using act by (auto simp: close_item_def set_reasons_def split: closer.splits list.splits
        intro: intents_ok_mono[OF ok])
next
  case (Shutdown_Executor dropped)
  then show ?thesis
    using act by (auto simp: shutdown_executor_def split: if_splits intro: intents_ok_mono[OF ok])
next
  case Close_Abandon
  then show ?thesis
    using act by (auto simp: close_abandon_def split: closer.splits list.splits intro: intents_ok_mono[OF ok])
qed (use act ok in auto)

text \<open>The steps in which the pool takes the jobs that are submitted, and a check reads its run.\<close>

definition withdrawing :: "scheduler \<Rightarrow> bool" where
  "withdrawing \<sigma> \<longleftrightarrow> (case sch_coordinator \<sigma> of Coord_Withdrawing item \<Rightarrow> True | _ \<Rightarrow> False)"

definition smooth_step :: "tenant \<Rightarrow> sched_state \<Rightarrow> sched_state \<Rightarrow> bool" where
  "smooth_step t x y \<longleftrightarrow> sched_step t x y \<and> boundary_reads t (fst (snd x)) (snd (snd x)) \<and> \<not> withdrawing (fst (snd y))"

definition intents_inv :: "sched_state \<Rightarrow> bool" where
  "intents_inv x \<longleftrightarrow> intents_ok (fst (snd x))"

interpretation intents: invariant_system sched_initial "smooth_step t" intents_inv for t
proof
  show "intents_inv x" if "sched_initial x" for x
    using that by (auto simp: sched_initial_def new_scheduler_def ensure_eq_Inr intents_inv_def intents_ok_def)
  show "intents_inv y" if "intents_inv x" "smooth_step t x y" for x y
  proof -
    obtain l \<sigma> s l' \<sigma>' s' where xy: "x = (l, \<sigma>, s)" "y = (l', \<sigma>', s')"
      by (metis surj_pair)
    from that(2) have "sched_step t (l, \<sigma>, s) (l', \<sigma>', s')" and reads: "boundary_reads t \<sigma> s"
      and taken: "\<nexists>item. sch_coordinator \<sigma>' = Coord_Withdrawing item"
      by (auto simp: smooth_step_def withdrawing_def xy)
    then obtain a clk where act: "exec_action t clk a (\<sigma>, s) = Some (\<sigma>', s')"
      by (auto elim: sched_stepE)
    have ok: "intents_ok \<sigma>"
      using that(1) by (simp add: intents_inv_def xy)
    have "intents_ok \<sigma>'"
      using act
    proof (cases rule: exec_action_cases)
      case (other u c)
      then show ?thesis using ok by simp
    next
      case coordinator
      then show ?thesis by (rule coordinator_intents[OF _ ok taken])
    next
      case worker
      then show ?thesis by (rule worker_intents[OF _ ok])
    next
      case caller
      then show ?thesis by (rule caller_intents[OF _ ok reads])
    qed
    then show ?thesis by (simp add: intents_inv_def xy)
  qed
qed

end
