(* ===== verification/Scheduler_Examples.thy ===== *)
theory Scheduler_Examples
  imports Scheduler_Intents Workflow_Examples
begin

text \<open>
  Concrete runs of the scheduler for the witnesses: a pool of two workers on the run of
  \<open>Workflow_Examples\<close>, whose nodes may wait for a child run.
\<close>

fun action_times :: "instant \<Rightarrow> (instant \<times> sched_action) list \<Rightarrow> bool" where
  "action_times l [] = True"
| "action_times l ((now, a) # rest) \<longleftrightarrow> l \<le> now \<and> action_times now rest"

fun actions_end :: "instant \<Rightarrow> (instant \<times> sched_action) list \<Rightarrow> instant" where
  "actions_end l [] = l"
| "actions_end l ((now, a) # rest) = actions_end now rest"

lemma run_actions_path:
  "run_actions t acts st = Some st' \<Longrightarrow> action_times l acts \<Longrightarrow>
   (sched_step t)\<^sup>*\<^sup>* (l, st) (actions_end l acts, st')"
proof (induction l acts arbitrary: st rule: action_times.induct)
  case (2 l now a rest)
  then obtain st1 where st1: "exec_action t (\<lambda>i. now) a st = Some st1" "run_actions t rest st1 = Some st'"
    by (auto split: option.splits)
  have "sched_step t (l, st) (now, st1)"
    by (rule sched_step.action[OF st1(1)]) (use "2.prems"(2) in simp_all)
  then show ?case
    using "2.IH"[OF st1(2)] "2.prems"(2) by (simp add: converse_rtranclp_into_rtranclp)
qed simp

definition ex_adapter :: node_adapter where
  "ex_adapter = \<lparr>may_wait_for_child = True, has_heartbeat = False\<rparr>"

definition ex_pool :: scheduler where
  "ex_pool = \<lparr>sch_adapters = [(''model'', ex_adapter)], sch_max_workers = 2,
     sch_lease_duration = seconds 30, sch_heartbeat_interval = seconds 5,
     sch_owner = ''workflow-worker:w'', sch_active = [], sch_boundary = {}, sch_closed = False,
     sch_started = True, sch_last_heartbeat = 0, sch_tokens = [], sch_jobs = [],
     sch_coordinator = Coord_Polling, sch_closer = Close_None, sch_checking = [], sch_resuming = [],
     sch_cancelling = []\<rparr>"

lemma ex_pool_new: "new_scheduler [(''model'', ex_adapter)] 2 (seconds 30) (seconds 5) 100000 ''w'' True 0 = Inr ex_pool"
  by (simp add: new_scheduler_def ensure_eq_Inr ex_pool_def seconds_def)

definition ex_start :: "(instant \<times> sched_action) list" where
  "ex_start = [(1, Coordinate 0), (1, Read_Capacity), (1, Claim_Available), (1, Register), (1, Submit_Job True)]"

definition ex_result :: node_result where
  "ex_result = \<lparr>res_output = JNull, res_evidence_refs = [], res_public_summary = None, res_available_at = None\<rparr>"

definition ex_work :: "(instant \<times> sched_action) list" where
  "ex_work = [(2, Begin_Node 0), (2, Adapter_Ends 0 (Returned ex_result))]"

definition ex_leave :: "(instant \<times> sched_action) list" where
  "ex_leave = [(3, Settle_Node 0), (3, Settle_Node 0), (3, Leave_Node 0), (3, Finish_Node 0)]"

definition ex_state :: "(instant \<times> sched_action) list \<Rightarrow> scheduler \<times> wf_store" where
  "ex_state acts = (case run_actions ex_tenant acts (ex_pool, ex_store [ex_ready]) of
     None \<Rightarrow> (ex_pool, empty_store) | Some st \<Rightarrow> st)"

definition ex_runs :: "(instant \<times> sched_action) list \<Rightarrow> bool" where
  "ex_runs acts \<longleftrightarrow> action_times 0 acts
     \<and> run_actions ex_tenant acts (ex_pool, ex_store [ex_ready]) \<noteq> None"

lemma ex_initial: "sched_initial (0, ex_pool, ex_store [ex_ready])"
  unfolding sched_initial_def prod.case using ex_pool_new ex_created_reachable by blast

lemma ex_path:
  assumes "ex_runs acts"
  shows "(sched_step ex_tenant)\<^sup>*\<^sup>* (0, ex_pool, ex_store [ex_ready]) (actions_end 0 acts, ex_state acts)"
  using assms unfolding ex_runs_def ex_state_def by (auto intro: run_actions_path)

lemma ex_reachable: "ex_runs acts \<Longrightarrow> sched_reachable ex_tenant (actions_end 0 acts, ex_state acts)"
  unfolding sched_reachable_def using ex_initial ex_path by blast

lemma ex_started: "ex_runs ex_start \<and> map act_node (sch_active (fst (ex_state ex_start))) = [11]"
  by code_simp

lemma ex_worked: "ex_runs (ex_start @ ex_work @ ex_leave) \<and> sch_active (fst (ex_state (ex_start @ ex_work @ ex_leave))) = []"
  by code_simp

text \<open>A state in which every run can be read and, where it waits, resumed.\<close>

lemma boundary_reads_run:
  assumes "runs_of t s = [r]" and "get_snapshot t (run_id r) s = Inr (Some sn)"
    and "run_status (snap_run sn) \<notin> {Run_Waiting_For_Approval, Run_Waiting_For_Input, Run_Paused}"
  shows "boundary_reads t \<sigma> s"
proof -
  have "snd (boundary_resolved t rid False now s)" for rid now
  proof (cases "rid = run_id r")
    case True
    then show ?thesis using assms(2,3) by (simp add: boundary_resolved_def)
  next
    case False
    then have "get_snapshot t rid s = Inr None"
      using assms(1) by (simp add: get_snapshot_def select_where_def one_or_none_def)
    then show ?thesis by (simp add: boundary_resolved_def)
  qed
  then show ?thesis
    by (auto simp: boundary_reads_def split: list.split bool.split)
qed

definition plain_reads :: "tenant \<Rightarrow> wf_store \<Rightarrow> bool" where
  "plain_reads t s \<longleftrightarrow> (case runs_of t s of
     [r] \<Rightarrow> (case get_snapshot t (run_id r) s of
        Inr (Some sn) \<Rightarrow> run_status (snap_run sn) \<notin> {Run_Waiting_For_Approval, Run_Waiting_For_Input, Run_Paused}
      | _ \<Rightarrow> False)
   | _ \<Rightarrow> False)"

lemma plain_reads: "plain_reads t s \<Longrightarrow> boundary_reads t \<sigma> s"
  by (auto simp: plain_reads_def split: list.splits sum.splits option.splits intro: boundary_reads_run)

fun run_reads :: "tenant \<Rightarrow> (instant \<times> sched_action) list \<Rightarrow> scheduler \<times> wf_store \<Rightarrow> bool" where
  "run_reads t [] st = True"
| "run_reads t ((now, a) # rest) st \<longleftrightarrow> plain_reads t (snd st)
     \<and> (case exec_action t (\<lambda>i. now) a st of
         None \<Rightarrow> False | Some st' \<Rightarrow> \<not> withdrawing (fst st') \<and> run_reads t rest st')"

lemma run_reads_path:
  "run_actions t acts st = Some st' \<Longrightarrow> action_times l acts \<Longrightarrow> run_reads t acts st \<Longrightarrow>
   (smooth_step t)\<^sup>*\<^sup>* (l, st) (actions_end l acts, st')"
proof (induction l acts arbitrary: st rule: action_times.induct)
  case (2 l now a rest)
  then obtain st1 where st1: "exec_action t (\<lambda>i. now) a st = Some st1" "run_actions t rest st1 = Some st'"
      "run_reads t rest st1" "boundary_reads t (fst st) (snd st)" "\<not> withdrawing (fst st1)"
    by (auto split: option.splits dest: plain_reads)
  have "sched_step t (l, st) (now, st1)"
    by (rule sched_step.action[OF st1(1)]) (use "2.prems"(2) in simp_all)
  then have "smooth_step t (l, st) (now, st1)"
    using st1(4,5) by (simp add: smooth_step_def)
  then show ?case
    using "2.IH"[OF st1(2) _ st1(3)] "2.prems"(2) by (simp add: converse_rtranclp_into_rtranclp)
qed simp

end
