(* ===== verification/Scheduler_Calls.thy ===== *)
theory Scheduler_Calls
  imports Scheduler_Invariants
begin

text \<open>
  The contract between the scheduler and the repository: which one call of the repository each
  action of the scheduler's threads makes, with which arguments and readings of the clock, and
  what its unit of work leaves in the store. The actions keep to it exactly.
\<close>

section \<open>The calls\<close>

text \<open>What a worker calls for the phase of its job.\<close>

fun settle_call :: "clock \<Rightarrow> attempt_claim \<Rightarrow> token \<Rightarrow> job_phase \<Rightarrow> (clock \<times> wf_call) option" where
  "settle_call clk c tok (Job_Committing result) = Some (clk, case res_available_at result of
     None \<Rightarrow> Complete c (res_output result) (res_evidence_refs result) (res_public_summary result)
   | Some available_at \<Rightarrow> Defer c available_at (res_output result))"
| "settle_call clk c tok (Job_Outcome (Raised_Retryable e)) =
     (if is_interrupted tok then Some (clk, Abandon c)
      else map_option (\<lambda>delay. (clock_from 1 clk, Retry c (clk 0 + delay) e)) (retry_delay (claim_number c)))"
| "settle_call clk c tok (Job_Outcome (Raised_Waiting_For_Approval result)) = Some (clk, Wait_Approval c result)"
| "settle_call clk c tok (Job_Outcome (Raised_Waiting_For_Input result)) = Some (clk, Wait_Input c result)"
| "settle_call clk c tok (Job_Outcome Raised_Cancelled) = Some (clk, Cancel (claim_run c))"
| "settle_call clk c tok (Job_Outcome Raised_Paused) = Some (clk, Abandon c)"
| "settle_call clk c tok (Job_Outcome Raised_Provider_Cancelled) =
     (if is_interrupted tok then Some (clk, Abandon c) else None)"
| "settle_call clk c tok (Job_Outcome (Raised_Error e)) =
     Some (clk, if is_interrupted tok then Abandon c else Fail c (take 128 e))"
| "settle_call clk c tok _ = None"

text \<open>Whether a boundary check that reads the run resumes it.\<close>

definition check_resumes :: "tenant \<Rightarrow> uuid \<Rightarrow> wf_store \<Rightarrow> bool" where
  "check_resumes t rid s \<longleftrightarrow> (case get_snapshot t rid s of
     Inr (Some sn) \<Rightarrow> run_status (snap_run sn) \<in> {Run_Waiting_For_Approval, Run_Waiting_For_Input, Run_Paused}
   | _ \<Rightarrow> False)"

text \<open>The call that an action makes in the state in which it happens, if it makes one.\<close>

fun planned_call ::
  "tenant \<Rightarrow> clock \<Rightarrow> sched_action \<Rightarrow> scheduler \<Rightarrow> wf_store \<Rightarrow> (clock \<times> wf_call) option" where
  "planned_call t clk (Heartbeat beat) \<sigma> s = (case sch_coordinator \<sigma> of
     Coord_Beating (item # rest) \<Rightarrow> Some (clock_from 1 clk, Renew (act_claim item) (clk 0 + sch_lease_duration \<sigma>))
   | _ \<Rightarrow> None)"
| "planned_call t clk Claim_Available \<sigma> s = (case sch_coordinator \<sigma> of
     Coord_Claiming capacity kinds reserve \<Rightarrow>
       Some (clock_from 1 clk, Claim_Ready (sch_owner \<sigma>) (clk 0 + sch_lease_duration \<sigma>) capacity kinds reserve)
   | _ \<Rightarrow> None)"
| "planned_call t clk Register \<sigma> s = (case sch_coordinator \<sigma> of
     Coord_Registering (e # rest) \<Rightarrow>
       if snd e = None \<or> sch_closed \<sigma> \<or> claim_node (fst e) \<in> act_node ` set (sch_active \<sigma>)
       then Some (clk, Abandon (fst e)) else None
   | _ \<Rightarrow> None)"
| "planned_call t clk Withdraw \<sigma> s = (case sch_coordinator \<sigma> of
     Coord_Withdrawing item \<Rightarrow> Some (clk, Abandon (act_claim item))
   | _ \<Rightarrow> None)"
| "planned_call t clk (Settle_Node i) \<sigma> s = (case job_of i \<sigma> of
     Some (item, ph) \<Rightarrow> settle_call clk (act_claim item) (token_of \<sigma> item) ph
   | None \<Rightarrow> None)"
| "planned_call t clk (Leave_Node i) \<sigma> s = (case job_of i \<sigma> of
     Some (item, Job_Settled False) \<Rightarrow> Some (clk, Abandon (act_claim item))
   | _ \<Rightarrow> None)"
| "planned_call t clk (Pause_Run rid) \<sigma> s = Some (clk, Request_Pause rid)"
| "planned_call t clk (Resume_Run rid) \<sigma> s = Some (clk, Resume rid)"
| "planned_call t clk Resume_Boundary \<sigma> s = (case sch_resuming \<sigma> of
     (rid, has_active) # _ \<Rightarrow> if check_resumes t rid s then Some (clk, Resume rid) else None
   | [] \<Rightarrow> None)"
| "planned_call t clk Cancel_Run \<sigma> s = (case sch_cancelling \<sigma> of
     rid # _ \<Rightarrow> Some (clk, Cancel rid) | [] \<Rightarrow> None)"
| "planned_call t clk Close_Item \<sigma> s = (case sch_closer \<sigma> of
     Close_Pausing (item # rest) \<Rightarrow> Some (clk, Request_Pause (act_run item)) | _ \<Rightarrow> None)"
| "planned_call t clk Close_Abandon \<sigma> s = (case sch_closer \<sigma> of
     Close_Abandoning (item # rest) \<Rightarrow> Some (clk, Abandon (act_claim item)) | _ \<Rightarrow> None)"
| "planned_call t clk _ \<sigma> s = None"

text \<open>
  What the unit of work of a call leaves: nothing where the call raises. A renewal is committed
  only where it renewed, and a claim only where it got claims whose nodes can be read.
\<close>

fun committed :: "tenant \<Rightarrow> clock \<Rightarrow> wf_call \<Rightarrow> wf_store \<Rightarrow> wf_store" where
  "committed t clk (Renew c until) s = (case renew t c until clk s of Inr (s', True) \<Rightarrow> s' | _ \<Rightarrow> s)"
| "committed t clk (Claim_Ready worker until limit kinds reserve) s =
     (case claim_ready t worker until limit kinds reserve (clk 0) s of
        Inr (s', claims) \<Rightarrow> if claims = [] \<or> isl (traverse (claim_info t s') claims) then s else s'
      | Inl _ \<Rightarrow> s)"
| "committed t clk call s = (case exec_call t clk call s of Inl _ \<Rightarrow> s | Inr s' \<Rightarrow> s')"

section \<open>The blocks make them\<close>

lemma committed_work: "fst (in_unit_of_work r s) = (case keep_store r of Inl _ \<Rightarrow> s | Inr s' \<Rightarrow> s')"
  by (cases r) (auto simp: in_unit_of_work_def keep_store_def split: prod.split)

lemma abandon_claim_refused: "abandon t c now s = Inr (s', False) \<Longrightarrow> s' = s"
  by (auto simp: abandon_def Let_def result_simps split: option.splits)

lemma committed_abandon: "fst (abandon_claim t c (clk 0) s) = committed t clk (Abandon c) s"
proof (cases "abandon t c (clk 0) s")
  case (Inr x)
  obtain s' found where x: "x = (s', found)"
    by (cases x)
  then show ?thesis
    using Inr abandon_claim_refused[of t c "clk 0" s s'] by (cases found) (simp_all add: abandon_claim_def keep_store_def)
qed (simp add: abandon_claim_def keep_store_def)

lemma committed_renew:
  "fst (heartbeat_item t clk beat \<sigma> item s)
     = committed t (clock_from 1 clk) (Renew (act_claim item) (clk 0 + sch_lease_duration \<sigma>)) s"
  by (auto simp: heartbeat_item_def split: sum.splits prod.splits bool.splits)

lemma committed_claim:
  "snd (claim_available t clk capacity kinds reserve (\<sigma>, s))
     = committed t (clock_from 1 clk) (Claim_Ready (sch_owner \<sigma>) (clk 0 + sch_lease_duration \<sigma>) capacity kinds reserve) s"
  by (auto simp: claim_available_def split: sum.splits prod.splits)

lemma settle_phase_calls:
  assumes "settle_phase t clk c tok ph s = Some r"
  shows "fst r = (case settle_call clk c tok ph of None \<Rightarrow> s | Some (clk', call) \<Rightarrow> committed t clk' call s)"
proof (cases ph)
  case (Job_Outcome out)
  then have r: "settle_outcome t clk c tok out s = r"
    using assms by simp
  note work = fst_try_settle committed_work committed_abandon
  show ?thesis
  proof (cases out)
    case (Raised_Retryable e)
    then show ?thesis
      using r Job_Outcome by (auto simp: work split: option.splits if_splits)
  next
    case Raised_Paused
    then show ?thesis
      using r Job_Outcome committed_abandon[of t c clk s] by (auto split: prod.splits)
  next
    case (Raised_Error e)
    then show ?thesis
      using r Job_Outcome by (auto simp: work split: if_splits)
  qed (use r Job_Outcome in \<open>auto simp: work split: if_splits\<close>)
next
  case (Job_Committing result)
  then have "fst r = fst (in_unit_of_work (case res_available_at result of
      None \<Rightarrow> complete t c (res_output result) (res_evidence_refs result) (res_public_summary result) clk s
    | Some available_at \<Rightarrow> defer_claim t c available_at (res_output result) clk s) s)"
    using assms by (auto simp: commit_result_def split: prod.splits sum.splits)
  then show ?thesis
    using Job_Committing by (auto simp: committed_work split: option.split)
qed (use assms in simp_all)

lemma resume_boundary_calls:
  "snd (resume_boundary t (clk 0) rid has_active (\<sigma>, s))
     = (if check_resumes t rid s then committed t clk (Resume rid) s else s)"
  using committed_work[of "resume t rid (clk 0) s" s]
  by (auto simp: resume_boundary_def boundary_resolved_def check_resumes_def Let_def
      split: sum.splits option.splits prod.splits)

section \<open>The actions make them\<close>

abbreviation plan_kept :: "tenant \<Rightarrow> clock \<Rightarrow> sched_action \<Rightarrow> scheduler \<Rightarrow> wf_store \<Rightarrow> wf_store \<Rightarrow> bool" where
  "plan_kept t clk a \<sigma> s s' \<equiv>
     s' = (case planned_call t clk a \<sigma> s of None \<Rightarrow> s | Some (clk', call) \<Rightarrow> committed t clk' call s)"

lemma coordinator_calls:
  assumes "coordinator_action t clk a (\<sigma>, s) = Some (\<sigma>', s')"
  shows "plan_kept t clk a \<sigma> s s'"
proof (cases a)
  case (Heartbeat beat)
  then obtain item rest where c: "sch_coordinator \<sigma> = Coord_Beating (item # rest)"
      "heartbeat t clk beat item rest (\<sigma>, s) = (\<sigma>', s')"
    using assms by (auto split: coordinator.splits list.splits)
  then have "s' = fst (heartbeat_item t clk beat \<sigma> item s)"
    by (auto simp: heartbeat_def Let_def split: prod.splits)
  then show ?thesis
    using Heartbeat c(1) by (simp add: committed_renew del: committed.simps)
next
  case Claim_Available
  then obtain capacity kinds reserve where c: "sch_coordinator \<sigma> = Coord_Claiming capacity kinds reserve"
      "claim_available t clk capacity kinds reserve (\<sigma>, s) = (\<sigma>', s')"
    using assms by (auto split: coordinator.splits)
  then show ?thesis
    using Claim_Available committed_claim[of t clk capacity kinds reserve \<sigma> s] by (simp del: committed.simps)
next
  case Register
  then obtain es where es: "sch_coordinator \<sigma> = Coord_Registering es"
    using assms by (auto split: coordinator.splits)
  show ?thesis
  proof (cases es)
    case Nil
    then show ?thesis
      using assms Register es by simp
  next
    case (Cons e rest)
    then have "register_claim t (clk 0) e rest (\<sigma>, s) = (\<sigma>', s')"
      using assms Register es by simp
    then have "s' = (if snd e = None \<or> sch_closed \<sigma> \<or> claim_node (fst e) \<in> act_node ` set (sch_active \<sigma>)
        then committed t clk (Abandon (fst e)) s else s)"
      by (auto simp: register_claim_def Let_def committed_abandon split: if_splits simp del: committed.simps)
    then show ?thesis
      using Register es Cons by (simp del: committed.simps)
  qed
next
  case Withdraw
  then obtain item where c: "sch_coordinator \<sigma> = Coord_Withdrawing item" "withdraw_item t (clk 0) item (\<sigma>, s) = (\<sigma>', s')"
    using assms by (auto split: coordinator.splits)
  then show ?thesis
    using Withdraw by (auto simp: withdraw_item_def committed_abandon simp del: committed.simps)
qed (use assms in \<open>auto split: if_splits coordinator.splits list.splits\<close>)

lemma worker_calls:
  assumes "worker_action t clk a (\<sigma>, s) = Some (\<sigma>', s')"
  shows "plan_kept t clk a \<sigma> s s'"
proof (cases a)
  case (Settle_Node i)
  then obtain item ph r where "job_of i \<sigma> = Some (item, ph)"
      "settle_phase t clk (act_claim item) (token_of \<sigma> item) ph s = Some r" "s' = fst r"
    using assms by (auto simp: enter_phase_def split: option.splits prod.splits)
  then show ?thesis
    using Settle_Node settle_phase_calls by (simp del: committed.simps)
next
  case (Leave_Node i)
  then obtain item settled where "job_of i \<sigma> = Some (item, Job_Settled settled)"
      "s' = leave_node t (clk 0) (act_claim item) settled s"
    using assms by (auto split: option.splits prod.splits job_phase.splits)
  then show ?thesis
    using Leave_Node by (cases settled) (simp_all add: leave_node_def committed_abandon del: committed.simps)
qed (use assms in \<open>auto simp: enter_phase_def split: option.splits prod.splits job_phase.splits\<close>)

lemma caller_calls:
  assumes "caller_action t clk a (\<sigma>, s) = Some (\<sigma>', s')"
  shows "plan_kept t clk a \<sigma> s s'"
proof (cases a)
  case Resume_Boundary
  then obtain rid has_active rest where c: "sch_resuming \<sigma> = (rid, has_active) # rest"
      "resume_boundary t (clk 0) rid has_active (\<sigma>, s) = (\<sigma>', s')"
    using assms by (auto split: list.splits)
  then show ?thesis
    using Resume_Boundary resume_boundary_calls[of t clk rid has_active \<sigma> s] by (simp del: committed.simps)
next
  case Close_Abandon
  then show ?thesis
    using assms by (auto simp: close_abandon_def committed_abandon split: closer.splits list.splits simp del: committed.simps)
next
  case Start
  then show ?thesis
    using assms by (auto simp: if_allowed_def split: sum.splits)
next
  case (Resume_After_Boundary rid)
  then show ?thesis
    using assms by (auto simp: if_allowed_def split: sum.splits)
qed (use assms in \<open>auto simp: pause_run_def resume_run_def cancel_run_def close_item_def committed_work
      split: if_splits list.splits closer.splits\<close>)

lemma action_calls:
  assumes "exec_action t clk a (\<sigma>, s) = Some (\<sigma>', s')" and "\<nexists>u c. a = Other_Client u c"
  shows "plan_kept t clk a \<sigma> s s'"
  using assms(1)
proof (cases rule: exec_action_cases)
  case (other u c)
  then show ?thesis using assms(2) by blast
qed (rule coordinator_calls worker_calls caller_calls, assumption)+

end
