(* ===== verification/Scheduler_Properties.thy ===== *)
theory Scheduler_Properties
  imports Scheduler_Examples Scheduler_Calls
begin

text \<open>The properties of the scheduler, over every interleaving of its threads.\<close>

section \<open>The pool\<close>

text \<open>
  C23. The pool is bounded: in every reachable state it holds at most \<open>max_workers\<close> items, and
  no two of them are on one node.
\<close>

theorem pool_is_bounded:
  assumes "sched_reachable t (l, \<sigma>, s)"
  shows "int (length (sch_active \<sigma>)) \<le> sch_max_workers \<sigma> \<and> distinct (map act_node (sch_active \<sigma>))"
proof -
  have ok: "pool_ok \<sigma>"
    using sched_reachable_inv[OF assms] by (simp add: sched_inv_def)
  moreover have "0 \<le> sch_reserved \<sigma>"
    using ok by (auto simp: pool_ok_def claiming_ok_def sch_reserved_def split: coordinator.splits)
  ultimately show ?thesis by (auto simp: pool_ok_def)
qed

theorem pool_is_bounded_witness:
  "sch_active (fst (ex_state ex_start)) \<noteq> []
   \<and> int (length (sch_active (fst (ex_state ex_start)))) \<le> sch_max_workers (fst (ex_state ex_start))"
proof -
  have "sched_reachable ex_tenant (actions_end 0 ex_start, ex_state ex_start)"
    using ex_reachable ex_started by blast
  then have "sched_reachable ex_tenant (actions_end 0 ex_start, fst (ex_state ex_start), snd (ex_state ex_start))"
    by simp
  from pool_is_bounded[OF this] show ?thesis using ex_started by auto
qed

text \<open>
  C24. A parent cannot starve the child run it waits for: while the pool holds an item of a root
  run whose node may wait for a child run, the items of root runs leave a worker free, so an item
  of a child run can always get one. This rests on the capacity and the flag the coordinator
  reads and on the selection of \<open>claim_ready\<close> together.
\<close>

theorem child_run_finds_a_worker:
  assumes "sched_reachable t (l, \<sigma>, s)" and "a \<in> set (sch_active \<sigma>)"
    and "act_parent a = None" and "act_kind a \<in> blocking_parent_kinds \<sigma>"
  shows "int (length (filter (\<lambda>b. act_parent b = None) (sch_active \<sigma>))) < sch_max_workers \<sigma>"
proof -
  have ok: "pool_ok \<sigma>"
    using sched_reachable_inv[OF assms(1)] by (simp add: sched_inv_def)
  have "mset (map item_info (sch_active \<sigma>)) \<subseteq># mset (pool_infos \<sigma>)"
    by (simp add: pool_infos_def)
  then have kept: "slot_kept (sch_max_workers \<sigma>) (blocking_parent_kinds \<sigma>) (map item_info (sch_active \<sigma>))"
    using ok slot_kept_mset unfolding pool_ok_def by blast
  have "blocks (blocking_parent_kinds \<sigma>) (item_info a)"
    using assms(3,4) by (simp add: blocks_def item_info_def)
  then have "int (length (filter is_root (map item_info (sch_active \<sigma>)))) \<le> sch_max_workers \<sigma> - 1"
    using kept assms(2) unfolding slot_kept_def by auto
  then show ?thesis
    by (simp add: filter_map comp_def item_info_def)
qed

theorem child_run_finds_a_worker_witness:
  "\<exists>a\<in>set (sch_active (fst (ex_state ex_start))). act_parent a = None
     \<and> act_kind a \<in> blocking_parent_kinds (fst (ex_state ex_start))
     \<and> int (length (filter (\<lambda>b. act_parent b = None) (sch_active (fst (ex_state ex_start)))))
         < sch_max_workers (fst (ex_state ex_start))"
proof -
  have r: "sched_reachable ex_tenant (actions_end 0 ex_start, fst (ex_state ex_start), snd (ex_state ex_start))"
    using ex_reachable ex_started by simp
  have "\<exists>a\<in>set (sch_active (fst (ex_state ex_start))). act_parent a = None
     \<and> act_kind a \<in> blocking_parent_kinds (fst (ex_state ex_start))"
    by code_simp
  with child_run_finds_a_worker[OF r] show ?thesis by blast
qed

section \<open>The store\<close>

text \<open>
  C25. The scheduler keeps its contract with the repository: the store after an action of one of
  its threads is exactly what the unit of work of the one call leaves that the action is to make
  in this state (renew for a heartbeat, claim_ready, abandon, and for a settlement the call that
  belongs to how the adapter ended), with its arguments and its readings of the clock, or the old
  store where it is to make none; and every store that a scheduler reaches is one that calls of
  the repository reach, with all that was proved of those.
\<close>

theorem scheduler_refines_repository:
  assumes "sched_reachable t (l, \<sigma>, s)" and "exec_action t clk a (\<sigma>, s) = Some (\<sigma>', s')"
    and "\<nexists>u c. a = Other_Client u c" and "monotone_clock clk" and "l \<le> clk 0" and "clk 4 \<le> l'"
  shows "s' = (case planned_call t clk a \<sigma> s of None \<Rightarrow> s | Some (clk', call) \<Rightarrow> committed t clk' call s)
    \<and> reachable (l, s) \<and> reachable (l', s')"
proof -
  have step: "sched_step t (l, \<sigma>, s) (l', \<sigma>', s')"
    by (rule sched_step.action[OF assms(2,4-6)])
  have r: "reachable (l, s)"
    by (rule sched_reachable_store[OF assms(1)])
  moreover have "reachable (l', s')"
    using scheduled.path_sim[OF r_into_rtranclp[of "sched_step t", OF step]] reachable_path[OF r] by (simp add: sched_store_def)
  ultimately show ?thesis
    using action_calls[OF assms(2,3)] by blast
qed

text \<open>The worker whose adapter returned a result completes the node.\<close>

theorem scheduler_refines_repository_witness:
  "\<exists>c. snd (ex_state (ex_start @ ex_work @ [(3, Settle_Node 0), (3, Settle_Node 0)]))
      = committed ex_tenant (\<lambda>i. 3) (Complete c JNull [] None) (snd (ex_state (ex_start @ ex_work @ [(3, Settle_Node 0)])))
    \<and> map node_status (nodes_of ex_tenant (snd (ex_state (ex_start @ ex_work @ [(3, Settle_Node 0), (3, Settle_Node 0)]))))
      \<noteq> map node_status (nodes_of ex_tenant (snd (ex_state (ex_start @ ex_work @ [(3, Settle_Node 0)]))))"
proof -
  let ?x = "ex_state (ex_start @ ex_work @ [(3, Settle_Node 0)])"
  let ?y = "ex_state (ex_start @ ex_work @ [(3, Settle_Node 0), (3, Settle_Node 0)])"
  have x: "ex_runs (ex_start @ ex_work @ [(3, Settle_Node 0)]) \<and> actions_end 0 (ex_start @ ex_work @ [(3, Settle_Node 0)]) = 3"
    by code_simp
  then have r: "sched_reachable ex_tenant (3, fst ?x, snd ?x)"
    using ex_reachable[of "ex_start @ ex_work @ [(3, Settle_Node 0)]"] by simp
  have act: "exec_action ex_tenant (\<lambda>i. 3) (Settle_Node 0) (fst ?x, snd ?x) = Some (fst ?y, snd ?y)"
    unfolding prod.collapse by code_simp
  define item where "item = fst (hd (sch_jobs (fst ?x)))"
  have "job_of 0 (fst ?x) = Some (item, Job_Committing ex_result)"
    unfolding item_def by code_simp
  then have "planned_call ex_tenant (\<lambda>i. 3) (Settle_Node 0) (fst ?x) (snd ?x)
      = Some (\<lambda>i. 3, Complete (act_claim item) JNull [] None)"
    by (simp add: ex_result_def)
  then have "snd ?y = committed ex_tenant (\<lambda>i. 3) (Complete (act_claim item) JNull [] None) (snd ?x)"
    using scheduler_refines_repository[OF r act, of 3] by (simp add: monotone_clock_def del: committed.simps)
  moreover have "map node_status (nodes_of ex_tenant (snd ?y)) \<noteq> map node_status (nodes_of ex_tenant (snd ?x))"
    by code_simp
  ultimately show ?thesis by blast
qed

text \<open>
  C26. A worker does not sit on a claim: when a job whose adapter has ended in any way but by
  asking for the run's cancellation has left the pool, its claim no longer passes the fence, at
  any later moment, whatever the other threads and clients did meanwhile; unless a caller
  cancelled the run, which is then what closes the attempt.
\<close>

theorem ended_jobs_release_their_claims:
  assumes "sched_reachable t (l, \<sigma>, s)" and "(item, Job_Outcome out) \<in> set (sch_jobs \<sigma>)"
    and "out \<noteq> Raised_Cancelled" and "(sched_step t)\<^sup>*\<^sup>* (l, \<sigma>, s) (l', \<sigma>', s')"
    and "act_token item \<notin> (\<lambda>j. act_token (fst j)) ` set (sch_jobs \<sigma>')"
    and "token_of \<sigma>' item \<noteq> Some User_Cancelled" and "l' \<le> now"
  shows "require_claim t (act_claim item) now s' = Inl WorkflowFenceError"
proof -
  let ?i = "act_token item"
  have inv: "tokens_ok \<sigma>"
    using sched_reachable_inv[OF assms(1)] by (simp add: sched_inv_def)
  then have i: "?i < length (sch_tokens \<sigma>)"
    using assms(2) by (force simp: tokens_ok_def job_token_def)
  have "\<forall>j\<in>set (job_at ?i \<sigma>). j = (item, Job_Outcome out)"
  proof
    fix j assume "j \<in> set (job_at ?i \<sigma>)"
    then show "j = (item, Job_Outcome out)"
      using assms(2) inv distinct_map_unique[of job_token "sch_jobs \<sigma>" j "(item, Job_Outcome out)"]
      by (simp add: job_at_def tokens_ok_def job_token_def)
  qed
  then have "\<forall>j\<in>set (job_at ?i \<sigma>). job_claim j = act_claim item
      \<and> releasing t (act_claim item) l s (sch_tokens \<sigma> ! ?i) (snd j)"
    using assms(3) by (metis fst_conv job_claim_def releasing.simps(1) snd_conv)
  moreover have "job_at ?i \<sigma> \<noteq> []"
    using assms(2) by (force simp: job_at_def job_token_def filter_empty_conv)
  moreover have "not_at_hand ?i \<sigma>"
    using inv assms(2) by (force simp: tokens_ok_def not_at_hand_def job_token_def)
  ultimately have "on_its_way t ?i (act_claim item) (l, \<sigma>, s)"
    using i by (simp add: on_its_way_def)
  then have way: "on_its_way t ?i (act_claim item) (l', \<sigma>', s')"
    by (rule path_on_its_way[OF assms(1) _ assms(4)])
  moreover have "job_at ?i \<sigma>' = []"
    using assms(5) by (force simp: job_at_def job_token_def filter_empty_conv)
  ultimately have "spent t (act_claim item) l' s'"
    using assms(6) by (auto simp: on_its_way_def released_def token_of_def)
  moreover have "reachable (l', s')"
    using scheduled.path_sim[OF assms(4)] sched_reachable_store[OF assms(1)] reachable_path
    by (simp add: sched_store_def)
  ultimately show ?thesis
    using spent_fenced[OF _ reachable_wf_inv] require_claim_total[OF reachable_wf_inv] assms(7) by blast
qed

theorem ended_jobs_release_their_claims_witness:
  "\<exists>item. (item, Job_Outcome (Returned ex_result)) \<in> set (sch_jobs (fst (ex_state (ex_start @ ex_work))))
     \<and> require_claim ex_tenant (act_claim item) 3 (snd (ex_state (ex_start @ ex_work @ ex_leave)))
       = Inl WorkflowFenceError"
proof -
  let ?x = "ex_state (ex_start @ ex_work)" and ?y = "ex_state (ex_start @ ex_work @ ex_leave)"
  have x: "ex_runs (ex_start @ ex_work) \<and> actions_end 0 (ex_start @ ex_work) = 2" by code_simp
  then have r: "sched_reachable ex_tenant (2, fst ?x, snd ?x)"
    using ex_reachable[of "ex_start @ ex_work"] by simp
  define item where "item = fst (hd (sch_jobs (fst ?x)))"
  have j: "sch_jobs (fst ?x) = [(item, Job_Outcome (Returned ex_result))] \<and> act_token item = 0"
    unfolding item_def by code_simp
  have run: "run_actions ex_tenant ex_leave ?x = Some ?y" by code_simp
  have "action_times 2 ex_leave \<and> actions_end 2 ex_leave = 3" by code_simp
  then have path: "(sched_step ex_tenant)\<^sup>*\<^sup>* (2, fst ?x, snd ?x) (3, fst ?y, snd ?y)"
    using run_actions_path[OF run, of 2] by simp
  have y: "sch_jobs (fst ?y) = [] \<and> sch_tokens (fst ?y) = [None]" by code_simp
  have "require_claim ex_tenant (act_claim item) 3 (snd ?y) = Inl WorkflowFenceError"
    by (rule ended_jobs_release_their_claims[OF r _ _ path, where out = "Returned ex_result"])
      (use j y in \<open>simp_all add: token_of_def\<close>)
  then show ?thesis using j by auto
qed

text \<open>
  C27. Closing leaves nothing behind: when \<open>close\<close> has waited for the workers, every item still
  in the pool is abandoned before it returns, so that no claim of theirs passes the fence any
  more, and then no job and no item is left.
\<close>

theorem close_abandons_what_is_left:
  assumes "sched_reachable t (l, \<sigma>, s)" and "sch_closer \<sigma> = Close_Waiting" and "sch_jobs \<sigma> = []"
    and "item \<in> set (sch_active \<sigma>)" and "(sched_step t)\<^sup>*\<^sup>* (l, \<sigma>, s) (l', \<sigma>', s')"
    and "sch_closer \<sigma>' = Close_Done" and "l' \<le> now"
  shows "sch_active \<sigma>' = [] \<and> sch_jobs \<sigma>' = []
    \<and> require_claim t (act_claim item) now s' = Inl WorkflowFenceError"
proof -
  have "closing_way t item (l, \<sigma>, s)"
    using assms(2-4) by (simp add: closing_way_def)
  then have "closing_way t item (l', \<sigma>', s')"
    by (rule path_closing_way[OF assms(1) _ assms(5)])
  then have "spent t (act_claim item) l' s'"
    using assms(6) by (simp add: closing_way_def)
  moreover have "reachable (l', s')"
    using scheduled.path_sim[OF assms(5)] sched_reachable_store[OF assms(1)] reachable_path
    by (simp add: sched_store_def)
  ultimately have "require_claim t (act_claim item) now s' = Inl WorkflowFenceError"
    using spent_fenced[OF _ reachable_wf_inv] require_claim_total[OF reachable_wf_inv] assms(7) by blast
  moreover have "sched_reachable t (l', \<sigma>', s')"
    using assms(1,5) unfolding sched_reachable_def by (meson rtranclp_trans)
  then have "closing_ok \<sigma>'"
    using sched_reachable_inv by (fastforce simp: sched_inv_def)
  ultimately show ?thesis
    using assms(6) by (simp add: closing_ok_def)
qed

definition ex_closing :: "(instant \<times> sched_action) list" where
  "ex_closing = ex_start @ [(2, Close), (2, Close_Item), (2, Close_Item), (2, Register),
     (2, Coordinate 0), (3, Shutdown_Executor {0})]"

definition ex_closed :: "(instant \<times> sched_action) list" where
  "ex_closed = [(3, Close_Remaining), (3, Close_Abandon)]"

theorem close_abandons_what_is_left_witness:
  "\<exists>item. sch_active (fst (ex_state ex_closing)) = [item]
     \<and> require_claim ex_tenant (act_claim item) 3 (snd (ex_state (ex_closing @ ex_closed)))
       = Inl WorkflowFenceError"
proof -
  let ?x = "ex_state ex_closing" and ?y = "ex_state (ex_closing @ ex_closed)"
  have x: "ex_runs ex_closing \<and> actions_end 0 ex_closing = 3" by code_simp
  then have r: "sched_reachable ex_tenant (3, fst ?x, snd ?x)"
    using ex_reachable[of ex_closing] by simp
  define item where "item = hd (sch_active (fst ?x))"
  have at: "sch_closer (fst ?x) = Close_Waiting \<and> sch_jobs (fst ?x) = [] \<and> sch_active (fst ?x) = [item]"
    unfolding item_def by code_simp
  have run: "run_actions ex_tenant ex_closed ?x = Some ?y" by code_simp
  have "action_times 3 ex_closed \<and> actions_end 3 ex_closed = 3" by code_simp
  then have path: "(sched_step ex_tenant)\<^sup>*\<^sup>* (3, fst ?x, snd ?x) (3, fst ?y, snd ?y)"
    using run_actions_path[OF run, of 3] by simp
  have y: "sch_closer (fst ?y) = Close_Done" by code_simp
  have "require_claim ex_tenant (act_claim item) 3 (snd ?y) = Inl WorkflowFenceError"
    using close_abandons_what_is_left[OF r _ _ _ path, of item 3] at y by simp
  then show ?thesis using at by auto
qed

section \<open>Resuming after a boundary\<close>




end
