(* ===== verification/Workflow_Findings.thy ===== *)
theory Workflow_Findings
  imports Scheduler_Examples
begin

text \<open>
  Executions in which the code does something it does not mean to do, each evaluated on a
  concrete schedule. They bound the properties: those of closed runs, of leases and of the
  scheduler's jobs hold with the conditions they have, and not without them.
\<close>

section \<open>A failed run comes back\<close>

definition ex_side :: "uuid \<Rightarrow> string \<Rightarrow> int \<Rightarrow> workflow_node" where
  "ex_side i key attempts = (ex_node i key attempts)\<lparr>node_policy := Parallel_Read\<rparr>"

definition ex_sides :: "int \<Rightarrow> tenant \<times> instant \<times> wf_call" where
  "ex_sides attempts = (ex_tenant, 0, Create ex_run [ex_side 11 ''a'' attempts, ex_side 12 ''b'' 2] [])"

definition ex_both :: "(tenant \<times> instant \<times> wf_call) list" where
  "ex_both = [ex_sides 1, (ex_tenant, 1, Claim_Ready ''w'' 100 5 {} False)]"

definition run_statuses :: "wf_store \<Rightarrow> run_status list" where
  "run_statuses s = map run_status (runs_of ex_tenant s)"

definition node_statuses :: "wf_store \<Rightarrow> node_status list" where
  "node_statuses s = map node_status (nodes_of ex_tenant s)"

text \<open>
  \<open>abandon\<close> of the last attempt of a node fails the run without cancelling its other nodes; a
  retry of one of them puts the failed run back in the queue.
\<close>

theorem failed_run_is_revived:
  "run_statuses (ex_store (ex_both @ [(ex_tenant, 2, Abandon (ex_claim 11 1 100))])) = [Run_Failed]
   \<and> ex_ok (ex_both @ [(ex_tenant, 2, Abandon (ex_claim 11 1 100)), (ex_tenant, 3, Retry (ex_claim 12 1 100) 4 ''E'')])
   \<and> run_statuses (ex_store (ex_both @ [(ex_tenant, 2, Abandon (ex_claim 11 1 100)),
        (ex_tenant, 3, Retry (ex_claim 12 1 100) 4 ''E'')])) = [Run_Queued]"
  by code_simp

section \<open>A waiting node without attempts blocks every claim\<close>

definition ex_waiting :: "(tenant \<times> instant \<times> wf_call) list" where
  "ex_waiting = [(ex_tenant, 0, Create ex_run [ex_node 11 ''a'' 1] []),
     (ex_tenant, 1, Claim_Ready ''w'' 100 5 {} False),
     (ex_tenant, 2, Wait_Approval (ex_claim 11 1 100) JNull)]"

text \<open>
  \<open>wait_for_approval\<close> and \<open>wait_for_input\<close> do not look at the attempts, as \<open>defer\<close> does: after
  the approval the node is ready with none left, and the update of its counter violates the
  table's check, so that every claim of the tenant raises.
\<close>

theorem resumed_node_blocks_claims:
  "ex_ok (ex_waiting @ [(ex_tenant, 3, Resume 1)])
   \<and> node_statuses (ex_store (ex_waiting @ [(ex_tenant, 3, Resume 1)])) = [Node_Ready]
   \<and> exec_call ex_tenant (\<lambda>i. 4) (Claim_Ready ''w'' 100 5 {} False)
       (ex_store (ex_waiting @ [(ex_tenant, 3, Resume 1)])) = Inl IntegrityError"
  by code_simp

section \<open>A pause hides a waiting node\<close>

definition ex_paused :: "(tenant \<times> instant \<times> wf_call) list" where
  "ex_paused = [ex_ready, (ex_tenant, 1, Claim_Ready ''w'' 100 5 {} False),
     (ex_tenant, 2, Wait_Approval (ex_claim 11 1 100) JNull),
     (ex_tenant, 3, Request_Pause 1), (ex_tenant, 4, Resume 1)]"

text \<open>
  Pausing a run that waits overwrites the status by which \<open>resume\<close> knows that a node waits: the
  run is queued again, its node waits for ever, and resuming it once more changes nothing.
\<close>

theorem paused_waiting_run_is_stranded:
  "ex_ok (ex_paused @ [(ex_tenant, 5, Resume 1), (ex_tenant, 6, Claim_Ready ''w'' 100 5 {} False)])
   \<and> run_statuses (ex_store (ex_paused @ [(ex_tenant, 5, Resume 1), (ex_tenant, 6, Claim_Ready ''w'' 100 5 {} False)]))
       = [Run_Queued]
   \<and> node_statuses (ex_store (ex_paused @ [(ex_tenant, 5, Resume 1), (ex_tenant, 6, Claim_Ready ''w'' 100 5 {} False)]))
       = [Node_Waiting_For_Approval, Node_Pending]"
  by code_simp

section \<open>The coordinator discards what its sweeps recovered\<close>

definition ex_late :: instant where
  "ex_late = seconds 1000000"

definition ex_overdue :: "(tenant \<times> instant \<times> wf_call) list" where
  "ex_overdue = [ex_ready]"

text \<open>
  \<open>_claim_available\<close> commits only when it got a claim. The sweep of \<open>claim_ready\<close> fails an
  overdue run, which leaves nothing to claim, so the unit of work is rolled back and the run
  stays unfinished.
\<close>

theorem overdue_run_stays_queued:
  "(case claim_ready ex_tenant ''w'' (ex_late + 1) 2 {} False ex_late (ex_store ex_overdue) of
      Inl e \<Rightarrow> False | Inr (s', claims) \<Rightarrow> claims = [] \<and> run_statuses s' = [Run_Failed])
   \<and> (case run_actions ex_tenant [(ex_late, Coordinate 0), (ex_late, Read_Capacity), (ex_late, Claim_Available)]
        (ex_pool, ex_store ex_overdue) of
      None \<Rightarrow> False | Some (\<sigma>, s') \<Rightarrow> s' = ex_store ex_overdue \<and> run_statuses s' = [Run_Queued])"
  by code_simp

section \<open>Closing drops claims that were not registered\<close>

definition ex_race :: "(instant \<times> sched_action) list" where
  "ex_race = [(1, Coordinate 0), (1, Read_Capacity), (1, Claim_Available), (2, Close), (2, Close_Item),
     (2, Register), (2, Coordinate 0), (2, Shutdown_Executor {}), (2, Close_Remaining), (2, Close_Abandon)]"

text \<open>
  When the scheduler closes while it registers several claims, the first is abandoned and the
  loop returns: the others keep their leases, with nobody to work on them, until they expire.
\<close>

theorem closing_drops_claims:
  "(case run_actions ex_tenant ex_race (ex_pool\<lparr>sch_adapters := []\<rparr>, ex_store [ex_sides 2]) of
      None \<Rightarrow> False
    | Some (\<sigma>, s') \<Rightarrow> sch_closer \<sigma> = Close_Done \<and> sch_active \<sigma> = [] \<and> sch_jobs \<sigma> = []
        \<and> node_statuses s' = [Node_Ready, Node_Running]
        \<and> map att_status (attempts_of ex_tenant s') = [Attempt_Abandoned, Attempt_Running])"
  by code_simp

section \<open>A cancellation that arrives too late leaves the claim\<close>

definition ex_hold :: "(instant \<times> sched_action) list" where
  "ex_hold = [(1, Coordinate 0), (1, Read_Capacity), (1, Claim_Available), (1, Register), (1, Submit_Job True),
     (1, Register), (1, Submit_Job True),
     (2, Begin_Node 1), (2, Other_Client ex_tenant (Abandon ((ex_claim 11 1 (1 + seconds 30))
        \<lparr>claim_lease_owner := ''workflow-worker:w''\<rparr>))),
     (3, Adapter_Ends 1 Raised_Cancelled), (3, Settle_Node 1), (3, Leave_Node 1), (3, Finish_Node 1)]"

text \<open>
  An adapter that asks for the cancellation of a run that has failed meanwhile counts as
  settled, because \<open>cancel\<close> returns a terminal run unchanged: its claim is neither closed nor
  abandoned. This is why C26 excludes that outcome.
\<close>

theorem late_cancellation_keeps_the_claim:
  "(case run_actions ex_tenant ex_hold (ex_pool\<lparr>sch_adapters := [(''model'', ex_adapter\<lparr>may_wait_for_child := False\<rparr>)]\<rparr>,
        ex_store [ex_sides 1]) of
      None \<Rightarrow> False
    | Some (\<sigma>, s') \<Rightarrow> run_statuses s' = [Run_Failed]
        \<and> map (act_token \<circ> fst) (sch_jobs \<sigma>) = [0]
        \<and> map att_status (attempts_of ex_tenant s') = [Attempt_Abandoned, Attempt_Running])"
  by code_simp

section \<open>A refused job loses an intent\<close>

definition ex_refused :: "(instant \<times> sched_action) list" where
  "ex_refused = [(1, Coordinate 0), (1, Read_Capacity), (1, Claim_Available), (1, Register),
     (2, Resume_After_Boundary 1), (2, Check_Boundary), (2, Resume_Boundary), (2, Submit_Job False), (2, Withdraw)]"

text \<open>
  A check that runs between the registration of an item and the submission of its job leaves the
  intent to that item. When the thread pool refuses the job, the item leaves without a check: the
  intent stays registered, with no item of its run and no check. This is why C28 assumes that the
  pool takes the jobs.
\<close>

theorem refused_job_strands_the_intent:
  "(case run_actions ex_tenant ex_refused (ex_pool, ex_store [ex_ready]) of
      None \<Rightarrow> False
    | Some (\<sigma>, s') \<Rightarrow> 1 \<in> sch_boundary \<sigma> \<and> \<not> run_is_active 1 \<sigma> \<and> sch_checking \<sigma> = [] \<and> sch_resuming \<sigma> = []
        \<and> map att_status (attempts_of ex_tenant s') = [Attempt_Abandoned])"
  by code_simp

end
