(* ===== verification/Domain_Errors.thy ===== *)
theory Domain_Errors
  imports Prelude
begin

text \<open>
  The failures of \<open>domain/errors.py\<close>, with the \<open>code\<close> each carries, and the two exceptions
  of Python's that the domain raises beside them. An exception that carries a message has it
  where the code tells two failures of one function apart by it.
\<close>

datatype domain_error =
    ValueError string
  | KeyError
  | RecursionError
  | InvalidTransitionError string
  | VersionConflictError
  | IdempotencyConflictError
  | WorkerFenceError
  | CapabilityUnavailableError
  | ProjectBusyError
  | CommandRejectedError string
  | ScopeViolationError string "string option"
  | PreviewScopeViolationError
  | MemoryScopeViolationError
  | MemoryConflictError
  | MemoryInjectionBlockedError
  | MemorySecretBlockedError
  | MemoryProjectionStaleError
  | MemorySnapshotTooLargeError
  | MemoryForgottenError

text \<open>The \<open>code\<close> attribute: only a \<open>DomainError\<close> has one.\<close>

fun error_code_of :: "domain_error \<Rightarrow> string option" where
  "error_code_of (InvalidTransitionError _) = Some ''INVALID_STATE_TRANSITION''"
| "error_code_of VersionConflictError = Some ''VERSION_CONFLICT''"
| "error_code_of IdempotencyConflictError = Some ''IDEMPOTENCY_CONFLICT''"
| "error_code_of WorkerFenceError = Some ''WORKER_INTERRUPTED''"
| "error_code_of CapabilityUnavailableError = Some ''CAPABILITY_NOT_AVAILABLE''"
| "error_code_of ProjectBusyError = Some ''PROJECT_BUSY''"
| "error_code_of (CommandRejectedError code) = Some code"
| "error_code_of (ScopeViolationError code _) = Some code"
| "error_code_of PreviewScopeViolationError = Some ''SCOPE_MISMATCH''"
| "error_code_of MemoryScopeViolationError = Some ''MEMORY_SCOPE_VIOLATION''"
| "error_code_of MemoryConflictError = Some ''MEMORY_CONFLICT''"
| "error_code_of MemoryInjectionBlockedError = Some ''MEMORY_INJECTION_BLOCKED''"
| "error_code_of MemorySecretBlockedError = Some ''MEMORY_SECRET_BLOCKED''"
| "error_code_of MemoryProjectionStaleError = Some ''MEMORY_PROJECTION_STALE''"
| "error_code_of MemorySnapshotTooLargeError = Some ''MEMORY_SNAPSHOT_TOO_LARGE''"
| "error_code_of MemoryForgottenError = Some ''MEMORY_FORGOTTEN''"
| "error_code_of _ = None"

text \<open>\<open>ScopeViolationError(message, code=..., model_detail=...)\<close>: raising it can itself fail.\<close>

definition scope_violation :: "string option \<Rightarrow> string option \<Rightarrow> domain_error" where
  "scope_violation code model_detail =
     (let violation = ScopeViolationError (case code of None \<Rightarrow> ''PATH_OUT_OF_SCOPE'' | Some c \<Rightarrow> c) model_detail
      in case model_detail of
           None \<Rightarrow> violation
         | Some detail \<Rightarrow> if strip detail = [] \<or> 2000 < length detail
             then ValueError ''model recovery detail is invalid'' else violation)"

end
