(* ===== verification/Domain_Ids.thy ===== *)
theory Domain_Ids
  imports Domain_Errors
begin

unbundle bit_operations_syntax

text \<open>
  \<open>new_id\<close> of \<open>domain/ids.py\<close>: the monotonic UUIDv7 generator. Its two module globals are the
  state; a call takes the reading of \<open>time.time_ns()\<close> and the value that
  \<open>secrets.randbits(74)\<close> would return. Python's integers are unbounded, so they are \<open>int\<close>
  here, and the masks and shifts are those of the code.
\<close>

section \<open>The generator\<close>

record id_state =
  last_timestamp_ms :: int
  last_random :: int

definition ids_start :: id_state where
  "ids_start = \<lparr>last_timestamp_ms = -1, last_random = 0\<rparr>"

definition random_mask :: int where
  "random_mask = push_bit 74 1 - 1"

text \<open>The critical section.\<close>

definition draw_id :: "int \<Rightarrow> int \<Rightarrow> id_state \<Rightarrow> id_state" where
  "draw_id time_ns randbits st =
     (let timestamp_ms = time_ns div 1000000
      in if last_timestamp_ms st < timestamp_ms
         then \<lparr>last_timestamp_ms = timestamp_ms, last_random = randbits\<rparr>
         else let random_bits = (last_random st + 1) AND random_mask
              in \<lparr>last_timestamp_ms = (if random_bits = 0 then last_timestamp_ms st + 1 else last_timestamp_ms st),
                  last_random = random_bits\<rparr>)"

definition id_value :: "int \<Rightarrow> int \<Rightarrow> int" where
  "id_value timestamp_ms random_bits =
     (let random_a = drop_bit 62 random_bits;
          random_b = random_bits AND (push_bit 62 1 - 1);
          value0 = push_bit 80 (timestamp_ms AND (push_bit 48 1 - 1));
          value1 = value0 OR push_bit 76 7;
          value2 = value1 OR push_bit 64 random_a;
          value3 = value2 OR push_bit 62 2
      in value3 OR random_b)"

text \<open>\<open>UUID(int=value)\<close> accepts 128 bits.\<close>

definition uuid_of_int :: "int \<Rightarrow> domain_error + uuid" where
  "uuid_of_int value = ensure
     [(\<not> (0 \<le> value \<and> value < push_bit 128 1), ValueError ''int is out of range (need a 128-bit value)'')]
     (nat value)"

definition new_id :: "int \<Rightarrow> int \<Rightarrow> id_state \<Rightarrow> id_state \<times> (domain_error + uuid)" where
  "new_id time_ns randbits st =
     (let st' = draw_id time_ns randbits st
      in (st', uuid_of_int (id_value (last_timestamp_ms st') (last_random st'))))"

text \<open>A sequence of calls, which the lock makes of any interleaving of threads.\<close>

fun new_ids :: "(int \<times> int) list \<Rightarrow> id_state \<Rightarrow> (domain_error + uuid) list" where
  "new_ids [] st = []"
| "new_ids ((time_ns, randbits) # calls) st =
     (case new_id time_ns randbits st of (st', r) \<Rightarrow> r # new_ids calls st')"

section \<open>The fields of RFC 9562\<close>

definition uuid_timestamp :: "uuid \<Rightarrow> int" where
  "uuid_timestamp u = drop_bit 80 (int u)"

definition uuid_version :: "uuid \<Rightarrow> int" where
  "uuid_version u = drop_bit 76 (int u) AND 15"

definition uuid_variant :: "uuid \<Rightarrow> int" where
  "uuid_variant u = drop_bit 62 (int u) AND 3"

definition uuid_random :: "uuid \<Rightarrow> int" where
  "uuid_random u = push_bit 62 (drop_bit 64 (int u) AND 4095) OR (int u AND (push_bit 62 1 - 1))"

section \<open>The bits as numbers\<close>

lemma mask_and: "x AND (push_bit n 1 - 1) = (x :: int) mod 2 ^ n"
  by (simp add: push_bit_eq_mult flip: take_bit_eq_mask mask_eq_exp_minus_1 take_bit_eq_mod)

lemma or_low_bits:
  assumes "0 \<le> (b :: int)" and "b < 2 ^ n"
  shows "push_bit n a OR b = a * 2 ^ n + b"
proof -
  have b: "take_bit n b = b"
    using assms by (simp add: take_bit_int_eq_self)
  have "push_bit n a AND b = push_bit n a AND take_bit n b"
    by (simp only: b)
  also have "\<dots> = 0"
    by (rule bit_eqI) (auto simp: bit_simps)
  finally have "push_bit n a OR b = push_bit n a + b"
    by (rule disjunctive_add_eq_or [symmetric])
  then show ?thesis
    by (simp add: push_bit_eq_mult)
qed

lemma split_low:
  assumes "0 \<le> (b :: int)" and "b < 2 ^ n"
  shows "(x * 2 ^ n + b) div 2 ^ n = x" and "(x * 2 ^ n + b) mod 2 ^ n = b"
  using assms by (simp_all only: div_mult_self3 mod_mult_self3 div_pos_pos_trivial mod_pos_pos_trivial)

lemma or_shift: "push_bit (m + n) x OR push_bit n y = push_bit n (push_bit m x OR y :: int)"
  by (simp add: push_bit_or push_bit_push_bit add.commute)

lemma id_value_sum:
  assumes "0 \<le> r" and "r < 2 ^ 74"
  shows "id_value t r = (t mod 2 ^ 48) * 2 ^ 80 + 7 * 2 ^ 76 + (r div 2 ^ 62) * 2 ^ 64 + 2 * 2 ^ 62 + r mod 2 ^ 62"
proof -
  define tt where "tt = t mod 2 ^ 48"
  define a where "a = r div 2 ^ 62"
  define b where "b = r mod 2 ^ 62"
  have a: "0 \<le> a" "a < 2 ^ 12" and b: "0 \<le> b" "b < 2 ^ 62"
    using assms by (auto simp: a_def b_def)
  have "push_bit 80 tt OR push_bit 76 7 = push_bit 76 (push_bit 4 tt OR 7)"
    using or_shift[of 4 76 tt 7] by simp
  also have "\<dots> = push_bit 76 (tt * 16 + 7)"
    by (simp add: or_low_bits)
  finally have s1: "push_bit 80 tt OR push_bit 76 7 = push_bit 76 (tt * 16 + 7)" .
  have "push_bit 76 (tt * 16 + 7) OR push_bit 64 a = push_bit 64 (push_bit 12 (tt * 16 + 7) OR a)"
    using or_shift[of 12 64 "tt * 16 + 7" a] by simp
  also have "\<dots> = push_bit 64 ((tt * 16 + 7) * 2 ^ 12 + a)"
    by (simp only: or_low_bits[OF a])
  finally have s2: "push_bit 76 (tt * 16 + 7) OR push_bit 64 a = push_bit 64 ((tt * 16 + 7) * 2 ^ 12 + a)" .
  have "push_bit 64 ((tt * 16 + 7) * 2 ^ 12 + a) OR push_bit 62 2
      = push_bit 62 (push_bit 2 ((tt * 16 + 7) * 2 ^ 12 + a) OR 2)"
    using or_shift[of 2 62 "(tt * 16 + 7) * 2 ^ 12 + a" 2] by simp
  also have "\<dots> = push_bit 62 (((tt * 16 + 7) * 2 ^ 12 + a) * 4 + 2)"
    by (simp add: or_low_bits)
  finally have s3: "push_bit 64 ((tt * 16 + 7) * 2 ^ 12 + a) OR push_bit 62 2
      = push_bit 62 (((tt * 16 + 7) * 2 ^ 12 + a) * 4 + 2)" .
  have "id_value t r = (((push_bit 80 tt OR push_bit 76 7) OR push_bit 64 a) OR push_bit 62 2) OR b"
    unfolding id_value_def Let_def tt_def a_def b_def mask_and drop_bit_eq_div ..
  also have "\<dots> = (((tt * 16 + 7) * 2 ^ 12 + a) * 4 + 2) * 2 ^ 62 + b"
    unfolding s1 s2 s3 by (rule or_low_bits[OF b])
  finally show ?thesis
    by (simp add: tt_def a_def b_def algebra_simps)
qed

text \<open>Reading the fields back, and what that says of the order.\<close>

lemma id_value_bounds:
  assumes "0 \<le> r" and "r < 2 ^ 74"
  shows "0 \<le> id_value t r" and "id_value t r < 2 ^ 128"
proof -
  have "0 \<le> r div 2 ^ 62" "r div 2 ^ 62 < 2 ^ 12" "0 \<le> r mod 2 ^ 62" "r mod 2 ^ 62 < 2 ^ 62"
    "0 \<le> t mod 2 ^ 48" "t mod 2 ^ 48 < 2 ^ 48"
    using assms by auto
  then show "0 \<le> id_value t r" "id_value t r < 2 ^ 128"
    unfolding id_value_sum[OF assms] by (simp_all del: pos_mod_sign pos_mod_bound)
qed

lemma id_value_layout:
  assumes "0 \<le> r" and "r < 2 ^ 74"
  obtains a b where "id_value t r = (((t mod 2 ^ 48 * 16 + 7) * 2 ^ 12 + a) * 4 + 2) * 2 ^ 62 + b"
    and "0 \<le> a" and "a < 2 ^ 12" and "0 \<le> b" and "b < 2 ^ 62" and "r = a * 2 ^ 62 + b"
proof
  show "id_value t r = (((t mod 2 ^ 48 * 16 + 7) * 2 ^ 12 + r div 2 ^ 62) * 4 + 2) * 2 ^ 62 + r mod 2 ^ 62"
    unfolding id_value_sum[OF assms] by (simp add: algebra_simps)
  show "r = r div 2 ^ 62 * 2 ^ 62 + r mod 2 ^ 62"
    by (rule div_mult_mod_eq [symmetric])
qed (use assms in auto)

text \<open>Ids compare as their timestamps and, within one, as their random parts.\<close>

lemma id_value_less:
  assumes "0 \<le> r" "r < 2 ^ 74" and "0 \<le> r'" "r' < 2 ^ 74"
    and "0 \<le> t" "t' < 2 ^ 48" and "t < t' \<or> t = t' \<and> r < r'"
  shows "id_value t r < id_value t' r'"
proof -
  obtain a b where v: "id_value t r = (((t mod 2 ^ 48 * 16 + 7) * 2 ^ 12 + a) * 4 + 2) * 2 ^ 62 + b"
    and r: "0 \<le> a" "a < 2 ^ 12" "0 \<le> b" "b < 2 ^ 62" "r = a * 2 ^ 62 + b"
    by (rule id_value_layout[OF assms(1,2)])
  obtain a' b' where v': "id_value t' r' = (((t' mod 2 ^ 48 * 16 + 7) * 2 ^ 12 + a') * 4 + 2) * 2 ^ 62 + b'"
    and r': "0 \<le> a'" "a' < 2 ^ 12" "0 \<le> b'" "b' < 2 ^ 62" "r' = a' * 2 ^ 62 + b'"
    by (rule id_value_layout[OF assms(3,4)])
  have t: "t mod 2 ^ 48 = t" "t' mod 2 ^ 48 = t'"
    using assms by auto
  show ?thesis
  proof (cases "t < t'")
    case True
    then show ?thesis using r r' unfolding v v' t by simp
  next
    case False
    then have "t = t'" and "a < a' \<or> a = a' \<and> b < b'"
      using assms(7) r r' by auto
    then show ?thesis using r r' unfolding v v' t by auto
  qed
qed

section \<open>Successive ids\<close>

definition id_of :: "id_state \<Rightarrow> int" where
  "id_of st = id_value (last_timestamp_ms st) (last_random st)"

definition id_ok :: "id_state \<Rightarrow> bool" where
  "id_ok st \<longleftrightarrow> -1 \<le> last_timestamp_ms st \<and> 0 \<le> last_random st \<and> last_random st < 2 ^ 74"

definition id_before :: "id_state \<Rightarrow> id_state \<Rightarrow> bool" where
  "id_before st st' \<longleftrightarrow> last_timestamp_ms st < last_timestamp_ms st'
     \<or> last_timestamp_ms st = last_timestamp_ms st' \<and> last_random st < last_random st'"

definition draw_ok :: "int \<times> int \<Rightarrow> bool" where
  "draw_ok call \<longleftrightarrow> 0 \<le> fst call \<and> 0 \<le> snd call \<and> snd call < 2 ^ 74"

fun draws :: "(int \<times> int) list \<Rightarrow> id_state \<Rightarrow> id_state list" where
  "draws [] st = []"
| "draws (call # calls) st = (let st' = draw_id (fst call) (snd call) st in st' # draws calls st')"

lemma id_ok_start [simp]: "id_ok ids_start"
  by (simp add: id_ok_def ids_start_def)

lemma new_ids_draws: "new_ids calls st = map (uuid_of_int \<circ> id_of) (draws calls st)"
  by (induction calls st rule: new_ids.induct) (simp_all add: new_id_def id_of_def Let_def)

lemma id_before_trans: "id_before x y \<Longrightarrow> id_before y z \<Longrightarrow> id_before x z"
  by (auto simp: id_before_def)

lemma draw_id_ok:
  assumes "id_ok st" and "draw_ok call"
  shows "id_ok (draw_id (fst call) (snd call) st)"
    and "id_before st (draw_id (fst call) (snd call) st)"
    and "last_timestamp_ms (draw_id (fst call) (snd call) st)
           \<le> max (fst call div 1000000) (last_timestamp_ms st + 1)"
    and "0 \<le> last_timestamp_ms (draw_id (fst call) (snd call) st)"
proof -
  have m: "(last_random st + 1) AND random_mask = (last_random st + 1) mod 2 ^ 74"
    by (simp only: random_mask_def mask_and)
  have wrap: "(last_random st + 1) mod 2 ^ 74 = (if last_random st = 2 ^ 74 - 1 then 0 else last_random st + 1)"
    using assms(1) by (auto simp: id_ok_def)
  show "id_ok (draw_id (fst call) (snd call) st)" and "id_before st (draw_id (fst call) (snd call) st)"
    "last_timestamp_ms (draw_id (fst call) (snd call) st) \<le> max (fst call div 1000000) (last_timestamp_ms st + 1)"
    using assms unfolding draw_id_def Let_def m wrap
    by (auto simp: id_ok_def id_before_def draw_ok_def)
  have "0 \<le> fst call div 1000000"
    using assms(2) by (simp add: draw_ok_def pos_imp_zdiv_nonneg_iff)
  then show "0 \<le> last_timestamp_ms (draw_id (fst call) (snd call) st)"
    using assms unfolding draw_id_def Let_def m wrap by (auto simp: id_ok_def)
qed

lemma draws_ok:
  assumes "list_all draw_ok calls" and "id_ok st"
    and "\<forall>call\<in>set calls. fst call div 1000000 < bound" and "last_timestamp_ms st < bound"
  shows "sorted_wrt id_before (draws calls st)
    \<and> (\<forall>x\<in>set (draws calls st). id_before st x \<and> id_ok x \<and> 0 \<le> last_timestamp_ms x
         \<and> last_timestamp_ms x < bound + int (length calls))"
  using assms
proof (induction calls arbitrary: st bound)
  case (Cons call calls)
  define st' where "st' = draw_id (fst call) (snd call) st"
  have ok: "id_ok st'" "id_before st st'" "0 \<le> last_timestamp_ms st'"
    "last_timestamp_ms st' \<le> max (fst call div 1000000) (last_timestamp_ms st + 1)"
    using Cons.prems draw_id_ok[of st call] by (simp_all add: st'_def)
  have "sorted_wrt id_before (draws calls st')
    \<and> (\<forall>x\<in>set (draws calls st'). id_before st' x \<and> id_ok x \<and> 0 \<le> last_timestamp_ms x
         \<and> last_timestamp_ms x < bound + 1 + int (length calls))"
    using Cons.prems ok by (intro Cons.IH) force+
  moreover have "last_timestamp_ms st' < bound + 1"
    using Cons.prems ok by auto
  ultimately show ?case
    using ok id_before_trans[of st st'] by (auto simp: st'_def [symmetric] Let_def)
qed simp

lemma uuid_of_id:
  assumes "id_ok st"
  shows "uuid_of_int (id_of st) = Inr (nat (id_of st))" and "0 \<le> id_of st" and "id_of st < 2 ^ 128"
  using assms id_value_bounds[of "last_random st" "last_timestamp_ms st"]
  by (auto simp: uuid_of_int_def id_ok_def id_of_def push_bit_eq_mult intro!: ensure_pass)

text \<open>The decoder recovers what the encoder was given.\<close>

lemma and_low:
  "x AND 15 = (x :: int) mod 16" "x AND 3 = (x :: int) mod 4" "x AND 4095 = (x :: int) mod 4096"
  using mask_and[of x 4] mask_and[of x 2] mask_and[of x 12] by simp_all

lemma id_value_fields:
  assumes "0 \<le> r" and "r < 2 ^ 74" and "0 \<le> t" and "t < 2 ^ 48"
  defines "u \<equiv> nat (id_value t r)"
  shows "uuid_timestamp u = t" and "uuid_version u = 7" and "uuid_variant u = 2" and "uuid_random u = r"
proof -
  obtain a b where v: "id_value t r = (((t mod 2 ^ 48 * 16 + 7) * 2 ^ 12 + a) * 4 + 2) * 2 ^ 62 + b"
    and r: "0 \<le> a" "a < 2 ^ 12" "0 \<le> b" "b < 2 ^ 62" "r = a * 2 ^ 62 + b"
    by (rule id_value_layout[OF assms(1,2)])
  have u: "int u = (((t * 16 + 7) * 2 ^ 12 + a) * 4 + 2) * 2 ^ 62 + b"
  proof -
    have "int u = id_value t r"
      using id_value_bounds(1)[OF assms(1,2), of t] by (simp add: u_def)
    moreover have "t mod 2 ^ 48 = t"
      using assms(3,4) by simp
    ultimately show ?thesis
      by (simp only: v)
  qed
  have "0 \<le> t * 16 + 7"
    using assms(3) by simp
  have d62: "int u div 2 ^ 62 = ((t * 16 + 7) * 2 ^ 12 + a) * 4 + 2" and m62: "int u mod 2 ^ 62 = b"
    using split_low[OF r(3,4)] unfolding u by blast+
  have "int u div 2 ^ 64 = int u div 2 ^ 62 div 4"
    by (simp flip: zdiv_zmult2_eq)
  then have d64: "int u div 2 ^ 64 = (t * 16 + 7) * 2 ^ 12 + a"
    unfolding d62 by simp
  have "int u div 2 ^ 76 = int u div 2 ^ 64 div 2 ^ 12"
    by (simp flip: zdiv_zmult2_eq)
  then have d76: "int u div 2 ^ 76 = t * 16 + 7"
    unfolding d64 using split_low(1)[OF r(1,2)] by simp
  have "int u div 2 ^ 80 = int u div 2 ^ 76 div 16"
    by (simp flip: zdiv_zmult2_eq)
  then have d80: "int u div 2 ^ 80 = t"
    unfolding d76 by simp
  show "uuid_timestamp u = t" "uuid_version u = 7" "uuid_variant u = 2"
    unfolding uuid_timestamp_def uuid_version_def uuid_variant_def drop_bit_eq_div and_low d80 d76 d62
    by (rule refl, presburger, simp only: mod_mult_self3, simp)
  have "uuid_random u = push_bit 62 ((int u div 2 ^ 64) mod 4096) OR int u mod 2 ^ 62"
    unfolding uuid_random_def drop_bit_eq_div and_low mask_and ..
  also have "\<dots> = push_bit 62 a OR b"
    unfolding d64 m62 using split_low(2)[OF r(1,2), of "t * 16 + 7"] by simp
  also have "\<dots> = r"
    using or_low_bits[OF r(3,4)] r(5) by simp
  finally show "uuid_random u = r" .
qed

end
