(* ===== verification/Domain_Model.thy ===== *)
theory Domain_Model
  imports Domain_Errors
begin

text \<open>
  The entities of \<open>domain/models.py\<close>: workspaces, projects, conversations, tasks and versions,
  with their constructors and every method that changes them. A method that mutates its object
  returns the changed one; each raises before it changes anything, so a failed call is its
  exception alone. A path is its text, and what the file system makes of it, \<open>Path.resolve\<close>,
  is a parameter of the functions that call it.
\<close>

type_synonym path = string

section \<open>Enumerations\<close>

datatype project_residency = Local_Only | Synced

datatype workspace_type = Project_Chat | Chat_Scratch

datatype operation_mode = Continue_Current_Draft | Create_New_Version | Answer

datatype version_visibility =
  Version_Chat_Draft | Version_Project_Candidate | Version_Project_Active | Version_Archived | Version_Rejected

datatype task_status =
    Task_Created | Task_Resolving_Scope | Task_Building_Workspace | Task_Planning
  | Task_Awaiting_Approval | Task_Executing | Task_Installing | Task_Previewing
  | Task_Reviewing | Task_Repairing | Task_Ready | Task_Accepted | Task_Rejected
  | Task_Archived | Task_Failed

fun task_transitions :: "task_status \<Rightarrow> task_status set" where
  "task_transitions Task_Created = {Task_Resolving_Scope}"
| "task_transitions Task_Resolving_Scope = {Task_Building_Workspace, Task_Rejected, Task_Failed}"
| "task_transitions Task_Building_Workspace = {Task_Planning, Task_Rejected, Task_Failed}"
| "task_transitions Task_Planning =
     {Task_Awaiting_Approval, Task_Executing, Task_Rejected, Task_Failed}"
| "task_transitions Task_Awaiting_Approval = {Task_Executing, Task_Rejected, Task_Failed}"
| "task_transitions Task_Executing =
     {Task_Awaiting_Approval, Task_Installing, Task_Previewing, Task_Reviewing, Task_Rejected, Task_Failed}"
| "task_transitions Task_Installing =
     {Task_Executing, Task_Previewing, Task_Reviewing, Task_Repairing, Task_Rejected, Task_Failed}"
| "task_transitions Task_Previewing = {Task_Reviewing, Task_Repairing, Task_Rejected, Task_Failed}"
| "task_transitions Task_Reviewing = {Task_Ready, Task_Repairing, Task_Rejected, Task_Failed}"
| "task_transitions Task_Repairing =
     {Task_Executing, Task_Installing, Task_Previewing, Task_Reviewing, Task_Rejected, Task_Failed}"
| "task_transitions Task_Ready = {Task_Accepted, Task_Rejected, Task_Archived}"
| "task_transitions Task_Accepted = {Task_Archived}"
| "task_transitions Task_Rejected = {Task_Archived}"
| "task_transitions Task_Archived = {}"
| "task_transitions Task_Failed = {Task_Repairing, Task_Rejected, Task_Archived}"

text \<open>\<open>_SHA256_PATTERN.fullmatch\<close>\<close>

definition sha256_hex :: "string \<Rightarrow> bool" where
  "sha256_hex s \<longleftrightarrow> length s = 64 \<and> list_all (\<lambda>c. c \<in> set ''0123456789abcdef'') s"

section \<open>Workspaces\<close>

record workspace =
  ws_id :: uuid
  ws_active_version :: "uuid option"
  ws_active_preview :: "uuid option"
  ws_revision :: int
  ws_max_files :: int
  ws_max_bytes :: int
  ws_created_at :: instant
  ws_updated_at :: instant

text \<open>\<open>fresh\<close> is the id that \<open>new_id\<close> would return.\<close>

definition create_workspace :: "uuid \<Rightarrow> uuid option \<Rightarrow> clock \<Rightarrow> workspace" where
  "create_workspace fresh workspace_id clk =
     \<lparr>ws_id = (case workspace_id of None \<Rightarrow> fresh | Some i \<Rightarrow> i), ws_active_version = None,
      ws_active_preview = None, ws_revision = 0, ws_max_files = 200,
      ws_max_bytes = 50 * 1024 * 1024 * 1024, ws_created_at = clk 0, ws_updated_at = clk 1\<rparr>"

definition workspace_accept_version ::
  "uuid \<Rightarrow> int \<Rightarrow> clock \<Rightarrow> workspace \<Rightarrow> domain_error + workspace" where
  "workspace_accept_version version expected clk w = ensure
     [(expected \<noteq> ws_revision w, VersionConflictError)]
     (w\<lparr>ws_active_version := Some version, ws_revision := ws_revision w + 1, ws_updated_at := clk 0\<rparr>)"

section \<open>Projects\<close>

record project =
  proj_id :: uuid
  proj_name :: string
  proj_residency :: project_residency
  proj_workspace :: uuid
  proj_active_version :: "uuid option"
  proj_active_preview :: "uuid option"
  proj_revision :: int
  proj_pinned_at :: "instant option"
  proj_archived_at :: "instant option"
  proj_deleted_at :: "instant option"
  proj_purged_at :: "instant option"
  proj_metadata_revision :: int
  proj_created_at :: instant
  proj_updated_at :: instant

definition create_project ::
  "uuid \<Rightarrow> string \<Rightarrow> project_residency \<Rightarrow> clock \<Rightarrow> domain_error + project" where
  "create_project fresh name residency clk =
     (let normalized = strip name in ensure
       [(normalized = [], ValueError ''project name is required''),
        (255 < length normalized, ValueError ''project name must contain at most 255 characters'')]
       \<lparr>proj_id = fresh, proj_name = normalized, proj_residency = residency, proj_workspace = fresh,
        proj_active_version = None, proj_active_preview = None, proj_revision = 0,
        proj_pinned_at = None, proj_archived_at = None, proj_deleted_at = None,
        proj_purged_at = None, proj_metadata_revision = 0, proj_created_at = clk 0,
        proj_updated_at = clk 1\<rparr>)"

text \<open>The guards that the methods share, as entries of \<open>ensure\<close>.\<close>

definition require_metadata_revision :: "int \<Rightarrow> project \<Rightarrow> (bool \<times> domain_error) list" where
  "require_metadata_revision expected p = [(expected \<noteq> proj_metadata_revision p, VersionConflictError)]"

definition require_recoverable :: "project \<Rightarrow> (bool \<times> domain_error) list" where
  "require_recoverable p =
     [(proj_purged_at p \<noteq> None, InvalidTransitionError ''Purged Project cannot be updated''),
      (proj_deleted_at p \<noteq> None, InvalidTransitionError ''Deleted Project cannot be updated'')]"

definition touch_metadata :: "instant \<Rightarrow> project \<Rightarrow> project" where
  "touch_metadata now p =
     p\<lparr>proj_metadata_revision := proj_metadata_revision p + 1, proj_updated_at := now\<rparr>"

definition text_of :: "string option \<Rightarrow> string \<Rightarrow> string" where
  "text_of given old = (case given of None \<Rightarrow> old | Some s \<Rightarrow> strip s)"

definition pin_of :: "bool option \<Rightarrow> instant \<Rightarrow> instant option \<Rightarrow> instant option" where
  "pin_of pinned now old = (case pinned of None \<Rightarrow> old | Some True \<Rightarrow> Some now | Some False \<Rightarrow> None)"

text \<open>The readings of the clock that a pin takes.\<close>

definition pin_readings :: "bool option \<Rightarrow> nat" where
  "pin_readings pinned = (if pinned = Some True then 1 else 0)"

text \<open>A given text that is empty or too long once it is stripped.\<close>

definition bad_text :: "nat \<Rightarrow> string option \<Rightarrow> bool" where
  "bad_text limit given = (case given of None \<Rightarrow> False | Some s \<Rightarrow> strip s = [] \<or> limit < length (strip s))"

definition project_update_metadata ::
  "string option \<Rightarrow> bool option \<Rightarrow> int \<Rightarrow> clock \<Rightarrow> project \<Rightarrow> domain_error + project" where
  "project_update_metadata name pinned expected clk p = ensure
     (require_metadata_revision expected p @ require_recoverable p @
      [(bad_text 255 name, ValueError ''project name must contain 1 to 255 characters'')])
     (touch_metadata (clk (pin_readings pinned))
        (p\<lparr>proj_name := text_of name (proj_name p), proj_pinned_at := pin_of pinned (clk 0) (proj_pinned_at p)\<rparr>))"

definition project_archive :: "int \<Rightarrow> clock \<Rightarrow> project \<Rightarrow> domain_error + project" where
  "project_archive expected clk p = ensure
     (require_metadata_revision expected p @ require_recoverable p @
      [(proj_archived_at p \<noteq> None, InvalidTransitionError ''Project is already archived'')])
     (touch_metadata (clk 1) (p\<lparr>proj_archived_at := Some (clk 0), proj_pinned_at := None\<rparr>))"

definition project_restore_archive :: "int \<Rightarrow> clock \<Rightarrow> project \<Rightarrow> domain_error + project" where
  "project_restore_archive expected clk p = ensure
     (require_metadata_revision expected p @ require_recoverable p @
      [(proj_archived_at p = None, InvalidTransitionError ''Project is not archived'')])
     (touch_metadata (clk 0) (p\<lparr>proj_archived_at := None\<rparr>))"

definition project_delete :: "int \<Rightarrow> clock \<Rightarrow> project \<Rightarrow> domain_error + project" where
  "project_delete expected clk p = ensure
     (require_metadata_revision expected p @ require_recoverable p)
     (touch_metadata (clk 0) (p\<lparr>proj_deleted_at := Some (clk 0), proj_pinned_at := None\<rparr>))"

definition project_restore_deleted :: "int \<Rightarrow> clock \<Rightarrow> project \<Rightarrow> domain_error + project" where
  "project_restore_deleted expected clk p = ensure
     (require_metadata_revision expected p @
      [(proj_purged_at p \<noteq> None, InvalidTransitionError ''Purged Project cannot be restored''),
       (proj_deleted_at p = None, InvalidTransitionError ''Project is not deleted'')])
     (touch_metadata (clk 0) (p\<lparr>proj_deleted_at := None\<rparr>))"

definition project_mark_purged :: "int \<Rightarrow> clock \<Rightarrow> project \<Rightarrow> domain_error + project" where
  "project_mark_purged expected clk p = ensure
     (require_metadata_revision expected p @
      [(proj_deleted_at p = None, InvalidTransitionError ''Project must be deleted before it is purged''),
       (proj_purged_at p \<noteq> None, InvalidTransitionError ''Project is already purged'')])
     (touch_metadata (clk 0) (p\<lparr>proj_purged_at := Some (clk 0), proj_name := ''Deleted project''\<rparr>))"

definition project_accept_version ::
  "uuid \<Rightarrow> int \<Rightarrow> clock \<Rightarrow> project \<Rightarrow> domain_error + project" where
  "project_accept_version version expected clk p = ensure
     [(expected \<noteq> proj_revision p, VersionConflictError)]
     (p\<lparr>proj_active_version := Some version, proj_revision := proj_revision p + 1, proj_updated_at := clk 0\<rparr>)"

section \<open>Conversations\<close>

record conversation =
  conv_id :: uuid
  conv_project :: "uuid option"
  conv_workspace_type :: workspace_type
  conv_base_version :: "uuid option"
  conv_workspace :: "uuid option"
  conv_active_draft_version :: "uuid option"
  conv_active_task :: "uuid option"
  conv_active_preview :: "uuid option"
  conv_title :: string
  conv_pinned_at :: "instant option"
  conv_deleted_at :: "instant option"
  conv_deleted_by_project_at :: "instant option"
  conv_purged_at :: "instant option"
  conv_revision :: int
  conv_created_at :: instant
  conv_updated_at :: instant

text \<open>\<open>a or b\<close> on an optional identifier: every \<open>UUID\<close> object is true.\<close>

definition or_else :: "'a option \<Rightarrow> 'a option \<Rightarrow> 'a option" where
  "or_else a b = (case a of None \<Rightarrow> b | Some x \<Rightarrow> Some x)"

definition conversation_post_init :: "conversation \<Rightarrow> conversation" where
  "conversation_post_init c =
     c\<lparr>conv_workspace := or_else (conv_workspace c) (or_else (conv_project c) (Some (conv_id c)))\<rparr>"

definition create_conversation ::
  "uuid \<Rightarrow> uuid option \<Rightarrow> workspace_type \<Rightarrow> uuid option \<Rightarrow> uuid option \<Rightarrow> string \<Rightarrow> clock \<Rightarrow>
   domain_error + conversation" where
  "create_conversation fresh project_id kind base_version workspace_id title clk =
     (let normalized = strip title in ensure
       [(kind = Project_Chat \<and> project_id = None, ValueError ''project_chat requires project_id''),
        (kind = Chat_Scratch \<and> project_id \<noteq> None, ValueError ''chat_scratch cannot bind project_id''),
        (normalized = [] \<or> 200 < length normalized,
         ValueError ''Conversation title must contain 1 to 200 characters'')]
       (conversation_post_init
         \<lparr>conv_id = fresh, conv_project = project_id, conv_workspace_type = kind,
          conv_base_version = base_version, conv_workspace = workspace_id,
          conv_active_draft_version = None, conv_active_task = None, conv_active_preview = None,
          conv_title = normalized, conv_pinned_at = None, conv_deleted_at = None,
          conv_deleted_by_project_at = None, conv_purged_at = None, conv_revision = 0,
          conv_created_at = clk 0, conv_updated_at = clk 1\<rparr>))"

definition conversation_update_metadata ::
  "string option \<Rightarrow> bool option \<Rightarrow> int \<Rightarrow> clock \<Rightarrow> conversation \<Rightarrow> domain_error + conversation" where
  "conversation_update_metadata title pinned expected clk c = ensure
     [(expected \<noteq> conv_revision c, VersionConflictError),
      (conv_purged_at c \<noteq> None, InvalidTransitionError ''purged Conversation cannot be updated''),
      (conv_deleted_at c \<noteq> None, InvalidTransitionError ''deleted Conversation cannot be updated''),
      (bad_text 200 title, ValueError ''Conversation title must contain 1 to 200 characters'')]
     (c\<lparr>conv_title := text_of title (conv_title c),
        conv_pinned_at := pin_of pinned (clk 0) (conv_pinned_at c),
        conv_revision := conv_revision c + 1, conv_updated_at := clk (pin_readings pinned)\<rparr>)"

definition conversation_delete ::
  "bool \<Rightarrow> int \<Rightarrow> clock \<Rightarrow> conversation \<Rightarrow> domain_error + conversation" where
  "conversation_delete by_project expected clk c = ensure
     [(expected \<noteq> conv_revision c, VersionConflictError),
      (conv_deleted_at c \<noteq> None, InvalidTransitionError ''Conversation is already deleted''),
      (conv_purged_at c \<noteq> None, InvalidTransitionError ''Purged Conversation cannot be deleted'')]
     (c\<lparr>conv_deleted_at := Some (clk 0),
        conv_deleted_by_project_at := (if by_project then Some (clk 0) else None),
        conv_pinned_at := None, conv_revision := conv_revision c + 1, conv_updated_at := clk 0\<rparr>)"

definition conversation_restore_deleted ::
  "int \<Rightarrow> clock \<Rightarrow> conversation \<Rightarrow> domain_error + conversation" where
  "conversation_restore_deleted expected clk c = ensure
     [(expected \<noteq> conv_revision c, VersionConflictError),
      (conv_purged_at c \<noteq> None, InvalidTransitionError ''Purged Conversation cannot be restored''),
      (conv_deleted_at c = None, InvalidTransitionError ''Conversation is not deleted'')]
     (c\<lparr>conv_deleted_at := None, conv_deleted_by_project_at := None,
        conv_revision := conv_revision c + 1, conv_updated_at := clk 0\<rparr>)"

definition conversation_mark_purged ::
  "int \<Rightarrow> clock \<Rightarrow> conversation \<Rightarrow> domain_error + conversation" where
  "conversation_mark_purged expected clk c = ensure
     [(expected \<noteq> conv_revision c, VersionConflictError),
      (conv_deleted_at c = None, InvalidTransitionError ''Conversation must be deleted before it is purged''),
      (conv_purged_at c \<noteq> None, InvalidTransitionError ''Conversation is already purged'')]
     (c\<lparr>conv_purged_at := Some (clk 0), conv_title := ''Deleted chat'',
        conv_revision := conv_revision c + 1, conv_updated_at := clk 0\<rparr>)"

section \<open>Tasks\<close>

record core_task =
  task_id :: uuid
  task_project :: "uuid option"
  task_conversation :: uuid
  task_user_request :: string
  task_operation_mode :: operation_mode
  task_base_version :: "uuid option"
  task_execution_target :: string
  task_workspace :: "uuid option"
  task_target_version :: "uuid option"
  task_memory_id :: "uuid option"
  task_memory_hash :: "string option"
  task_knowledge_id :: "uuid option"
  task_knowledge_hash :: "string option"
  task_harness_id :: "uuid option"
  task_harness_hash :: "string option"
  task_state :: task_status
  task_display_title :: string
  task_pinned_at :: "instant option"
  task_metadata_revision :: int
  task_created_at :: instant
  task_updated_at :: instant

definition validate_binding ::
  "uuid option \<Rightarrow> string option \<Rightarrow> string \<Rightarrow> (bool \<times> domain_error) list" where
  "validate_binding identity content_hash label =
     [((identity = None) \<noteq> (content_hash = None), ValueError (label @ '' ID and hash must be both present'')),
      (case content_hash of None \<Rightarrow> False | Some h \<Rightarrow> \<not> sha256_hex h,
       ValueError (label @ '' hash must be a lowercase SHA-256 hex digest''))]"

definition task_post_init :: "core_task \<Rightarrow> domain_error + core_task" where
  "task_post_init t = ensure
     ((((task_memory_id t = None) \<noteq> (task_memory_hash t = None),
        ValueError ''memory Snapshot ID and hash must be both present'')) #
      validate_binding (task_memory_id t) (task_memory_hash t) ''memory Snapshot'' @
      validate_binding (task_knowledge_id t) (task_knowledge_hash t) ''Knowledge Snapshot'' @
      validate_binding (task_harness_id t) (task_harness_hash t) ''Harness Manifest'')
     (t\<lparr>task_workspace := or_else (task_workspace t) (or_else (task_project t) (Some (task_conversation t))),
        task_display_title := (if task_display_title t = [] then take 200 (task_user_request t)
                               else task_display_title t)\<rparr>)"

definition create_task ::
  "uuid \<Rightarrow> uuid option \<Rightarrow> uuid \<Rightarrow> string \<Rightarrow> operation_mode \<Rightarrow> uuid option \<Rightarrow> string \<Rightarrow>
   uuid option \<Rightarrow> clock \<Rightarrow> domain_error + core_task" where
  "create_task fresh project_id conversation_id user_request mode base_version target workspace_id clk =
     (let request = strip user_request in rbind (ensure
       [(request = [], ValueError ''user_request is required''),
        (target \<notin> {''local'', ''cloud''}, ValueError ''execution_target must be local or cloud'')] ())
       (\<lambda>_. task_post_init
         \<lparr>task_id = fresh, task_project = project_id, task_conversation = conversation_id,
          task_user_request = request, task_operation_mode = mode, task_base_version = base_version,
          task_execution_target = target, task_workspace = workspace_id, task_target_version = None,
          task_memory_id = None, task_memory_hash = None, task_knowledge_id = None,
          task_knowledge_hash = None, task_harness_id = None, task_harness_hash = None,
          task_state = Task_Created, task_display_title = [], task_pinned_at = None,
          task_metadata_revision = 0, task_created_at = clk 0, task_updated_at = clk 1\<rparr>))"

definition bind_target_version :: "uuid \<Rightarrow> clock \<Rightarrow> core_task \<Rightarrow> domain_error + core_task" where
  "bind_target_version version clk t = ensure
     [(task_target_version t \<noteq> None \<and> task_target_version t \<noteq> Some version,
       ValueError ''target version is already bound'')]
     (t\<lparr>task_target_version := Some version, task_updated_at := clk 0\<rparr>)"

text \<open>
  The three \<open>bind_...\<close> methods differ in the fields they bind: \<open>binding\<close> is their common
  decision, \<open>True\<close> to bind and \<open>False\<close> to leave the task as it is.
\<close>

definition binding ::
  "string \<Rightarrow> uuid option \<Rightarrow> string option \<Rightarrow> uuid \<Rightarrow> string \<Rightarrow> domain_error + bool" where
  "binding label bound_id bound_hash identity content_hash =
     (if \<not> sha256_hex content_hash
      then Inl (ValueError ''content_hash must be a lowercase SHA-256 hex digest'')
      else if bound_id = None \<and> bound_hash = None then Inr True
      else if bound_id = Some identity \<and> bound_hash = Some content_hash then Inr False
      else Inl (InvalidTransitionError (label @ '' is already bound'')))"

definition bind_memory_snapshot ::
  "uuid \<Rightarrow> string \<Rightarrow> clock \<Rightarrow> core_task \<Rightarrow> domain_error + core_task" where
  "bind_memory_snapshot identity content_hash clk t = rbind
     (binding ''memory Snapshot'' (task_memory_id t) (task_memory_hash t) identity content_hash)
     (\<lambda>binds. Inr (if binds then t\<lparr>task_memory_id := Some identity, task_memory_hash := Some content_hash,
        task_updated_at := clk 0\<rparr> else t))"

definition bind_knowledge_snapshot ::
  "uuid \<Rightarrow> string \<Rightarrow> clock \<Rightarrow> core_task \<Rightarrow> domain_error + core_task" where
  "bind_knowledge_snapshot identity content_hash clk t = rbind
     (binding ''Knowledge Snapshot'' (task_knowledge_id t) (task_knowledge_hash t) identity content_hash)
     (\<lambda>binds. Inr (if binds then t\<lparr>task_knowledge_id := Some identity, task_knowledge_hash := Some content_hash,
        task_updated_at := clk 0\<rparr> else t))"

definition bind_harness_manifest ::
  "uuid \<Rightarrow> string \<Rightarrow> clock \<Rightarrow> core_task \<Rightarrow> domain_error + core_task" where
  "bind_harness_manifest identity content_hash clk t = rbind
     (binding ''Harness Manifest'' (task_harness_id t) (task_harness_hash t) identity content_hash)
     (\<lambda>binds. Inr (if binds then t\<lparr>task_harness_id := Some identity, task_harness_hash := Some content_hash,
        task_updated_at := clk 0\<rparr> else t))"

definition task_transition_to :: "task_status \<Rightarrow> clock \<Rightarrow> core_task \<Rightarrow> domain_error + core_task" where
  "task_transition_to status clk t = ensure
     [(status \<notin> task_transitions (task_state t), InvalidTransitionError ''cannot transition Task'')]
     (t\<lparr>task_state := status, task_updated_at := clk 0\<rparr>)"

definition task_update_metadata ::
  "string option \<Rightarrow> bool option \<Rightarrow> int \<Rightarrow> clock \<Rightarrow> core_task \<Rightarrow> domain_error + core_task" where
  "task_update_metadata title pinned expected clk t = ensure
     [(expected \<noteq> task_metadata_revision t, VersionConflictError),
      (bad_text 200 title, ValueError ''Task display title must contain 1 to 200 characters'')]
     (t\<lparr>task_display_title := text_of title (task_display_title t),
        task_pinned_at := pin_of pinned (clk 0) (task_pinned_at t),
        task_metadata_revision := task_metadata_revision t + 1,
        task_updated_at := clk (pin_readings pinned)\<rparr>)"

definition task_archive :: "int \<Rightarrow> clock \<Rightarrow> core_task \<Rightarrow> domain_error + core_task" where
  "task_archive expected clk t = rbind
     (ensure [(expected \<noteq> task_metadata_revision t, VersionConflictError)] ())
     (\<lambda>_. rbind (task_transition_to Task_Archived clk t)
       (\<lambda>t'. Inr (t'\<lparr>task_pinned_at := None, task_metadata_revision := task_metadata_revision t' + 1\<rparr>)))"

section \<open>Versions\<close>

record core_version =
  ver_id :: uuid
  ver_project :: "uuid option"
  ver_source_conversation :: "uuid option"
  ver_source_task :: "uuid option"
  ver_parent :: "uuid option"
  ver_project_root :: path
  ver_visibility :: version_visibility
  ver_workspace :: "uuid option"
  ver_created_at :: instant

definition version_post_init :: "core_version \<Rightarrow> core_version" where
  "version_post_init v = v\<lparr>ver_workspace := or_else (ver_workspace v)
     (or_else (ver_project v) (or_else (ver_source_conversation v) (Some (ver_id v))))\<rparr>"

definition create_version ::
  "(path \<Rightarrow> path) \<Rightarrow> uuid \<Rightarrow> uuid option \<Rightarrow> uuid option \<Rightarrow> uuid option \<Rightarrow> uuid option \<Rightarrow>
   uuid option \<Rightarrow> path \<Rightarrow> version_visibility \<Rightarrow> uuid option \<Rightarrow> clock \<Rightarrow> core_version" where
  "create_version resolve fresh version_id project_id conversation_id from_task parent root visibility workspace_id clk =
     version_post_init
       \<lparr>ver_id = (case version_id of None \<Rightarrow> fresh | Some i \<Rightarrow> i), ver_project = project_id,
        ver_source_conversation = conversation_id, ver_source_task = from_task,
        ver_parent = parent, ver_project_root = resolve root, ver_visibility = visibility,
        ver_workspace = workspace_id, ver_created_at = clk 0\<rparr>"

end
