(* ===== verification/Runtime_Graph.thy ===== *)
theory Runtime_Graph
  imports Domain_Model
begin

text \<open>
  \<open>RuntimeServiceDefinition\<close>, \<open>RuntimeGraph\<close> and \<open>_validate_runtime_graph\<close> of
  \<open>domain/execution.py\<close>: the services of a runtime, the checks of their fields, and the
  depth-first search that rejects a dependency cycle. The search is proved to end, and to accept
  exactly the acyclic graphs.
\<close>

section \<open>Services\<close>

text \<open>\<open>str.split(c)\<close> with one separator character.\<close>

fun split_on :: "char \<Rightarrow> string \<Rightarrow> string list" where
  "split_on c [] = [[]]"
| "split_on c (x # xs) =
     (if x = c then [] # split_on c xs
      else case split_on c xs of [] \<Rightarrow> [[x]] | p # ps \<Rightarrow> (x # p) # ps)"

definition starts_with :: "string \<Rightarrow> string \<Rightarrow> bool" where
  "starts_with prefix s \<longleftrightarrow> take (length prefix) s = prefix"

record service_definition =
  service_id :: string
  service_adapter :: string
  service_cwd :: string
  service_readiness_path :: string
  service_depends_on :: "string list"

text \<open>\<open>re.fullmatch(r"[a-z][a-z0-9-]{0,31}", ...)\<close>\<close>

definition service_id_pattern :: "string \<Rightarrow> bool" where
  "service_id_pattern s \<longleftrightarrow> s \<noteq> [] \<and> length s \<le> 32
     \<and> hd s \<in> set ''abcdefghijklmnopqrstuvwxyz''
     \<and> list_all (\<lambda>c. c \<in> set ''abcdefghijklmnopqrstuvwxyz0123456789-'') (tl s)"

definition backslash :: char where
  "backslash = CHR 0x5C"

definition cwd_invalid :: "string \<Rightarrow> bool" where
  "cwd_invalid cwd \<longleftrightarrow> cwd \<noteq> ''.''
     \<and> (starts_with ''/'' cwd \<or> starts_with [backslash] cwd \<or> backslash \<in> set cwd
        \<or> (\<exists>part\<in>set (split_on CHR ''/'' cwd). part \<in> {'''', ''.'', ''..''}))"

definition service_post_init :: "service_definition \<Rightarrow> domain_error + service_definition" where
  "service_post_init s = ensure
     [(\<not> service_id_pattern (service_id s), ValueError ''Runtime service id is invalid''),
      (strip (service_adapter s) = [], ValueError ''Runtime service adapter is required''),
      (cwd_invalid (service_cwd s), ValueError ''Runtime service cwd is invalid''),
      (\<not> starts_with ''/'' (service_readiness_path s)
         \<or> ''..'' \<in> set (split_on CHR ''/'' (service_readiness_path s)),
       ValueError ''Runtime service readiness path is invalid'')] s"

section \<open>The search\<close>

text \<open>\<open>by_id\<close> as an association list: for a repeated key a later entry replaces the value.\<close>

type_synonym dependencies = "(string \<times> string list) list"

definition cycle_error :: domain_error where
  "cycle_error = ValueError ''Runtime graph contains a dependency cycle''"

lemma rbind_cong [fundef_cong]:
  "m = m' \<Longrightarrow> (\<And>x. m' = Inr x \<Longrightarrow> f x = f' x) \<Longrightarrow> rbind m f = rbind m' f'"
  by (simp add: rbind_def split: sum.split)

text \<open>
  \<open>visit\<close> with the two sets it mutates as a state that goes in and comes out, and the loop over
  the dependencies, with which it is mutually recursive.
\<close>

function visit :: "dependencies \<Rightarrow> string set \<times> string set \<Rightarrow> string \<Rightarrow> domain_error + string set \<times> string set"
  and visit_all :: "dependencies \<Rightarrow> string set \<times> string set \<Rightarrow> string list \<Rightarrow> domain_error + string set \<times> string set"
where
  "visit g st s =
     (if s \<in> fst st then Inl cycle_error
      else if s \<in> snd st then Inr st
      else case map_of g s of
        None \<Rightarrow> Inl KeyError
      | Some ds \<Rightarrow> rbind (visit_all g (insert s (fst st), snd st) ds)
          (\<lambda>st'. Inr (fst st' - {s}, insert s (snd st'))))"
| "visit_all g st [] = Inr st"
| "visit_all g st (d # ds) = rbind (visit g st d) (\<lambda>st'. visit_all g st' ds)"
  by pat_completeness auto

text \<open>A call that returns has put \<open>visiting\<close> back, which the termination of the loop needs.\<close>

lemma visiting_restored_partial:
  "visit_visit_all_dom (Inl (g, st, s)) \<Longrightarrow> visit g st s = Inr st' \<Longrightarrow> fst st' = fst st"
  "visit_visit_all_dom (Inr (g, st, ds)) \<Longrightarrow> visit_all g st ds = Inr st' \<Longrightarrow> fst st' = fst st"
proof (induction g st s and g st ds arbitrary: st' and st' rule: visit_visit_all.pinduct)
  case (1 g st s)
  show ?case
  proof (cases "s \<in> fst st \<or> s \<in> snd st \<or> map_of g s = None")
    case True
    then show ?thesis
      using "1.prems" by (auto simp: visit.psimps[OF "1.hyps"] split: if_splits)
  next
    case False
    then obtain ds where ds: "s \<notin> fst st" "s \<notin> snd st" "map_of g s = Some ds"
      by auto
    then obtain st1 where "visit_all g (insert s (fst st), snd st) ds = Inr st1" and st': "st' = (fst st1 - {s}, insert s (snd st1))"
      using "1.prems" by (auto simp: visit.psimps[OF "1.hyps"] result_simps)
    then have "fst st1 = insert s (fst st)"
      using "1.IH"[OF ds, of st1] by simp
    then show ?thesis
      using ds(1) by (simp add: st')
  qed
next
  case (2 g st)
  then show ?case by (simp add: visit_all.psimps)
next
  case (3 g st d ds)
  then obtain st1 where "visit g st d = Inr st1" "visit_all g st1 ds = Inr st'"
    by (auto simp: visit_all.psimps result_simps)
  then show ?case
    using "3.IH" by metis
qed

termination visit
proof (relation "measures [\<lambda>x. case x of
      Inl (g, st, s) \<Rightarrow> card (fst ` set g - fst st)
    | Inr (g, st, ds) \<Rightarrow> card (fst ` set g - fst st),
    \<lambda>x. case x of Inl (g, st, s) \<Rightarrow> 0 | Inr (g, st, ds) \<Rightarrow> Suc (length ds)]", goal_cases)
  case (2 g st s ds)
  have "s \<in> fst ` set g"
    using 2 by (force dest: map_of_SomeD)
  then have "fst ` set g - insert s (fst st) \<subset> fst ` set g - fst st"
    using 2 by blast
  then show ?case
    by (simp add: psubset_card_mono)
next
  case (4 g st d ds st')
  then have "fst st' = fst st"
    using visiting_restored_partial(1) by blast
  then show ?case by simp
qed simp_all

declare visit.simps [simp del]

definition by_id :: "service_definition list \<Rightarrow> dependencies" where
  "by_id services = rev (map (\<lambda>s. (service_id s, service_depends_on s)) services)"

text \<open>The keys of the dictionary in the order of their first insertion.\<close>

definition keys_in_order :: "service_definition list \<Rightarrow> string list" where
  "keys_in_order services = rev (remdups (rev (map service_id services)))"

definition validate_runtime_graph :: "service_definition list \<Rightarrow> domain_error + unit" where
  "validate_runtime_graph services =
     rbind (visit_all (by_id services) ({}, {}) (keys_in_order services)) (\<lambda>_. Inr ())"

section \<open>The graph\<close>

record runtime_graph =
  graph_services :: "service_definition list"
  graph_public :: string

definition runtime_graph_post_init :: "runtime_graph \<Rightarrow> domain_error + runtime_graph" where
  "runtime_graph_post_init gr =
     (let services = graph_services gr; ids = service_id ` set services in rbind (ensure
       [(\<not> (1 \<le> length services \<and> length services \<le> 8) \<or> card ids \<noteq> length services,
         ValueError ''Runtime graph services are invalid''),
        (graph_public gr \<notin> ids, ValueError ''Runtime graph public service is invalid''),
        (\<exists>s\<in>set services. \<not> set (service_depends_on s) \<subseteq> ids,
         ValueError ''Runtime graph dependency is unknown'')] ())
       (\<lambda>_. rbind (validate_runtime_graph services) (\<lambda>_. Inr gr)))"

text \<open>What the search decides: whether the relation of direct dependencies has a cycle.\<close>

definition depends :: "dependencies \<Rightarrow> (string \<times> string) set" where
  "depends g = {(a, b). \<exists>ds. map_of g a = Some ds \<and> b \<in> set ds}"

lemma depends_Some: "map_of g a = Some ds \<Longrightarrow> (a, b) \<in> depends g \<longleftrightarrow> b \<in> set ds"
  by (simp add: depends_def)

section \<open>Soundness\<close>

text \<open>The services visited are closed under dependency, and none depends on itself.\<close>

definition clean :: "dependencies \<Rightarrow> string set \<Rightarrow> bool" where
  "clean g V \<longleftrightarrow> (\<forall>a\<in>V. depends g `` {a} \<subseteq> V \<and> (a, a) \<notin> (depends g)\<^sup>+)"

definition sound_from :: "dependencies \<Rightarrow> string set \<times> string set \<Rightarrow> bool" where
  "sound_from g st \<longleftrightarrow> fst st \<inter> snd st = {} \<and> clean g (snd st)"

lemma clean_closed:
  assumes "clean g V" and "a \<in> V" and "(a, b) \<in> (depends g)\<^sup>*"
  shows "b \<in> V"
  using assms(3) by (induction rule: rtrancl_induct) (use assms in \<open>auto simp: clean_def\<close>)

lemma clean_insert:
  assumes "clean g V" and "s \<notin> V" and "depends g `` {s} \<subseteq> V"
  shows "clean g (insert s V)"
proof -
  have "(s, s) \<notin> (depends g)\<^sup>+"
  proof
    assume "(s, s) \<in> (depends g)\<^sup>+"
    then obtain d where "(s, d) \<in> depends g" "(d, s) \<in> (depends g)\<^sup>*"
      by (auto dest: tranclD)
    then have "s \<in> V"
      using assms(1,3) clean_closed by blast
    then show False
      using assms(2) by simp
  qed
  then show ?thesis
    using assms by (auto simp: clean_def)
qed

lemma visit_sound:
  "visit g st s = Inr st' \<Longrightarrow> sound_from g st \<Longrightarrow>
     sound_from g st' \<and> fst st' = fst st \<and> snd st \<subseteq> snd st' \<and> s \<in> snd st'"
  "visit_all g st ds = Inr st' \<Longrightarrow> sound_from g st \<Longrightarrow>
     sound_from g st' \<and> fst st' = fst st \<and> snd st \<subseteq> snd st' \<and> set ds \<subseteq> snd st'"
proof (induction g st s and g st ds arbitrary: st' and st' rule: visit_visit_all.induct)
  case (1 g st s)
  show ?case
  proof (cases "s \<in> fst st \<or> s \<in> snd st \<or> map_of g s = None")
    case True
    then show ?thesis
      using "1.prems" by (auto simp: visit.simps[of g st s] split: if_splits)
  next
    case False
    then obtain ds where ds: "s \<notin> fst st" "s \<notin> snd st" "map_of g s = Some ds"
      by auto
    then obtain st1 where st1: "visit_all g (insert s (fst st), snd st) ds = Inr st1"
      and st': "st' = (fst st1 - {s}, insert s (snd st1))"
      using "1.prems"(1) by (auto simp: visit.simps[of g st s] result_simps)
    have "sound_from g (insert s (fst st), snd st)"
      using ds "1.prems"(2) by (auto simp: sound_from_def)
    then have IH: "sound_from g st1" "fst st1 = insert s (fst st)" "snd st \<subseteq> snd st1" "set ds \<subseteq> snd st1"
      using "1.IH"[OF ds st1] by simp_all
    have "depends g `` {s} \<subseteq> snd st1"
      using IH(4) ds(3) by (auto simp: depends_Some)
    moreover have "s \<notin> snd st1"
      using IH(1,2) by (auto simp: sound_from_def)
    ultimately have "clean g (insert s (snd st1))"
      using IH(1) by (auto simp: sound_from_def intro: clean_insert)
    then show ?thesis
      using IH ds(1) by (auto simp: st' sound_from_def)
  qed
next
  case (3 g st d ds)
  then obtain st1 where st1: "visit g st d = Inr st1" "visit_all g st1 ds = Inr st'"
    by (auto simp: result_simps)
  then have "sound_from g st1 \<and> fst st1 = fst st \<and> snd st \<subseteq> snd st1 \<and> d \<in> snd st1"
    using "3.IH"(1) "3.prems"(2) by blast
  then show ?case
    using "3.IH"(2)[OF st1] by auto
qed simp

section \<open>Completeness\<close>

definition complete_graph :: "dependencies \<Rightarrow> bool" where
  "complete_graph g \<longleftrightarrow> (\<forall>(a, b)\<in>depends g. map_of g b \<noteq> None)"

text \<open>The services being visited are a path to the one that is visited next.\<close>

definition path_to :: "dependencies \<Rightarrow> string set \<Rightarrow> string \<Rightarrow> bool" where
  "path_to g V s \<longleftrightarrow> map_of g s \<noteq> None \<and> (\<forall>v\<in>V. (v, s) \<in> (depends g)\<^sup>+)"

lemma visit_complete:
  "visit g st s = Inl e \<Longrightarrow> complete_graph g \<Longrightarrow> sound_from g st \<Longrightarrow> path_to g (fst st) s \<Longrightarrow>
     e = cycle_error \<and> \<not> acyclic (depends g)"
  "visit_all g st ds = Inl e \<Longrightarrow> complete_graph g \<Longrightarrow> sound_from g st \<Longrightarrow> \<forall>d\<in>set ds. path_to g (fst st) d \<Longrightarrow>
     e = cycle_error \<and> \<not> acyclic (depends g)"
proof (induction g st s and g st ds rule: visit_visit_all.induct)
  case (1 g st s)
  show ?case
  proof (cases "s \<in> fst st")
    case True
    then have "(s, s) \<in> (depends g)\<^sup>+"
      using "1.prems"(4) by (auto simp: path_to_def)
    then show ?thesis
      using True "1.prems"(1) by (auto simp: visit.simps[of g st s] acyclic_def)
  next
    case False
    then obtain ds where ds: "s \<notin> snd st" "map_of g s = Some ds"
      using "1.prems"(1,4) by (auto simp: visit.simps[of g st s] path_to_def split: if_splits)
    then have e: "visit_all g (insert s (fst st), snd st) ds = Inl e"
      using "1.prems"(1) False by (auto simp: visit.simps[of g st s] result_simps)
    have "path_to g (insert s (fst st)) d" if "d \<in> set ds" for d
    proof -
      have "(s, d) \<in> depends g"
        using that ds(2) by (simp add: depends_Some)
      then show ?thesis
        using "1.prems"(2,4) by (auto simp: path_to_def complete_graph_def intro: trancl_into_trancl)
    qed
    then show ?thesis
      using "1.IH"[OF False ds e "1.prems"(2)] "1.prems"(3) False ds(1) by (auto simp: sound_from_def)
  qed
next
  case (3 g st d ds)
  show ?case
  proof (cases "visit g st d")
    case (Inl e')
    then show ?thesis
      using "3.prems" "3.IH"(1) by auto
  next
    case (Inr st1)
    then have st1: "sound_from g st1" "fst st1 = fst st"
      using visit_sound(1) "3.prems"(3) by blast+
    then show ?thesis
      using Inr "3.prems" "3.IH"(2)[OF Inr] by auto
  qed
qed simp

section \<open>The search is exact\<close>

definition service_relation :: "service_definition list \<Rightarrow> (string \<times> string) set" where
  "service_relation services = {(service_id s, d) | s d. s \<in> set services \<and> d \<in> set (service_depends_on s)}"

definition graph_well_formed :: "runtime_graph \<Rightarrow> bool" where
  "graph_well_formed gr \<longleftrightarrow> (let services = graph_services gr; ids = map service_id services in
     1 \<le> length services \<and> length services \<le> 8 \<and> distinct ids \<and> graph_public gr \<in> set ids
     \<and> (\<forall>s\<in>set services. set (service_depends_on s) \<subseteq> set ids)
     \<and> acyclic (service_relation services))"

lemma fst_by_id: "fst ` set (by_id services) = service_id ` set services"
  by (force simp: by_id_def)

lemma by_id_None: "map_of (by_id services) a = None \<longleftrightarrow> a \<notin> service_id ` set services"
  by (simp add: map_of_eq_None_iff fst_by_id)

lemma depends_by_id:
  assumes "distinct (map service_id services)"
  shows "depends (by_id services) = service_relation services"
proof -
  have d: "distinct (map fst (by_id services))"
    using assms by (simp add: by_id_def rev_map comp_def flip: rev_map)
  have "map_of (by_id services) a = Some ds \<longleftrightarrow> (\<exists>s\<in>set services. service_id s = a \<and> service_depends_on s = ds)" for a ds
    using map_of_eq_Some_iff[OF d, of a ds] by (auto simp: by_id_def)
  then show ?thesis
    by (auto simp: depends_def service_relation_def)
qed

lemma validate_runtime_graph_exact:
  assumes "\<forall>s\<in>set services. set (service_depends_on s) \<subseteq> service_id ` set services"
    and "distinct (map service_id services)"
  shows "validate_runtime_graph services = (if acyclic (service_relation services) then Inr () else Inl cycle_error)"
proof -
  define g where "g = by_id services"
  have rel: "depends g = service_relation services"
    by (simp add: g_def depends_by_id assms(2))
  have complete: "complete_graph g"
    unfolding complete_graph_def rel using assms(1) by (auto simp: g_def service_relation_def by_id_None)
  have start: "sound_from g ({}, {})"
    by (simp add: sound_from_def clean_def)
  have keys: "set (keys_in_order services) = service_id ` set services"
    by (simp add: keys_in_order_def)
  show ?thesis
  proof (cases "visit_all g ({}, {}) (keys_in_order services)")
    case (Inl e)
    have "path_to g {} d" if "d \<in> set (keys_in_order services)" for d
      using that by (simp add: path_to_def g_def by_id_None keys)
    then have "e = cycle_error \<and> \<not> acyclic (depends g)"
      using visit_complete(2)[OF Inl complete start] by simp
    then show ?thesis
      using Inl by (simp add: validate_runtime_graph_def rel flip: g_def)
  next
    case (Inr st)
    then have "sound_from g st" "service_id ` set services \<subseteq> snd st"
      using visit_sound(2)[OF Inr start] keys by auto
    moreover have "a \<in> service_id ` set services" if "(a, a) \<in> (depends g)\<^sup>+" for a
      using tranclD[OF that] by (auto simp: rel service_relation_def)
    ultimately have "acyclic (depends g)"
      unfolding acyclic_def sound_from_def clean_def by blast
    then show ?thesis
      using Inr by (simp add: validate_runtime_graph_def rel flip: g_def)
  qed
qed

lemma runtime_graph_post_init_exact:
  "runtime_graph_post_init gr = Inr gr' \<longleftrightarrow> gr' = gr \<and> graph_well_formed gr"
proof -
  define services where "services = graph_services gr"
  have card: "card (service_id ` set services) \<noteq> length services \<longleftrightarrow> \<not> distinct (map service_id services)"
    using card_distinct[of "map service_id services"] distinct_card[of "map service_id services"] by auto
  show ?thesis
  proof (cases "distinct (map service_id services) \<and> (\<forall>s\<in>set services. set (service_depends_on s) \<subseteq> service_id ` set services)")
    case True
    then show ?thesis
      using validate_runtime_graph_exact[of services] card
      by (auto simp: runtime_graph_post_init_def graph_well_formed_def Let_def result_simps services_def)
  next
    case False
    then show ?thesis
      using card by (auto simp: runtime_graph_post_init_def graph_well_formed_def Let_def result_simps services_def)
  qed
qed

end
