(* ===== verification/Preview_Url.thy ===== *)
theory Preview_Url
  imports Runtime_Graph
begin

text \<open>
  \<open>_validate_preview_url\<close> of \<open>domain/execution.py\<close>, with what it uses of
  \<open>urllib.parse.urlsplit\<close>: the splitting of the text, and the properties \<open>username\<close>,
  \<open>password\<close>, \<open>hostname\<close> and \<open>port\<close> of its result. Two checks that \<open>urlsplit\<close> makes of the
  network location, that a bracketed host is an IPv6 address and that its compatibility
  normalisation has no separator, are the parameter \<open>bad_netloc\<close>.
\<close>

section \<open>Splitting text\<close>

text \<open>\<open>str.partition\<close> and \<open>str.rpartition\<close> with one separator character.\<close>

definition partition_at :: "char \<Rightarrow> string \<Rightarrow> string \<times> bool \<times> string" where
  "partition_at c s = (takeWhile (\<lambda>x. x \<noteq> c) s, c \<in> set s, tl (dropWhile (\<lambda>x. x \<noteq> c) s))"

definition rpartition_at :: "char \<Rightarrow> string \<Rightarrow> string \<times> bool \<times> string" where
  "rpartition_at c s = (if c \<in> set s
     then (rev (tl (dropWhile (\<lambda>x. x \<noteq> c) (rev s))), True, rev (takeWhile (\<lambda>x. x \<noteq> c) (rev s)))
     else ('''', False, s))"

definition ascii_letters :: string where
  "ascii_letters = ''abcdefghijklmnopqrstuvwxyzABCDEFGHIJKLMNOPQRSTUVWXYZ''"

definition digit_char :: "char \<Rightarrow> bool" where
  "digit_char c \<longleftrightarrow> 48 \<le> (of_char c :: nat) \<and> (of_char c :: nat) \<le> 57"

text \<open>\<open>str.lower\<close> on the code points below 256.\<close>

definition lower_char :: "char \<Rightarrow> char" where
  "lower_char c = (let n = (of_char c :: nat) in
     if 65 \<le> n \<and> n \<le> 90 \<or> 192 \<le> n \<and> n \<le> 214 \<or> 216 \<le> n \<and> n \<le> 222 then char_of (n + 32) else c)"

text \<open>\<open>int(text)\<close> of decimal digits.\<close>

definition decimal :: "string \<Rightarrow> int" where
  "decimal s = foldl (\<lambda>n c. 10 * n + (int (of_char c) - 48)) 0 s"

section \<open>urlsplit\<close>

record split_url =
  url_scheme :: string
  url_netloc :: string
  url_path :: string
  url_query :: string
  url_fragment :: string

definition removed_char :: "char \<Rightarrow> bool" where
  "removed_char c \<longleftrightarrow> (of_char c :: nat) \<in> {9, 10, 13}"

definition sanitize_url :: "string \<Rightarrow> string" where
  "sanitize_url url = filter (\<lambda>c. \<not> removed_char c) (dropWhile (\<lambda>c. (of_char c :: nat) \<le> 32) url)"

definition split_scheme :: "string \<Rightarrow> string \<times> string" where
  "split_scheme url = (case partition_at CHR '':'' url of (prefix, found, rest) \<Rightarrow>
     if found \<and> prefix \<noteq> [] \<and> hd prefix \<in> set ascii_letters
        \<and> list_all (\<lambda>c. c \<in> set ascii_letters \<or> digit_char c \<or> c \<in> set ''+-.'') prefix
     then (map lower_char prefix, rest) else ('''', url))"

definition split_netloc :: "string \<Rightarrow> string \<times> string" where
  "split_netloc url = (if starts_with ''//'' url
     then (takeWhile (\<lambda>c. c \<notin> set ''/?#'') (drop 2 url), dropWhile (\<lambda>c. c \<notin> set ''/?#'') (drop 2 url))
     else ('''', url))"

definition urlsplit :: "(string \<Rightarrow> bool) \<Rightarrow> string \<Rightarrow> split_url option" where
  "urlsplit bad_netloc url =
     (case split_scheme (sanitize_url url) of (scheme, url1) \<Rightarrow>
      case split_netloc url1 of (netloc, url2) \<Rightarrow>
      if (CHR ''['' \<in> set netloc) \<noteq> (CHR '']'' \<in> set netloc) \<or> bad_netloc netloc then None
      else case partition_at CHR ''#'' url2 of (url3, _, fragment) \<Rightarrow>
      case partition_at CHR ''?'' url3 of (path, _, query) \<Rightarrow>
      Some \<lparr>url_scheme = scheme, url_netloc = netloc, url_path = path, url_query = query, url_fragment = fragment\<rparr>)"

definition url_username :: "split_url \<Rightarrow> string option" where
  "url_username u = (case rpartition_at CHR ''@'' (url_netloc u) of (userinfo, have_info, _) \<Rightarrow>
     if have_info then Some (fst (partition_at CHR '':'' userinfo)) else None)"

definition url_password :: "split_url \<Rightarrow> string option" where
  "url_password u = (case rpartition_at CHR ''@'' (url_netloc u) of (userinfo, have_info, _) \<Rightarrow>
     if have_info then (case partition_at CHR '':'' userinfo of (_, have_password, password) \<Rightarrow>
       if have_password then Some password else None) else None)"

definition url_hostinfo :: "split_url \<Rightarrow> string \<times> string" where
  "url_hostinfo u = (case rpartition_at CHR ''@'' (url_netloc u) of (_, _, hostinfo) \<Rightarrow>
     case partition_at CHR ''['' hostinfo of (_, have_open_br, bracketed) \<Rightarrow>
     if have_open_br
     then (case partition_at CHR '']'' bracketed of (hostname, _, port) \<Rightarrow>
       (hostname, snd (snd (partition_at CHR '':'' port))))
     else (case partition_at CHR '':'' hostinfo of (hostname, _, port) \<Rightarrow> (hostname, port)))"

definition url_hostname :: "split_url \<Rightarrow> string option" where
  "url_hostname u = (case url_hostinfo u of (hostname, _) \<Rightarrow>
     if hostname = [] then None
     else (case partition_at CHR ''%'' hostname of (name, percent, zone) \<Rightarrow>
       Some (map lower_char name @ (if percent then ''%'' else '''') @ zone)))"

text \<open>
  \<open>port\<close> raises \<open>ValueError\<close> for a text that is not decimal, has more digits than \<open>int\<close>
  converts, or is out of range.
\<close>

definition url_port :: "split_url \<Rightarrow> domain_error + int option" where
  "url_port u = (case url_hostinfo u of (_, port) \<Rightarrow>
     if port = [] then Inr None
     else ensure
       [(\<not> list_all digit_char port, ValueError ''Port could not be cast to integer value''),
        (4300 < length port, ValueError ''Exceeds the limit for integer string conversion''),
        (\<not> (0 \<le> decimal port \<and> decimal port \<le> 65535), ValueError ''Port out of range 0-65535'')]
       (Some (decimal port)))"

section \<open>Preview URLs\<close>

definition required_text :: "string \<Rightarrow> string \<Rightarrow> domain_error + string" where
  "required_text field value = ensure [(strip value = [], ValueError (field @ '' is required''))] (strip value)"

definition port_checks :: "int \<Rightarrow> (bool \<times> domain_error) list" where
  "port_checks port = [(\<not> (1 \<le> port \<and> port \<le> 65535), ValueError ''port must be between 1 and 65535'')]"

definition local_host :: string where
  "local_host = ''127.0.0.1''"

definition target_checks :: "string \<Rightarrow> split_url \<Rightarrow> int option \<Rightarrow> (bool \<times> domain_error) list" where
  "target_checks target u port =
     (if target = ''local''
      then (url_scheme u \<noteq> ''http'' \<or> url_hostname u \<noteq> Some local_host \<or> port = None,
              ValueError ''local Preview URL must use loopback HTTP with an explicit port'')
           # (case port of None \<Rightarrow> [] | Some p \<Rightarrow> port_checks p)
      else [(url_scheme u \<noteq> ''https'' \<or> url_hostname u = None, ValueError ''cloud Preview URL must use HTTPS'')])"

definition check_preview_url :: "(string \<Rightarrow> bool) \<Rightarrow> string \<Rightarrow> string \<Rightarrow> domain_error + string" where
  "check_preview_url bad_netloc target normalized =
     (case urlsplit bad_netloc normalized of
        None \<Rightarrow> Inl (ValueError ''Preview URL is invalid'')
      | Some u \<Rightarrow> (case url_port u of
          Inl e \<Rightarrow> Inl (ValueError ''Preview URL is invalid'')
        | Inr port \<Rightarrow> ensure
            ([(url_username u \<noteq> None \<or> url_password u \<noteq> None,
               ValueError ''Preview URL cannot include credentials''),
              (url_query u \<noteq> [] \<or> url_fragment u \<noteq> [],
               ValueError ''Preview URL cannot include query or fragment''),
              (\<not> starts_with ''/'' (url_path u), ValueError ''Preview URL requires an absolute path'')]
             @ target_checks target u port)
            normalized))"

definition validate_preview_url :: "(string \<Rightarrow> bool) \<Rightarrow> string \<Rightarrow> string \<Rightarrow> domain_error + string" where
  "validate_preview_url bad_netloc target url = rbind (required_text ''url'' url) (check_preview_url bad_netloc target)"

lemma required_text_Inr [result_simps]: "required_text field value = Inr x \<longleftrightarrow> x = strip value \<and> x \<noteq> []"
  by (auto simp: required_text_def ensure_eq_Inr)

lemma required_text_again: "required_text field value = Inr x \<Longrightarrow> required_text field' x = Inr x"
  by (auto simp: result_simps)

text \<open>What was accepted is accepted again, as it is: a stored URL passes when it is read back.\<close>

lemma check_preview_url_id: "check_preview_url bad_netloc target url = Inr x \<Longrightarrow> x = url"
  by (auto simp: check_preview_url_def ensure_eq_Inr split: option.split_asm sum.split_asm)

lemma validate_preview_url_again:
  assumes "validate_preview_url bad_netloc target url = Inr url'"
  shows "validate_preview_url bad_netloc target url' = Inr url'"
  using assms check_preview_url_id required_text_again
  unfolding validate_preview_url_def rbind_eq_Inr by metis

end
