(* ===== verification/Json_Text.thy ===== *)
theory Json_Text
  imports Prelude "HOL-Library.Char_ord" "HOL-Library.List_Lexorder"
begin

text \<open>
  The text that \<open>json.dumps(value, ensure_ascii=True, sort_keys=True)\<close> prints, and that it is
  unambiguous: a decoder for one character of a string, and from it that a printed value is
  never a proper prefix of another, so that texts that are equal come from equal values.
\<close>

section \<open>The printer\<close>

definition hex_digit :: "nat \<Rightarrow> char" where
  "hex_digit n = ''0123456789abcdef'' ! (n mod 16)"

fun hex_fixed :: "nat \<Rightarrow> nat \<Rightarrow> string" where
  "hex_fixed 0 n = []"
| "hex_fixed (Suc k) n = hex_fixed k (n div 16) @ [hex_digit n]"

text \<open>One character of a JSON string with \<open>ensure_ascii=True\<close>.\<close>

definition json_escape :: "char \<Rightarrow> string" where
  "json_escape c = (let n = (of_char c :: nat) in
     if n = 34 then [CHR 0x5C, CHR 0x22]
     else if n = 92 then [CHR 0x5C, CHR 0x5C]
     else if n = 8 then CHR 0x5C # ''b''
     else if n = 9 then CHR 0x5C # ''t''
     else if n = 10 then CHR 0x5C # ''n''
     else if n = 12 then CHR 0x5C # ''f''
     else if n = 13 then CHR 0x5C # ''r''
     else if 32 \<le> n \<and> n \<le> 126 then [c]
     else CHR 0x5C # ''u'' @ hex_fixed 4 n)"

definition json_string :: "string \<Rightarrow> string" where
  "json_string s = CHR 0x22 # concat (map json_escape s) @ [CHR 0x22]"

text \<open>A list in brackets, an object in braces, with the separators \<open>", "\<close> and \<open>": "\<close>.\<close>

fun joined :: "string list \<Rightarrow> string" where
  "joined [] = []"
| "joined [x] = x"
| "joined (x # y # ys) = x @ '', '' @ joined (y # ys)"

fun json_dumps :: "json \<Rightarrow> string" where
  "json_dumps JNull = ''null''"
| "json_dumps (JBool b) = (if b then ''true'' else ''false'')"
| "json_dumps (JNumber n) = n"
| "json_dumps (JString s) = json_string s"
| "json_dumps (JArray xs) = ''['' @ joined (map json_dumps xs) @ '']''"
| "json_dumps (JObject kvs) =
     ''{'' @ joined (map (\<lambda>(k, v). json_string k @ '': '' @ v) (sort_key fst (map (\<lambda>(k, v). (k, json_dumps v)) kvs))) @ ''}''"

section \<open>Reading back\<close>

definition hex_value :: "char \<Rightarrow> nat" where
  "hex_value c = (let n = of_char c in if n < 58 then n - 48 else n - 87)"

fun json_unescape :: "string \<Rightarrow> (char \<times> string) option" where
  "json_unescape (c # xs) =
     (if c \<noteq> CHR 0x5C then Some (c, xs)
      else case xs of
        [] \<Rightarrow> None
      | e # ys \<Rightarrow>
          if e = CHR ''u'' then (case ys of
              a # b # h # l # zs \<Rightarrow> Some (char_of (16 * (16 * (16 * hex_value a + hex_value b) + hex_value h) + hex_value l), zs)
            | _ \<Rightarrow> None)
          else if e = CHR ''b'' then Some (char_of (8 :: nat), ys)
          else if e = CHR ''t'' then Some (char_of (9 :: nat), ys)
          else if e = CHR ''n'' then Some (char_of (10 :: nat), ys)
          else if e = CHR ''f'' then Some (char_of (12 :: nat), ys)
          else if e = CHR ''r'' then Some (char_of (13 :: nat), ys)
          else Some (e, ys))"
| "json_unescape [] = None"

lemma hex_value_digit [simp]: "hex_value (hex_digit n) = n mod 16"
proof -
  have "\<forall>m\<in>set [0..<16]. hex_value (''0123456789abcdef'' ! m) = m"
    by code_simp
  then show ?thesis
    by (simp add: hex_digit_def)
qed

lemma length_hex_fixed [simp]: "length (hex_fixed k n) = k"
  by (induction k n rule: hex_fixed.induct) simp_all

lemma hex_fixed_inj: "hex_fixed k n = hex_fixed k m \<Longrightarrow> n mod 16 ^ k = m mod 16 ^ k"
proof (induction k arbitrary: n m)
  case (Suc k)
  then have d: "hex_digit n = hex_digit m" and r: "hex_fixed k (n div 16) = hex_fixed k (m div 16)"
    by simp_all
  from d have "n mod 16 = m mod 16"
    by (metis hex_value_digit)
  then show ?case
    using Suc.IH[OF r] by (simp add: mod_mult2_eq)
qed simp

lemma hex_fixed_4: "hex_fixed 4 n = [hex_digit (n div 4096), hex_digit (n div 256), hex_digit (n div 16), hex_digit n]"
proof -
  have "hex_fixed 4 n = hex_fixed (Suc (Suc (Suc (Suc 0)))) n"
    by (rule arg_cong2[of _ _ _ _ hex_fixed]) simp_all
  then show ?thesis
    by (simp flip: div_mult2_eq)
qed

lemma json_unescape_code:
  "json_unescape (CHR 0x5C # ''u'' @ [a, b, h, l] @ r)
     = Some (char_of (16 * (16 * (16 * hex_value a + hex_value b) + hex_value h) + hex_value l), r)"
  by simp

lemma json_unescape_u:
  assumes "n < 256"
  shows "json_unescape (CHR 0x5C # ''u'' @ hex_fixed 4 n @ r) = Some (char_of n, r)"
proof -
  have d: "n div 4096 = 0" "n div 256 = 0" "n div 16 mod 16 = n div 16"
    using assms by simp_all
  have "16 * (16 * (16 * (0 mod 16) + 0 mod 16) + n div 16) + n mod 16 = n"
    by simp
  then show ?thesis
    by (simp only: hex_fixed_4 json_unescape_code hex_value_digit d)
qed

lemma json_unescape_escape: "json_unescape (json_escape c @ r) = Some (c, r)"
proof -
  define n where "n = (of_char c :: nat)"
  have c: "char_of n = c" and n: "n < 256"
    by (simp_all add: n_def)
  have q: "char_of (34 :: nat) = CHR 0x22" "char_of (92 :: nat) = CHR 0x5C"
    by code_simp+
  have plain: "n \<noteq> 92 \<Longrightarrow> c \<noteq> CHR 0x5C"
    by (auto simp: n_def)
  consider "n \<in> {8, 9, 10, 12, 13, 34, 92}"
    | "n \<notin> {34, 92}" "32 \<le> n" "n \<le> 126"
    | "n \<notin> {8, 9, 10, 12, 13}" "n < 32 \<or> 126 < n"
    by fastforce
  then show ?thesis
  proof cases
    case 1
    then show ?thesis
      unfolding json_escape_def Let_def n_def [symmetric] c [symmetric] by (elim insertE) (simp_all add: q)
  next
    case 2
    then have "json_escape c = [c]"
      unfolding json_escape_def Let_def n_def [symmetric] by auto
    then show ?thesis
      using plain 2 by simp
  next
    case 3
    then have "json_escape c = CHR 0x5C # ''u'' @ hex_fixed 4 n"
      unfolding json_escape_def Let_def n_def [symmetric] by auto
    then show ?thesis
      using json_unescape_u[OF n] by (simp add: c)
  qed
qed

section \<open>Texts are unambiguous\<close>

lemma json_escape_first: "hd (json_escape c) \<noteq> CHR 0x22"
  by (auto simp: json_escape_def Let_def)

lemma json_escape_not_Nil [simp]: "json_escape c \<noteq> []"
  using json_unescape_escape[of c "[]"] by auto

lemma json_escape_quote: "json_escape c @ x \<noteq> CHR 0x22 # y"
  using json_escape_first[of c] by (cases "json_escape c") simp_all

lemma json_escape_prefix: "json_escape c @ x = json_escape d @ y \<Longrightarrow> c = d \<and> x = y"
  by (metis json_unescape_escape option.inject prod.inject)

lemma json_string_body:
  "concat (map json_escape s) @ CHR 0x22 # r = concat (map json_escape s') @ CHR 0x22 # r' \<Longrightarrow> s = s' \<and> r = r'"
proof (induction s s' rule: list_induct2')
  case (2 c s)
  then have "json_escape c @ (concat (map json_escape s) @ CHR 0x22 # r) = CHR 0x22 # r'"
    by (simp only: list.map concat.simps append_assoc append_Nil)
  then show ?case
    by (simp only: json_escape_quote)
next
  case (3 d s')
  then have "json_escape d @ (concat (map json_escape s') @ CHR 0x22 # r') = CHR 0x22 # r"
    by (simp only: list.map concat.simps append_assoc append_Nil)
  then show ?case
    by (simp only: json_escape_quote)
next
  case (4 c s d s')
  then have "json_escape c @ (concat (map json_escape s) @ CHR 0x22 # r)
      = json_escape d @ (concat (map json_escape s') @ CHR 0x22 # r')"
    by (simp only: list.map concat.simps append_assoc)
  then have "c = d" and "concat (map json_escape s) @ CHR 0x22 # r = concat (map json_escape s') @ CHR 0x22 # r'"
    using json_escape_prefix by blast+
  then show ?case
    using "4.IH" by blast
qed simp

lemma json_string_prefix: "json_string s @ r = json_string s' @ r' \<Longrightarrow> s = s' \<and> r = r'"
  using json_string_body[of s r s' r'] by (simp only: json_string_def append_Cons append_assoc append_Nil list.inject)

text \<open>A list of items that are unambiguous, up to a closing bracket.\<close>

lemma joined_Cons: "joined (x # xs) = x @ concat (map (\<lambda>y. '', '' @ y) xs)"
  by (induction xs arbitrary: x) simp_all

definition unambiguous :: "('a \<Rightarrow> string) \<Rightarrow> 'a set \<Rightarrow> bool" where
  "unambiguous f A \<longleftrightarrow> (\<forall>x\<in>A. \<forall>y\<in>A. \<forall>r r'. f x @ r = f y @ r' \<longrightarrow> x = y \<and> r = r')"

lemma unambiguousD: "unambiguous f A \<Longrightarrow> x \<in> A \<Longrightarrow> y \<in> A \<Longrightarrow> f x @ r = f y @ r' \<Longrightarrow> x = y \<and> r = r'"
  unfolding unambiguous_def by blast

lemma joined_rest:
  assumes "unambiguous f A" and "stop \<noteq> CHR '',''"
  shows "concat (map (\<lambda>x. '', '' @ f x) xs) @ stop # r = concat (map (\<lambda>x. '', '' @ f x) ys) @ stop # r' \<Longrightarrow>
    set xs \<subseteq> A \<Longrightarrow> set ys \<subseteq> A \<Longrightarrow> xs = ys \<and> r = r'"
proof (induction xs ys rule: list_induct2')
  case (4 x xs y ys)
  then have "f x @ (concat (map (\<lambda>x. '', '' @ f x) xs) @ stop # r) = f y @ (concat (map (\<lambda>x. '', '' @ f x) ys) @ stop # r')"
    by simp
  then have "x = y" and "concat (map (\<lambda>x. '', '' @ f x) xs) @ stop # r = concat (map (\<lambda>x. '', '' @ f x) ys) @ stop # r'"
    using unambiguousD[OF assms(1)] "4.prems"(2,3) by (meson list.set_intros(1) subsetD)+
  then show ?case
    using "4.IH" "4.prems"(2,3) by simp
qed (use assms(2) in auto)

lemma joined_prefix:
  assumes f: "unambiguous f A" and stop: "stop \<noteq> CHR '',''"
    and first: "\<And>x r r'. x \<in> A \<Longrightarrow> f x @ r \<noteq> stop # r'"
    and eq: "joined (map f xs) @ stop # r = joined (map f ys) @ stop # r'" and "set xs \<subseteq> A" "set ys \<subseteq> A"
  shows "xs = ys \<and> r = r'"
proof (cases xs; cases ys)
  fix x xs' y ys'
  assume xs: "xs = x # xs'" and ys: "ys = y # ys'"
  then have "f x @ (concat (map (\<lambda>x. '', '' @ f x) xs') @ stop # r) = f y @ (concat (map (\<lambda>x. '', '' @ f x) ys') @ stop # r')"
    using eq by (simp add: joined_Cons comp_def)
  then have "x = y" and "concat (map (\<lambda>x. '', '' @ f x) xs') @ stop # r = concat (map (\<lambda>x. '', '' @ f x) ys') @ stop # r'"
    using unambiguousD[OF f] assms(5,6) xs ys by (meson list.set_intros(1) subsetD)+
  moreover have "set xs' \<subseteq> A" and "set ys' \<subseteq> A"
    using assms(5,6) xs ys by auto
  ultimately show ?thesis
    using joined_rest[OF f stop, of xs' r ys' r'] xs ys by blast
next
  fix x xs'
  assume "ys = []" and xs: "xs = x # xs'"
  then have "f x @ (concat (map (\<lambda>x. '', '' @ f x) xs') @ stop # r) = stop # r'"
    using eq by (simp add: joined_Cons comp_def)
  then show ?thesis
    using first assms(5) xs by fastforce
next
  fix y ys'
  assume "xs = []" and ys: "ys = y # ys'"
  then have "f y @ (concat (map (\<lambda>x. '', '' @ f x) ys') @ stop # r') = stop # r"
    using eq by (simp add: joined_Cons comp_def)
  then show ?thesis
    using first assms(6) ys by fastforce
qed (use eq in simp)

section \<open>Values\<close>

text \<open>The values a digest payload has: null, text, and lists of texts.\<close>

fun flat_json :: "json \<Rightarrow> bool" where
  "flat_json JNull = True"
| "flat_json (JString s) = True"
| "flat_json (JArray xs) = list_all (\<lambda>x. \<exists>s. x = JString s) xs"
| "flat_json _ = False"

lemma json_string_first: "json_string s @ r \<noteq> c # r' \<or> c = CHR 0x22"
  by (simp add: json_string_def)

lemma unambiguous_string: "unambiguous json_string UNIV"
  unfolding unambiguous_def using json_string_prefix by blast

lemma flat_array: "list_all (\<lambda>x. \<exists>s. x = JString s) xs \<Longrightarrow> \<exists>ss. xs = map JString ss"
proof (induction xs)
  case (Cons x xs)
  then obtain s ss where "x = JString s" "xs = map JString ss"
    by auto
  then have "x # xs = map JString (s # ss)"
    by simp
  then show ?case ..
qed simp

lemma json_dumps_strings: "json_dumps (JArray (map JString ss)) = CHR ''['' # joined (map json_string ss) @ [CHR '']'']"
  by (simp add: comp_def)

lemma flat_cases:
  assumes "flat_json v"
  obtains "v = JNull" | s where "v = JString s" | ss where "v = JArray (map JString ss)"
  using assms flat_array by (cases v) auto

text \<open>The first character tells the kinds of value apart.\<close>

lemma flat_kinds:
  "json_dumps (JString s) @ r \<noteq> json_dumps JNull @ r'"
  "json_dumps (JString s) @ r \<noteq> json_dumps (JArray (map JString ss)) @ r'"
  "json_dumps JNull @ r \<noteq> json_dumps (JArray (map JString ss)) @ r'"
  by (simp_all add: json_string_def)

lemma unambiguous_flat: "unambiguous json_dumps {v. flat_json v}"
proof -
  have arrays: "ss = ss' \<and> r = r'"
    if "json_dumps (JArray (map JString ss)) @ r = json_dumps (JArray (map JString ss')) @ r'" for ss ss' r r'
  proof (rule joined_prefix[OF unambiguous_string])
    show "joined (map json_string ss) @ CHR '']'' # r = joined (map json_string ss') @ CHR '']'' # r'"
      using that unfolding json_dumps_strings by simp
    show "json_string x @ s \<noteq> CHR '']'' # s'" for x s s'
      using json_string_first[of x s "CHR '']''" s'] by simp
  qed simp_all
  show ?thesis
    unfolding unambiguous_def
  proof (intro ballI allI impI)
    fix v w r r'
    assume "v \<in> {v. flat_json v}" "w \<in> {v. flat_json v}" and eq: "json_dumps v @ r = json_dumps w @ r'"
    then have "flat_json v" "flat_json w" by simp_all
    then show "v = w \<and> r = r'"
    proof (cases v rule: flat_cases)
      case 1
      show ?thesis
        using \<open>flat_json w\<close>
      proof (cases w rule: flat_cases)
        case 1 then show ?thesis using eq \<open>v = JNull\<close> by simp
      qed (use eq \<open>v = JNull\<close> flat_kinds in metis)+
    next
      case (2 s)
      show ?thesis
        using \<open>flat_json w\<close>
      proof (cases w rule: flat_cases)
        case (2 s') then show ?thesis using eq \<open>v = JString s\<close> json_string_prefix[of s r s' r'] by simp
      qed (use eq \<open>v = JString s\<close> flat_kinds in metis)+
    next
      case (3 ss)
      show ?thesis
        using \<open>flat_json w\<close>
      proof (cases w rule: flat_cases)
        case (3 ss') then show ?thesis using eq \<open>v = _\<close> arrays by blast
      qed (use eq \<open>v = _\<close> flat_kinds in metis)+
    qed
  qed
qed

section \<open>Objects\<close>

definition json_field :: "string \<times> json \<Rightarrow> string" where
  "json_field kv = json_string (fst kv) @ '': '' @ json_dumps (snd kv)"

lemma insort_key_map: "insort_key f (g x) (map g xs) = map g (insort_key (f \<circ> g) x xs)"
  by (induction xs) simp_all

lemma sort_key_map: "sort_key f (map g xs) = map g (sort_key (f \<circ> g) xs)"
proof (induction xs)
  case (Cons x xs)
  have "sort_key f (map g (x # xs)) = insort_key f (g x) (sort_key f (map g xs))"
    by simp
  also have "\<dots> = map g (sort_key (f \<circ> g) (x # xs))"
    unfolding Cons.IH insort_key_map by simp
  finally show ?case .
qed simp

lemma json_dumps_object: "json_dumps (JObject kvs) = CHR ''{'' # joined (map json_field (sort_key fst kvs)) @ [CHR ''}'']"
proof -
  have "json_field = (\<lambda>kv. json_string (fst kv) @ '': '' @ json_dumps (snd kv))"
    by (simp add: fun_eq_iff json_field_def)
  then show ?thesis
    by (simp add: sort_key_map comp_def case_prod_unfold)
qed

lemma unambiguous_field: "unambiguous json_field {kv. flat_json (snd kv)}"
  unfolding unambiguous_def
proof (intro ballI allI impI)
  fix x y r r'
  assume flat: "x \<in> {kv. flat_json (snd kv)}" "y \<in> {kv. flat_json (snd kv)}"
    and "json_field x @ r = json_field y @ r'"
  then have "json_string (fst x) @ ('': '' @ (json_dumps (snd x) @ r)) = json_string (fst y) @ ('': '' @ (json_dumps (snd y) @ r'))"
    by (simp only: json_field_def append_assoc)
  then have "fst x = fst y" and "json_dumps (snd x) @ r = json_dumps (snd y) @ r'"
    using json_string_prefix by blast+
  then show "x = y \<and> r = r'"
    using unambiguousD[OF unambiguous_flat] flat by (metis mem_Collect_eq prod.expand)
qed

lemma same_keys_eq:
  assumes "map fst xs = map fst ys" and "distinct (map fst xs)" and "set xs = set ys"
  shows "xs = ys"
proof (rule nth_equalityI)
  show len: "length xs = length ys"
    using assms(1) by (rule map_eq_imp_length_eq)
  fix i
  assume i: "i < length xs"
  then have "fst (xs ! i) = fst (ys ! i)"
    using assms(1) len by (metis nth_map)
  moreover have "xs ! i \<in> set xs"
    using i by (rule nth_mem)
  moreover have "ys ! i \<in> set xs"
    using i len nth_mem[of i ys] by (simp only: assms(3))
  ultimately show "xs ! i = ys ! i"
    using distinct_map_unique[OF assms(2)] by blast
qed

text \<open>Objects with the same keys are printed alike only if they are the same.\<close>

lemma json_object_inj:
  assumes "json_dumps (JObject xs) = json_dumps (JObject ys)"
    and "map fst xs = map fst ys" and "distinct (map fst xs)"
    and "\<forall>kv\<in>set xs. flat_json (snd kv)" and "\<forall>kv\<in>set ys. flat_json (snd kv)"
  shows "xs = ys"
proof -
  have "sort_key fst xs = sort_key fst ys \<and> ([] :: string) = []"
  proof (rule joined_prefix[OF unambiguous_field])
    show "joined (map json_field (sort_key fst xs)) @ CHR ''}'' # [] = joined (map json_field (sort_key fst ys)) @ CHR ''}'' # []"
      using assms(1) unfolding json_dumps_object by simp
    show "json_field x @ r \<noteq> CHR ''}'' # r'" for x r r'
    proof -
      have "json_field x @ r = json_string (fst x) @ ('': '' @ json_dumps (snd x) @ r)"
        by (simp only: json_field_def append_assoc)
      moreover have "CHR ''}'' \<noteq> CHR 0x22"
        by simp
      ultimately show ?thesis
        using json_string_first by metis
    qed
    show "set (sort_key fst xs) \<subseteq> {kv. flat_json (snd kv)}" "set (sort_key fst ys) \<subseteq> {kv. flat_json (snd kv)}"
      using assms(4,5) by (simp_all only: set_sort) blast+
  qed simp
  then have "set xs = set ys"
    by (metis set_sort)
  then show ?thesis
    using same_keys_eq assms(2,3) by blast
qed

section \<open>Normal values\<close>

text \<open>
  \<open>json.loads(json.dumps(value, allow_nan=False, sort_keys=True))\<close>: the keys of every object in
  order, and an error for a number that JSON does not have.
\<close>

definition json_number :: "string \<Rightarrow> bool" where
  "json_number n \<longleftrightarrow> n \<notin> {''NaN'', ''Infinity'', ''-Infinity''}"

fun json_finite :: "json \<Rightarrow> bool" where
  "json_finite (JNumber n) = json_number n"
| "json_finite (JArray xs) = list_all json_finite xs"
| "json_finite (JObject kvs) = list_all (\<lambda>kv. json_finite (snd kv)) kvs"
| "json_finite _ = True"

fun json_sorted :: "json \<Rightarrow> json" where
  "json_sorted (JArray xs) = JArray (map json_sorted xs)"
| "json_sorted (JObject kvs) = JObject (sort_key fst (map (\<lambda>(k, v). (k, json_sorted v)) kvs))"
| "json_sorted v = v"

lemma sort_key_again: "sort_key f (sort_key f xs) = sort_key f xs"
  by (rule sort_key_id_if_sorted) simp

lemma sort_key_fst_map: "sort_key fst (map (\<lambda>(k, v). (k, g v)) xs) = map (\<lambda>(k, v). (k, g v)) (sort_key fst xs)"
  by (simp add: sort_key_map comp_def case_prod_unfold)

lemma json_sorted_again: "json_sorted (json_sorted v) = json_sorted v"
proof (induction v rule: json_sorted.induct)
  case (2 kvs)
  define srt where "srt = sort_key fst kvs"
  have s: "sort_key fst srt = srt" "set srt = set kvs"
    by (simp_all add: srt_def sort_key_again)
  have "map (\<lambda>(k, v). (k, json_sorted v)) (map (\<lambda>(k, v). (k, json_sorted v)) srt) = map (\<lambda>(k, v). (k, json_sorted v)) srt"
    unfolding map_map using 2 s(2) by (intro map_cong) (auto simp: case_prod_unfold)
  then show ?case
    unfolding json_sorted.simps sort_key_fst_map srt_def [symmetric] s(1) by simp
qed simp_all

lemma json_finite_sorted: "json_finite (json_sorted v) = json_finite v"
  by (induction v rule: json_sorted.induct) (auto simp: list_all_iff)

end
