(* ===== verification/Domain_Scope.thy ===== *)
theory Domain_Scope
  imports Domain_Model Json_Text
begin

text \<open>
  \<open>ScopeContract\<close> of \<open>domain/models.py\<close>: the immutable contract of what a task may read and
  write, and its digest. The digest is the hash of a JSON text; the hash function and
  \<open>Path.resolve\<close> are parameters, the text is not: \<open>json.dumps\<close> with sorted keys and ASCII
  escapes is written out for the values the payload has, and \<open>str(UUID)\<close> too.
\<close>

section \<open>Scope contracts\<close>

text \<open>\<open>str(UUID)\<close>: 32 hexadecimal digits in groups of 8, 4, 4, 4 and 12.\<close>

definition uuid_str :: "uuid \<Rightarrow> string" where
  "uuid_str u = (let h = hex_fixed 32 u in
     take 8 h @ ''-'' @ take 4 (drop 8 h) @ ''-'' @ take 4 (drop 12 h) @ ''-'' @ take 4 (drop 16 h) @ ''-'' @ drop 20 h)"

fun workspace_type_value :: "workspace_type \<Rightarrow> string" where
  "workspace_type_value Project_Chat = ''project_chat''"
| "workspace_type_value Chat_Scratch = ''chat_scratch''"

fun operation_mode_value :: "operation_mode \<Rightarrow> string" where
  "operation_mode_value Continue_Current_Draft = ''continue_current_chat_draft''"
| "operation_mode_value Create_New_Version = ''create_new_version''"
| "operation_mode_value Answer = ''answer''"

record scope_contract =
  scope_workspace_type :: workspace_type
  scope_project :: "uuid option"
  scope_conversation :: uuid
  scope_task :: uuid
  scope_operation_mode :: operation_mode
  scope_base_version :: "uuid option"
  scope_target_version :: "uuid option"
  scope_project_root :: path
  scope_allowed_write_paths :: "path list"
  scope_forbidden_write_paths :: "path list"
  scope_execution_target :: string
  scope_network_policy :: string
  scope_memory_read :: "string list"
  scope_memory_write :: "string list"
  scope_memory_id :: "uuid option"
  scope_memory_hash :: "string option"
  scope_knowledge_id :: "uuid option"
  scope_knowledge_hash :: "string option"
  scope_workspace :: uuid
  scope_digest :: string

definition json_uuid :: "uuid option \<Rightarrow> json" where
  "json_uuid u = (case u of None \<Rightarrow> JNull | Some x \<Rightarrow> JString (uuid_str x))"

definition json_text :: "string option \<Rightarrow> json" where
  "json_text s = (case s of None \<Rightarrow> JNull | Some x \<Rightarrow> JString x)"

definition json_list :: "string list \<Rightarrow> json" where
  "json_list xs = JArray (map JString xs)"

text \<open>\<open>digest_payload\<close>, in the order of the source.\<close>

definition digest_payload :: "scope_contract \<Rightarrow> (string \<times> json) list" where
  "digest_payload c =
     [(''workspace_type'', JString (workspace_type_value (scope_workspace_type c))),
      (''workspace_id'', JString (uuid_str (scope_workspace c))),
      (''project_id'', json_uuid (scope_project c)),
      (''conversation_id'', JString (uuid_str (scope_conversation c))),
      (''task_id'', JString (uuid_str (scope_task c))),
      (''operation_mode'', JString (operation_mode_value (scope_operation_mode c))),
      (''base_version_id'', json_uuid (scope_base_version c)),
      (''target_version_id'', json_uuid (scope_target_version c)),
      (''project_root'', JString (scope_project_root c)),
      (''allowed_write_paths'', json_list (scope_allowed_write_paths c)),
      (''forbidden_write_paths'', json_list (scope_forbidden_write_paths c)),
      (''execution_target'', JString (scope_execution_target c)),
      (''network_policy'', JString (scope_network_policy c)),
      (''memory_read_scope'', json_list (scope_memory_read c)),
      (''memory_write_scope'', json_list (scope_memory_write c)),
      (''memory_snapshot_id'', json_uuid (scope_memory_id c)),
      (''memory_snapshot_hash'', json_text (scope_memory_hash c)),
      (''knowledge_snapshot_id'', json_uuid (scope_knowledge_id c)),
      (''knowledge_snapshot_hash'', json_text (scope_knowledge_hash c))]"

text \<open>The contract is given without its digest; the paths and the workspace are resolved here.\<close>

definition create_scope ::
  "(path \<Rightarrow> path) \<Rightarrow> (string \<Rightarrow> string) \<Rightarrow> uuid option \<Rightarrow> scope_contract \<Rightarrow> domain_error + scope_contract" where
  "create_scope resolve sha256 workspace_id given =
     (let c = given\<lparr>scope_project_root := resolve (scope_project_root given),
                   scope_allowed_write_paths := map resolve (scope_allowed_write_paths given),
                   scope_forbidden_write_paths := map resolve (scope_forbidden_write_paths given),
                   scope_workspace := (case or_else workspace_id (scope_project given) of
                     None \<Rightarrow> scope_conversation given | Some w \<Rightarrow> w)\<rparr>
      in ensure
       [((scope_memory_id given = None) \<noteq> (scope_memory_hash given = None),
         ValueError ''memory_snapshot_id and memory_snapshot_hash must be both present''),
        (case scope_memory_hash given of None \<Rightarrow> False | Some h \<Rightarrow> \<not> sha256_hex h,
         ValueError ''memory_snapshot_hash must be a lowercase SHA-256 hex digest''),
        ((scope_knowledge_id given = None) \<noteq> (scope_knowledge_hash given = None),
         ValueError ''knowledge_snapshot_id and knowledge_snapshot_hash must be both present''),
        (case scope_knowledge_hash given of None \<Rightarrow> False | Some h \<Rightarrow> \<not> sha256_hex h,
         ValueError ''knowledge_snapshot_hash must be a lowercase SHA-256 hex digest'')]
       (c\<lparr>scope_digest := sha256 (json_dumps (JObject (digest_payload c)))\<rparr>))"

section \<open>The digest binds the contract\<close>

lemma uuid_str_hex:
  assumes "uuid_str u = uuid_str v"
  shows "hex_fixed 32 u = hex_fixed 32 v"
proof -
  define f where "f h = take 8 h @ ''-'' @ take 4 (drop 8 h) @ ''-'' @ take 4 (drop 12 h) @ ''-'' @ take 4 (drop 16 h) @ ''-'' @ drop 20 h" for h :: string
  define g where "g s = take 8 s @ take 4 (drop 9 s) @ take 4 (drop 14 s) @ take 4 (drop 19 s) @ drop 24 s" for s :: string
  have "g (f h) = h" if "length h = 32" for h
  proof -
    have "g (f h) = take 8 h @ take 4 (drop 8 h) @ take 4 (drop 12 h) @ take 4 (drop 16 h) @ drop 20 h"
      using that by (simp add: f_def g_def)
    also have "\<dots> = h"
      using append_take_drop_id[of 8 h] append_take_drop_id[of 4 "drop 8 h"] append_take_drop_id[of 4 "drop 12 h"]
        append_take_drop_id[of 4 "drop 16 h"] by simp
    finally show ?thesis .
  qed
  moreover have "uuid_str u = f (hex_fixed 32 u)" for u
    by (simp add: uuid_str_def f_def Let_def)
  ultimately show ?thesis
    using assms by (metis length_hex_fixed)
qed

lemma uuid_str_inj: "uuid_str u = uuid_str v \<Longrightarrow> u < 2 ^ 128 \<Longrightarrow> v < 2 ^ 128 \<Longrightarrow> u = v"
  using hex_fixed_inj[OF uuid_str_hex, of u v] by simp

lemma json_uuid_inj:
  "json_uuid x = json_uuid y \<Longrightarrow> (\<forall>u. x = Some u \<longrightarrow> u < 2 ^ 128) \<Longrightarrow> (\<forall>u. y = Some u \<longrightarrow> u < 2 ^ 128) \<Longrightarrow> x = y"
  by (cases x; cases y) (auto simp: json_uuid_def dest: uuid_str_inj)

lemma json_text_inj: "json_text x = json_text y \<Longrightarrow> x = y"
  by (cases x; cases y) (auto simp: json_text_def)

lemma json_list_inj: "json_list xs = json_list ys \<Longrightarrow> xs = ys"
  by (simp add: json_list_def inj_map_eq_map inj_def)

lemma workspace_type_value_inj: "workspace_type_value a = workspace_type_value b \<Longrightarrow> a = b"
  by (cases a; cases b) simp_all

lemma operation_mode_value_inj: "operation_mode_value a = operation_mode_value b \<Longrightarrow> a = b"
  by (cases a; cases b) simp_all

lemma flat_values: "flat_json (json_uuid u)" "flat_json (json_text s)" "flat_json (json_list xs)"
  by (simp_all add: json_uuid_def json_text_def json_list_def list_all_iff split: option.split)

definition scope_uuids :: "scope_contract \<Rightarrow> uuid set" where
  "scope_uuids c = {scope_conversation c, scope_task c, scope_workspace c}
     \<union> set_option (scope_project c) \<union> set_option (scope_base_version c) \<union> set_option (scope_target_version c)
     \<union> set_option (scope_memory_id c) \<union> set_option (scope_knowledge_id c)"

definition scope_ids_ok :: "scope_contract \<Rightarrow> bool" where
  "scope_ids_ok c \<longleftrightarrow> (\<forall>u\<in>scope_uuids c. u < 2 ^ 128)"

lemma payload_keys: "map fst (digest_payload c) = map fst (digest_payload c')"
  by (simp add: digest_payload_def)

lemma payload_distinct: "distinct (map fst (digest_payload c))"
  by (simp add: digest_payload_def)

lemma payload_flat: "\<forall>kv\<in>set (digest_payload c). flat_json (snd kv)"
  by (simp add: digest_payload_def flat_values)

text \<open>The text that is hashed determines every field but the digest.\<close>

lemma payload_inj:
  assumes "digest_payload c = digest_payload c'" and "scope_ids_ok c" and "scope_ids_ok c'"
  shows "c = c'\<lparr>scope_digest := scope_digest c\<rparr>"
proof -
  have ids: "u \<in> scope_uuids c \<Longrightarrow> u < 2 ^ 128" "u \<in> scope_uuids c' \<Longrightarrow> u < 2 ^ 128" for u
    using assms(2,3) by (auto simp: scope_ids_ok_def)
  have "map snd (digest_payload c) = map snd (digest_payload c')"
    by (simp only: assms(1))
  note eq = this[unfolded digest_payload_def list.map snd_conv list.inject json.inject]
  have opt: "x = y" if "json_uuid x = json_uuid y" "set_option x \<subseteq> scope_uuids c" "set_option y \<subseteq> scope_uuids c'" for x y
    using that ids by (intro json_uuid_inj) auto
  have one: "x = y" if "uuid_str x = uuid_str y" "x \<in> scope_uuids c" "y \<in> scope_uuids c'" for x y
    using that ids by (intro uuid_str_inj) auto
  have "scope_project c = scope_project c'"
    by (rule opt) (use eq in \<open>auto simp: scope_uuids_def\<close>)
  moreover have "scope_base_version c = scope_base_version c'"
    by (rule opt) (use eq in \<open>auto simp: scope_uuids_def\<close>)
  moreover have "scope_target_version c = scope_target_version c'"
    by (rule opt) (use eq in \<open>auto simp: scope_uuids_def\<close>)
  moreover have "scope_memory_id c = scope_memory_id c'"
    by (rule opt) (use eq in \<open>auto simp: scope_uuids_def\<close>)
  moreover have "scope_knowledge_id c = scope_knowledge_id c'"
    by (rule opt) (use eq in \<open>auto simp: scope_uuids_def\<close>)
  moreover have "scope_conversation c = scope_conversation c'"
    by (rule one) (use eq in \<open>auto simp: scope_uuids_def\<close>)
  moreover have "scope_task c = scope_task c'"
    by (rule one) (use eq in \<open>auto simp: scope_uuids_def\<close>)
  moreover have "scope_workspace c = scope_workspace c'"
    by (rule one) (use eq in \<open>auto simp: scope_uuids_def\<close>)
  moreover have "scope_memory_hash c = scope_memory_hash c'" "scope_knowledge_hash c = scope_knowledge_hash c'"
    using eq by (blast intro: json_text_inj)+
  moreover have "scope_allowed_write_paths c = scope_allowed_write_paths c'"
    "scope_forbidden_write_paths c = scope_forbidden_write_paths c'"
    "scope_memory_read c = scope_memory_read c'" "scope_memory_write c = scope_memory_write c'"
    using eq by (blast intro: json_list_inj)+
  moreover have "scope_workspace_type c = scope_workspace_type c'" "scope_operation_mode c = scope_operation_mode c'"
    using eq by (blast intro: workspace_type_value_inj operation_mode_value_inj)+
  moreover have "scope_project_root c = scope_project_root c'" "scope_execution_target c = scope_execution_target c'"
    "scope_network_policy c = scope_network_policy c'"
    using eq by blast+
  ultimately show ?thesis
    by (cases c; cases c') simp
qed

end
