(* ===== verification/Sessions.thy ===== *)
theory Sessions
  imports Preview_Url Domain_Scope
begin

text \<open>
  \<open>RuntimeSession\<close> and \<open>PreviewSession\<close> of \<open>domain/execution.py\<close>: the sessions that run and
  show a workspace version, with their constructors, the checks of \<open>__post_init__\<close>, and every
  method that moves them along the two transition tables. A method that raises has changed
  nothing. \<open>Path.resolve\<close> and the two checks of \<open>urlsplit\<close> that need Unicode and IPv6 tables are
  parameters.
\<close>

section \<open>Enumerations\<close>

datatype runtime_kind = Static_Site | Wsl_Project | Cloud_Oci

datatype runtime_status =
    Runtime_Created | Runtime_Starting | Runtime_Running | Runtime_Stopping | Runtime_Stopped
  | Runtime_Failed | Runtime_Interrupted

datatype session_health =
    Health_Unknown | Health_Starting | Health_Healthy | Health_Stopping | Health_Stopped
  | Health_Unhealthy | Health_Interrupted

datatype preview_status =
    Preview_Created | Preview_Starting | Preview_Ready | Preview_Stopping | Preview_Stopped
  | Preview_Failed | Preview_Interrupted

datatype preview_visibility = Preview_Chat_Draft | Preview_Project_Active | Preview_Private

fun runtime_transitions :: "runtime_status \<Rightarrow> runtime_status set" where
  "runtime_transitions Runtime_Created = {Runtime_Starting, Runtime_Interrupted}"
| "runtime_transitions Runtime_Starting = {Runtime_Running, Runtime_Failed, Runtime_Interrupted}"
| "runtime_transitions Runtime_Running = {Runtime_Stopping, Runtime_Failed, Runtime_Interrupted}"
| "runtime_transitions Runtime_Stopping = {Runtime_Stopped, Runtime_Failed, Runtime_Interrupted}"
| "runtime_transitions Runtime_Stopped = {}"
| "runtime_transitions Runtime_Failed = {Runtime_Starting}"
| "runtime_transitions Runtime_Interrupted = {Runtime_Starting, Runtime_Stopping, Runtime_Failed}"

fun preview_transitions :: "preview_status \<Rightarrow> preview_status set" where
  "preview_transitions Preview_Created = {Preview_Starting, Preview_Interrupted}"
| "preview_transitions Preview_Starting = {Preview_Ready, Preview_Failed, Preview_Interrupted}"
| "preview_transitions Preview_Ready = {Preview_Stopping, Preview_Failed, Preview_Interrupted}"
| "preview_transitions Preview_Stopping = {Preview_Stopped, Preview_Failed, Preview_Interrupted}"
| "preview_transitions Preview_Stopped = {}"
| "preview_transitions Preview_Failed = {Preview_Starting}"
| "preview_transitions Preview_Interrupted = {Preview_Starting, Preview_Stopping, Preview_Failed}"

section \<open>Checks the sessions share\<close>

definition timestamp_checks :: "instant \<Rightarrow> instant \<Rightarrow> (bool \<times> domain_error) list" where
  "timestamp_checks created_at updated_at =
     [(updated_at < created_at, ValueError ''updated_at cannot precede created_at'')]"

definition handle_port_checks :: "string option \<Rightarrow> int option \<Rightarrow> (bool \<times> domain_error) list" where
  "handle_port_checks handle port =
     ((handle = None) \<noteq> (port = None), ValueError ''executor_handle and port must be both present'')
     # (case handle of None \<Rightarrow> [] | Some h \<Rightarrow>
         (strip h = [], ValueError ''executor_handle is required'')
         # (case port of None \<Rightarrow> [] | Some p \<Rightarrow> port_checks p))"

definition error_code_checks :: "bool \<Rightarrow> string option \<Rightarrow> (bool \<times> domain_error) list" where
  "error_code_checks failed error_code =
     (if failed
      then (case error_code of
          None \<Rightarrow> [(True, ValueError ''failed or interrupted state requires an error_code'')]
        | Some e \<Rightarrow> [(strip e = [], ValueError ''error_code is required'')])
      else [(error_code \<noteq> None, ValueError ''non-error state cannot carry an error_code'')])"

section \<open>Runtime sessions\<close>

record runtime_session =
  rt_id :: uuid
  rt_project :: "uuid option"
  rt_workspace :: uuid
  rt_conversation :: uuid
  rt_task :: uuid
  rt_version :: "uuid option"
  rt_project_root :: path
  rt_execution_target :: string
  rt_kind :: runtime_kind
  rt_executor :: string
  rt_handle :: "string option"
  rt_port :: "int option"
  rt_status :: runtime_status
  rt_health :: session_health
  rt_error_code :: "string option"
  rt_idempotency_key :: string
  rt_revision :: int
  rt_created_at :: instant
  rt_updated_at :: instant
  rt_graph :: "runtime_graph option"

fun runtime_health :: "runtime_status \<Rightarrow> session_health" where
  "runtime_health Runtime_Created = Health_Unknown"
| "runtime_health Runtime_Starting = Health_Starting"
| "runtime_health Runtime_Running = Health_Healthy"
| "runtime_health Runtime_Stopping = Health_Stopping"
| "runtime_health Runtime_Stopped = Health_Stopped"
| "runtime_health Runtime_Failed = Health_Unhealthy"
| "runtime_health Runtime_Interrupted = Health_Interrupted"

definition default_graph :: "runtime_kind \<Rightarrow> runtime_graph" where
  "default_graph kind = \<lparr>graph_services =
     [\<lparr>service_id = ''app'', service_adapter = (if kind = Static_Site then ''static'' else ''legacy''),
       service_cwd = ''.'', service_readiness_path = ''/'', service_depends_on = []\<rparr>],
     graph_public = ''app''\<rparr>"

definition runtime_checks :: "runtime_session \<Rightarrow> (bool \<times> domain_error) list" where
  "runtime_checks s =
     [(rt_kind s = Static_Site \<and> (rt_execution_target s \<noteq> ''local'' \<or> rt_version s = None),
       ValueError ''static_site requires a local Workspace Version''),
      (rt_revision s < 0, ValueError ''revision cannot be negative'')]
     @ timestamp_checks (rt_created_at s) (rt_updated_at s)
     @ handle_port_checks (rt_handle s) (rt_port s)
     @ [(rt_health s \<noteq> runtime_health (rt_status s), ValueError ''Runtime health is inconsistent with status''),
        (rt_status s \<in> {Runtime_Running, Runtime_Stopping} \<and> (rt_handle s = None \<or> rt_port s = None),
         ValueError ''active Runtime requires executor handle and port''),
        (rt_status s \<in> {Runtime_Created, Runtime_Starting, Runtime_Stopped} \<and> (rt_handle s \<noteq> None \<or> rt_port s \<noteq> None),
         ValueError ''inactive Runtime cannot retain executor handle or port'')]
     @ error_code_checks (rt_status s \<in> {Runtime_Failed, Runtime_Interrupted}) (rt_error_code s)"

definition runtime_post_init :: "(path \<Rightarrow> path) \<Rightarrow> runtime_session \<Rightarrow> domain_error + runtime_session" where
  "runtime_post_init resolve s =
     rbind (required_text ''executor'' (rt_executor s)) (\<lambda>executor.
     rbind (required_text ''idempotency_key'' (rt_idempotency_key s)) (\<lambda>key.
     rbind (ensure
       [(rt_execution_target s \<notin> {''local'', ''cloud''}, ValueError ''execution_target must be local or cloud''),
        (rt_version s = None, ValueError ''Runtime requires an immutable Workspace Version'')] ()) (\<lambda>_.
     rbind (case rt_graph s of None \<Rightarrow> runtime_graph_post_init (default_graph (rt_kind s)) | Some g \<Rightarrow> Inr g) (\<lambda>graph.
     let s' = s\<lparr>rt_project_root := resolve (rt_project_root s), rt_executor := executor,
                rt_idempotency_key := key, rt_graph := Some graph\<rparr>
     in ensure (runtime_checks s') s'))))"

definition create_runtime ::
  "(path \<Rightarrow> path) \<Rightarrow> uuid \<Rightarrow> scope_contract \<Rightarrow> runtime_kind \<Rightarrow> string \<Rightarrow> string \<Rightarrow>
   runtime_graph option \<Rightarrow> instant \<Rightarrow> domain_error + runtime_session" where
  "create_runtime resolve fresh scope kind executor idempotency_key graph now = runtime_post_init resolve
     \<lparr>rt_id = fresh, rt_project = scope_project scope, rt_workspace = scope_workspace scope,
      rt_conversation = scope_conversation scope, rt_task = scope_task scope,
      rt_version = or_else (scope_target_version scope) (scope_base_version scope),
      rt_project_root = scope_project_root scope, rt_execution_target = scope_execution_target scope,
      rt_kind = kind, rt_executor = executor, rt_handle = None, rt_port = None,
      rt_status = Runtime_Created, rt_health = Health_Unknown, rt_error_code = None,
      rt_idempotency_key = idempotency_key, rt_revision = 0, rt_created_at = now,
      rt_updated_at = now, rt_graph = graph\<rparr>"

definition runtime_transition :: "runtime_status \<Rightarrow> instant \<Rightarrow> runtime_session \<Rightarrow> domain_error + runtime_session" where
  "runtime_transition target now s = ensure
     [(target \<notin> runtime_transitions (rt_status s), InvalidTransitionError ''cannot transition Runtime'')]
     (s\<lparr>rt_status := target, rt_revision := rt_revision s + 1, rt_updated_at := now\<rparr>)"

definition runtime_begin_start :: "instant \<Rightarrow> runtime_session \<Rightarrow> domain_error + runtime_session" where
  "runtime_begin_start now s = rbind (runtime_transition Runtime_Starting now s) (\<lambda>s'.
     Inr (s'\<lparr>rt_handle := None, rt_port := None, rt_health := Health_Starting, rt_error_code := None\<rparr>))"

definition runtime_mark_running ::
  "string \<Rightarrow> int \<Rightarrow> instant \<Rightarrow> runtime_session \<Rightarrow> domain_error + runtime_session" where
  "runtime_mark_running executor_handle port now s =
     rbind (required_text ''executor_handle'' executor_handle) (\<lambda>handle.
     rbind (ensure (port_checks port) ()) (\<lambda>_.
     rbind (runtime_transition Runtime_Running now s) (\<lambda>s'.
     Inr (s'\<lparr>rt_handle := Some handle, rt_port := Some port, rt_health := Health_Healthy, rt_error_code := None\<rparr>))))"

definition runtime_begin_stop :: "instant \<Rightarrow> runtime_session \<Rightarrow> domain_error + runtime_session" where
  "runtime_begin_stop now s =
     rbind (ensure [(rt_handle s = None \<or> rt_port s = None,
       InvalidTransitionError ''Runtime cannot stop without an executor handle'')] ()) (\<lambda>_.
     rbind (runtime_transition Runtime_Stopping now s) (\<lambda>s'.
     Inr (s'\<lparr>rt_health := Health_Stopping, rt_error_code := None\<rparr>)))"

definition runtime_mark_stopped :: "instant \<Rightarrow> runtime_session \<Rightarrow> domain_error + runtime_session" where
  "runtime_mark_stopped now s = rbind (runtime_transition Runtime_Stopped now s) (\<lambda>s'.
     Inr (s'\<lparr>rt_handle := None, rt_port := None, rt_health := Health_Stopped, rt_error_code := None\<rparr>))"

definition runtime_mark_failed :: "string \<Rightarrow> instant \<Rightarrow> runtime_session \<Rightarrow> domain_error + runtime_session" where
  "runtime_mark_failed error_code now s = rbind (required_text ''error_code'' error_code) (\<lambda>normalized.
     rbind (runtime_transition Runtime_Failed now s) (\<lambda>s'.
     Inr (s'\<lparr>rt_health := Health_Unhealthy, rt_error_code := Some normalized\<rparr>)))"

definition runtime_mark_interrupted :: "string \<Rightarrow> instant \<Rightarrow> runtime_session \<Rightarrow> domain_error + runtime_session" where
  "runtime_mark_interrupted error_code now s = rbind (required_text ''error_code'' error_code) (\<lambda>normalized.
     rbind (runtime_transition Runtime_Interrupted now s) (\<lambda>s'.
     Inr (s'\<lparr>rt_health := Health_Interrupted, rt_error_code := Some normalized\<rparr>)))"

section \<open>Preview sessions\<close>

record preview_session =
  pv_id :: uuid
  pv_project :: "uuid option"
  pv_workspace :: uuid
  pv_conversation :: uuid
  pv_task :: uuid
  pv_version :: "uuid option"
  pv_runtime :: uuid
  pv_project_root :: path
  pv_execution_target :: string
  pv_url :: "string option"
  pv_visibility :: preview_visibility
  pv_status :: preview_status
  pv_health :: session_health
  pv_error_code :: "string option"
  pv_idempotency_key :: string
  pv_revision :: int
  pv_created_at :: instant
  pv_updated_at :: instant
  pv_last_accessed_at :: instant

fun preview_health :: "preview_status \<Rightarrow> session_health" where
  "preview_health Preview_Created = Health_Unknown"
| "preview_health Preview_Starting = Health_Starting"
| "preview_health Preview_Ready = Health_Healthy"
| "preview_health Preview_Stopping = Health_Stopping"
| "preview_health Preview_Stopped = Health_Stopped"
| "preview_health Preview_Failed = Health_Unhealthy"
| "preview_health Preview_Interrupted = Health_Interrupted"

text \<open>The checks of the URL: an error where the status does not go with it.\<close>

definition preview_url_check :: "(string \<Rightarrow> bool) \<Rightarrow> preview_session \<Rightarrow> domain_error + unit" where
  "preview_url_check bad_netloc s =
     (let validated = (\<lambda>url. rbind (validate_preview_url bad_netloc (pv_execution_target s) url) (\<lambda>_. Inr ()))
      in if pv_status s \<in> {Preview_Ready, Preview_Stopping}
         then (case pv_url s of None \<Rightarrow> Inl (ValueError ''active Preview requires a URL'') | Some url \<Rightarrow> validated url)
         else if pv_status s \<noteq> Preview_Interrupted \<and> pv_url s \<noteq> None
         then Inl (ValueError ''inactive Preview cannot retain a URL'')
         else (case pv_url s of None \<Rightarrow> Inr () | Some url \<Rightarrow> validated url))"

definition preview_post_init ::
  "(path \<Rightarrow> path) \<Rightarrow> (string \<Rightarrow> bool) \<Rightarrow> preview_session \<Rightarrow> domain_error + preview_session" where
  "preview_post_init resolve bad_netloc s =
     rbind (required_text ''idempotency_key'' (pv_idempotency_key s)) (\<lambda>key.
     rbind (ensure
       ([(pv_execution_target s \<notin> {''local'', ''cloud''}, ValueError ''execution_target must be local or cloud''),
         (pv_version s = None, ValueError ''Preview requires an immutable Workspace Version''),
         (pv_revision s < 0, ValueError ''revision cannot be negative'')]
        @ timestamp_checks (pv_created_at s) (pv_updated_at s)
        @ timestamp_checks (pv_created_at s) (pv_last_accessed_at s)
        @ [(pv_health s \<noteq> preview_health (pv_status s), ValueError ''Preview health is inconsistent with status'')]) ()) (\<lambda>_.
     rbind (preview_url_check bad_netloc s) (\<lambda>_.
     ensure (error_code_checks (pv_status s \<in> {Preview_Failed, Preview_Interrupted}) (pv_error_code s))
       (s\<lparr>pv_project_root := resolve (pv_project_root s), pv_idempotency_key := key\<rparr>))))"

definition create_preview ::
  "(path \<Rightarrow> path) \<Rightarrow> (string \<Rightarrow> bool) \<Rightarrow> uuid \<Rightarrow> scope_contract \<Rightarrow> uuid \<Rightarrow> preview_visibility \<Rightarrow>
   string \<Rightarrow> instant \<Rightarrow> domain_error + preview_session" where
  "create_preview resolve bad_netloc fresh scope runtime_id visibility idempotency_key now =
     preview_post_init resolve bad_netloc
     \<lparr>pv_id = fresh, pv_project = scope_project scope, pv_workspace = scope_workspace scope,
      pv_conversation = scope_conversation scope, pv_task = scope_task scope,
      pv_version = or_else (scope_target_version scope) (scope_base_version scope),
      pv_runtime = runtime_id, pv_project_root = scope_project_root scope,
      pv_execution_target = scope_execution_target scope, pv_url = None, pv_visibility = visibility,
      pv_status = Preview_Created, pv_health = Health_Unknown, pv_error_code = None,
      pv_idempotency_key = idempotency_key, pv_revision = 0, pv_created_at = now,
      pv_updated_at = now, pv_last_accessed_at = now\<rparr>"

definition preview_transition :: "preview_status \<Rightarrow> instant \<Rightarrow> preview_session \<Rightarrow> domain_error + preview_session" where
  "preview_transition target now s = ensure
     [(target \<notin> preview_transitions (pv_status s), InvalidTransitionError ''cannot transition Preview'')]
     (s\<lparr>pv_status := target, pv_revision := pv_revision s + 1, pv_updated_at := now\<rparr>)"

definition preview_begin_start :: "instant \<Rightarrow> preview_session \<Rightarrow> domain_error + preview_session" where
  "preview_begin_start now s = rbind (preview_transition Preview_Starting now s) (\<lambda>s'.
     Inr (s'\<lparr>pv_url := None, pv_health := Health_Starting, pv_error_code := None\<rparr>))"

definition preview_mark_ready ::
  "(string \<Rightarrow> bool) \<Rightarrow> string \<Rightarrow> instant \<Rightarrow> preview_session \<Rightarrow> domain_error + preview_session" where
  "preview_mark_ready bad_netloc url now s =
     rbind (validate_preview_url bad_netloc (pv_execution_target s) url) (\<lambda>normalized.
     rbind (preview_transition Preview_Ready now s) (\<lambda>s'.
     Inr (s'\<lparr>pv_url := Some normalized, pv_health := Health_Healthy, pv_error_code := None\<rparr>)))"

definition preview_begin_stop :: "instant \<Rightarrow> preview_session \<Rightarrow> domain_error + preview_session" where
  "preview_begin_stop now s =
     rbind (ensure [(pv_url s = None, InvalidTransitionError ''Preview cannot stop without a URL'')] ()) (\<lambda>_.
     rbind (preview_transition Preview_Stopping now s) (\<lambda>s'.
     Inr (s'\<lparr>pv_health := Health_Stopping, pv_error_code := None\<rparr>)))"

definition preview_mark_stopped :: "instant \<Rightarrow> preview_session \<Rightarrow> domain_error + preview_session" where
  "preview_mark_stopped now s = rbind (preview_transition Preview_Stopped now s) (\<lambda>s'.
     Inr (s'\<lparr>pv_url := None, pv_health := Health_Stopped, pv_error_code := None\<rparr>))"

definition preview_mark_failed :: "string \<Rightarrow> instant \<Rightarrow> preview_session \<Rightarrow> domain_error + preview_session" where
  "preview_mark_failed error_code now s = rbind (required_text ''error_code'' error_code) (\<lambda>normalized.
     rbind (preview_transition Preview_Failed now s) (\<lambda>s'.
     Inr (s'\<lparr>pv_url := None, pv_health := Health_Unhealthy, pv_error_code := Some normalized\<rparr>)))"

definition preview_mark_interrupted :: "string \<Rightarrow> instant \<Rightarrow> preview_session \<Rightarrow> domain_error + preview_session" where
  "preview_mark_interrupted error_code now s = rbind (required_text ''error_code'' error_code) (\<lambda>normalized.
     rbind (preview_transition Preview_Interrupted now s) (\<lambda>s'.
     Inr (s'\<lparr>pv_health := Health_Interrupted, pv_error_code := Some normalized\<rparr>)))"

definition promote_to_project_active :: "instant \<Rightarrow> preview_session \<Rightarrow> domain_error + preview_session" where
  "promote_to_project_active now s =
     (if pv_visibility s = Preview_Project_Active then Inr s
      else ensure
        [(pv_status s \<noteq> Preview_Ready, InvalidTransitionError ''only a ready Preview can become Project active''),
         (pv_project s = None \<or> pv_version s = None,
          InvalidTransitionError ''Project active Preview requires a Project Version''),
         (pv_visibility s \<noteq> Preview_Chat_Draft, InvalidTransitionError ''Preview visibility cannot be promoted'')]
        (s\<lparr>pv_visibility := Preview_Project_Active, pv_revision := pv_revision s + 1, pv_updated_at := now\<rparr>))"

end
