(* ===== verification/Domain_Lifecycle.thy ===== *)
theory Domain_Lifecycle
  imports Domain_Model
begin

text \<open>
  What the entities of the domain model promise their callers, as two contracts: writers that
  carry the revision they have read (\<open>revisioned\<close>), and a status that moves along a table of
  transitions (\<open>status_machine\<close>). Each entity is the step relation of its own methods, and
  interprets the contracts it keeps.
\<close>

section \<open>Optimistic concurrency\<close>

text \<open>
  \<open>expected_of op\<close> is the revision an operation was given, if it takes one. An operation that
  was given another revision than the current one raises \<open>VersionConflictError\<close>; one that was
  given the current one and returns has advanced it; no operation takes it back.
\<close>

locale revisioned =
  fixes rev_of :: "'e \<Rightarrow> int" and expected_of :: "'op \<Rightarrow> int option"
    and exec :: "'op \<Rightarrow> clock \<Rightarrow> 'e \<Rightarrow> domain_error + 'e"
  assumes stale: "expected_of op = Some r \<Longrightarrow> r \<noteq> rev_of e \<Longrightarrow> exec op clk e = Inl VersionConflictError"
    and bump: "expected_of op = Some r \<Longrightarrow> exec op clk e = Inr e' \<Longrightarrow> rev_of e < rev_of e'"
    and keeps: "exec op clk e = Inr e' \<Longrightarrow> rev_of e \<le> rev_of e'"
begin

definition step :: "'e \<Rightarrow> 'e \<Rightarrow> bool" where
  "step e e' \<longleftrightarrow> (\<exists>op clk. exec op clk e = Inr e')"

lemma path_rev: "step\<^sup>*\<^sup>* e e' \<Longrightarrow> rev_of e \<le> rev_of e'"
  by (induction rule: rtranclp_induct) (auto simp: step_def dest: keeps)

text \<open>Of two writers with one revision the second conflicts, whatever happened in between.\<close>

lemma stale_writer:
  assumes "exec op clk e = Inr e1" and "expected_of op = Some r" and "step\<^sup>*\<^sup>* e1 e2"
    and "expected_of op' = Some r"
  shows "exec op' clk' e2 = Inl VersionConflictError"
proof (rule stale[OF assms(4)])
  have "r = rev_of e"
    using stale[OF assms(2), of e clk] assms(1) by fastforce
  then have "r < rev_of e1"
    using bump assms(1,2) by blast
  then show "r \<noteq> rev_of e2"
    using path_rev[OF assms(3)] by linarith
qed

end

section \<open>Status machines\<close>

locale status_machine =
  fixes status :: "'e \<Rightarrow> 's" and allowed :: "'s \<Rightarrow> 's set" and moves :: "'e \<Rightarrow> 'e \<Rightarrow> bool"
  assumes move_status: "moves e e' \<Longrightarrow> status e' = status e \<or> status e' \<in> allowed (status e)"
begin

lemma closed_set:
  assumes "moves\<^sup>*\<^sup>* e e'" and "status e \<in> S" and "\<And>s. s \<in> S \<Longrightarrow> allowed s \<subseteq> S"
  shows "status e' \<in> S"
  using assms(1) by (induction rule: rtranclp_induct) (use assms(2,3) move_status in \<open>fastforce+\<close>)

lemma final_status: "moves\<^sup>*\<^sup>* e e' \<Longrightarrow> allowed (status e) = {} \<Longrightarrow> status e' = status e"
  using closed_set[of e e' "{status e}"] by auto

text \<open>A path into \<open>S\<close> from outside crosses into it at one of its moves.\<close>

lemma crosses_into:
  assumes "moves\<^sup>*\<^sup>* e e'" and "status e \<notin> S" and "status e' \<in> S"
  obtains u v where "moves\<^sup>*\<^sup>* e u" and "moves u v" and "moves\<^sup>*\<^sup>* v e'"
    and "status u \<notin> S" and "status v \<in> S" and "status v \<in> allowed (status u)"
proof -
  have "\<exists>u v. moves\<^sup>*\<^sup>* e u \<and> moves u v \<and> moves\<^sup>*\<^sup>* v e' \<and> status u \<notin> S \<and> status v \<in> S"
    using assms(1,3)
  proof (induction rule: rtranclp_induct)
    case base
    then show ?case using assms(2) by blast
  next
    case (step y z)
    show ?case
    proof (cases "status y \<in> S")
      case True
      then show ?thesis using step by (meson rtranclp.rtrancl_into_rtrancl)
    next
      case False
      then show ?thesis using step.hyps step.prems by blast
    qed
  qed
  then obtain u v where uv: "moves\<^sup>*\<^sup>* e u" "moves u v" "moves\<^sup>*\<^sup>* v e'" "status u \<notin> S" "status v \<in> S"
    by blast
  then have "status v \<in> allowed (status u)"
    using move_status by metis
  with uv that show ?thesis by blast
qed

text \<open>What enters \<open>S\<close> passes through a status from which the table enters it.\<close>

lemma enters_through:
  assumes "moves\<^sup>*\<^sup>* e e'" and "status e \<notin> S" and "status e' \<in> S"
    and entry: "\<And>s s'. s \<notin> S \<Longrightarrow> s' \<in> S \<Longrightarrow> s' \<in> allowed s \<Longrightarrow> s \<in> M"
  obtains u where "moves\<^sup>*\<^sup>* e u" and "moves\<^sup>*\<^sup>* u e'" and "status u \<in> M" and "status u \<notin> S"
proof -
  obtain u v where "moves\<^sup>*\<^sup>* e u" "moves u v" "moves\<^sup>*\<^sup>* v e'" "status u \<notin> S" "status v \<in> S"
    "status v \<in> allowed (status u)"
    using crosses_into[OF assms(1-3)] by blast
  then show ?thesis
    using that[of u] entry by (meson converse_rtranclp_into_rtranclp)
qed

end

text \<open>A machine that can make every move its table allows.\<close>

locale free_status_machine = status_machine +
  assumes can_move: "s \<in> allowed (status e) \<Longrightarrow> \<exists>e'. moves e e' \<and> status e' = s"
begin

lemma can_reach:
  assumes "(status e, s) \<in> {(a, b). b \<in> allowed a}\<^sup>*"
  shows "\<exists>e'. moves\<^sup>*\<^sup>* e e' \<and> status e' = s"
  using assms
proof (induction rule: rtrancl_induct)
  case (step a b)
  then obtain e1 e2 where "moves\<^sup>*\<^sup>* e e1" "status e1 = a" "moves e1 e2" "status e2 = b"
    using can_move by fastforce
  then have "moves\<^sup>*\<^sup>* e e2" by auto
  then show ?case using \<open>status e2 = b\<close> by blast
qed blast

end

section \<open>Projects\<close>

datatype project_op =
    Update_Project "string option" "bool option" int
  | Archive_Project int
  | Restore_Archived_Project int
  | Delete_Project int
  | Restore_Deleted_Project int
  | Purge_Project int
  | Accept_Project_Version uuid int

fun exec_project :: "project_op \<Rightarrow> clock \<Rightarrow> project \<Rightarrow> domain_error + project" where
  "exec_project (Update_Project name pinned r) = project_update_metadata name pinned r"
| "exec_project (Archive_Project r) = project_archive r"
| "exec_project (Restore_Archived_Project r) = project_restore_archive r"
| "exec_project (Delete_Project r) = project_delete r"
| "exec_project (Restore_Deleted_Project r) = project_restore_deleted r"
| "exec_project (Purge_Project r) = project_mark_purged r"
| "exec_project (Accept_Project_Version version r) = project_accept_version version r"

fun project_metadata_expected :: "project_op \<Rightarrow> int option" where
  "project_metadata_expected (Update_Project _ _ r) = Some r"
| "project_metadata_expected (Archive_Project r) = Some r"
| "project_metadata_expected (Restore_Archived_Project r) = Some r"
| "project_metadata_expected (Delete_Project r) = Some r"
| "project_metadata_expected (Restore_Deleted_Project r) = Some r"
| "project_metadata_expected (Purge_Project r) = Some r"
| "project_metadata_expected (Accept_Project_Version _ _) = None"

fun project_content_expected :: "project_op \<Rightarrow> int option" where
  "project_content_expected (Accept_Project_Version _ r) = Some r"
| "project_content_expected _ = None"

definition project_step :: "project \<Rightarrow> project \<Rightarrow> bool" where
  "project_step p p' \<longleftrightarrow> (\<exists>op clk. exec_project op clk p = Inr p')"

lemmas project_defs = project_update_metadata_def project_archive_def project_restore_archive_def
  project_delete_def project_restore_deleted_def project_mark_purged_def project_accept_version_def
  require_metadata_revision_def require_recoverable_def touch_metadata_def

interpretation project_metadata: revisioned proj_metadata_revision project_metadata_expected exec_project
proof
  fix op r p clk
  show "project_metadata_expected op = Some r \<Longrightarrow> r \<noteq> proj_metadata_revision p \<Longrightarrow>
      exec_project op clk p = Inl VersionConflictError"
    by (cases op) (auto simp: project_defs ensure.simps)
next
  fix op r clk p p'
  show "project_metadata_expected op = Some r \<Longrightarrow> exec_project op clk p = Inr p' \<Longrightarrow>
      proj_metadata_revision p < proj_metadata_revision p'"
    by (cases op) (auto simp: project_defs result_simps)
next
  fix op clk p p'
  show "exec_project op clk p = Inr p' \<Longrightarrow> proj_metadata_revision p \<le> proj_metadata_revision p'"
    by (cases op) (auto simp: project_defs result_simps)
qed

interpretation project_content: revisioned proj_revision project_content_expected exec_project
proof
  fix op r p clk
  show "project_content_expected op = Some r \<Longrightarrow> r \<noteq> proj_revision p \<Longrightarrow>
      exec_project op clk p = Inl VersionConflictError"
    by (cases op) (auto simp: project_defs ensure.simps)
next
  fix op r clk p p'
  show "project_content_expected op = Some r \<Longrightarrow> exec_project op clk p = Inr p' \<Longrightarrow>
      proj_revision p < proj_revision p'"
    by (cases op) (auto simp: project_defs result_simps)
next
  fix op clk p p'
  show "exec_project op clk p = Inr p' \<Longrightarrow> proj_revision p \<le> proj_revision p'"
    by (cases op) (auto simp: project_defs result_simps)
qed

lemma project_step_eq: "project_metadata.step = project_step" "project_content.step = project_step"
  by (intro ext, simp add: project_metadata.step_def project_content.step_def project_step_def)+

text \<open>Live, deleted or purged: the life of a project and of a conversation.\<close>

datatype life = Live | Deleted | Purged

fun life_transitions :: "life \<Rightarrow> life set" where
  "life_transitions Live = {Deleted}"
| "life_transitions Deleted = {Live, Purged}"
| "life_transitions Purged = {}"

definition life_of :: "instant option \<Rightarrow> instant option \<Rightarrow> life" where
  "life_of deleted_at purged_at =
     (if purged_at \<noteq> None then Purged else if deleted_at \<noteq> None then Deleted else Live)"

definition project_life :: "project \<Rightarrow> life" where
  "project_life p = life_of (proj_deleted_at p) (proj_purged_at p)"

lemmas life_defs = project_life_def life_of_def

interpretation project_machine: status_machine project_life life_transitions project_step
proof
  fix p p'
  assume "project_step p p'"
  then obtain op clk where "exec_project op clk p = Inr p'"
    by (auto simp: project_step_def)
  then show "project_life p' = project_life p \<or> project_life p' \<in> life_transitions (project_life p)"
    by (cases op) (auto simp: project_defs life_defs result_simps)
qed

text \<open>The well-formedness that the constructor gives and every method keeps.\<close>

definition text_within :: "nat \<Rightarrow> string \<Rightarrow> bool" where
  "text_within limit s \<longleftrightarrow> s \<noteq> [] \<and> length s \<le> limit"

lemma text_within_of [intro]: "text_within limit old \<Longrightarrow> \<not> bad_text limit given \<Longrightarrow> text_within limit (text_of given old)"
  by (cases given) (auto simp: text_within_def text_of_def bad_text_def)

definition project_ok :: "project \<Rightarrow> bool" where
  "project_ok p \<longleftrightarrow> text_within 255 (proj_name p)
     \<and> (proj_deleted_at p \<noteq> None \<longrightarrow> proj_pinned_at p = None)
     \<and> (proj_purged_at p \<noteq> None \<longrightarrow> proj_deleted_at p \<noteq> None \<and> proj_name p = ''Deleted project'')
     \<and> 0 \<le> proj_metadata_revision p \<and> 0 \<le> proj_revision p"

definition project_created :: "project \<Rightarrow> bool" where
  "project_created p \<longleftrightarrow> (\<exists>fresh name residency clk. create_project fresh name residency clk = Inr p)"

interpretation projects: invariant_system project_created project_step project_ok
proof
  fix p
  assume "project_created p"
  then show "project_ok p"
    by (auto simp: project_created_def create_project_def project_ok_def text_within_def Let_def result_simps)
next
  fix p p'
  assume ok: "project_ok p" and "project_step p p'"
  then obtain op clk where "exec_project op clk p = Inr p'"
    by (auto simp: project_step_def)
  then show "project_ok p'"
    using ok by (cases op) (auto simp: project_defs project_ok_def result_simps pin_of_def text_within_def
        text_of_def bad_text_def split: option.splits bool.splits)
qed

text \<open>A purged project rejects every change of its metadata.\<close>

lemma purged_project_rejects:
  assumes "project_ok p" and "project_life p = Purged" and "project_metadata_expected op \<noteq> None"
  shows "isl (exec_project op clk p)"
proof (rule ccontr)
  assume "\<not> isl (exec_project op clk p)"
  then obtain p' where "exec_project op clk p = Inr p'"
    by (auto simp: not_isl_iff)
  then show False
    using assms by (cases op) (auto simp: project_defs project_ok_def life_defs result_simps split: if_splits)
qed

section \<open>Conversations\<close>

datatype conversation_op =
    Update_Conversation "string option" "bool option" int
  | Delete_Conversation bool int
  | Restore_Deleted_Conversation int
  | Purge_Conversation int

fun exec_conversation :: "conversation_op \<Rightarrow> clock \<Rightarrow> conversation \<Rightarrow> domain_error + conversation" where
  "exec_conversation (Update_Conversation title pinned r) = conversation_update_metadata title pinned r"
| "exec_conversation (Delete_Conversation by_project r) = conversation_delete by_project r"
| "exec_conversation (Restore_Deleted_Conversation r) = conversation_restore_deleted r"
| "exec_conversation (Purge_Conversation r) = conversation_mark_purged r"

fun conversation_expected :: "conversation_op \<Rightarrow> int option" where
  "conversation_expected (Update_Conversation _ _ r) = Some r"
| "conversation_expected (Delete_Conversation _ r) = Some r"
| "conversation_expected (Restore_Deleted_Conversation r) = Some r"
| "conversation_expected (Purge_Conversation r) = Some r"

definition conversation_step :: "conversation \<Rightarrow> conversation \<Rightarrow> bool" where
  "conversation_step c c' \<longleftrightarrow> (\<exists>op clk. exec_conversation op clk c = Inr c')"

lemmas conversation_defs = conversation_update_metadata_def conversation_delete_def
  conversation_restore_deleted_def conversation_mark_purged_def

interpretation conversation_metadata: revisioned conv_revision conversation_expected exec_conversation
proof
  fix op r c clk
  show "conversation_expected op = Some r \<Longrightarrow> r \<noteq> conv_revision c \<Longrightarrow>
      exec_conversation op clk c = Inl VersionConflictError"
    by (cases op) (auto simp: conversation_defs ensure.simps)
next
  fix op r clk c c'
  show "conversation_expected op = Some r \<Longrightarrow> exec_conversation op clk c = Inr c' \<Longrightarrow>
      conv_revision c < conv_revision c'"
    by (cases op) (auto simp: conversation_defs result_simps)
next
  fix op clk c c'
  show "exec_conversation op clk c = Inr c' \<Longrightarrow> conv_revision c \<le> conv_revision c'"
    by (cases op) (auto simp: conversation_defs result_simps)
qed

lemma conversation_step_eq: "conversation_metadata.step = conversation_step"
  by (intro ext) (simp add: conversation_metadata.step_def conversation_step_def)

definition conversation_life :: "conversation \<Rightarrow> life" where
  "conversation_life c = life_of (conv_deleted_at c) (conv_purged_at c)"

interpretation conversation_machine: status_machine conversation_life life_transitions conversation_step
proof
  fix c c'
  assume "conversation_step c c'"
  then obtain op clk where "exec_conversation op clk c = Inr c'"
    by (auto simp: conversation_step_def)
  then show "conversation_life c' = conversation_life c \<or> conversation_life c' \<in> life_transitions (conversation_life c)"
    by (cases op) (auto simp: conversation_defs conversation_life_def life_of_def result_simps)
qed

definition conversation_ok :: "conversation \<Rightarrow> bool" where
  "conversation_ok c \<longleftrightarrow> text_within 200 (conv_title c)
     \<and> (conv_workspace_type c = Project_Chat \<longrightarrow> conv_project c \<noteq> None)
     \<and> (conv_workspace_type c = Chat_Scratch \<longrightarrow> conv_project c = None)
     \<and> conv_workspace c \<noteq> None
     \<and> (conv_deleted_at c \<noteq> None \<longrightarrow> conv_pinned_at c = None)
     \<and> (conv_deleted_by_project_at c \<noteq> None \<longrightarrow> conv_deleted_by_project_at c = conv_deleted_at c)
     \<and> (conv_purged_at c \<noteq> None \<longrightarrow> conv_deleted_at c \<noteq> None \<and> conv_title c = ''Deleted chat'')
     \<and> 0 \<le> conv_revision c"

definition conversation_created :: "conversation \<Rightarrow> bool" where
  "conversation_created c \<longleftrightarrow> (\<exists>fresh project_id kind base workspace_id title clk.
     create_conversation fresh project_id kind base workspace_id title clk = Inr c)"

interpretation conversations: invariant_system conversation_created conversation_step conversation_ok
proof
  fix c
  assume "conversation_created c"
  then obtain fresh project_id kind base workspace_id title clk where
    "create_conversation fresh project_id kind base workspace_id title clk = Inr c"
    unfolding conversation_created_def by blast
  then show "conversation_ok c"
    by (cases kind; cases project_id; cases workspace_id)
      (auto simp: create_conversation_def conversation_post_init_def conversation_ok_def
        text_within_def Let_def ensure_eq_Inr or_else_def)
next
  fix c c'
  assume ok: "conversation_ok c" and "conversation_step c c'"
  then obtain op clk where "exec_conversation op clk c = Inr c'"
    by (auto simp: conversation_step_def)
  then show "conversation_ok c'"
    using ok by (cases op) (auto simp: conversation_defs conversation_ok_def result_simps pin_of_def text_within_def
        text_of_def bad_text_def split: option.splits bool.splits if_splits)
qed

lemma purged_conversation_rejects:
  assumes "conversation_ok c" and "conversation_life c = Purged"
  shows "isl (exec_conversation op clk c)"
proof (rule ccontr)
  assume "\<not> isl (exec_conversation op clk c)"
  then obtain c' where "exec_conversation op clk c = Inr c'"
    by (auto simp: not_isl_iff)
  then show False
    using assms by (cases op)
      (auto simp: conversation_defs conversation_ok_def conversation_life_def life_of_def result_simps split: if_splits)
qed

section \<open>Tasks\<close>

datatype task_op =
    Transition_Task task_status
  | Update_Task "string option" "bool option" int
  | Archive_Task int
  | Bind_Target uuid
  | Bind_Memory uuid string
  | Bind_Knowledge uuid string
  | Bind_Harness uuid string

fun exec_task :: "task_op \<Rightarrow> clock \<Rightarrow> core_task \<Rightarrow> domain_error + core_task" where
  "exec_task (Transition_Task status) = task_transition_to status"
| "exec_task (Update_Task title pinned r) = task_update_metadata title pinned r"
| "exec_task (Archive_Task r) = task_archive r"
| "exec_task (Bind_Target version) = bind_target_version version"
| "exec_task (Bind_Memory i h) = bind_memory_snapshot i h"
| "exec_task (Bind_Knowledge i h) = bind_knowledge_snapshot i h"
| "exec_task (Bind_Harness i h) = bind_harness_manifest i h"

fun task_expected :: "task_op \<Rightarrow> int option" where
  "task_expected (Update_Task _ _ r) = Some r"
| "task_expected (Archive_Task r) = Some r"
| "task_expected _ = None"

definition task_step :: "core_task \<Rightarrow> core_task \<Rightarrow> bool" where
  "task_step t t' \<longleftrightarrow> (\<exists>op clk. exec_task op clk t = Inr t')"

lemmas task_defs = task_transition_to_def task_update_metadata_def task_archive_def bind_target_version_def
  bind_memory_snapshot_def bind_knowledge_snapshot_def bind_harness_manifest_def

lemma binding_Inr [result_simps]:
  "binding label i h i' h' = Inr b \<longleftrightarrow> sha256_hex h'
     \<and> (b \<and> i = None \<and> h = None \<or> \<not> b \<and> i = Some i' \<and> h = Some h')"
  by (auto simp: binding_def)

interpretation task_metadata: revisioned task_metadata_revision task_expected exec_task
proof
  fix op r t clk
  show "task_expected op = Some r \<Longrightarrow> r \<noteq> task_metadata_revision t \<Longrightarrow>
      exec_task op clk t = Inl VersionConflictError"
    by (cases op) (auto simp: task_defs ensure.simps)
next
  fix op r clk t t'
  show "task_expected op = Some r \<Longrightarrow> exec_task op clk t = Inr t' \<Longrightarrow>
      task_metadata_revision t < task_metadata_revision t'"
    by (cases op) (auto simp: task_defs result_simps)
next
  fix op clk t t'
  show "exec_task op clk t = Inr t' \<Longrightarrow> task_metadata_revision t \<le> task_metadata_revision t'"
    by (cases op) (auto simp: task_defs result_simps)
qed

lemma task_step_eq: "task_metadata.step = task_step"
  by (intro ext) (simp add: task_metadata.step_def task_step_def)

interpretation task_machine: free_status_machine task_state task_transitions task_step
proof
  fix t t'
  assume "task_step t t'"
  then obtain op clk where "exec_task op clk t = Inr t'"
    by (auto simp: task_step_def)
  then show "task_state t' = task_state t \<or> task_state t' \<in> task_transitions (task_state t)"
    by (cases op) (auto simp: task_defs result_simps)
next
  fix s and t :: core_task
  assume "s \<in> task_transitions (task_state t)"
  then have "exec_task (Transition_Task s) (\<lambda>i. 0) t = Inr (t\<lparr>task_state := s, task_updated_at := 0\<rparr>)"
    by (simp add: task_transition_to_def result_simps)
  then show "\<exists>t'. task_step t t' \<and> task_state t' = s"
    unfolding task_step_def by (intro exI[of _ "t\<lparr>task_state := s, task_updated_at := 0\<rparr>"]) fastforce
qed

text \<open>
  A task is well formed when its fields pass its own \<open>__post_init__\<close> unchanged, as they must for
  a task that is read back from the store.
\<close>

definition known_target :: "string \<Rightarrow> bool" where
  "known_target target \<longleftrightarrow> target \<in> {''local'', ''cloud''}"

definition task_ok :: "core_task \<Rightarrow> bool" where
  "task_ok t \<longleftrightarrow> task_post_init t = Inr t \<and> text_within 200 (task_display_title t)
     \<and> known_target (task_execution_target t) \<and> 0 \<le> task_metadata_revision t"

definition binding_ok :: "uuid option \<Rightarrow> string option \<Rightarrow> bool" where
  "binding_ok i h \<longleftrightarrow> (i = None \<longleftrightarrow> h = None) \<and> (\<forall>x. h = Some x \<longrightarrow> sha256_hex x)"

lemma binding_ok_Some [simp]: "binding_ok (Some i) (Some h) \<longleftrightarrow> sha256_hex h"
  by (simp add: binding_ok_def)

lemma validate_binding_pass [simp]: "list_all (\<lambda>g. \<not> fst g) (validate_binding i h label) \<longleftrightarrow> binding_ok i h"
  by (auto simp: validate_binding_def binding_ok_def split: option.splits)

lemma task_post_init_Inr:
  "task_post_init t = Inr t' \<longleftrightarrow> binding_ok (task_memory_id t) (task_memory_hash t)
     \<and> binding_ok (task_knowledge_id t) (task_knowledge_hash t)
     \<and> binding_ok (task_harness_id t) (task_harness_hash t)
     \<and> t' = t\<lparr>task_workspace := or_else (task_workspace t) (or_else (task_project t) (Some (task_conversation t))),
        task_display_title := (if task_display_title t = [] then take 200 (task_user_request t)
                               else task_display_title t)\<rparr>"
proof -
  have "(task_memory_id t = None) = (task_memory_hash t = None)"
    if "binding_ok (task_memory_id t) (task_memory_hash t)"
    using that by (simp add: binding_ok_def)
  then show ?thesis
    unfolding task_post_init_def ensure_eq_Inr by (simp add: conj_ac cong: conj_cong)
qed

lemma task_post_init_fixed:
  "task_post_init t = Inr t \<longleftrightarrow> binding_ok (task_memory_id t) (task_memory_hash t)
     \<and> binding_ok (task_knowledge_id t) (task_knowledge_hash t)
     \<and> binding_ok (task_harness_id t) (task_harness_hash t)
     \<and> task_workspace t \<noteq> None \<and> (task_display_title t = [] \<longrightarrow> task_user_request t = [])"
proof -
  have "t = t\<lparr>task_workspace := w, task_display_title := d\<rparr>
      \<longleftrightarrow> task_workspace t = w \<and> task_display_title t = d" for w d
    by (cases t) simp
  moreover have "task_workspace t = or_else (task_workspace t) (or_else (task_project t) (Some (task_conversation t)))
      \<longleftrightarrow> task_workspace t \<noteq> None"
    by (auto simp: or_else_def split: option.splits)
  moreover have "task_display_title t = (if task_display_title t = [] then take 200 (task_user_request t)
      else task_display_title t) \<longleftrightarrow> (task_display_title t = [] \<longrightarrow> task_user_request t = [])"
    by auto
  ultimately show ?thesis
    unfolding task_post_init_Inr by blast
qed

definition task_created :: "core_task \<Rightarrow> bool" where
  "task_created t \<longleftrightarrow> (\<exists>fresh project_id conversation request mode base target workspace_id clk.
     create_task fresh project_id conversation request mode base target workspace_id clk = Inr t)"

lemma task_ok_created:
  assumes "task_created t"
  shows "task_ok t"
proof -
  obtain fresh project_id conversation request mode base target workspace_id clk
    where c: "create_task fresh project_id conversation request mode base target workspace_id clk = Inr t"
    using assms by (auto simp: task_created_def)
  then have words: "strip request \<noteq> []" and target: "known_target target"
    by (auto simp: create_task_def Let_def rbind_eq_Inr ensure_eq_Inr known_target_def)
  from c have t: "task_execution_target t = target" "task_metadata_revision t = 0"
    "task_display_title t = take 200 (strip request)" "task_workspace t \<noteq> None"
    "task_memory_id t = None" "task_memory_hash t = None" "task_knowledge_id t = None"
    "task_knowledge_hash t = None" "task_harness_id t = None" "task_harness_hash t = None"
    by (simp_all add: create_task_def Let_def rbind_eq_Inr task_post_init_Inr or_else_def split: option.splits)
  show ?thesis
    unfolding task_ok_def task_post_init_fixed text_within_def t binding_ok_def
    using words target t(4) by simp
qed

lemma task_ok_exec:
  assumes "task_ok t" and "exec_task op clk t = Inr t'"
  shows "task_ok t'"
proof (cases op)
  case (Update_Task title pinned r)
  then show ?thesis
    using assms by (cases title)
      (simp_all add: task_defs task_ok_def task_post_init_fixed ensure_eq_Inr text_within_def text_of_def bad_text_def)
qed (use assms in \<open>auto simp: task_defs task_ok_def task_post_init_fixed ensure_eq_Inr
      rbind_eq_Inr binding_Inr split: if_splits\<close>)

interpretation tasks: invariant_system task_created task_step task_ok
  by unfold_locales (auto simp: task_step_def task_ok_created task_ok_exec)

text \<open>Each of the four bindings of a task is written once.\<close>

definition bound_to :: "core_task \<Rightarrow> (uuid option \<times> string option) list" where
  "bound_to t = [(task_target_version t, None), (task_memory_id t, task_memory_hash t),
     (task_knowledge_id t, task_knowledge_hash t), (task_harness_id t, task_harness_hash t)]"

definition keeps_bindings :: "core_task \<Rightarrow> core_task \<Rightarrow> bool" where
  "keeps_bindings t t' \<longleftrightarrow>
     list_all2 (\<lambda>b b'. (fst b \<noteq> None \<longrightarrow> fst b' = fst b) \<and> (snd b \<noteq> None \<longrightarrow> snd b' = snd b)) (bound_to t) (bound_to t')"

lemma keeps_bindings_step:
  assumes "task_step t t'"
  shows "keeps_bindings t t'"
proof -
  obtain op clk where "exec_task op clk t = Inr t'"
    using assms by (auto simp: task_step_def)
  then show ?thesis
    by (cases op) (auto simp: task_defs keeps_bindings_def bound_to_def result_simps)
qed

lemma keeps_bindings_path: "task_step\<^sup>*\<^sup>* t t' \<Longrightarrow> keeps_bindings t t'"
proof (induction rule: rtranclp_induct)
  case base
  show ?case by (simp add: keeps_bindings_def bound_to_def)
next
  case (step y z)
  then show ?case
    using keeps_bindings_step[OF step.hyps(2)] by (auto simp: keeps_bindings_def bound_to_def)
qed

text \<open>
  What an operation binds: the place of the binding in the list, the identifier and the hash. It
  writes that place and no other, only while it is free, and every other operation writes none.
\<close>

fun binding_slot :: "task_op \<Rightarrow> (nat \<times> uuid \<times> string option) option" where
  "binding_slot (Bind_Target version) = Some (0, version, None)"
| "binding_slot (Bind_Memory i h) = Some (1, i, Some h)"
| "binding_slot (Bind_Knowledge i h) = Some (2, i, Some h)"
| "binding_slot (Bind_Harness i h) = Some (3, i, Some h)"
| "binding_slot _ = None"

lemma bind_writes:
  assumes "exec_task op clk t = Inr t'"
  shows "bound_to t' = (case binding_slot op of None \<Rightarrow> bound_to t | Some (k, i, h) \<Rightarrow> (bound_to t)[k := (Some i, h)])"
  using assms by (cases op) (auto simp: task_defs bound_to_def numeral_2_eq_2 numeral_3_eq_3 result_simps)

lemma rebind_rejects:
  assumes "binding_slot op = Some (k, i, h)" and "fst (bound_to t ! k) \<noteq> None" and "bound_to t ! k \<noteq> (Some i, h)"
  shows "isl (exec_task op clk t)"
proof (rule ccontr)
  assume "\<not> isl (exec_task op clk t)"
  then obtain t' where "exec_task op clk t = Inr t'"
    by (auto simp: not_isl_iff)
  then show False
    using assms by (cases op) (auto simp: task_defs bound_to_def numeral_2_eq_2 numeral_3_eq_3 result_simps)
qed

lemma bound_stays:
  assumes "task_ok t" and "keeps_bindings t t'" and "k < 4" and "fst (bound_to t ! k) \<noteq> None"
  shows "bound_to t' ! k = bound_to t ! k"
proof -
  have "k \<in> {0, 1, 2, 3}"
    using assms(3) by auto
  then show ?thesis
    using assms(1,2,4) by (elim insertE)
      (auto simp: task_ok_def task_post_init_fixed binding_ok_def keeps_bindings_def bound_to_def)
qed

lemma binding_slot_less: "binding_slot op = Some (k, i, h) \<Longrightarrow> k < 4"
  by (cases op) auto

text \<open>Every status leads to the archive.\<close>

lemma archive_reachable: "(s, Task_Archived) \<in> {(a, b). b \<in> task_transitions a}\<^sup>*"
proof -
  define R where "R = {(a, b). b \<in> task_transitions a}"
  have r: "(a, b) \<in> R\<^sup>*" if "b \<in> task_transitions a" for a b
    using that by (auto simp: R_def)
  have rejected: "(a, Task_Archived) \<in> R\<^sup>*" if "Task_Rejected \<in> task_transitions a" for a
    by (rule rtrancl_trans[OF r[OF that] r]) simp
  have created: "(Task_Created, Task_Archived) \<in> R\<^sup>*"
    by (rule rtrancl_trans[OF r[of Task_Resolving_Scope] rejected]) simp_all
  have "(s, Task_Archived) \<in> R\<^sup>*"
    by (cases s) (simp_all add: created rejected r)
  then show ?thesis
    by (simp only: R_def)
qed

end
