(* ===== verification/Session_Machine.thy ===== *)
theory Session_Machine
  imports Sessions Domain_Lifecycle
begin

text \<open>
  The life of a session: the step relations of the methods of \<open>RuntimeSession\<close> and
  \<open>PreviewSession\<close>, at any time after the session's creation, as status machines over their
  transition tables, and the invariant that a session always passes its own constructor's checks
  unchanged, so that it can be written to the store and restored from it at any moment.
\<close>

section \<open>Runtime sessions\<close>

datatype runtime_op =
    Start_Runtime
  | Run_Runtime string int
  | Stop_Runtime
  | Stopped_Runtime
  | Fail_Runtime string
  | Interrupt_Runtime string

fun exec_runtime :: "runtime_op \<Rightarrow> instant \<Rightarrow> runtime_session \<Rightarrow> domain_error + runtime_session" where
  "exec_runtime Start_Runtime = runtime_begin_start"
| "exec_runtime (Run_Runtime handle port) = runtime_mark_running handle port"
| "exec_runtime Stop_Runtime = runtime_begin_stop"
| "exec_runtime Stopped_Runtime = runtime_mark_stopped"
| "exec_runtime (Fail_Runtime e) = runtime_mark_failed e"
| "exec_runtime (Interrupt_Runtime e) = runtime_mark_interrupted e"

definition runtime_step :: "runtime_session \<Rightarrow> runtime_session \<Rightarrow> bool" where
  "runtime_step s s' \<longleftrightarrow> (\<exists>op now. rt_created_at s \<le> now \<and> exec_runtime op now s = Inr s')"

definition runtime_created :: "(path \<Rightarrow> path) \<Rightarrow> runtime_session \<Rightarrow> bool" where
  "runtime_created resolve s \<longleftrightarrow> (\<exists>fresh scope kind executor key graph now.
     create_runtime resolve fresh scope kind executor key graph now = Inr s)"

lemmas runtime_defs = runtime_transition_def runtime_begin_start_def runtime_mark_running_def
  runtime_begin_stop_def runtime_mark_stopped_def runtime_mark_failed_def runtime_mark_interrupted_def

interpretation runtime_machine: status_machine rt_status runtime_transitions runtime_step
proof
  fix s s'
  assume "runtime_step s s'"
  then obtain op now where "exec_runtime op now s = Inr s'"
    by (auto simp: runtime_step_def)
  then show "rt_status s' = rt_status s \<or> rt_status s' \<in> runtime_transitions (rt_status s)"
    by (cases op) (auto simp: runtime_defs result_simps)
qed

text \<open>The fields no method writes, and those they do.\<close>

definition text_ok :: "string \<Rightarrow> bool" where
  "text_ok s \<longleftrightarrow> s \<noteq> [] \<and> strip s = s"

definition port_ok :: "int \<Rightarrow> bool" where
  "port_ok p \<longleftrightarrow> 1 \<le> p \<and> p \<le> 65535"

definition runtime_static :: "(path \<Rightarrow> path) \<Rightarrow> runtime_session \<Rightarrow> bool" where
  "runtime_static resolve s \<longleftrightarrow> text_ok (rt_executor s) \<and> text_ok (rt_idempotency_key s)
     \<and> known_target (rt_execution_target s) \<and> rt_version s \<noteq> None
     \<and> resolve (rt_project_root s) = rt_project_root s \<and> rt_graph s \<noteq> None
     \<and> (rt_kind s = Static_Site \<longrightarrow> rt_execution_target s = ''local'')"

definition handle_ok :: "string option \<Rightarrow> int option \<Rightarrow> bool" where
  "handle_ok handle port \<longleftrightarrow> (case handle of
       None \<Rightarrow> port = None
     | Some h \<Rightarrow> strip h \<noteq> [] \<and> (\<exists>p. port = Some p \<and> port_ok p))"

definition code_ok :: "bool \<Rightarrow> string option \<Rightarrow> bool" where
  "code_ok failed code \<longleftrightarrow> (case code of None \<Rightarrow> \<not> failed | Some e \<Rightarrow> failed \<and> strip e \<noteq> [])"

definition runtime_dynamic :: "runtime_session \<Rightarrow> bool" where
  "runtime_dynamic s \<longleftrightarrow> 0 \<le> rt_revision s \<and> rt_created_at s \<le> rt_updated_at s
     \<and> handle_ok (rt_handle s) (rt_port s) \<and> rt_health s = runtime_health (rt_status s)
     \<and> (rt_status s \<in> {Runtime_Running, Runtime_Stopping} \<longrightarrow> rt_handle s \<noteq> None)
     \<and> (rt_status s \<in> {Runtime_Created, Runtime_Starting, Runtime_Stopped} \<longrightarrow> rt_handle s = None)
     \<and> code_ok (rt_status s \<in> {Runtime_Failed, Runtime_Interrupted}) (rt_error_code s)"

lemma handle_port_pass: "list_all (\<lambda>g. \<not> fst g) (handle_port_checks handle port) \<longleftrightarrow> handle_ok handle port"
  by (auto simp: handle_port_checks_def handle_ok_def port_checks_def port_ok_def split: option.splits)

lemma error_code_pass: "list_all (\<lambda>g. \<not> fst g) (error_code_checks failed code) \<longleftrightarrow> code_ok failed code"
  by (auto simp: error_code_checks_def code_ok_def split: option.splits)

lemma handle_ok_None: "handle_ok handle port \<Longrightarrow> (handle = None) = (port = None)"
  by (auto simp: handle_ok_def split: option.splits)

lemma runtime_checks_pass:
  "list_all (\<lambda>g. \<not> fst g) (runtime_checks s) \<longleftrightarrow> runtime_dynamic s
     \<and> \<not> (rt_kind s = Static_Site \<and> (rt_execution_target s \<noteq> ''local'' \<or> rt_version s = None))"
  unfolding runtime_checks_def runtime_dynamic_def timestamp_checks_def list_all_append handle_port_pass error_code_pass
  by (simp only: list.pred_inject fst_conv append.simps) (use handle_ok_None[of "rt_handle s" "rt_port s"] in \<open>auto simp: not_less\<close>)

lemma default_graph_ok: "runtime_graph_post_init (default_graph kind) = Inr (default_graph kind)"
  unfolding runtime_graph_post_init_exact
  by (simp add: graph_well_formed_def default_graph_def service_relation_def acyclic_def)

lemma required_text_ok: "required_text field x = Inr y \<longleftrightarrow> y = strip x \<and> text_ok y"
  by (auto simp: required_text_Inr text_ok_def)

lemma runtime_post_init_Inr:
  "runtime_post_init resolve s = Inr s' \<longleftrightarrow>
     s' = s\<lparr>rt_project_root := resolve (rt_project_root s), rt_executor := strip (rt_executor s),
            rt_idempotency_key := strip (rt_idempotency_key s),
            rt_graph := Some (case rt_graph s of None \<Rightarrow> default_graph (rt_kind s) | Some g \<Rightarrow> g)\<rparr>
     \<and> text_ok (strip (rt_executor s)) \<and> text_ok (strip (rt_idempotency_key s))
     \<and> known_target (rt_execution_target s) \<and> rt_version s \<noteq> None
     \<and> (rt_kind s = Static_Site \<longrightarrow> rt_execution_target s = ''local'') \<and> runtime_dynamic s'"
proof -
  have g: "(case rt_graph s of None \<Rightarrow> runtime_graph_post_init (default_graph (rt_kind s)) | Some g \<Rightarrow> Inr g)
      = Inr (case rt_graph s of None \<Rightarrow> default_graph (rt_kind s) | Some g \<Rightarrow> g)"
    by (simp add: default_graph_ok split: option.split)
  show ?thesis
    unfolding runtime_post_init_def g rbind_eq_Inr required_text_ok ensure_eq_Inr Let_def runtime_checks_pass known_target_def
    by (simp only: list.pred_inject fst_conv) auto
qed

lemma runtime_static_dynamic:
  assumes "runtime_static resolve s" and "runtime_dynamic s"
  shows "runtime_post_init resolve s = Inr s"
proof -
  have "s\<lparr>rt_project_root := resolve (rt_project_root s), rt_executor := strip (rt_executor s),
          rt_idempotency_key := strip (rt_idempotency_key s),
          rt_graph := Some (case rt_graph s of None \<Rightarrow> default_graph (rt_kind s) | Some g \<Rightarrow> g)\<rparr> = s"
    using assms(1) by (cases s) (auto simp: runtime_static_def text_ok_def)
  then show ?thesis
    unfolding runtime_post_init_Inr using assms by (simp add: runtime_static_def text_ok_def)
qed

lemma runtime_static_exec:
  assumes "exec_runtime op now s = Inr s'" and "runtime_static resolve s"
  shows "runtime_static resolve s'"
  using assms by (cases op) (auto simp: runtime_defs runtime_static_def rbind_eq_Inr ensure_eq_Inr)

text \<open>What a method writes, as one update.\<close>

definition runtime_moved ::
  "runtime_status \<Rightarrow> instant \<Rightarrow> string option \<Rightarrow> int option \<Rightarrow> string option \<Rightarrow> runtime_session \<Rightarrow> runtime_session" where
  "runtime_moved st now handle port code s = s\<lparr>rt_status := st, rt_revision := rt_revision s + 1,
     rt_updated_at := now, rt_handle := handle, rt_port := port, rt_health := runtime_health st, rt_error_code := code\<rparr>"

lemma runtime_moved_dynamic:
  assumes "runtime_dynamic s" and "rt_created_at s \<le> now" and "handle_ok handle port"
    and "st \<in> {Runtime_Running, Runtime_Stopping} \<Longrightarrow> handle \<noteq> None"
    and "st \<in> {Runtime_Created, Runtime_Starting, Runtime_Stopped} \<Longrightarrow> handle = None"
    and "code_ok (st \<in> {Runtime_Failed, Runtime_Interrupted}) code"
  shows "runtime_dynamic (runtime_moved st now handle port code s)"
  using assms by (simp add: runtime_dynamic_def runtime_moved_def)

lemma runtime_transition_Inr:
  "runtime_transition st now s = Inr s' \<longleftrightarrow> st \<in> runtime_transitions (rt_status s)
     \<and> s' = s\<lparr>rt_status := st, rt_revision := rt_revision s + 1, rt_updated_at := now\<rparr>"
  by (auto simp: runtime_transition_def ensure_eq_Inr)

lemma exec_runtime_moved:
  assumes "exec_runtime op now s = Inr s'"
  shows "case op of
      Start_Runtime \<Rightarrow> s' = runtime_moved Runtime_Starting now None None None s
    | Run_Runtime handle port \<Rightarrow> strip handle \<noteq> [] \<and> port_ok port
        \<and> s' = runtime_moved Runtime_Running now (Some (strip handle)) (Some port) None s
    | Stop_Runtime \<Rightarrow> rt_handle s \<noteq> None \<and> s' = runtime_moved Runtime_Stopping now (rt_handle s) (rt_port s) None s
    | Stopped_Runtime \<Rightarrow> s' = runtime_moved Runtime_Stopped now None None None s
    | Fail_Runtime e \<Rightarrow> strip e \<noteq> [] \<and> s' = runtime_moved Runtime_Failed now (rt_handle s) (rt_port s) (Some (strip e)) s
    | Interrupt_Runtime e \<Rightarrow> strip e \<noteq> []
        \<and> s' = runtime_moved Runtime_Interrupted now (rt_handle s) (rt_port s) (Some (strip e)) s"
  using assms by (cases op)
    (auto simp: runtime_begin_start_def runtime_mark_running_def runtime_begin_stop_def runtime_mark_stopped_def
      runtime_mark_failed_def runtime_mark_interrupted_def rbind_eq_Inr runtime_transition_Inr required_text_Inr
      ensure_eq_Inr port_checks_def port_ok_def runtime_moved_def)

lemma runtime_dynamic_exec:
  assumes "exec_runtime op now s = Inr s'" and "rt_created_at s \<le> now" and "runtime_dynamic s"
  shows "runtime_dynamic s'"
proof -
  have "handle_ok (rt_handle s) (rt_port s)"
    using assms(3) by (simp add: runtime_dynamic_def)
  then show ?thesis
    using exec_runtime_moved[OF assms(1)] by (cases op)
      (auto intro!: runtime_moved_dynamic[OF assms(3,2)] simp: handle_ok_def code_ok_def)
qed

definition runtime_ok :: "(path \<Rightarrow> path) \<Rightarrow> runtime_session \<Rightarrow> bool" where
  "runtime_ok resolve s \<longleftrightarrow> runtime_static resolve s \<and> runtime_dynamic s"

text \<open>Resolving a path that is resolved leaves it alone.\<close>

definition resolves :: "(path \<Rightarrow> path) \<Rightarrow> bool" where
  "resolves resolve \<longleftrightarrow> (\<forall>p. resolve (resolve p) = resolve p)"

lemma runtime_created_ok:
  assumes "resolves resolve" and "runtime_created resolve s"
  shows "runtime_ok resolve s"
  using assms unfolding runtime_created_def create_runtime_def runtime_post_init_Inr
  by (auto simp: runtime_ok_def runtime_static_def resolves_def text_ok_def)

lemma runtime_step_ok: "runtime_ok resolve s \<Longrightarrow> runtime_step s s' \<Longrightarrow> runtime_ok resolve s'"
  unfolding runtime_ok_def runtime_step_def using runtime_static_exec runtime_dynamic_exec by blast

interpretation runtimes: invariant_system
  "\<lambda>s. resolves resolve \<and> runtime_created resolve s" runtime_step "runtime_ok resolve" for resolve
  by unfold_locales (blast intro: runtime_created_ok runtime_step_ok)+

end
