(* ===== verification/Preview_Machine.thy ===== *)
theory Preview_Machine
  imports Session_Machine
begin

text \<open>
  The life of a preview session, as for runtimes: its methods are a status machine over the
  preview transitions, and what they leave passes the constructor's checks unchanged.
\<close>

datatype preview_op =
    Start_Preview
  | Ready_Preview string
  | Stop_Preview
  | Stopped_Preview
  | Fail_Preview string
  | Interrupt_Preview string
  | Promote_Preview

fun exec_preview ::
  "(string \<Rightarrow> bool) \<Rightarrow> preview_op \<Rightarrow> instant \<Rightarrow> preview_session \<Rightarrow> domain_error + preview_session" where
  "exec_preview bad_netloc Start_Preview = preview_begin_start"
| "exec_preview bad_netloc (Ready_Preview url) = preview_mark_ready bad_netloc url"
| "exec_preview bad_netloc Stop_Preview = preview_begin_stop"
| "exec_preview bad_netloc Stopped_Preview = preview_mark_stopped"
| "exec_preview bad_netloc (Fail_Preview e) = preview_mark_failed e"
| "exec_preview bad_netloc (Interrupt_Preview e) = preview_mark_interrupted e"
| "exec_preview bad_netloc Promote_Preview = promote_to_project_active"

definition preview_step :: "(string \<Rightarrow> bool) \<Rightarrow> preview_session \<Rightarrow> preview_session \<Rightarrow> bool" where
  "preview_step bad_netloc s s' \<longleftrightarrow>
     (\<exists>op now. pv_created_at s \<le> now \<and> exec_preview bad_netloc op now s = Inr s')"

definition preview_created :: "(path \<Rightarrow> path) \<Rightarrow> (string \<Rightarrow> bool) \<Rightarrow> preview_session \<Rightarrow> bool" where
  "preview_created resolve bad_netloc s \<longleftrightarrow> (\<exists>fresh scope runtime_id visibility key now.
     create_preview resolve bad_netloc fresh scope runtime_id visibility key now = Inr s)"

lemma preview_transition_Inr:
  "preview_transition st now s = Inr s' \<longleftrightarrow> st \<in> preview_transitions (pv_status s)
     \<and> s' = s\<lparr>pv_status := st, pv_revision := pv_revision s + 1, pv_updated_at := now\<rparr>"
  by (auto simp: preview_transition_def ensure_eq_Inr)

lemmas preview_op_defs = preview_begin_start_def preview_mark_ready_def preview_begin_stop_def
  preview_mark_stopped_def preview_mark_failed_def preview_mark_interrupted_def promote_to_project_active_def

interpretation preview_machine: status_machine pv_status preview_transitions "preview_step bad_netloc" for bad_netloc
proof
  fix s s'
  assume "preview_step bad_netloc s s'"
  then obtain op now where "exec_preview bad_netloc op now s = Inr s'"
    by (auto simp: preview_step_def)
  then show "pv_status s' = pv_status s \<or> pv_status s' \<in> preview_transitions (pv_status s)"
    by (cases op) (auto simp: preview_op_defs rbind_eq_Inr preview_transition_Inr ensure_eq_Inr split: if_splits)
qed

section \<open>The invariant\<close>

definition preview_static :: "(path \<Rightarrow> path) \<Rightarrow> preview_session \<Rightarrow> bool" where
  "preview_static resolve s \<longleftrightarrow> text_ok (pv_idempotency_key s) \<and> known_target (pv_execution_target s)
     \<and> pv_version s \<noteq> None \<and> resolve (pv_project_root s) = pv_project_root s
     \<and> pv_created_at s \<le> pv_last_accessed_at s"

text \<open>The URL of a session that has one is a URL that was accepted.\<close>

definition url_ok :: "(string \<Rightarrow> bool) \<Rightarrow> string \<Rightarrow> string option \<Rightarrow> bool" where
  "url_ok bad_netloc target url \<longleftrightarrow> (\<forall>u. url = Some u \<longrightarrow> (\<exists>u'. validate_preview_url bad_netloc target u = Inr u'))"

definition preview_dynamic :: "(string \<Rightarrow> bool) \<Rightarrow> preview_session \<Rightarrow> bool" where
  "preview_dynamic bad_netloc s \<longleftrightarrow> 0 \<le> pv_revision s \<and> pv_created_at s \<le> pv_updated_at s
     \<and> url_ok bad_netloc (pv_execution_target s) (pv_url s)
     \<and> pv_health s = preview_health (pv_status s)
     \<and> (pv_status s \<in> {Preview_Ready, Preview_Stopping} \<longrightarrow> pv_url s \<noteq> None)
     \<and> (pv_status s \<notin> {Preview_Ready, Preview_Stopping, Preview_Interrupted} \<longrightarrow> pv_url s = None)
     \<and> code_ok (pv_status s \<in> {Preview_Failed, Preview_Interrupted}) (pv_error_code s)"

lemma preview_url_check_Inr:
  "preview_url_check bad_netloc s = Inr u \<longleftrightarrow> url_ok bad_netloc (pv_execution_target s) (pv_url s)
     \<and> (pv_status s \<in> {Preview_Ready, Preview_Stopping} \<longrightarrow> pv_url s \<noteq> None)
     \<and> (pv_status s \<notin> {Preview_Ready, Preview_Stopping, Preview_Interrupted} \<longrightarrow> pv_url s = None)"
  by (cases "pv_url s") (auto simp: preview_url_check_def Let_def rbind_eq_Inr url_ok_def)

lemma preview_post_init_Inr:
  "preview_post_init resolve bad_netloc s = Inr s' \<longleftrightarrow>
     s' = s\<lparr>pv_project_root := resolve (pv_project_root s), pv_idempotency_key := strip (pv_idempotency_key s)\<rparr>
     \<and> text_ok (strip (pv_idempotency_key s)) \<and> known_target (pv_execution_target s) \<and> pv_version s \<noteq> None
     \<and> pv_created_at s \<le> pv_last_accessed_at s \<and> preview_dynamic bad_netloc s"
  unfolding preview_post_init_def rbind_eq_Inr required_text_ok ensure_eq_Inr preview_url_check_Inr error_code_pass
    timestamp_checks_def preview_dynamic_def known_target_def list_all_append
  by (simp only: list.pred_inject fst_conv append.simps) (simp add: not_less conj_ac cong: conj_cong)

lemma preview_static_dynamic:
  assumes "preview_static resolve s" and "preview_dynamic bad_netloc s"
  shows "preview_post_init resolve bad_netloc s = Inr s"
proof -
  have "s\<lparr>pv_project_root := resolve (pv_project_root s), pv_idempotency_key := strip (pv_idempotency_key s)\<rparr> = s"
    using assms(1) by (cases s) (simp add: preview_static_def text_ok_def)
  then show ?thesis
    unfolding preview_post_init_Inr using assms by (simp add: preview_static_def text_ok_def)
qed

definition preview_moved ::
  "preview_status \<Rightarrow> instant \<Rightarrow> string option \<Rightarrow> string option \<Rightarrow> preview_session \<Rightarrow> preview_session" where
  "preview_moved st now url code s = s\<lparr>pv_status := st, pv_revision := pv_revision s + 1,
     pv_updated_at := now, pv_url := url, pv_health := preview_health st, pv_error_code := code\<rparr>"

lemma preview_moved_dynamic:
  assumes "preview_dynamic bad_netloc s" and "pv_created_at s \<le> now"
    and "url_ok bad_netloc (pv_execution_target s) url"
    and "st \<in> {Preview_Ready, Preview_Stopping} \<Longrightarrow> url \<noteq> None"
    and "st \<notin> {Preview_Ready, Preview_Stopping, Preview_Interrupted} \<Longrightarrow> url = None"
    and "code_ok (st \<in> {Preview_Failed, Preview_Interrupted}) code"
  shows "preview_dynamic bad_netloc (preview_moved st now url code s)"
  using assms by (simp add: preview_dynamic_def preview_moved_def)

lemma exec_preview_moved:
  assumes "exec_preview bad_netloc op now s = Inr s'"
  shows "case op of
      Start_Preview \<Rightarrow> s' = preview_moved Preview_Starting now None None s
    | Ready_Preview url \<Rightarrow> (\<exists>u. validate_preview_url bad_netloc (pv_execution_target s) url = Inr u
        \<and> s' = preview_moved Preview_Ready now (Some u) None s)
    | Stop_Preview \<Rightarrow> pv_url s \<noteq> None \<and> s' = preview_moved Preview_Stopping now (pv_url s) None s
    | Stopped_Preview \<Rightarrow> s' = preview_moved Preview_Stopped now None None s
    | Fail_Preview e \<Rightarrow> strip e \<noteq> [] \<and> s' = preview_moved Preview_Failed now None (Some (strip e)) s
    | Interrupt_Preview e \<Rightarrow> strip e \<noteq> []
        \<and> s' = preview_moved Preview_Interrupted now (pv_url s) (Some (strip e)) s
    | Promote_Preview \<Rightarrow> s' = s \<or> s' = s\<lparr>pv_visibility := Preview_Project_Active,
        pv_revision := pv_revision s + 1, pv_updated_at := now\<rparr>"
  using assms by (cases op)
    (auto simp: preview_op_defs rbind_eq_Inr preview_transition_Inr required_text_Inr ensure_eq_Inr
      preview_moved_def split: if_splits)

lemma preview_static_exec:
  assumes "exec_preview bad_netloc op now s = Inr s'" and "preview_static resolve s"
  shows "preview_static resolve s'"
  using exec_preview_moved[OF assms(1)] assms(2)
  by (cases op) (auto simp: preview_static_def preview_moved_def)

lemma preview_dynamic_exec:
  assumes "exec_preview bad_netloc op now s = Inr s'" and "pv_created_at s \<le> now" and dyn: "preview_dynamic bad_netloc s"
  shows "preview_dynamic bad_netloc s'"
proof -
  have url: "url_ok bad_netloc (pv_execution_target s) (pv_url s)"
    using dyn by (simp add: preview_dynamic_def)
  have ready: "url_ok bad_netloc (pv_execution_target s) (Some u)"
    if "validate_preview_url bad_netloc (pv_execution_target s) w = Inr u" for u w
    using validate_preview_url_again[OF that] by (simp add: url_ok_def)
  have promoted: "preview_dynamic bad_netloc (s\<lparr>pv_visibility := Preview_Project_Active,
      pv_revision := pv_revision s + 1, pv_updated_at := now\<rparr>)"
    using dyn assms(2) by (simp add: preview_dynamic_def)
  show ?thesis
    using exec_preview_moved[OF assms(1)] url ready promoted dyn
    by (cases op) (auto intro!: preview_moved_dynamic[OF dyn assms(2)] simp: code_ok_def url_ok_def)
qed

definition preview_ok :: "(path \<Rightarrow> path) \<Rightarrow> (string \<Rightarrow> bool) \<Rightarrow> preview_session \<Rightarrow> bool" where
  "preview_ok resolve bad_netloc s \<longleftrightarrow> preview_static resolve s \<and> preview_dynamic bad_netloc s"

lemma preview_created_ok:
  assumes "resolves resolve" and "preview_created resolve bad_netloc s"
  shows "preview_ok resolve bad_netloc s"
  using assms unfolding preview_created_def create_preview_def preview_post_init_Inr
  by (auto simp: preview_ok_def preview_static_def resolves_def text_ok_def preview_dynamic_def)

lemma preview_step_ok: "preview_ok resolve bad_netloc s \<Longrightarrow> preview_step bad_netloc s s' \<Longrightarrow> preview_ok resolve bad_netloc s'"
  unfolding preview_ok_def preview_step_def using preview_static_exec preview_dynamic_exec by blast

interpretation previews: invariant_system
  "\<lambda>s. resolves resolve \<and> preview_created resolve bad_netloc s" "preview_step bad_netloc"
  "preview_ok resolve bad_netloc" for resolve bad_netloc
  by unfold_locales (blast intro: preview_created_ok preview_step_ok)+

end
