(* ===== verification/Changesets.thy ===== *)
theory Changesets
  imports Session_Machine
begin

text \<open>
  The other entities of \<open>domain/execution.py\<close>: changesets and their approvals, artifacts, the
  immutable workspace, checkpoints and memory entries. A changeset is a status machine whose
  step into \<open>applying\<close> needs an approval.
\<close>

section \<open>Changesets\<close>

datatype changeset_status =
    Changeset_Proposed | Changeset_Awaiting_Approval | Changeset_Applying | Changeset_Applied
  | Changeset_Rejected | Changeset_Failed | Changeset_Rolled_Back

datatype approval_decision = Decision_Pending | Decision_Approved | Decision_Rejected

fun changeset_transitions :: "changeset_status \<Rightarrow> changeset_status set" where
  "changeset_transitions Changeset_Proposed = {Changeset_Awaiting_Approval}"
| "changeset_transitions Changeset_Awaiting_Approval = {Changeset_Applying, Changeset_Rejected}"
| "changeset_transitions Changeset_Applying = {Changeset_Applied, Changeset_Failed}"
| "changeset_transitions Changeset_Applied = {Changeset_Rolled_Back}"
| "changeset_transitions Changeset_Rejected = {}"
| "changeset_transitions Changeset_Failed = {Changeset_Rolled_Back}"
| "changeset_transitions Changeset_Rolled_Back = {}"

record changeset =
  cs_id :: uuid
  cs_project :: "uuid option"
  cs_workspace :: uuid
  cs_conversation :: uuid
  cs_task :: uuid
  cs_version :: uuid
  cs_files :: "string list"
  cs_patches :: "string list"
  cs_reason :: string
  cs_risk_level :: string
  cs_idempotency_key :: string
  cs_status :: changeset_status
  cs_approval_decision :: approval_decision
  cs_created_at :: instant
  cs_updated_at :: instant

definition create_changeset ::
  "uuid \<Rightarrow> uuid option \<Rightarrow> uuid \<Rightarrow> uuid \<Rightarrow> uuid \<Rightarrow> uuid \<Rightarrow> string list \<Rightarrow> string list \<Rightarrow> string \<Rightarrow> string \<Rightarrow>
   string \<Rightarrow> clock \<Rightarrow> domain_error + changeset" where
  "create_changeset fresh project_id workspace_id conversation for_task version files patches reason risk key clk = ensure
     [(files = [] \<or> length files \<noteq> length patches, ValueError ''changeset requires one patch per file''),
      (strip key = [], ValueError ''changeset idempotency_key is required'')]
     \<lparr>cs_id = fresh, cs_project = project_id, cs_workspace = workspace_id, cs_conversation = conversation,
      cs_task = for_task, cs_version = version, cs_files = files, cs_patches = patches, cs_reason = strip reason,
      cs_risk_level = risk, cs_idempotency_key = strip key, cs_status = Changeset_Proposed,
      cs_approval_decision = Decision_Pending, cs_created_at = clk 0, cs_updated_at = clk 1\<rparr>"

definition record_approval :: "approval_decision \<Rightarrow> instant \<Rightarrow> changeset \<Rightarrow> domain_error + changeset" where
  "record_approval decision now c = ensure
     [(cs_status c \<noteq> Changeset_Awaiting_Approval, InvalidTransitionError ''changeset approval is not currently pending''),
      (decision = Decision_Pending, ValueError ''approval decision must be terminal'')]
     (c\<lparr>cs_approval_decision := decision, cs_updated_at := now\<rparr>)"

definition changeset_transition_to :: "changeset_status \<Rightarrow> instant \<Rightarrow> changeset \<Rightarrow> domain_error + changeset" where
  "changeset_transition_to status now c = ensure
     [(status \<notin> changeset_transitions (cs_status c), InvalidTransitionError ''cannot transition Changeset''),
      (status = Changeset_Applying \<and> cs_approval_decision c \<noteq> Decision_Approved,
       InvalidTransitionError ''approved Changeset required before applying'')]
     (c\<lparr>cs_status := status, cs_updated_at := now\<rparr>)"

datatype changeset_op = Record_Approval approval_decision | Transition_Changeset changeset_status

fun exec_changeset :: "changeset_op \<Rightarrow> instant \<Rightarrow> changeset \<Rightarrow> domain_error + changeset" where
  "exec_changeset (Record_Approval decision) = record_approval decision"
| "exec_changeset (Transition_Changeset status) = changeset_transition_to status"

definition changeset_step :: "changeset \<Rightarrow> changeset \<Rightarrow> bool" where
  "changeset_step c c' \<longleftrightarrow> (\<exists>op now. exec_changeset op now c = Inr c')"

definition changeset_created :: "changeset \<Rightarrow> bool" where
  "changeset_created c \<longleftrightarrow> (\<exists>fresh project_id workspace_id conversation for_task version files patches reason risk key clk.
     create_changeset fresh project_id workspace_id conversation for_task version files patches reason risk key clk = Inr c)"

lemma changeset_step_cases:
  assumes "changeset_step c c'"
  obtains decision now where "cs_status c = Changeset_Awaiting_Approval" and "decision \<noteq> Decision_Pending"
      and "c' = c\<lparr>cs_approval_decision := decision, cs_updated_at := now\<rparr>"
    | status now where "status \<in> changeset_transitions (cs_status c)"
      and "status = Changeset_Applying \<Longrightarrow> cs_approval_decision c = Decision_Approved"
      and "c' = c\<lparr>cs_status := status, cs_updated_at := now\<rparr>"
proof -
  obtain op now where "exec_changeset op now c = Inr c'"
    using assms by (auto simp: changeset_step_def)
  then show thesis
  proof (cases op)
    case (Record_Approval decision)
    with \<open>exec_changeset op now c = Inr c'\<close> show ?thesis
      by (intro that(1)[of decision now]) (simp_all add: record_approval_def ensure_eq_Inr)
  next
    case (Transition_Changeset status)
    with \<open>exec_changeset op now c = Inr c'\<close> show ?thesis
      by (intro that(2)[of status now]) (simp_all add: changeset_transition_to_def ensure_eq_Inr)
  qed
qed

interpretation changeset_machine: status_machine cs_status changeset_transitions changeset_step
  by unfold_locales (erule changeset_step_cases; simp)

text \<open>Once a changeset is being applied its decision is \<open>approved\<close>; its files have their patches.\<close>

definition changeset_ok :: "changeset \<Rightarrow> bool" where
  "changeset_ok c \<longleftrightarrow> cs_files c \<noteq> [] \<and> length (cs_files c) = length (cs_patches c) \<and> text_ok (cs_idempotency_key c)
     \<and> (cs_status c \<in> {Changeset_Applying, Changeset_Applied, Changeset_Failed, Changeset_Rolled_Back}
          \<longrightarrow> cs_approval_decision c = Decision_Approved)
     \<and> (cs_status c = Changeset_Proposed \<longrightarrow> cs_approval_decision c = Decision_Pending)"

interpretation changesets: invariant_system changeset_created changeset_step changeset_ok
proof
  fix c
  assume "changeset_created c"
  then show "changeset_ok c"
    by (auto simp: changeset_created_def create_changeset_def changeset_ok_def ensure_eq_Inr text_ok_def)
next
  fix c c'
  assume ok: "changeset_ok c" and "changeset_step c c'"
  from this(2) show "changeset_ok c'"
  proof (cases rule: changeset_step_cases)
    case (1 decision now)
    then show ?thesis using ok by (simp add: changeset_ok_def)
  next
    case (2 status now)
    then show ?thesis using ok by (cases "cs_status c") (auto simp: changeset_ok_def)
  qed
qed

section \<open>Approvals\<close>

record approval =
  ap_id :: uuid
  ap_task :: uuid
  ap_command_run :: uuid
  ap_requested_by :: string
  ap_reason :: string
  ap_changeset :: "uuid option"
  ap_tool_invocation :: "uuid option"
  ap_decision :: approval_decision
  ap_decided_by :: "string option"
  ap_created_at :: instant
  ap_decided_at :: "instant option"

definition create_approval ::
  "uuid \<Rightarrow> uuid \<Rightarrow> uuid \<Rightarrow> string \<Rightarrow> string \<Rightarrow> uuid option \<Rightarrow> uuid option \<Rightarrow> instant \<Rightarrow> domain_error + approval" where
  "create_approval fresh for_task command_run requested_by reason changeset_id tool_invocation now = ensure
     [(changeset_id \<noteq> None \<and> tool_invocation \<noteq> None,
       ValueError ''approval cannot link both a Changeset and Tool Invocation'')]
     \<lparr>ap_id = fresh, ap_task = for_task, ap_command_run = command_run, ap_requested_by = requested_by,
      ap_reason = reason, ap_changeset = changeset_id, ap_tool_invocation = tool_invocation,
      ap_decision = Decision_Pending, ap_decided_by = None, ap_created_at = now, ap_decided_at = None\<rparr>"

definition decide_approval :: "approval_decision \<Rightarrow> string \<Rightarrow> instant \<Rightarrow> approval \<Rightarrow> domain_error + approval" where
  "decide_approval decision decided_by now a = ensure
     [(ap_decision a \<noteq> Decision_Pending, InvalidTransitionError ''approval has already been decided''),
      (decision = Decision_Pending, ValueError ''approval decision must be terminal'')]
     (a\<lparr>ap_decision := decision, ap_decided_by := Some decided_by, ap_decided_at := Some now\<rparr>)"

text \<open>An approval is decided once: after a decision every other one is refused.\<close>

lemma decide_approval_once:
  assumes "decide_approval decision by_one now a = Inr a'"
  shows "decide_approval decision' by_other now' a' = Inl (InvalidTransitionError ''approval has already been decided'')"
    and "ap_decision a' = decision"
proof -
  have a': "a' = a\<lparr>ap_decision := decision, ap_decided_by := Some by_one, ap_decided_at := Some now\<rparr>"
    and d: "decision \<noteq> Decision_Pending"
    using assms by (auto simp: decide_approval_def ensure_eq_Inr)
  show "ap_decision a' = decision"
    by (simp add: a')
  show "decide_approval decision' by_other now' a' = Inl (InvalidTransitionError ''approval has already been decided'')"
    using d by (simp add: a' decide_approval_def ensure.simps)
qed

section \<open>Artifacts\<close>

datatype artifact_visibility = Artifact_Conversation | Artifact_Project | Artifact_Private

datatype artifact_type =
    Document | Prompt | Patch | Component | Full_Project | Preview_Manifest | Preview_Snapshot
  | Report | Log | Screenshot | Generated_Image | Generated_Audio | Generated_Video

record artifact =
  art_id :: uuid
  art_project :: "uuid option"
  art_conversation :: uuid
  art_task :: uuid
  art_version :: "uuid option"
  art_type :: artifact_type
  art_visibility :: artifact_visibility
  art_storage_location :: string
  art_media_type :: string
  art_byte_length :: int
  art_content_hash :: string
  art_metadata :: "(string \<times> json) list"
  art_created_at :: instant

text \<open>
  \<open>json.loads(json.dumps(..., allow_nan=False, sort_keys=True))\<close> on the metadata. Freezing the
  result changes its containers, not its content.
\<close>

definition normalize_metadata :: "(string \<times> json) list \<Rightarrow> domain_error + (string \<times> json) list" where
  "normalize_metadata kvs = ensure
     [(\<not> json_finite (JObject kvs), ValueError ''metadata must be JSON-compatible'')]
     (sort_key fst (map (\<lambda>(k, v). (k, json_sorted v)) kvs))"

definition artifact_post_init :: "artifact \<Rightarrow> domain_error + artifact" where
  "artifact_post_init a =
     rbind (required_text ''storage_location'' (art_storage_location a)) (\<lambda>location.
     rbind (required_text ''media_type'' (art_media_type a)) (\<lambda>media_type.
     rbind (ensure
       [(CHR ''/'' \<notin> set media_type, ValueError ''media_type must be a valid type/subtype''),
        (art_byte_length a < 0, ValueError ''byte_length cannot be negative''),
        (\<not> sha256_hex (art_content_hash a), ValueError ''content_hash must be a lowercase SHA-256 hex digest'')] ()) (\<lambda>_.
     rbind (normalize_metadata (art_metadata a)) (\<lambda>metadata.
     Inr (a\<lparr>art_storage_location := location, art_media_type := media_type, art_metadata := metadata\<rparr>)))))"

definition create_artifact ::
  "uuid \<Rightarrow> uuid option \<Rightarrow> uuid \<Rightarrow> uuid \<Rightarrow> uuid option \<Rightarrow> artifact_type \<Rightarrow> artifact_visibility \<Rightarrow> string \<Rightarrow>
   string \<Rightarrow> int \<Rightarrow> string \<Rightarrow> (string \<times> json) list \<Rightarrow> instant \<Rightarrow> domain_error + artifact" where
  "create_artifact fresh project_id conversation for_task version kind visibility location media_type
     byte_length content_hash metadata now = artifact_post_init
     \<lparr>art_id = fresh, art_project = project_id, art_conversation = conversation, art_task = for_task,
      art_version = version, art_type = kind, art_visibility = visibility, art_storage_location = location,
      art_media_type = media_type, art_byte_length = byte_length, art_content_hash = content_hash,
      art_metadata = metadata, art_created_at = now\<rparr>"

text \<open>Normalising what is normal changes nothing, so an artifact that is stored restores as it is.\<close>

lemma normalize_metadata_again:
  assumes "normalize_metadata kvs = Inr kvs'"
  shows "normalize_metadata kvs' = Inr kvs'"
proof -
  have "JObject kvs' = json_sorted (JObject kvs)" and "json_finite (JObject kvs)"
    using assms by (simp_all add: normalize_metadata_def ensure_eq_Inr)
  then have "json_finite (JObject kvs')" and "json_sorted (JObject kvs') = JObject kvs'"
    by (simp_all only: json_finite_sorted json_sorted_again)
  then show ?thesis
    by (simp add: normalize_metadata_def ensure_eq_Inr)
qed

lemma artifact_post_init_again:
  assumes "artifact_post_init a = Inr a'"
  shows "artifact_post_init a' = Inr a'"
proof -
  obtain metadata where n: "normalize_metadata (art_metadata a) = Inr metadata"
    and a': "a' = a\<lparr>art_storage_location := strip (art_storage_location a),
      art_media_type := strip (art_media_type a), art_metadata := metadata\<rparr>"
    and ok: "text_ok (strip (art_storage_location a))" "text_ok (strip (art_media_type a))"
      "CHR ''/'' \<in> set (strip (art_media_type a))" "0 \<le> art_byte_length a" "sha256_hex (art_content_hash a)"
    using assms by (auto simp: artifact_post_init_def rbind_eq_Inr required_text_ok ensure_eq_Inr)
  show ?thesis
    using ok normalize_metadata_again[OF n]
    by (auto simp: artifact_post_init_def a' rbind_eq_Inr required_text_ok ensure_eq_Inr)
qed

section \<open>Values\<close>

text \<open>\<open>Workspace\<close>, \<open>Checkpoint\<close> and \<open>MemoryEntry\<close>: frozen, with no method but \<open>create\<close>.\<close>

record execution_workspace =
  ew_id :: uuid
  ew_project :: uuid
  ew_conversation :: uuid
  ew_task :: uuid
  ew_version :: uuid
  ew_project_root :: path
  ew_editable_files :: "path list"
  ew_reference_files :: "path list"
  ew_constraints :: "string list"
  ew_allowed_paths :: "path list"
  ew_created_at :: instant

definition create_execution_workspace ::
  "(path \<Rightarrow> path) \<Rightarrow> uuid \<Rightarrow> uuid \<Rightarrow> uuid \<Rightarrow> uuid \<Rightarrow> uuid \<Rightarrow> path \<Rightarrow> path list \<Rightarrow> path list \<Rightarrow> string list \<Rightarrow>
   path list \<Rightarrow> instant \<Rightarrow> execution_workspace" where
  "create_execution_workspace resolve fresh project_id conversation for_task version root editable reference
     constraints allowed now =
     \<lparr>ew_id = fresh, ew_project = project_id, ew_conversation = conversation, ew_task = for_task,
      ew_version = version, ew_project_root = resolve root, ew_editable_files = editable,
      ew_reference_files = reference, ew_constraints = constraints,
      ew_allowed_paths = map resolve allowed, ew_created_at = now\<rparr>"

record checkpoint =
  cp_id :: uuid
  cp_task :: uuid
  cp_version :: uuid
  cp_changed_files :: "string list"
  cp_command_runs :: "uuid list"
  cp_preview_artifact :: "uuid option"
  cp_evidence_artifacts :: "uuid list"
  cp_created_at :: instant

definition create_checkpoint ::
  "uuid \<Rightarrow> uuid \<Rightarrow> uuid \<Rightarrow> string list \<Rightarrow> uuid list \<Rightarrow> uuid option \<Rightarrow> uuid list \<Rightarrow> instant \<Rightarrow> checkpoint" where
  "create_checkpoint fresh for_task version changed command_runs preview evidence now =
     \<lparr>cp_id = fresh, cp_task = for_task, cp_version = version, cp_changed_files = changed,
      cp_command_runs = command_runs, cp_preview_artifact = preview, cp_evidence_artifacts = evidence,
      cp_created_at = now\<rparr>"

datatype memory_scope = Project_Canonical | Conversation_Draft | Failure_Lesson | Personal

record memory_entry =
  me_id :: uuid
  me_project :: "uuid option"
  me_conversation :: "uuid option"
  me_version :: "uuid option"
  me_scope :: memory_scope
  me_content :: string
  me_created_at :: instant

definition create_memory_entry ::
  "uuid \<Rightarrow> uuid option \<Rightarrow> uuid option \<Rightarrow> uuid option \<Rightarrow> memory_scope \<Rightarrow> string \<Rightarrow> instant \<Rightarrow>
   domain_error + memory_entry" where
  "create_memory_entry fresh project_id conversation version scope content now = ensure
     [(strip content = [], ValueError ''memory content is required'')]
     \<lparr>me_id = fresh, me_project = project_id, me_conversation = conversation, me_version = version,
      me_scope = scope, me_content = strip content, me_created_at = now\<rparr>"

end
