(* ===== verification/Domain_Examples.thy ===== *)
theory Domain_Examples
  imports Preview_Machine Changesets
begin

text \<open>
  Concrete entities and the operations that bring them where the properties apply, each evaluated:
  a project that was purged, a task that was accepted, a changeset that was applied, and a
  running session with its preview.
\<close>

fun run_ops :: "('op \<Rightarrow> 'c \<Rightarrow> 'e \<Rightarrow> 'x + 'e) \<Rightarrow> ('op \<times> 'c) list \<Rightarrow> 'e \<Rightarrow> 'e option" where
  "run_ops exec [] e = Some e"
| "run_ops exec ((op, c) # ops) e = (case exec op c e of Inl _ \<Rightarrow> None | Inr e' \<Rightarrow> run_ops exec ops e')"

lemma run_ops_path:
  assumes "run_ops exec ops e = Some e'" and "\<And>op c e e'. exec op c e = Inr e' \<Longrightarrow> step e e'"
  shows "step\<^sup>*\<^sup>* e e'"
  using assms(1)
proof (induction ops arbitrary: e)
  case (Cons x ops)
  then obtain op c e1 where "exec op c e = Inr e1" "run_ops exec ops e1 = Some e'"
    by (cases x) (auto split: sum.splits)
  then have "step e e1" "step\<^sup>*\<^sup>* e1 e'"
    using assms(2) Cons.IH by blast+
  then show ?case
    by (rule converse_rtranclp_into_rtranclp)
qed simp

definition value_of :: "'x + 'e \<Rightarrow> 'e" where
  "value_of r = (case r of Inr x \<Rightarrow> x | Inl _ \<Rightarrow> undefined)"

lemma value_of_Inr [simp]: "value_of (Inr x) = x"
  by (simp add: value_of_def)

lemma value_ofI: "\<not> isl r \<Longrightarrow> r = Inr (value_of r)"
  by (cases r) simp_all

lemma the_run: "run_ops exec ops e \<noteq> None \<Longrightarrow> run_ops exec ops e = Some (the (run_ops exec ops e))"
  by simp

definition ex_clock :: clock where
  "ex_clock = (\<lambda>i. 1000)"

section \<open>Entities\<close>

definition ex_project :: project where
  "ex_project = value_of (create_project 1 '' Site '' Local_Only ex_clock)"

definition ex_purge :: "(project_op \<times> clock) list" where
  "ex_purge = [(Update_Project None (Some True) 0, ex_clock), (Delete_Project 1, ex_clock), (Purge_Project 2, ex_clock)]"

definition ex_purged :: project where
  "ex_purged = the (run_ops exec_project ex_purge ex_project)"

definition ex_conversation :: conversation where
  "ex_conversation = value_of (create_conversation 2 (Some 1) Project_Chat None None ''Chat'' ex_clock)"

definition ex_chat_purge :: "(conversation_op \<times> clock) list" where
  "ex_chat_purge = [(Delete_Conversation True 0, ex_clock), (Purge_Conversation 1, ex_clock)]"

definition ex_chat_purged :: conversation where
  "ex_chat_purged = the (run_ops exec_conversation ex_chat_purge ex_conversation)"

definition ex_task :: core_task where
  "ex_task = value_of (create_task 3 (Some 1) 2 ''build it'' Create_New_Version None ''local'' None ex_clock)"

definition ex_work :: "(task_op \<times> clock) list" where
  "ex_work = (Bind_Target 8, ex_clock) # map (\<lambda>s. (Transition_Task s, ex_clock))
     [Task_Resolving_Scope, Task_Building_Workspace, Task_Planning, Task_Executing, Task_Reviewing, Task_Ready, Task_Accepted]"

definition ex_accepted :: core_task where
  "ex_accepted = the (run_ops exec_task ex_work ex_task)"

definition ex_changeset :: changeset where
  "ex_changeset = value_of (create_changeset 4 (Some 1) 1 2 3 8 [''a.txt''] [''+a''] ''why'' ''low'' ''key'' ex_clock)"

definition ex_apply :: "(changeset_op \<times> instant) list" where
  "ex_apply = [(Transition_Changeset Changeset_Awaiting_Approval, 1), (Record_Approval Decision_Approved, 2),
     (Transition_Changeset Changeset_Applying, 3), (Transition_Changeset Changeset_Applied, 4)]"

definition ex_applied :: changeset where
  "ex_applied = the (run_ops exec_changeset ex_apply ex_changeset)"

section \<open>Sessions\<close>

definition ex_given :: scope_contract where
  "ex_given = \<lparr>scope_workspace_type = Project_Chat, scope_project = Some 1, scope_conversation = 2, scope_task = 3,
     scope_operation_mode = Create_New_Version, scope_base_version = None, scope_target_version = Some 8,
     scope_project_root = ''/p'', scope_allowed_write_paths = [''/p/a''], scope_forbidden_write_paths = [],
     scope_execution_target = ''local'', scope_network_policy = ''none'', scope_memory_read = [],
     scope_memory_write = [], scope_memory_id = None, scope_memory_hash = None, scope_knowledge_id = None,
     scope_knowledge_hash = None, scope_workspace = 0, scope_digest = []\<rparr>"

definition ex_scope :: scope_contract where
  "ex_scope = value_of (create_scope id id None ex_given)"

definition ex_runtime :: runtime_session where
  "ex_runtime = value_of (create_runtime id 5 ex_scope Static_Site ''static'' ''k'' None 100)"

text \<open>Operations at times after the creation.\<close>

definition runtime_at :: "runtime_op \<Rightarrow> instant \<Rightarrow> runtime_session \<Rightarrow> domain_error + runtime_session" where
  "runtime_at op now s = (if rt_created_at s \<le> now then exec_runtime op now s else Inl KeyError)"

definition preview_at :: "preview_op \<Rightarrow> instant \<Rightarrow> preview_session \<Rightarrow> domain_error + preview_session" where
  "preview_at op now s = (if pv_created_at s \<le> now then exec_preview (\<lambda>_. False) op now s else Inl KeyError)"

definition ex_runtime_ops :: "(runtime_op \<times> instant) list" where
  "ex_runtime_ops = [(Start_Runtime, 101), (Run_Runtime ''h'' 8080, 102)]"

definition ex_running :: runtime_session where
  "ex_running = the (run_ops runtime_at ex_runtime_ops ex_runtime)"

definition ex_preview :: preview_session where
  "ex_preview = value_of (create_preview id (\<lambda>_. False) 6 ex_scope 5 Preview_Chat_Draft ''k'' 100)"

definition ex_preview_ops :: "(preview_op \<times> instant) list" where
  "ex_preview_ops = [(Start_Preview, 101), (Ready_Preview ''http://127.0.0.1:8080/'', 102)]"

definition ex_ready_preview :: preview_session where
  "ex_ready_preview = the (run_ops preview_at ex_preview_ops ex_preview)"

section \<open>They are where they should be\<close>

lemma ex_project_created: "project_created ex_project"
  unfolding project_created_def ex_project_def by (intro exI, rule value_ofI) code_simp

lemma ex_purged_path: "project_step\<^sup>*\<^sup>* ex_project ex_purged"
  unfolding ex_purged_def by (rule run_ops_path[OF the_run]) (code_simp, auto simp: project_step_def)

lemma ex_conversation_created: "conversation_created ex_conversation"
  unfolding conversation_created_def ex_conversation_def by (intro exI, rule value_ofI) code_simp

lemma ex_chat_purged_path: "conversation_step\<^sup>*\<^sup>* ex_conversation ex_chat_purged"
  unfolding ex_chat_purged_def by (rule run_ops_path[OF the_run]) (code_simp, auto simp: conversation_step_def)

lemma ex_task_created: "task_created ex_task"
  unfolding task_created_def ex_task_def by (intro exI, rule value_ofI) code_simp

lemma ex_accepted_path: "task_step\<^sup>*\<^sup>* ex_task ex_accepted"
  unfolding ex_accepted_def by (rule run_ops_path[OF the_run]) (code_simp, auto simp: task_step_def)

lemma ex_changeset_created: "changeset_created ex_changeset"
  unfolding changeset_created_def ex_changeset_def by (intro exI, rule value_ofI) code_simp

lemma ex_applied_path: "changeset_step\<^sup>*\<^sup>* ex_changeset ex_applied"
  unfolding ex_applied_def by (rule run_ops_path[OF the_run]) (code_simp, auto simp: changeset_step_def)

lemma resolves_id: "resolves id"
  by (simp add: resolves_def)

lemma ex_runtime_created: "runtime_created id ex_runtime"
  unfolding runtime_created_def ex_runtime_def by (intro exI, rule value_ofI) code_simp

lemma ex_preview_created: "preview_created id (\<lambda>_. False) ex_preview"
  unfolding preview_created_def ex_preview_def by (intro exI, rule value_ofI) code_simp

lemma ex_running_path: "runtime_step\<^sup>*\<^sup>* ex_runtime ex_running"
  unfolding ex_running_def
  by (rule run_ops_path[OF the_run]) (code_simp, auto simp: runtime_step_def runtime_at_def split: if_splits)

lemma ex_ready_preview_path: "(preview_step (\<lambda>_. False))\<^sup>*\<^sup>* ex_preview ex_ready_preview"
  unfolding ex_ready_preview_def
  by (rule run_ops_path[OF the_run]) (code_simp, auto simp: preview_step_def preview_at_def split: if_splits)

lemma ex_scope_created: "create_scope id id None ex_given = Inr ex_scope"
  unfolding ex_scope_def by (rule value_ofI) code_simp

lemma given_scope_ids: "create_scope id id None ex_given = Inr c \<Longrightarrow> scope_ids_ok c"
  by (auto simp: create_scope_def Let_def ensure_eq_Inr scope_ids_ok_def scope_uuids_def ex_given_def
      or_else_def)

lemma ex_scope_ids: "scope_ids_ok ex_scope"
  by (rule given_scope_ids[OF ex_scope_created])

end
