(* ===== verification/Domain_Properties.thy ===== *)
theory Domain_Properties
  imports Domain_Ids Domain_Examples
begin

text \<open>
  The properties of the domain model: identifiers, optimistic concurrency, the lives of its
  entities, and the scope contract.
\<close>

section \<open>Identifiers\<close>

text \<open>
  C29. Ids never repeat and never go back: the ids of any sequence of calls are strictly
  increasing, whatever the clock does between them and whatever random bits are drawn, as long
  as the 48 bits of the timestamp suffice.
\<close>

theorem ids_increase:
  assumes "list_all draw_ok calls"
    and "\<forall>call\<in>set calls. fst call div 1000000 + int (length calls) < 2 ^ 48"
  shows "\<exists>us. new_ids calls ids_start = map Inr us \<and> sorted_wrt (<) us"
proof -
  define n where "n = 2 ^ 48 - int (length calls)"
  have "0 < n" if "calls \<noteq> []"
    using assms that by (cases calls) (auto simp: n_def draw_ok_def pos_imp_zdiv_nonneg_iff intro: le_less_trans)
  then have ok: "sorted_wrt id_before (draws calls ids_start)"
    "\<forall>x\<in>set (draws calls ids_start). id_ok x \<and> 0 \<le> last_timestamp_ms x \<and> last_timestamp_ms x < 2 ^ 48"
    using draws_ok[OF assms(1) id_ok_start, of n] assms(2) by (cases "calls = []"; force simp: n_def ids_start_def)+
  define us where "us = map (nat \<circ> id_of) (draws calls ids_start)"
  have "new_ids calls ids_start = map Inr us"
    using ok(2) by (simp add: new_ids_draws us_def uuid_of_id)
  moreover have "sorted_wrt (<) us"
    unfolding us_def sorted_wrt_map
  proof (rule sorted_wrt_mono_rel[OF _ ok(1)])
    fix x y
    assume "x \<in> set (draws calls ids_start)" "y \<in> set (draws calls ids_start)" and "id_before x y"
    then have "id_of x < id_of y" and "0 \<le> id_of x"
      using ok(2) uuid_of_id(2)
      by (auto simp: id_of_def id_before_def id_ok_def intro!: id_value_less)
    then show "(nat \<circ> id_of) x < (nat \<circ> id_of) y"
      by simp
  qed
  ultimately show ?thesis by blast
qed

theorem ids_increase_witness:
  "\<exists>us. new_ids [(5000000, 3), (1000000, 7), (5000000, 2 ^ 74 - 1)] ids_start = map Inr us \<and> sorted_wrt (<) us"
  by (rule ids_increase) (simp_all add: draw_ok_def)

text \<open>
  What an id says of itself is true: the fields of RFC 9562 read back from the value are
  version 7, variant 2, and the timestamp and the 74 random bits that were drawn.
\<close>

theorem id_fields:
  assumes "id_ok st" and "draw_ok (time_ns, randbits)"
    and "last_timestamp_ms (draw_id time_ns randbits st) < 2 ^ 48"
  shows "\<exists>u. new_id time_ns randbits st = (draw_id time_ns randbits st, Inr u) \<and> u < 2 ^ 128
    \<and> uuid_version u = 7 \<and> uuid_variant u = 2
    \<and> uuid_timestamp u = last_timestamp_ms (draw_id time_ns randbits st)
    \<and> uuid_random u = last_random (draw_id time_ns randbits st)"
proof -
  define st' where "st' = draw_id time_ns randbits st"
  have st': "id_ok st'" "0 \<le> last_timestamp_ms st'"
    using draw_id_ok(1,4)[OF assms(1,2)] by (simp_all add: st'_def)
  have u: "uuid_of_int (id_of st') = Inr (nat (id_of st'))" "0 \<le> id_of st'" "id_of st' < 2 ^ 128"
    using uuid_of_id[OF st'(1)] by simp_all
  have "new_id time_ns randbits st = (st', Inr (nat (id_of st')))"
    using u(1) by (simp add: new_id_def id_of_def Let_def flip: st'_def)
  moreover have "nat (id_of st') < 2 ^ 128"
    using u(2,3) by (simp add: nat_less_iff)
  ultimately show ?thesis
    using id_value_fields[of "last_random st'" "last_timestamp_ms st'"] st' assms(3)
    by (auto simp: id_of_def id_ok_def simp flip: st'_def)
qed

theorem id_fields_witness:
  "\<exists>u. new_id 5000000 9 ids_start = (draw_id 5000000 9 ids_start, Inr u) \<and> u < 2 ^ 128
    \<and> uuid_version u = 7 \<and> uuid_variant u = 2
    \<and> uuid_timestamp u = last_timestamp_ms (draw_id 5000000 9 ids_start)
    \<and> uuid_random u = last_random (draw_id 5000000 9 ids_start)"
  by (rule id_fields) (simp_all add: draw_ok_def draw_id_def ids_start_def id_ok_def)

section \<open>Entities\<close>

text \<open>
  C31. No update is lost: of two writers that carry the same metadata revision of a project, a
  conversation or a task, the second gets \<open>VersionConflictError\<close>, whatever other operations
  happened in between.
\<close>

theorem stale_writers_conflict:
  "(exec_project op clk p = Inr p1 \<and> project_metadata_expected op = Some r \<and> project_step\<^sup>*\<^sup>* p1 p2
      \<and> project_metadata_expected op' = Some r \<longrightarrow> exec_project op' clk' p2 = Inl VersionConflictError)
   \<and> (exec_conversation cop clk c = Inr c1 \<and> conversation_expected cop = Some r \<and> conversation_step\<^sup>*\<^sup>* c1 c2
      \<and> conversation_expected cop' = Some r \<longrightarrow> exec_conversation cop' clk' c2 = Inl VersionConflictError)
   \<and> (exec_task upd clk t = Inr t1 \<and> task_expected upd = Some r \<and> task_step\<^sup>*\<^sup>* t1 t2
      \<and> task_expected upd' = Some r \<longrightarrow> exec_task upd' clk' t2 = Inl VersionConflictError)"
  by (intro conjI impI; elim conjE)
    (rule project_metadata.stale_writer[unfolded project_step_eq]
      conversation_metadata.stale_writer[unfolded conversation_step_eq]
      task_metadata.stale_writer[unfolded task_step_eq]; assumption)+

theorem stale_writers_conflict_witness:
  "exec_project (Delete_Project 0) ex_clock (value_of (exec_project (Archive_Project 0) ex_clock ex_project))
     = Inl VersionConflictError
   \<and> exec_conversation (Delete_Conversation False 0) ex_clock
       (value_of (exec_conversation (Update_Conversation (Some ''T'') None 0) ex_clock ex_conversation)) = Inl VersionConflictError
   \<and> exec_task (Archive_Task 0) ex_clock (value_of (exec_task (Update_Task (Some ''T'') None 0) ex_clock ex_task))
       = Inl VersionConflictError"
proof -
  have "exec_project (Archive_Project 0) ex_clock ex_project = Inr (value_of (exec_project (Archive_Project 0) ex_clock ex_project))"
    by (rule value_ofI) code_simp
  moreover have "exec_conversation (Update_Conversation (Some ''T'') None 0) ex_clock ex_conversation
      = Inr (value_of (exec_conversation (Update_Conversation (Some ''T'') None 0) ex_clock ex_conversation))"
    by (rule value_ofI) code_simp
  moreover have "exec_task (Update_Task (Some ''T'') None 0) ex_clock ex_task
      = Inr (value_of (exec_task (Update_Task (Some ''T'') None 0) ex_clock ex_task))"
    by (rule value_ofI) code_simp
  ultimately show ?thesis
    using stale_writers_conflict[of "Archive_Project 0" ex_clock ex_project _ 0 _ "Delete_Project 0" ex_clock
        "Update_Conversation (Some ''T'') None 0" ex_conversation _ _ "Delete_Conversation False 0"
        "Update_Task (Some ''T'') None 0" ex_task _ _ "Archive_Task 0"]
    by (metis conversation_expected.simps(1,2) project_metadata_expected.simps(2,4) rtranclp.rtrancl_refl task_expected.simps(1,2))
qed

text \<open>
  C32. The entities a caller can make are well formed, whatever operations follow: names and
  titles within their lengths, conversations tied to a project exactly when their kind says so,
  nothing deleted that is pinned, nothing purged that was not deleted, and a task that passes its
  own constructor's checks unchanged.
\<close>

theorem entities_are_well_formed:
  assumes "project_created p" and "project_step\<^sup>*\<^sup>* p p'"
    and "conversation_created c" and "conversation_step\<^sup>*\<^sup>* c c'"
    and "task_created t" and "task_step\<^sup>*\<^sup>* t t'"
  shows "project_ok p' \<and> conversation_ok c' \<and> task_ok t'"
  using assms projects.reachable_inv conversations.reachable_inv tasks.reachable_inv by blast

theorem entities_are_well_formed_witness:
  "project_ok ex_purged \<and> conversation_ok ex_chat_purged \<and> task_ok ex_accepted"
  by (rule entities_are_well_formed)
    (rule ex_project_created ex_purged_path ex_conversation_created ex_chat_purged_path ex_task_created ex_accepted_path)+

text \<open>
  Purging is final: a project or a conversation that was purged stays purged under its
  neutral name whatever is tried, and every change of its metadata is refused.
\<close>

theorem purging_is_final:
  assumes "project_created p" and "project_step\<^sup>*\<^sup>* p p1" and "project_life p1 = Purged" and "project_step\<^sup>*\<^sup>* p1 p2"
    and "conversation_created c" and "conversation_step\<^sup>*\<^sup>* c c1" and "conversation_life c1 = Purged" and "conversation_step\<^sup>*\<^sup>* c1 c2"
  shows "project_life p2 = Purged \<and> proj_name p2 = ''Deleted project''
      \<and> (project_metadata_expected op \<noteq> None \<longrightarrow> isl (exec_project op clk p2))
    \<and> conversation_life c2 = Purged \<and> conv_title c2 = ''Deleted chat'' \<and> isl (exec_conversation cop clk c2)"
proof -
  have ok: "project_ok p2" "conversation_ok c2"
    using assms projects.reachable_inv[of p p2] conversations.reachable_inv[of c c2] by (auto dest: rtranclp_trans)
  have life: "project_life p2 = Purged" "conversation_life c2 = Purged"
    using project_machine.final_status[OF assms(4)] conversation_machine.final_status[OF assms(8)] assms(3,7) by simp_all
  then have "proj_purged_at p2 \<noteq> None" "conv_purged_at c2 \<noteq> None"
    by (auto simp: project_life_def conversation_life_def life_of_def split: if_splits)
  then have "proj_name p2 = ''Deleted project''" "conv_title c2 = ''Deleted chat''"
    using ok by (simp_all add: project_ok_def conversation_ok_def)
  then show ?thesis
    using ok life purged_project_rejects purged_conversation_rejects by blast
qed

theorem purging_is_final_witness:
  "project_life ex_purged = Purged \<and> proj_name ex_purged = ''Deleted project''
    \<and> isl (exec_project (Restore_Deleted_Project 3) ex_clock ex_purged)
    \<and> conversation_life ex_chat_purged = Purged \<and> conv_title ex_chat_purged = ''Deleted chat''
    \<and> isl (exec_conversation (Restore_Deleted_Conversation 2) ex_clock ex_chat_purged)"
proof -
  have "project_life ex_purged = Purged" and "conversation_life ex_chat_purged = Purged"
    by code_simp+
  then show ?thesis
    using purging_is_final[where op = "Restore_Deleted_Project 3" and cop = "Restore_Deleted_Conversation 2"
        and clk = ex_clock, OF ex_project_created ex_purged_path _ rtranclp.rtrancl_refl
        ex_conversation_created ex_chat_purged_path _ rtranclp.rtrancl_refl]
    by simp
qed

text \<open>
  C34. A task is accepted only after a review: on the way of an accepted task there is a moment at
  which it was reviewing and a later one at which it was ready. And no task is stuck: from every
  task there is a sequence of its own operations that archives it.
\<close>

theorem tasks_are_reviewed:
  "(task_created t \<and> task_step\<^sup>*\<^sup>* t t' \<and> task_state t' = Task_Accepted \<longrightarrow>
      (\<exists>u v. task_step\<^sup>*\<^sup>* t u \<and> task_state u = Task_Reviewing \<and> task_step\<^sup>*\<^sup>* u v \<and> task_state v = Task_Ready
        \<and> task_step\<^sup>*\<^sup>* v t'))
   \<and> (\<exists>a. task_step\<^sup>*\<^sup>* t' a \<and> task_state a = Task_Archived)"
proof (intro conjI impI)
  assume t: "task_created t \<and> task_step\<^sup>*\<^sup>* t t' \<and> task_state t' = Task_Accepted"
  then have start: "task_state t = Task_Created"
    by (auto simp: task_created_def create_task_def Let_def rbind_eq_Inr ensure_eq_Inr task_post_init_Inr)
  obtain v where v: "task_step\<^sup>*\<^sup>* t v" "task_step\<^sup>*\<^sup>* v t'" "task_state v = Task_Ready"
  proof (rule task_machine.enters_through[of t t' "{Task_Accepted}" "{Task_Ready}"])
    show "s \<in> {Task_Ready}" if "s' \<in> {Task_Accepted}" "s' \<in> task_transitions s" for s s'
      using that by (cases s) auto
  qed (use t start in auto)
  obtain u where "task_step\<^sup>*\<^sup>* t u" "task_step\<^sup>*\<^sup>* u v" "task_state u = Task_Reviewing"
  proof (rule task_machine.enters_through[of t v "{Task_Ready}" "{Task_Reviewing}"])
    show "s \<in> {Task_Reviewing}" if "s' \<in> {Task_Ready}" "s' \<in> task_transitions s" for s s'
      using that by (cases s) auto
  qed (use v start in auto)
  then show "\<exists>u v. task_step\<^sup>*\<^sup>* t u \<and> task_state u = Task_Reviewing \<and> task_step\<^sup>*\<^sup>* u v \<and> task_state v = Task_Ready
      \<and> task_step\<^sup>*\<^sup>* v t'"
    using v by blast
next
  show "\<exists>a. task_step\<^sup>*\<^sup>* t' a \<and> task_state a = Task_Archived"
    by (rule task_machine.can_reach[OF archive_reachable])
qed

theorem tasks_are_reviewed_witness:
  "(\<exists>u v. task_step\<^sup>*\<^sup>* ex_task u \<and> task_state u = Task_Reviewing \<and> task_step\<^sup>*\<^sup>* u v \<and> task_state v = Task_Ready
      \<and> task_step\<^sup>*\<^sup>* v ex_accepted)
   \<and> (\<exists>a. task_step\<^sup>*\<^sup>* ex_accepted a \<and> task_state a = Task_Archived)"
proof -
  have "task_state ex_accepted = Task_Accepted"
    by code_simp
  then show ?thesis
    using tasks_are_reviewed[of ex_task ex_accepted] ex_task_created ex_accepted_path by blast
qed

text \<open>
  C35. What a task is bound to is written once: its target version, and its memory, knowledge and
  harness snapshots with their hashes, keep the first value they get under every operation, and
  binding another one is refused. A binding that succeeds writes its own place with exactly what
  it was given and leaves the three others, and no other operation writes any of the four.
\<close>

theorem bindings_are_written_once:
  assumes "task_created t" and "task_step\<^sup>*\<^sup>* t t1" and "task_step\<^sup>*\<^sup>* t1 t2"
  shows "(\<forall>k<4. fst (bound_to t1 ! k) \<noteq> None \<longrightarrow> bound_to t2 ! k = bound_to t1 ! k)
    \<and> (binding_slot op = Some (k, i, h) \<longrightarrow> fst (bound_to t1 ! k) \<noteq> None \<longrightarrow> bound_to t1 ! k \<noteq> (Some i, h)
        \<longrightarrow> isl (exec_task op clk t2))
    \<and> (exec_task op clk t2 = Inr t3 \<longrightarrow> bound_to t3 =
        (case binding_slot op of None \<Rightarrow> bound_to t2 | Some (k', i', h') \<Rightarrow> (bound_to t2)[k' := (Some i', h')]))"
proof -
  have "task_ok t1"
    using assms(1,2) tasks.reachable_inv by blast
  then have stays: "bound_to t2 ! k = bound_to t1 ! k" if "k < 4" "fst (bound_to t1 ! k) \<noteq> None" for k
    using bound_stays keeps_bindings_path[OF assms(3)] that by blast
  have "isl (exec_task op clk t2)"
    if "binding_slot op = Some (k, i, h)" "fst (bound_to t1 ! k) \<noteq> None" "bound_to t1 ! k \<noteq> (Some i, h)"
    using rebind_rejects[OF that(1)] stays[OF binding_slot_less[OF that(1)] that(2)] that(2,3) by simp
  then show ?thesis
    using stays bind_writes by blast
qed

definition ex_digest :: string where
  "ex_digest = replicate 64 CHR ''a''"

theorem bindings_are_written_once_witness:
  "bound_to (value_of (exec_task (Bind_Harness 5 ex_digest) ex_clock (value_of (exec_task (Bind_Memory 7 ex_digest) ex_clock ex_task))))
      = [(None, None), (Some 7, Some ex_digest), (None, None), (Some 5, Some ex_digest)]
   \<and> isl (exec_task (Bind_Memory 9 ex_digest) ex_clock (value_of (exec_task (Bind_Memory 7 ex_digest) ex_clock ex_task)))"
proof -
  define t1 where "t1 = value_of (exec_task (Bind_Memory 7 ex_digest) ex_clock ex_task)"
  define t3 where "t3 = value_of (exec_task (Bind_Harness 5 ex_digest) ex_clock t1)"
  have e1: "exec_task (Bind_Memory 7 ex_digest) ex_clock ex_task = Inr t1"
    unfolding t1_def by (rule value_ofI) code_simp
  have e3: "exec_task (Bind_Harness 5 ex_digest) ex_clock t1 = Inr t3"
    unfolding t3_def t1_def by (rule value_ofI) code_simp
  have b: "bound_to t1 = [(None, None), (Some 7, Some ex_digest), (None, None), (None, None)]"
    unfolding t1_def by code_simp
  have "task_step\<^sup>*\<^sup>* ex_task t1"
    using e1 unfolding task_step_def by blast
  note once = bindings_are_written_once[OF ex_task_created this rtranclp.rtrancl_refl]
  have "isl (exec_task (Bind_Memory 9 ex_digest) ex_clock t1)"
    using once[of "Bind_Memory 9 ex_digest" 1 9 "Some ex_digest" ex_clock] by (simp add: b)
  moreover have "bound_to t3 = [(None, None), (Some 7, Some ex_digest), (None, None), (Some 5, Some ex_digest)]"
    using once[of "Bind_Harness 5 ex_digest" _ _ _ ex_clock t3] e3 by (simp add: b numeral_3_eq_3)
  ultimately show ?thesis
    unfolding t3_def t1_def by blast
qed

section \<open>Changes, graphs and sessions\<close>

text \<open>
  C36. Nothing is applied without approval: a changeset that is being applied, was applied, failed
  or was rolled back has the decision \<open>approved\<close>, and had it when it left the approval wait.
\<close>

theorem applied_changes_were_approved:
  assumes "changeset_created c" and "changeset_step\<^sup>*\<^sup>* c c'"
    and "cs_status c' \<in> {Changeset_Applying, Changeset_Applied, Changeset_Failed, Changeset_Rolled_Back}"
  shows "cs_approval_decision c' = Decision_Approved
    \<and> (\<exists>u v. changeset_step\<^sup>*\<^sup>* c u \<and> changeset_step u v \<and> changeset_step\<^sup>*\<^sup>* v c'
        \<and> cs_status u = Changeset_Awaiting_Approval \<and> cs_approval_decision u = Decision_Approved
        \<and> cs_status v = Changeset_Applying)"
proof -
  define S where "S = {Changeset_Applying, Changeset_Applied, Changeset_Failed, Changeset_Rolled_Back}"
  have "changeset_ok c'"
    using assms(1,2) changesets.reachable_inv by blast
  then have decided: "cs_approval_decision c' = Decision_Approved"
    using assms(3) by (auto simp: changeset_ok_def)
  have "cs_status c = Changeset_Proposed"
    using assms(1) by (auto simp: changeset_created_def create_changeset_def ensure_eq_Inr)
  then obtain u v where uv: "changeset_step\<^sup>*\<^sup>* c u" "changeset_step u v" "changeset_step\<^sup>*\<^sup>* v c'"
    "cs_status u \<notin> S" "cs_status v \<in> S" "cs_status v \<in> changeset_transitions (cs_status u)"
    using changeset_machine.crosses_into[OF assms(2), of S] assms(3) by (auto simp: S_def)
  then have st: "cs_status u = Changeset_Awaiting_Approval" "cs_status v = Changeset_Applying"
    by (cases "cs_status u"; auto simp: S_def)+
  have "cs_approval_decision u = Decision_Approved"
    using uv(2) st by (cases rule: changeset_step_cases) auto
  then show ?thesis
    using uv st decided by blast
qed

theorem applied_changes_were_approved_witness:
  "cs_approval_decision ex_applied = Decision_Approved
    \<and> (\<exists>u v. changeset_step\<^sup>*\<^sup>* ex_changeset u \<and> changeset_step u v \<and> changeset_step\<^sup>*\<^sup>* v ex_applied
        \<and> cs_status u = Changeset_Awaiting_Approval \<and> cs_approval_decision u = Decision_Approved
        \<and> cs_status v = Changeset_Applying)"
  by (rule applied_changes_were_approved) (rule ex_changeset_created ex_applied_path | code_simp)+

text \<open>
  C37. The validation of a runtime graph terminates and is exact: it accepts a graph if and only
  if it has one to eight services with distinct ids, a public service among them, only known
  dependencies, and no dependency cycle; and it accepts it unchanged.
\<close>

theorem graph_validation_is_exact:
  "runtime_graph_post_init gr = Inr gr' \<longleftrightarrow> gr' = gr
     \<and> 1 \<le> length (graph_services gr) \<and> length (graph_services gr) \<le> 8
     \<and> distinct (map service_id (graph_services gr))
     \<and> graph_public gr \<in> service_id ` set (graph_services gr)
     \<and> (\<forall>s\<in>set (graph_services gr). set (service_depends_on s) \<subseteq> service_id ` set (graph_services gr))
     \<and> acyclic (service_relation (graph_services gr))"
  unfolding runtime_graph_post_init_exact graph_well_formed_def Let_def by auto

theorem graph_validation_is_exact_witness:
  "runtime_graph_post_init (default_graph Static_Site) = Inr (default_graph Static_Site)"
  unfolding graph_validation_is_exact
  by (simp add: default_graph_def service_relation_def acyclic_def)

text \<open>
  C38. A session can be stored and restored at any moment of its life: after any sequence of its
  methods it passes the checks of its own constructor, unchanged. This rests on a documented
  behaviour of \<open>Path.resolve\<close>: a resolved path resolves to itself.
\<close>

theorem sessions_restore:
  assumes "resolves resolve"
    and "runtime_created resolve r" and "runtime_step\<^sup>*\<^sup>* r r'"
    and "preview_created resolve bad_netloc p" and "(preview_step bad_netloc)\<^sup>*\<^sup>* p p'"
  shows "runtime_post_init resolve r' = Inr r' \<and> preview_post_init resolve bad_netloc p' = Inr p'"
proof -
  have "runtime_ok resolve r'" "preview_ok resolve bad_netloc p'"
    using assms runtimes.reachable_inv previews.reachable_inv by blast+
  then show ?thesis
    by (simp add: runtime_ok_def preview_ok_def runtime_static_dynamic preview_static_dynamic)
qed

theorem sessions_restore_witness:
  "runtime_post_init id ex_running = Inr ex_running
   \<and> preview_post_init id (\<lambda>_. False) ex_ready_preview = Inr ex_ready_preview"
  by (rule sessions_restore)
    (rule resolves_id ex_runtime_created ex_running_path ex_preview_created ex_ready_preview_path)+

text \<open>
  C39. A local preview that is shown is on this machine: while a preview for the local target is
  ready or stopping, the URL it carries parses as plain HTTP on the loopback address with an
  explicit port in range, without credentials, query or fragment.
\<close>

theorem ready_previews_are_loopback:
  assumes "resolves resolve" and "preview_created resolve bad_netloc p" and "(preview_step bad_netloc)\<^sup>*\<^sup>* p p'"
    and "pv_status p' \<in> {Preview_Ready, Preview_Stopping}" and "pv_execution_target p' = ''local''"
  shows "\<exists>url u port. pv_url p' = Some url \<and> urlsplit bad_netloc (strip url) = Some u
    \<and> url_scheme u = ''http'' \<and> url_hostname u = Some local_host \<and> url_port u = Inr (Some port)
    \<and> 1 \<le> port \<and> port \<le> 65535 \<and> url_username u = None \<and> url_query u = [] \<and> url_fragment u = []"
proof -
  have "preview_ok resolve bad_netloc p'"
    using assms previews.reachable_inv by blast
  then have "pv_url p' \<noteq> None" and "url_ok bad_netloc ''local'' (pv_url p')"
    using assms(4,5) by (auto simp: preview_ok_def preview_dynamic_def)
  then obtain url url' where url: "pv_url p' = Some url"
    and "validate_preview_url bad_netloc ''local'' url = Inr url'"
    unfolding url_ok_def by blast
  then have "check_preview_url bad_netloc ''local'' (strip url) = Inr url'"
    by (auto simp: validate_preview_url_def rbind_eq_Inr required_text_Inr)
  then obtain u port where "urlsplit bad_netloc (strip url) = Some u" "url_port u = Inr port"
    "url_username u = None" "url_query u = []" "url_fragment u = []"
    "list_all (\<lambda>g. \<not> fst g) (target_checks ''local'' u port)"
    by (auto simp: check_preview_url_def ensure_eq_Inr split: option.split_asm sum.split_asm)
  then show ?thesis
    using url by (auto simp: target_checks_def port_checks_def split: option.split_asm)
qed

theorem ready_previews_are_loopback_witness:
  "\<exists>url u port. pv_url ex_ready_preview = Some url \<and> urlsplit (\<lambda>_. False) (strip url) = Some u
    \<and> url_scheme u = ''http'' \<and> url_hostname u = Some local_host \<and> url_port u = Inr (Some port)
    \<and> 1 \<le> port \<and> port \<le> 65535 \<and> url_username u = None \<and> url_query u = [] \<and> url_fragment u = []"
proof (rule ready_previews_are_loopback)
  have "pv_status ex_ready_preview = Preview_Ready \<and> pv_execution_target ex_ready_preview = ''local''"
    by code_simp
  then show "pv_status ex_ready_preview \<in> {Preview_Ready, Preview_Stopping}"
    and "pv_execution_target ex_ready_preview = ''local''"
    by simp_all
qed (rule resolves_id ex_preview_created ex_ready_preview_path)+

section \<open>Scope contracts\<close>

text \<open>
  C40. The digest of a scope contract binds it: two contracts with one digest are the same
  contract in every field, or their two different texts are a collision of the hash. So nothing
  of a contract can be changed, added or moved to another field without changing its digest.
\<close>

theorem digest_binds_scope:
  assumes "create_scope resolve sha256 w given = Inr c" and "create_scope resolve' sha256 w' given' = Inr c'"
    and "scope_ids_ok c" and "scope_ids_ok c'" and "scope_digest c = scope_digest c'"
  shows "c = c' \<or> (\<exists>x y. x = json_dumps (JObject (digest_payload c)) \<and> y = json_dumps (JObject (digest_payload c'))
    \<and> x \<noteq> y \<and> sha256 x = sha256 y)"
proof (cases "json_dumps (JObject (digest_payload c)) = json_dumps (JObject (digest_payload c'))")
  case True
  then have "digest_payload c = digest_payload c'"
    using json_object_inj[OF _ payload_keys payload_distinct payload_flat payload_flat] by blast
  then have "c = c'\<lparr>scope_digest := scope_digest c\<rparr>"
    by (rule payload_inj[OF _ assms(3,4)])
  then show ?thesis
    using assms(5) by simp
next
  case False
  have digest: "scope_digest c = sha256 (json_dumps (JObject (digest_payload c)))"
    if "create_scope resolve sha256 w given = Inr c" for resolve w given c
  proof -
    have "digest_payload (c\<lparr>scope_digest := d\<rparr>) = digest_payload c" for c d
      by (simp add: digest_payload_def)
    then show ?thesis
      using that by (auto simp: create_scope_def Let_def ensure_eq_Inr)
  qed
  show ?thesis
    using False assms(5) digest[OF assms(1)] digest[OF assms(2)] by simp
qed

text \<open>Two contracts, for two tasks, under a hash that does not tell them apart.\<close>

definition ex_blind :: "string \<Rightarrow> string" where
  "ex_blind text = ''digest''"

definition ex_scope_of :: "uuid \<Rightarrow> scope_contract" where
  "ex_scope_of task = value_of (create_scope id ex_blind None (ex_given\<lparr>scope_task := task\<rparr>))"

theorem digest_binds_scope_witness:
  "json_dumps (JObject (digest_payload (ex_scope_of 3))) \<noteq> json_dumps (JObject (digest_payload (ex_scope_of 4)))
    \<and> ex_blind (json_dumps (JObject (digest_payload (ex_scope_of 3)))) = ex_blind (json_dumps (JObject (digest_payload (ex_scope_of 4))))"
proof -
  have e: "create_scope id ex_blind None (ex_given\<lparr>scope_task := 3\<rparr>) = Inr (ex_scope_of 3)"
    "create_scope id ex_blind None (ex_given\<lparr>scope_task := 4\<rparr>) = Inr (ex_scope_of 4)"
    unfolding ex_scope_of_def by (rule value_ofI, code_simp)+
  have ids: "scope_ids_ok c" if "create_scope id ex_blind None (ex_given\<lparr>scope_task := i\<rparr>) = Inr c" "i \<in> {3, 4}" for c i
    using that by (auto simp: create_scope_def Let_def ensure_eq_Inr scope_ids_ok_def scope_uuids_def ex_given_def or_else_def)
  have "scope_digest (ex_scope_of 3) = scope_digest (ex_scope_of 4)"
    by code_simp
  moreover have "ex_scope_of 3 \<noteq> ex_scope_of 4"
    by code_simp
  ultimately show ?thesis
    using digest_binds_scope[OF e ids[OF e(1)] ids[OF e(2)]] by auto
qed

end
