(* ===== verification/Domain_Findings.thy ===== *)
theory Domain_Findings
  imports Preview_Url
begin

text \<open>
  What the model of the domain shows to go differently than meant: one computation on the model
  per finding.
\<close>

text \<open>
  \<open>_validate_preview_url\<close> returns the text it was given, without surrounding white space, but what
  it checked is the result of \<open>urlsplit\<close>, which drops tabs and line ends inside the text. So a URL
  with a line end in its port is accepted, and kept with the line end; read up to the line end it
  names another port than the one that was checked.
\<close>

definition broken_url :: string where
  "broken_url = ''http://127.0.0.1:80'' @ [CHR 0x0A] @ ''80/''"

lemma preview_url_keeps_line_end:
  "validate_preview_url (\<lambda>_. False) ''local'' broken_url = Inr broken_url"
  "map_option url_port (urlsplit (\<lambda>_. False) broken_url) = Some (Inr (Some 8080))"
  by code_simp+

end
