(* ===== verification/Json_Compact.thy ===== *)
theory Json_Compact
  imports Json_Text
begin

text \<open>
  The text that \<open>json.dumps(value, ensure_ascii=True, separators=(",", ":"), sort_keys=True)\<close>
  prints, for any JSON value, and that it determines the value up to the order of keys. The
  proof is by prefixes: a printed value that is followed by a comma, a closing bracket or the
  end is read back in one way.
\<close>

section \<open>The printer\<close>

fun commas :: "string list \<Rightarrow> string" where
  "commas [] = []"
| "commas [x] = x"
| "commas (x # y # ys) = x @ CHR '','' # commas (y # ys)"

fun json_print :: "json \<Rightarrow> string" where
  "json_print JNull = ''null''"
| "json_print (JBool b) = (if b then ''true'' else ''false'')"
| "json_print (JNumber n) = n"
| "json_print (JString s) = json_string s"
| "json_print (JArray xs) = CHR ''['' # commas (map json_print xs) @ '']''"
| "json_print (JObject kvs) =
     CHR ''{'' # commas (map (\<lambda>(k, v). json_string k @ CHR '':'' # v) (map (\<lambda>(k, v). (k, json_print v)) kvs)) @ ''}''"

definition json_compact :: "json \<Rightarrow> string" where
  "json_compact v = json_print (json_sorted v)"

section \<open>Reading back\<close>

text \<open>
  A number is printed as its own text: it starts with a digit, a sign, or the first letter of
  \<open>NaN\<close> or \<open>Infinity\<close>, and has none of the characters that end a value.
\<close>

definition ends_value :: "string \<Rightarrow> bool" where
  "ends_value r \<longleftrightarrow> r = [] \<or> hd r \<in> {CHR '','', CHR '']'', CHR ''}''}"

definition number_ok :: "string \<Rightarrow> bool" where
  "number_ok n \<longleftrightarrow> n \<noteq> [] \<and> hd n \<in> set ''-0123456789NI'' \<and> set n \<inter> {CHR '','', CHR '']'', CHR ''}''} = {}"

fun json_ok :: "json \<Rightarrow> bool" where
  "json_ok (JNumber n) = number_ok n"
| "json_ok (JArray xs) = list_all json_ok xs"
| "json_ok (JObject kvs) = list_all (\<lambda>kv. json_ok (snd kv)) kvs"
| "json_ok _ = True"

lemma json_ok_sorted: "json_ok (json_sorted v) = json_ok v"
  by (induction v rule: json_sorted.induct) (auto simp: list_all_iff)

text \<open>The first character of a value tells its kind.\<close>

fun first_of :: "json \<Rightarrow> char set" where
  "first_of JNull = {CHR ''n''}"
| "first_of (JBool b) = (if b then {CHR ''t''} else {CHR ''f''})"
| "first_of (JNumber n) = set ''-0123456789NI''"
| "first_of (JString s) = {CHR 0x22}"
| "first_of (JArray xs) = {CHR ''[''}"
| "first_of (JObject kvs) = {CHR ''{''}"

lemma json_print_first: "json_ok v \<Longrightarrow> \<exists>c rest. json_print v = c # rest \<and> c \<in> first_of v"
  by (cases v) (auto simp: json_string_def number_ok_def neq_Nil_conv)

lemma number_prefix:
  assumes "number_ok n" "number_ok m" "ends_value r" "ends_value r'" and "n @ r = m @ r'"
  shows "n = m \<and> r = r'"
proof -
  define inside where "inside = (\<lambda>c. c \<notin> {CHR '','', CHR '']'', CHR ''}''})"
  have "takeWhile inside (k @ q) = k" if "number_ok k" "ends_value q" for k q
    using that by (subst takeWhile_append2) (auto simp: inside_def number_ok_def ends_value_def takeWhile_eq_Nil_iff)
  then have "n = m"
    using assms by metis
  then show ?thesis
    using assms(5) by simp
qed

lemma commas_Cons: "commas (x # xs) = x @ concat (map (\<lambda>y. CHR '','' # y) xs)"
  by (induction xs arbitrary: x) simp_all

text \<open>
  Items that are each read back in one way when followed by the end of a value, in a list up to
  its closing bracket.
\<close>

definition reads_back :: "('a \<Rightarrow> string) \<Rightarrow> 'a \<Rightarrow> 'a set \<Rightarrow> bool" where
  "reads_back f x A \<longleftrightarrow> (\<forall>y\<in>A. \<forall>r r'. ends_value r \<longrightarrow> ends_value r' \<longrightarrow> f x @ r = f y @ r' \<longrightarrow> x = y \<and> r = r')"

lemma reads_backD:
  "reads_back f x A \<Longrightarrow> y \<in> A \<Longrightarrow> ends_value r \<Longrightarrow> ends_value r' \<Longrightarrow> f x @ r = f y @ r' \<Longrightarrow> x = y \<and> r = r'"
  unfolding reads_back_def by blast

definition tail_of :: "('a \<Rightarrow> string) \<Rightarrow> 'a list \<Rightarrow> string" where
  "tail_of f xs = concat (map (\<lambda>y. CHR '','' # f y) xs)"

lemma tail_of_simps [simp]: "tail_of f [] = []" "tail_of f (x # xs) = CHR '','' # f x @ tail_of f xs"
  by (simp_all add: tail_of_def)

lemma tail_ends: "stop \<in> {CHR '']'', CHR ''}''} \<Longrightarrow> ends_value (tail_of f xs @ stop # r)"
  by (cases xs) (auto simp: ends_value_def)

lemma tail_reads_back:
  assumes "stop \<in> {CHR '']'', CHR ''}''}"
  shows "tail_of f xs @ stop # r = tail_of f ys @ stop # r' \<Longrightarrow> \<forall>x\<in>set xs. reads_back f x A \<Longrightarrow> set ys \<subseteq> A
    \<Longrightarrow> xs = ys \<and> r = r'"
proof (induction xs ys rule: list_induct2')
  case (4 x xs y ys)
  then have "f x @ (tail_of f xs @ stop # r) = f y @ (tail_of f ys @ stop # r')"
    by simp
  then have "x = y \<and> tail_of f xs @ stop # r = tail_of f ys @ stop # r'"
    using "4.prems"(2,3) tail_ends[OF assms] by (intro reads_backD) auto
  then show ?case
    using "4.IH" "4.prems"(2,3) by simp
qed (use assms in auto)

lemma items_read_back:
  assumes "stop \<in> {CHR '']'', CHR ''}''}" and "\<forall>x\<in>set xs. reads_back f x A" and "set ys \<subseteq> A"
    and "\<And>x. x \<in> set xs \<union> set ys \<Longrightarrow> \<exists>c rest. f x = c # rest \<and> c \<noteq> stop"
    and eq: "commas (map f xs) @ stop # r = commas (map f ys) @ stop # r'"
  shows "xs = ys \<and> r = r'"
proof -
  have join: "commas (map f (z # zs)) = f z @ tail_of f zs" for z zs
    by (simp add: commas_Cons tail_of_def comp_def)
  show ?thesis
  proof (cases xs; cases ys)
    fix x xs' y ys'
    assume xs: "xs = x # xs'" and ys: "ys = y # ys'"
    then have "f x @ (tail_of f xs' @ stop # r) = f y @ (tail_of f ys' @ stop # r')"
      using eq unfolding xs ys join by simp
    then have "x = y \<and> tail_of f xs' @ stop # r = tail_of f ys' @ stop # r'"
      using assms(2,3) xs ys tail_ends[OF assms(1)] by (intro reads_backD) auto
    then show ?thesis
      using tail_reads_back[OF assms(1), of f xs' r ys' r' A] assms(2,3) xs ys by simp
  next
    fix x xs'
    assume "ys = []" and xs: "xs = x # xs'"
    then show ?thesis
      using eq assms(4)[of x] unfolding xs join by auto
  next
    fix y ys'
    assume "xs = []" and ys: "ys = y # ys'"
    then show ?thesis
      using eq assms(4)[of y] unfolding ys join by auto
  qed (use eq in simp)
qed

definition json_entry :: "string \<times> json \<Rightarrow> string" where
  "json_entry kv = json_string (fst kv) @ CHR '':'' # json_print (snd kv)"

lemma json_print_object: "json_print (JObject kvs) = CHR ''{'' # commas (map json_entry kvs) @ ''}''"
  by (simp add: json_entry_def comp_def case_prod_unfold cong: map_cong)

lemma json_reads_back: "json_ok v \<Longrightarrow> reads_back json_print v {w. json_ok w}"
proof (induction v)
  case (JArray xs)
  show ?case
    unfolding reads_back_def
  proof (intro ballI allI impI)
    fix w r r'
    assume w: "w \<in> {w. json_ok w}" and eq: "json_print (JArray xs) @ r = json_print w @ r'"
    obtain ys where ys: "w = JArray ys"
      using json_print_first[of w] w eq by (cases w) (auto split: if_splits)
    have "xs = ys \<and> r = r'"
    proof (rule items_read_back[of "CHR '']''" xs json_print "{w. json_ok w}"])
      show "\<forall>x\<in>set xs. reads_back json_print x {w. json_ok w}"
        using JArray by (simp add: list_all_iff)
      show "\<exists>c rest. json_print x = c # rest \<and> c \<noteq> CHR '']''" if "x \<in> set xs \<union> set ys" for x
      proof -
        have "json_ok x"
          using that JArray.prems w ys by (auto simp: list_all_iff)
        then show ?thesis
          using json_print_first[of x] by (cases x) (auto split: if_splits)
      qed
    qed (use w ys eq in \<open>auto simp: list_all_iff\<close>)
    then show "JArray xs = w \<and> r = r'"
      using ys by simp
  qed
next
  case (JObject kvs)
  show ?case
    unfolding reads_back_def
  proof (intro ballI allI impI)
    fix w r r'
    assume w: "w \<in> {w. json_ok w}" and eq: "json_print (JObject kvs) @ r = json_print w @ r'"
    obtain ys where ys: "w = JObject ys"
      using json_print_first[of w] w eq by (cases w) (auto split: if_splits)
    have "kvs = ys \<and> r = r'"
    proof (rule items_read_back[of "CHR ''}''" kvs json_entry "{kv. json_ok (snd kv)}"])
      show "\<forall>kv\<in>set kvs. reads_back json_entry kv {kv. json_ok (snd kv)}"
      proof (intro ballI, unfold reads_back_def, intro ballI allI impI)
        fix x y q q'
        assume x: "x \<in> set kvs" and y: "y \<in> {kv. json_ok (snd kv)}" and q: "ends_value q" "ends_value q'"
          and "json_entry x @ q = json_entry y @ q'"
        then have "json_string (fst x) @ (CHR '':'' # (json_print (snd x) @ q))
            = json_string (fst y) @ (CHR '':'' # (json_print (snd y) @ q'))"
          by (simp only: json_entry_def append_assoc append_Cons)
        then have k: "fst x = fst y" and "json_print (snd x) @ q = json_print (snd y) @ q'"
          using json_string_prefix by blast+
        moreover have "reads_back json_print (snd x) {w. json_ok w}"
          using JObject.IH[OF x, of "snd x"] JObject.prems x by (cases x) (auto simp: list_all_iff prod_set_simps)
        ultimately have "snd x = snd y \<and> q = q'"
          using y q by (intro reads_backD[of json_print]) auto
        then show "x = y \<and> q = q'"
          using k by (simp add: prod_eq_iff)
      qed
      show "\<exists>c rest. json_entry x = c # rest \<and> c \<noteq> CHR ''}''" for x
        by (simp add: json_entry_def json_string_def)
      show "commas (map json_entry kvs) @ CHR ''}'' # r = commas (map json_entry ys) @ CHR ''}'' # r'"
        using eq unfolding ys json_print_object by simp
    qed (use w ys in \<open>auto simp: list_all_iff\<close>)
    then show "JObject kvs = w \<and> r = r'"
      using ys by simp
  qed
next
  case (JNumber n)
  show ?case
    unfolding reads_back_def
  proof (intro ballI allI impI)
    fix w r r'
    assume w: "w \<in> {w. json_ok w}" and r: "ends_value r" "ends_value r'" and eq: "json_print (JNumber n) @ r = json_print w @ r'"
    obtain m where m: "w = JNumber m"
      using json_print_first[of w] json_print_first[of "JNumber n"] JNumber w eq by (cases w) (auto split: if_splits)
    then show "JNumber n = w \<and> r = r'"
      using number_prefix[of n m r r'] JNumber w r eq by simp
  qed
next
  case (JString s)
  show ?case
    unfolding reads_back_def
  proof (intro ballI allI impI)
    fix w r r'
    assume w: "w \<in> {w. json_ok w}" and eq: "json_print (JString s) @ r = json_print w @ r'"
    obtain s' where "w = JString s'"
      using json_print_first[of w] json_print_first[of "JString s"] w eq by (cases w) (auto split: if_splits)
    then show "JString s = w \<and> r = r'"
      using json_string_prefix[of s r s' r'] eq by simp
  qed
next
  case (JBool b)
  show ?case
    unfolding reads_back_def
  proof (intro ballI allI impI)
    fix w r r'
    assume "w \<in> {w. json_ok w}" and eq: "json_print (JBool b) @ r = json_print w @ r'"
    then show "JBool b = w \<and> r = r'"
      using json_print_first[of w] by (cases w; cases b) (auto split: if_splits)
  qed
next
  case JNull
  show ?case
    unfolding reads_back_def
  proof (intro ballI allI impI)
    fix w r r'
    assume "w \<in> {w. json_ok w}" and eq: "json_print JNull @ r = json_print w @ r'"
    then show "JNull = w \<and> r = r'"
      using json_print_first[of w] by (cases w) (auto split: if_splits)
  qed
qed

theorem json_compact_inj:
  assumes "json_ok v" "json_ok w" and "json_compact v = json_compact w"
  shows "json_sorted v = json_sorted w"
  using reads_backD[OF json_reads_back, of "json_sorted v" "json_sorted w" "[]" "[]"] assms
  by (simp add: json_compact_def json_ok_sorted ends_value_def)

end
