(* ===== verification/Command_Registry.thy ===== *)
theory Command_Registry
  imports Json_Compact Domain_Errors Runtime_Graph
begin

text \<open>
  The registry of tools of \<open>commanding/registry.py\<close> with the policy of \<open>commanding/policy.py\<close>:
  the definitions and their checks, the operations that change the registry, and the decision
  whether a tool may run. A \<open>frozenset\<close> is a set; where the code iterates over one, the order is
  the parameter \<open>ordered\<close>. A dictionary is the list of its entries in order of insertion.
\<close>

section \<open>Definitions\<close>

datatype permission_profile = Observe | Standard | Autonomous

datatype side_effect = Effect_None | Effect_Read | Effect_Write | Effect_Execute

datatype risk_level = Risk_Low | Risk_Medium | Risk_High

datatype approval_policy = Approval_Never | Approval_Profile | Approval_Always

datatype tool_concurrency = Tool_Serial | Tool_Parallel_Read

fun profile_value :: "permission_profile \<Rightarrow> string" where
  "profile_value Observe = ''observe''"
| "profile_value Standard = ''standard''"
| "profile_value Autonomous = ''autonomous''"

fun side_effect_value :: "side_effect \<Rightarrow> string" where
  "side_effect_value Effect_None = ''none''"
| "side_effect_value Effect_Read = ''read''"
| "side_effect_value Effect_Write = ''write''"
| "side_effect_value Effect_Execute = ''execute''"

fun risk_value :: "risk_level \<Rightarrow> string" where
  "risk_value Risk_Low = ''low''"
| "risk_value Risk_Medium = ''medium''"
| "risk_value Risk_High = ''high''"

fun approval_policy_value :: "approval_policy \<Rightarrow> string" where
  "approval_policy_value Approval_Never = ''never''"
| "approval_policy_value Approval_Profile = ''profile''"
| "approval_policy_value Approval_Always = ''always''"

fun concurrency_value :: "tool_concurrency \<Rightarrow> string" where
  "concurrency_value Tool_Serial = ''serial''"
| "concurrency_value Tool_Parallel_Read = ''parallel_read''"

text \<open>The patterns \<open>_TOOL_NAME\<close> and \<open>_EXTENSION_KEY\<close>, matched in full.\<close>

definition key_start :: string where
  "key_start = ''abcdefghijklmnopqrstuvwxyz0123456789''"

definition name_part :: "string \<Rightarrow> nat \<Rightarrow> string \<Rightarrow> bool" where
  "name_part extra limit s \<longleftrightarrow> s \<noteq> [] \<and> length s \<le> limit \<and> hd s \<in> set key_start
     \<and> list_all (\<lambda>c. c \<in> set (key_start @ extra)) (tl s)"

definition tool_name_pattern :: "string \<Rightarrow> bool" where
  "tool_name_pattern = name_part ''._-'' 128"

definition extension_key_pattern :: "string \<Rightarrow> bool" where
  "extension_key_pattern s \<longleftrightarrow> (case split_on CHR '':'' s of
     [kind, extension] \<Rightarrow> name_part ''_-'' 64 kind \<and> name_part ''_-'' 64 extension | _ \<Rightarrow> False)"

record slash_command =
  slash_name :: string
  slash_description :: string
  slash_argument_hint :: "string option"
  slash_required_operation :: "string option"

definition ascii_lower :: "string \<Rightarrow> bool" where
  "ascii_lower s \<longleftrightarrow> list_all (\<lambda>c. (of_char c :: nat) < 128) s
     \<and> list_ex (\<lambda>c. c \<in> set ''abcdefghijklmnopqrstuvwxyz'') s
     \<and> list_all (\<lambda>c. c \<notin> set ''ABCDEFGHIJKLMNOPQRSTUVWXYZ'') s"

definition slash_post_init :: "slash_command \<Rightarrow> domain_error + slash_command" where
  "slash_post_init c = ensure
     [(\<not> ascii_lower (slash_name c), ValueError ''slash command names must be lowercase ASCII''),
      (strip (slash_description c) = [], ValueError ''slash command descriptions cannot be blank'')] c"

record tool_definition =
  tool_name :: string
  tool_side_effect :: side_effect
  tool_risk :: risk_level
  tool_approval :: approval_policy
  tool_profiles :: "permission_profile set"
  tool_executor :: string
  tool_requires_sandbox :: bool
  tool_idempotent :: bool
  tool_concurrency_policy :: tool_concurrency
  tool_resource_keys :: "string list"
  tool_model_visible :: bool
  tool_description :: string
  tool_source :: string
  tool_origin :: "string option"
  tool_required_operations :: "string set"
  tool_required_extensions :: "string set"
  tool_input_schema :: "(string \<times> json) list"
  tool_digest :: string
  tool_legacy_digest :: string

definition rstrip :: "string \<Rightarrow> string" where
  "rstrip s = rev (dropWhile is_space (rev s))"

definition bounded_public_description :: "string \<Rightarrow> string" where
  "bounded_public_description d = (if length d \<le> 1000 then d else rstrip (take 997 d) @ ''...'')"

definition lower_ascii :: "string \<Rightarrow> string" where
  "lower_ascii = map (\<lambda>c. if c \<in> set ''ABCDEFGHIJKLMNOPQRSTUVWXYZ'' then char_of (of_char c + 32 :: nat) else c)"

definition json_strings :: "string list \<Rightarrow> json" where
  "json_strings xs = JArray (map JString xs)"

definition sorted_strings :: "string set \<Rightarrow> string list" where
  "sorted_strings A = sorted_list_of_set A"

text \<open>The payload of the digest; the second is the one before concurrency was part of it.\<close>

definition tool_legacy_payload :: "tool_definition \<Rightarrow> (string \<times> json) list" where
  "tool_legacy_payload d =
     [(''name'', JString (tool_name d)),
      (''side_effect'', JString (side_effect_value (tool_side_effect d))),
      (''risk_level'', JString (risk_value (tool_risk d))),
      (''approval_policy'', JString (approval_policy_value (tool_approval d))),
      (''profiles'', json_strings (sorted_strings (profile_value ` tool_profiles d))),
      (''executor'', JString (tool_executor d)),
      (''requires_sandbox'', JBool (tool_requires_sandbox d)),
      (''idempotent'', JBool (tool_idempotent d)),
      (''model_visible'', JBool (tool_model_visible d)),
      (''description'', JString (tool_description d)),
      (''source'', JString (tool_source d)),
      (''origin_id'', case tool_origin d of None \<Rightarrow> JNull | Some x \<Rightarrow> JString x),
      (''required_operations'', json_strings (sorted_strings (tool_required_operations d))),
      (''required_extensions'', json_strings (sorted_strings (tool_required_extensions d))),
      (''input_schema'', JObject (tool_input_schema d))]"

definition tool_payload :: "tool_definition \<Rightarrow> (string \<times> json) list" where
  "tool_payload d = tool_legacy_payload d @
     [(''concurrency_policy'', JString (concurrency_value (tool_concurrency_policy d))),
      (''concurrency_resource_keys'', json_strings (tool_resource_keys d))]"

text \<open>\<open>ToolDefinition.__post_init__\<close>: the digests are over the fields as normalised, with the origin as given.\<close>

definition tool_post_init :: "(string \<Rightarrow> string) \<Rightarrow> tool_definition \<Rightarrow> domain_error + tool_definition" where
  "tool_post_init sha256 given =
     (let stripped = strip (tool_description given);
          description = bounded_public_description
            (if stripped \<noteq> [] then stripped else map (\<lambda>c. if c = CHR ''.'' then CHR '' '' else c) (tool_name given));
          schema = sort_key fst (map (\<lambda>(k, v). (k, json_sorted v)) (tool_input_schema given));
          source = lower_ascii (strip (tool_source given));
          origin = (case tool_origin given of None \<Rightarrow> [] | Some x \<Rightarrow> x);
          resource_keys = sorted_strings (strip ` set (tool_resource_keys given));
          d = given\<lparr>tool_description := description, tool_source := source,
                    tool_resource_keys := resource_keys, tool_input_schema := schema\<rparr>
      in ensure
       [(\<not> tool_name_pattern (tool_name given), ValueError ''tool name must be lowercase ASCII and namespace-safe''),
        (\<not> json_finite (JObject (tool_input_schema given)), ValueError ''tool input_schema must contain canonical JSON''),
        (map_of schema ''type'' \<noteq> Some (JString ''object''), ValueError ''tool input_schema must describe an object''),
        (map_of schema ''additionalProperties'' \<noteq> Some (JBool False),
         ValueError ''tool input_schema must reject additional properties''),
        (source \<notin> {''builtin'', ''skill'', ''mcp''}, ValueError ''tool source must be builtin, skill, or mcp''),
        (source = ''builtin'' \<and> tool_origin given \<noteq> None, ValueError ''builtin tools cannot declare an extension origin''),
        (source \<noteq> ''builtin'' \<and> strip origin = [], ValueError ''extension tools require an origin_id''),
        (tool_name given \<in> tool_required_operations given, ValueError ''tool cannot depend on itself''),
        (tool_concurrency_policy given = Tool_Parallel_Read
           \<and> (tool_side_effect given \<notin> {Effect_None, Effect_Read} \<or> \<not> tool_idempotent given
              \<or> tool_approval given \<noteq> Approval_Never),
         ValueError ''parallel tools must be idempotent, approval-free, and have no write effect''),
        (list_ex (\<lambda>v. v = [] \<or> 255 < length v) resource_keys, ValueError ''tool concurrency resource keys are invalid''),
        (\<exists>v\<in>tool_required_operations given. \<not> tool_name_pattern v, ValueError ''required operation name is invalid''),
        (\<exists>v\<in>tool_required_extensions given. \<not> extension_key_pattern v, ValueError ''required extension key is invalid'')]
       (d\<lparr>tool_origin := (if origin = [] then None else Some (strip origin)),
          tool_digest := sha256 (json_compact (JObject (tool_payload d))),
          tool_legacy_digest := sha256 (json_compact (JObject (tool_legacy_payload d)))\<rparr>))"

section \<open>The registry\<close>

record tool_registry =
  reg_definitions :: "(string \<times> tool_definition) list"
  reg_slash_commands :: "(string \<times> slash_command) list"
  reg_ready_extensions :: "string set"
  reg_generation :: int

definition registry_get :: "tool_registry \<Rightarrow> string \<Rightarrow> tool_definition option" where
  "registry_get r name = map_of (reg_definitions r) name"

definition register_tool :: "tool_definition \<Rightarrow> tool_registry \<Rightarrow> domain_error + tool_registry" where
  "register_tool d r = ensure
     [(registry_get r (tool_name d) \<noteq> None, ValueError ''tool already registered'')]
     (r\<lparr>reg_definitions := reg_definitions r @ [(tool_name d, d)], reg_generation := reg_generation r + 1\<rparr>)"

definition add_slash_command :: "slash_command \<Rightarrow> tool_registry \<Rightarrow> domain_error + tool_registry" where
  "add_slash_command c r = ensure
     [(slash_name c \<in> fst ` set (reg_slash_commands r), ValueError ''slash command already registered''),
      (case slash_required_operation c of None \<Rightarrow> False | Some operation \<Rightarrow> registry_get r operation = None,
       ValueError ''slash command requires an unknown operation'')]
     (r\<lparr>reg_slash_commands := reg_slash_commands r @ [(slash_name c, c)]\<rparr>)"

definition new_registry :: "tool_definition list \<Rightarrow> slash_command list \<Rightarrow> domain_error + tool_registry" where
  "new_registry ds cs =
     rbind (foldM register_tool ds
        \<lparr>reg_definitions = [], reg_slash_commands = [], reg_ready_extensions = {}, reg_generation = 0\<rparr>)
       (foldM add_slash_command cs)"

definition replace_namespace :: "string \<Rightarrow> tool_definition list \<Rightarrow> tool_registry \<Rightarrow> domain_error + tool_registry" where
  "replace_namespace prefix ds r =
     rbind (ensure
       [(prefix = [] \<or> last prefix \<noteq> CHR ''.'' \<or> \<not> tool_name_pattern (prefix @ ''x''),
         ValueError ''tool namespace prefix is invalid''),
        (\<not> list_all (\<lambda>d. starts_with prefix (tool_name d)) ds, ValueError ''replacement tool is outside its namespace''),
        (\<not> distinct (map tool_name ds), ValueError ''replacement namespace contains duplicate tools'')] ()) (\<lambda>_.
     let replacement = map (\<lambda>d. (tool_name d, d)) ds;
         current = filter (\<lambda>kv. starts_with prefix (fst kv)) (reg_definitions r);
         retained = filter (\<lambda>kv. \<not> starts_with prefix (fst kv)) (reg_definitions r)
     in if set current = set replacement then Inr r
        else ensure
          [(fst ` set retained \<inter> set (map tool_name ds) \<noteq> {}, ValueError ''tool already registered'')]
          (r\<lparr>reg_definitions := retained @ replacement, reg_generation := reg_generation r + 1\<rparr>))"

definition set_extension_ready :: "string \<Rightarrow> string \<Rightarrow> bool \<Rightarrow> tool_registry \<Rightarrow> domain_error + tool_registry" where
  "set_extension_ready kind extension ready r =
     (let key = lower_ascii (strip kind) @ '':'' @ lower_ascii (strip extension);
          before = (key \<in> reg_ready_extensions r)
      in ensure
       [(\<not> extension_key_pattern key, ValueError ''extension readiness key is invalid'')]
       (r\<lparr>reg_ready_extensions := (if ready then insert key (reg_ready_extensions r) else reg_ready_extensions r - {key}),
          reg_generation := (if before \<noteq> ready then reg_generation r + 1 else reg_generation r)\<rparr>))"

definition registry_definitions :: "tool_registry \<Rightarrow> tool_definition list" where
  "registry_definitions r = map snd (reg_definitions r)"

definition slash_available :: "(string \<times> bool) list \<Rightarrow> slash_command \<Rightarrow> bool" where
  "slash_available operations c \<longleftrightarrow> (case slash_required_operation c of
     None \<Rightarrow> True | Some operation \<Rightarrow> map_of operations operation = Some True)"

definition slash_command_metadata :: "(string \<times> bool) list \<Rightarrow> tool_registry \<Rightarrow> (slash_command \<times> bool) list" where
  "slash_command_metadata operations r = map (\<lambda>(_, c). (c, slash_available operations c)) (reg_slash_commands r)"

section \<open>Policy\<close>

record policy_decision =
  decision_allowed :: bool
  decision_requires_approval :: bool
  decision_error_code :: "string option"
  decision_reason :: string

definition deny :: "bool \<Rightarrow> string \<Rightarrow> string \<Rightarrow> policy_decision" where
  "deny requires_approval error_code reason =
     \<lparr>decision_allowed = False, decision_requires_approval = requires_approval,
      decision_error_code = Some error_code, decision_reason = reason\<rparr>"

definition needs_approval :: "permission_profile \<Rightarrow> tool_definition \<Rightarrow> bool" where
  "needs_approval profile d \<longleftrightarrow> tool_approval d = Approval_Always
     \<or> tool_approval d = Approval_Profile \<and> profile = Standard"

definition evaluate_policy ::
  "tool_registry \<Rightarrow> string \<Rightarrow> permission_profile \<Rightarrow> (string \<times> bool) list \<Rightarrow> bool \<Rightarrow> bool \<Rightarrow> policy_decision" where
  "evaluate_policy r name profile overrides approval_granted sandbox_healthy =
     (case registry_get r name of
        None \<Rightarrow> deny False ''CAPABILITY_NOT_AVAILABLE'' ''tool not exposed''
      | Some d \<Rightarrow>
          if profile \<notin> tool_profiles d then deny False ''CAPABILITY_NOT_AVAILABLE'' ''tool not exposed''
          else if map_of overrides name = Some False then deny False ''CAPABILITY_NOT_AVAILABLE'' ''tool disabled''
          else if tool_requires_sandbox d \<and> \<not> sandbox_healthy
          then deny False ''SANDBOX_UNAVAILABLE'' ''sandbox is not healthy''
          else if needs_approval profile d \<and> \<not> approval_granted
          then deny True ''APPROVAL_REQUIRED'' ''explicit approval required''
          else \<lparr>decision_allowed = True, decision_requires_approval = False,
                decision_error_code = None, decision_reason = []\<rparr>)"

end
