(* ===== verification/Command_Ledger.thy ===== *)
theory Command_Ledger
  imports Command_Registry Domain_Scope "HOL-Library.Product_Lexorder"
begin

text \<open>
  \<open>SqlAlchemyCommandLedger\<close> of \<open>commanding/sqlalchemy.py\<close> over the four tables of
  \<open>commanding/schema.py\<close>: command runs, the event log, the counters of the events of a task, and
  the identity of a tenant's log. A method is one write transaction: it returns the new store, or
  the exception with which it is rolled back. \<open>ids\<close> and \<open>clk\<close> are the identifiers and readings of
  the clock that the method draws, in the order of the code. The cursor of an event is the next
  row id as SQLite gives it, one more than the largest.
\<close>

section \<open>Data\<close>

datatype command_status =
    Command_Created | Command_Queued | Command_Waiting_Approval | Command_Running | Command_Succeeded
  | Command_Failed | Command_Rejected | Command_Cancelled | Command_Interrupted

datatype event_visibility = Visible_User | Visible_Developer | Visible_Internal

fun status_value :: "command_status \<Rightarrow> string" where
  "status_value Command_Created = ''created''"
| "status_value Command_Queued = ''queued''"
| "status_value Command_Waiting_Approval = ''waiting_approval''"
| "status_value Command_Running = ''running''"
| "status_value Command_Succeeded = ''succeeded''"
| "status_value Command_Failed = ''failed''"
| "status_value Command_Rejected = ''rejected''"
| "status_value Command_Cancelled = ''cancelled''"
| "status_value Command_Interrupted = ''interrupted''"

fun command_transitions :: "command_status \<Rightarrow> command_status set" where
  "command_transitions Command_Created = {Command_Queued, Command_Waiting_Approval, Command_Cancelled}"
| "command_transitions Command_Queued = {Command_Waiting_Approval, Command_Running, Command_Cancelled, Command_Interrupted}"
| "command_transitions Command_Waiting_Approval = {Command_Queued, Command_Running, Command_Rejected, Command_Cancelled}"
| "command_transitions Command_Running = {Command_Succeeded, Command_Failed, Command_Interrupted, Command_Cancelled}"
| "command_transitions Command_Interrupted = {Command_Queued, Command_Failed}"
| "command_transitions _ = {}"

record command_row =
  cmd_id :: uuid
  cmd_name :: string
  cmd_actor :: string
  cmd_scope :: "(string \<times> json) list"
  cmd_scope_digest :: string
  cmd_project :: "uuid option"
  cmd_conversation :: uuid
  cmd_task :: uuid
  cmd_input :: "(string \<times> json) list"
  cmd_risk :: risk_level
  cmd_status :: command_status
  cmd_key :: string
  cmd_fingerprint :: string
  cmd_lease_owner :: "string option"
  cmd_lease_until :: "instant option"
  cmd_lease_fence :: int
  cmd_created_at :: instant
  cmd_updated_at :: instant

record event_row =
  ev_cursor :: int
  ev_id :: uuid
  ev_run :: "uuid option"
  ev_user :: string
  ev_device :: string
  ev_project :: "uuid option"
  ev_conversation :: "uuid option"
  ev_task :: "uuid option"
  ev_version :: "string option"
  ev_task_sequence :: "int option"
  ev_schema_version :: int
  ev_type :: string
  ev_visibility :: event_visibility
  ev_message :: string
  ev_payload :: "(string \<times> json) list"
  ev_created_at :: instant

record command_store =
  command_runs_t :: "command_row table"
  event_ledgers_t :: "(uuid \<times> instant) table"
  task_sequences_t :: "(uuid \<times> int) table"
  domain_events_t :: "event_row table"

record stream_bounds =
  stream_ledger :: uuid
  stream_oldest :: int
  stream_latest :: int

text \<open>An exception of the domain, a violated constraint, or a failed \<open>assert\<close>.\<close>

datatype ledger_error = Raised domain_error | Integrity_Violation | Assertion_Failed

abbreviation empty_command_store :: command_store where
  "empty_command_store \<equiv> \<lparr>command_runs_t = [], event_ledgers_t = [], task_sequences_t = [], domain_events_t = []\<rparr>"

abbreviation commands_of :: "tenant \<Rightarrow> command_store \<Rightarrow> command_row list" where
  "commands_of t s \<equiv> rows t (command_runs_t s)"

abbreviation events_of :: "tenant \<Rightarrow> command_store \<Rightarrow> event_row list" where
  "events_of t s \<equiv> rows t (domain_events_t s)"

section \<open>Requests\<close>

text \<open>\<open>_serialize_scope\<close>\<close>

definition scope_payload :: "scope_contract \<Rightarrow> (string \<times> json) list" where
  "scope_payload c =
     [(''workspace_type'', JString (workspace_type_value (scope_workspace_type c))),
      (''project_id'', json_uuid (scope_project c)),
      (''conversation_id'', JString (uuid_str (scope_conversation c))),
      (''task_id'', JString (uuid_str (scope_task c))),
      (''operation_mode'', JString (operation_mode_value (scope_operation_mode c))),
      (''base_version_id'', json_uuid (scope_base_version c)),
      (''target_version_id'', json_uuid (scope_target_version c)),
      (''project_root'', JString (scope_project_root c)),
      (''allowed_write_paths'', json_list (scope_allowed_write_paths c)),
      (''forbidden_write_paths'', json_list (scope_forbidden_write_paths c)),
      (''execution_target'', JString (scope_execution_target c)),
      (''network_policy'', JString (scope_network_policy c)),
      (''memory_read_scope'', json_list (scope_memory_read c)),
      (''memory_write_scope'', json_list (scope_memory_write c)),
      (''memory_snapshot_id'', json_uuid (scope_memory_id c)),
      (''memory_snapshot_hash'', json_text (scope_memory_hash c)),
      (''scope_digest'', JString (scope_digest c))]"

record command_request =
  req_name :: string
  req_actor :: string
  req_scope :: scope_contract
  req_input :: "(string \<times> json) list"
  req_risk :: risk_level

definition request_payload :: "command_request \<Rightarrow> json" where
  "request_payload q = JObject
     [(''command_name'', JString (req_name q)), (''actor'', JString (req_actor q)),
      (''scope'', JObject (scope_payload (req_scope q))), (''input'', JObject (req_input q)),
      (''risk_level'', JString (risk_value (req_risk q)))]"

definition command_request_fingerprint :: "(string \<Rightarrow> string) \<Rightarrow> command_request \<Rightarrow> string" where
  "command_request_fingerprint sha256 q = sha256 (json_compact (request_payload q))"

section \<open>Events\<close>

text \<open>\<open>{**payload, key: value}\<close>\<close>

definition dict_put :: "(string \<times> json) list \<Rightarrow> string \<Rightarrow> json \<Rightarrow> (string \<times> json) list" where
  "dict_put kvs k v = (if k \<in> fst ` set kvs then map (\<lambda>kv. if fst kv = k then (k, v) else kv) kvs else kvs @ [(k, v)])"

definition next_cursor :: "command_store \<Rightarrow> int" where
  "next_cursor s = foldl max 0 (map (ev_cursor \<circ> snd) (domain_events_t s)) + 1"

text \<open>The \<open>INSERT\<close> into \<open>domain_events\<close>, with its unique constraints.\<close>

definition insert_event :: "tenant \<Rightarrow> event_row \<Rightarrow> command_store \<Rightarrow> ledger_error + command_store \<times> event_row" where
  "insert_event t e s =
     (let row = e\<lparr>ev_cursor := next_cursor s\<rparr>
      in if ev_id e \<in> ev_id ` set (events_of t s)
          \<or> ev_task e \<noteq> None \<and> ev_task_sequence e \<noteq> None
            \<and> (ev_task e, ev_task_sequence e) \<in> (\<lambda>x. (ev_task x, ev_task_sequence x)) ` set (events_of t s)
         then Inl Integrity_Violation
         else Inr (s\<lparr>domain_events_t := insert_rows t [row] (domain_events_t s)\<rparr>, row))"

definition last_sequence :: "tenant \<Rightarrow> uuid \<Rightarrow> command_store \<Rightarrow> int option" where
  "last_sequence t for_task s = map_of (rows t (task_sequences_t s)) for_task"

text \<open>The upsert of the counter: its new value is the sequence number of the event.\<close>

definition advance_sequence :: "tenant \<Rightarrow> uuid \<Rightarrow> command_store \<Rightarrow> command_store \<times> int" where
  "advance_sequence t for_task s =
     (case last_sequence t for_task s of
        None \<Rightarrow> (s\<lparr>task_sequences_t := insert_rows t [(for_task, 1)] (task_sequences_t s)\<rparr>, 1)
      | Some n \<Rightarrow> (s\<lparr>task_sequences_t := update_where t (\<lambda>x. fst x = for_task) (\<lambda>x. (fst x, snd x + 1)) (task_sequences_t s)\<rparr>,
          n + 1))"

definition scope_version :: "(string \<times> json) list \<Rightarrow> string option" where
  "scope_version scope = (case map_of scope ''target_version_id'' of Some (JString v) \<Rightarrow> Some v | _ \<Rightarrow> None)"

definition append_run_event ::
  "tenant \<Rightarrow> uuid \<Rightarrow> instant \<Rightarrow> command_row \<Rightarrow> string \<Rightarrow> event_visibility \<Rightarrow> string \<Rightarrow> (string \<times> json) list \<Rightarrow>
   command_store \<Rightarrow> ledger_error + command_store \<times> event_row" where
  "append_run_event t event_id created_at run event_type visibility message payload s =
     (case advance_sequence t (cmd_task run) s of (s1, sequence) \<Rightarrow> insert_event t
       \<lparr>ev_cursor = 0, ev_id = event_id, ev_run = Some (cmd_id run), ev_user = cmd_actor run, ev_device = ''core'',
        ev_project = cmd_project run, ev_conversation = Some (cmd_conversation run), ev_task = Some (cmd_task run),
        ev_version = scope_version (cmd_scope run), ev_task_sequence = Some sequence, ev_schema_version = 1,
        ev_type = event_type, ev_visibility = visibility, ev_message = message,
        ev_payload = dict_put payload ''command_name'' (JString (cmd_name run)), ev_created_at = created_at\<rparr> s1)"

definition append_domain_event ::
  "tenant \<Rightarrow> uuid \<Rightarrow> instant \<Rightarrow> string \<Rightarrow> event_visibility \<Rightarrow> string \<Rightarrow> (string \<times> json) list \<Rightarrow> string \<Rightarrow>
   uuid option \<Rightarrow> uuid option \<Rightarrow> uuid option \<Rightarrow> uuid option \<Rightarrow> command_store \<Rightarrow>
   ledger_error + command_store \<times> event_row" where
  "append_domain_event t event_id created_at event_type visibility message payload actor project_id
     conversation for_task version s = insert_event t
       \<lparr>ev_cursor = 0, ev_id = event_id, ev_run = None, ev_user = actor, ev_device = ''core'',
        ev_project = project_id, ev_conversation = conversation, ev_task = for_task,
        ev_version = map_option uuid_str version, ev_task_sequence = None, ev_schema_version = 1,
        ev_type = event_type, ev_visibility = visibility, ev_message = message, ev_payload = payload,
        ev_created_at = created_at\<rparr> s"

section \<open>Runs\<close>

definition run_by_id :: "tenant \<Rightarrow> uuid \<Rightarrow> command_store \<Rightarrow> command_row option" where
  "run_by_id t rid s = find (\<lambda>r. cmd_id r = rid) (commands_of t s)"

definition run_by_key :: "tenant \<Rightarrow> string \<Rightarrow> command_store \<Rightarrow> command_row option" where
  "run_by_key t key s = find (\<lambda>r. cmd_key r = key) (commands_of t s)"

definition new_command_row :: "(string \<Rightarrow> string) \<Rightarrow> uuid \<Rightarrow> instant \<Rightarrow> command_request \<Rightarrow> string \<Rightarrow> command_row" where
  "new_command_row sha256 fresh now q key =
     \<lparr>cmd_id = fresh, cmd_name = req_name q, cmd_actor = req_actor q, cmd_scope = scope_payload (req_scope q),
      cmd_scope_digest = scope_digest (req_scope q), cmd_project = scope_project (req_scope q),
      cmd_conversation = scope_conversation (req_scope q), cmd_task = scope_task (req_scope q),
      cmd_input = req_input q, cmd_risk = req_risk q, cmd_status = Command_Created, cmd_key = key,
      cmd_fingerprint = command_request_fingerprint sha256 q, cmd_lease_owner = None, cmd_lease_until = None,
      cmd_lease_fence = 0, cmd_created_at = now, cmd_updated_at = now\<rparr>"

definition create_run ::
  "(string \<Rightarrow> string) \<Rightarrow> tenant \<Rightarrow> (nat \<Rightarrow> uuid) \<Rightarrow> clock \<Rightarrow> command_request \<Rightarrow> string \<Rightarrow> command_store \<Rightarrow>
   ledger_error + command_store \<times> command_row" where
  "create_run sha256 t ids clk q key s =
     (let new = new_command_row sha256 (ids 0) (clk 0) q key;
          inserted = (run_by_key t key s = None);
          s1 = (if inserted then s\<lparr>command_runs_t := insert_rows t [new] (command_runs_t s)\<rparr> else s)
      in if inserted \<and> run_by_id t (ids 0) s \<noteq> None then Inl Integrity_Violation
         else case run_by_key t key s1 of
           None \<Rightarrow> Inl Assertion_Failed
         | Some row \<Rightarrow>
             if cmd_fingerprint row \<noteq> cmd_fingerprint new then Inl (Raised IdempotencyConflictError)
             else if inserted
             then rbind (append_run_event t (ids 1) (clk 1) row ''command.created'' Visible_User
                    (''Command created: '' @ req_name q)
                    [(''command_name'', JString (req_name q)), (''status'', JString (status_value Command_Created))] s1)
                    (\<lambda>(s2, _). Inr (s2, row))
             else Inr (s1, row))"

definition active_run_for_task :: "tenant \<Rightarrow> uuid \<Rightarrow> string \<Rightarrow> command_store \<Rightarrow> command_row option" where
  "active_run_for_task t for_task name s =
     (case rev (sort_key (\<lambda>r. (cmd_updated_at r, cmd_id r)) (filter (\<lambda>r. cmd_task r = for_task \<and> cmd_name r = name
            \<and> cmd_status r \<in> {Command_Created, Command_Queued, Command_Waiting_Approval, Command_Running, Command_Interrupted})
          (commands_of t s))) of
        [] \<Rightarrow> None | r # _ \<Rightarrow> Some r)"

text \<open>
  \<open>_lease_predicates\<close>: no predicates when the run is not leased, or the ones that the \<open>UPDATE\<close>
  repeats.
\<close>

definition lease_predicates ::
  "command_row \<Rightarrow> string option \<Rightarrow> int option \<Rightarrow> instant \<Rightarrow> ledger_error + (command_row \<Rightarrow> bool) option" where
  "lease_predicates row owner fence now =
     (if cmd_status row \<noteq> Command_Running \<or> cmd_lease_owner row = None
      then (if owner \<noteq> None \<or> fence \<noteq> None then Inl (Raised WorkerFenceError) else Inr None)
      else if owner \<noteq> cmd_lease_owner row \<or> fence \<noteq> Some (cmd_lease_fence row) then Inl (Raised WorkerFenceError)
      else case cmd_lease_until row of
        None \<Rightarrow> Inl (Raised WorkerFenceError)
      | Some until \<Rightarrow> if until \<le> now then Inl (Raised WorkerFenceError)
          else Inr (Some (\<lambda>r. cmd_lease_owner r = owner \<and> fence = Some (cmd_lease_fence r)
            \<and> (case cmd_lease_until r of None \<Rightarrow> False | Some u \<Rightarrow> now < u))))"

definition holds_if :: "('a \<Rightarrow> bool) option \<Rightarrow> 'a \<Rightarrow> bool" where
  "holds_if p x = (case p of None \<Rightarrow> True | Some q \<Rightarrow> q x)"

abbreviation update_commands ::
  "tenant \<Rightarrow> (command_row \<Rightarrow> bool) \<Rightarrow> (command_row \<Rightarrow> command_row) \<Rightarrow> command_store \<Rightarrow> command_store" where
  "update_commands t p f s \<equiv> s\<lparr>command_runs_t := update_where t p f (command_runs_t s)\<rparr>"

text \<open>
  What \<open>transition\<close> and \<open>finish\<close> share: the checks and the \<open>UPDATE\<close> that ends the lease. An
  \<open>UPDATE\<close> that does not hit exactly one row is an error.
\<close>

definition move_run ::
  "tenant \<Rightarrow> uuid \<Rightarrow> command_status \<Rightarrow> string option \<Rightarrow> int option \<Rightarrow> instant \<Rightarrow> command_store \<Rightarrow>
   ledger_error + command_store \<times> command_row" where
  "move_run t rid status owner fence now s =
     (case run_by_id t rid s of
        None \<Rightarrow> Inl (Raised KeyError)
      | Some row \<Rightarrow>
          if status \<notin> command_transitions (cmd_status row) then Inl (Raised (InvalidTransitionError ''cannot transition CommandRun''))
          else rbind (lease_predicates row owner fence now) (\<lambda>predicates.
            let matches = (\<lambda>r. cmd_id r = rid \<and> cmd_status r = cmd_status row \<and> holds_if predicates r);
                s1 = update_commands t matches
                  (\<lambda>r. r\<lparr>cmd_status := status, cmd_lease_owner := None, cmd_lease_until := None, cmd_updated_at := now\<rparr>) s
            in if length (select_where t matches (command_runs_t s)) \<noteq> 1
               then Inl (Raised (if cmd_lease_owner row \<noteq> None then WorkerFenceError
                                 else InvalidTransitionError ''command status changed concurrently''))
               else case run_by_id t rid s1 of None \<Rightarrow> Inl Assertion_Failed | Some updated \<Rightarrow> Inr (s1, updated)))"

definition status_event :: "command_status \<Rightarrow> string" where
  "status_event status = ''command.'' @ status_value status"

definition transition_run ::
  "tenant \<Rightarrow> (nat \<Rightarrow> uuid) \<Rightarrow> clock \<Rightarrow> uuid \<Rightarrow> command_status \<Rightarrow> string option \<Rightarrow> int option \<Rightarrow> command_store \<Rightarrow>
   ledger_error + command_store \<times> command_row" where
  "transition_run t ids clk rid status owner fence s =
     (if status = Command_Running then Inl (Raised (InvalidTransitionError ''use claim() to enter the running state''))
      else rbind (move_run t rid status owner fence (clk 0) s) (\<lambda>(s1, updated).
        rbind (append_run_event t (ids 0) (clk 1) updated (status_event status) Visible_User
                 (''Command '' @ status_value status) [(''status'', JString (status_value status))] s1)
          (\<lambda>(s2, _). Inr (s2, updated))))"

text \<open>The payload of the closing event carries a \<open>public_summary\<close> that is a text.\<close>

definition closing_payload :: "command_status \<Rightarrow> (string \<times> json) list \<Rightarrow> (string \<times> json) list" where
  "closing_payload status payload = (''status'', JString (status_value status)) #
     (case map_of payload ''public_summary'' of Some (JString x) \<Rightarrow> [(''public_summary'', JString x)] | _ \<Rightarrow> [])"

definition finish_run ::
  "tenant \<Rightarrow> (nat \<Rightarrow> uuid) \<Rightarrow> clock \<Rightarrow> uuid \<Rightarrow> command_status \<Rightarrow> string \<Rightarrow> event_visibility \<Rightarrow> string \<Rightarrow>
   (string \<times> json) list \<Rightarrow> string option \<Rightarrow> int option \<Rightarrow> command_store \<Rightarrow> ledger_error + command_store \<times> command_row" where
  "finish_run t ids clk rid status event_type visibility message payload owner fence s =
     (if status \<notin> {Command_Succeeded, Command_Failed} then Inl (Raised (ValueError ''finish status must be succeeded or failed''))
      else rbind (move_run t rid status owner fence (clk 0) s) (\<lambda>(s1, updated).
        rbind (append_run_event t (ids 0) (clk 1) updated event_type visibility message payload s1) (\<lambda>(s2, _).
        rbind (append_run_event t (ids 1) (clk 2) updated (status_event status) Visible_User
                 (''Command '' @ status_value status) (closing_payload status payload) s2)
          (\<lambda>(s3, _). Inr (s3, updated)))))"

definition append_event ::
  "tenant \<Rightarrow> (nat \<Rightarrow> uuid) \<Rightarrow> clock \<Rightarrow> uuid \<Rightarrow> string \<Rightarrow> event_visibility \<Rightarrow> string \<Rightarrow> (string \<times> json) list \<Rightarrow>
   string option \<Rightarrow> int option \<Rightarrow> command_store \<Rightarrow> ledger_error + command_store \<times> event_row" where
  "append_event t ids clk rid event_type visibility message payload owner fence s =
     (case run_by_id t rid s of
        None \<Rightarrow> Inl (Raised KeyError)
      | Some row \<Rightarrow> rbind (lease_predicates row owner fence (clk 0)) (\<lambda>predicates.
          case predicates of
            None \<Rightarrow> append_run_event t (ids 0) (clk 1) row event_type visibility message payload s
          | Some p \<Rightarrow>
              let matches = (\<lambda>r. cmd_id r = rid \<and> cmd_status r = Command_Running \<and> p r);
                  s1 = update_commands t matches (\<lambda>r. r\<lparr>cmd_lease_fence := (case fence of None \<Rightarrow> 0 | Some f \<Rightarrow> f)\<rparr>) s
              in if length (select_where t matches (command_runs_t s)) \<noteq> 1 then Inl (Raised WorkerFenceError)
                 else case run_by_id t rid s1 of
                   None \<Rightarrow> Inl Assertion_Failed
                 | Some run \<Rightarrow> append_run_event t (ids 0) (clk 1) run event_type visibility message payload s1))"

section \<open>Leases\<close>

text \<open>\<open>str(n)\<close> of an integer, as JSON prints it.\<close>

fun digits :: "nat \<Rightarrow> string" where
  "digits n = (if n < 10 then [char_of (48 + n)] else digits (n div 10) @ [char_of (48 + n mod 10)])"

definition show_int :: "int \<Rightarrow> string" where
  "show_int n = (if n < 0 then CHR ''-'' # digits (nat (- n)) else digits (nat n))"

definition lapsed :: "instant \<Rightarrow> command_row \<Rightarrow> bool" where
  "lapsed now r \<longleftrightarrow> cmd_status r = Command_Running \<and> (case cmd_lease_until r of None \<Rightarrow> False | Some u \<Rightarrow> u \<le> now)"

definition claimable :: "instant \<Rightarrow> command_row \<Rightarrow> bool" where
  "claimable now r \<longleftrightarrow> cmd_status r = Command_Queued \<or> lapsed now r"

text \<open>
  The \<open>UPDATE\<close> and the event of a claim, which \<open>claim\<close> and \<open>claim_next\<close> share. The result is
  \<open>None\<close> when the \<open>UPDATE\<close> does not hit its row.
\<close>

definition take_lease ::
  "tenant \<Rightarrow> uuid \<Rightarrow> instant \<Rightarrow> instant \<Rightarrow> command_row \<Rightarrow> string \<Rightarrow> instant \<Rightarrow> command_store \<Rightarrow>
   ledger_error + (command_store \<times> command_row) option" where
  "take_lease t event_id now event_at row worker lease_until s =
     (let reclaiming = (cmd_status row = Command_Running);
          matches = (\<lambda>r. cmd_id r = cmd_id row \<and> cmd_status r = cmd_status row \<and> cmd_lease_fence r = cmd_lease_fence row
             \<and> (reclaiming \<longrightarrow> lapsed now r));
          s1 = update_commands t matches (\<lambda>r. r\<lparr>cmd_status := Command_Running, cmd_lease_owner := Some worker,
             cmd_lease_until := Some lease_until, cmd_lease_fence := cmd_lease_fence row + 1, cmd_updated_at := now\<rparr>) s
      in if length (select_where t matches (command_runs_t s)) \<noteq> 1 then Inr None
         else case run_by_id t (cmd_id row) s1 of
           None \<Rightarrow> Inl Assertion_Failed
         | Some updated \<Rightarrow> rbind (append_run_event t event_id event_at updated
               (if reclaiming then ''command.reclaimed'' else ''command.running'') Visible_User
               (if reclaiming then ''Command reclaimed after worker interruption'' else ''Command running'')
               [(''status'', JString (status_value Command_Running)), (''lease_fence'', JNumber (show_int (cmd_lease_fence row + 1)))] s1)
               (\<lambda>(s2, _). Inr (Some (s2, updated))))"

definition claim_run ::
  "tenant \<Rightarrow> (nat \<Rightarrow> uuid) \<Rightarrow> clock \<Rightarrow> uuid \<Rightarrow> string \<Rightarrow> instant \<Rightarrow> command_store \<Rightarrow>
   ledger_error + command_store \<times> command_row" where
  "claim_run t ids clk rid worker lease_until s =
     (let now = clk 0 in
      rbind (ensure
        [(strip worker = [], Raised (ValueError ''worker_id must not be empty'')),
         (lease_until \<le> now, Raised (ValueError ''lease_until must be in the future''))] ()) (\<lambda>_.
      case run_by_id t rid s of
        None \<Rightarrow> Inl (Raised KeyError)
      | Some row \<Rightarrow>
          if \<not> claimable now row then Inl (Raised (InvalidTransitionError ''cannot claim CommandRun''))
          else rbind (take_lease t (ids 0) now (clk 1) row (strip worker) lease_until s) (\<lambda>result.
            case result of
              None \<Rightarrow> Inl (Raised (InvalidTransitionError ''command claim changed concurrently''))
            | Some (s', updated) \<Rightarrow> Inr (s', updated))))"

text \<open>The runs that can be claimed, the oldest first.\<close>

definition claim_queue :: "tenant \<Rightarrow> instant \<Rightarrow> command_store \<Rightarrow> command_row list" where
  "claim_queue t now s = sort_key (\<lambda>r. (cmd_created_at r, cmd_id r)) (filter (claimable now) (commands_of t s))"

definition claim_next ::
  "tenant \<Rightarrow> (nat \<Rightarrow> uuid) \<Rightarrow> clock \<Rightarrow> string \<Rightarrow> instant \<Rightarrow> command_store \<Rightarrow>
   ledger_error + command_store \<times> command_row option" where
  "claim_next t ids clk worker lease_until s =
     (let now = clk 0 in
      if lease_until \<le> now then Inl (Raised (ValueError ''lease_until must be in the future''))
      else case claim_queue t now s of
        [] \<Rightarrow> Inr (s, None)
      | row # _ \<Rightarrow> rbind (take_lease t (ids 0) now (clk 1) row worker lease_until s) (\<lambda>result.
          case result of None \<Rightarrow> Inr (s, None) | Some (s', updated) \<Rightarrow> Inr (s', Some updated)))"

definition holds_lease :: "uuid \<Rightarrow> string \<Rightarrow> int \<Rightarrow> command_row \<Rightarrow> bool" where
  "holds_lease rid owner fence r \<longleftrightarrow> cmd_id r = rid \<and> cmd_status r = Command_Running
     \<and> cmd_lease_owner r = Some owner \<and> cmd_lease_fence r = fence"

definition abandon_run ::
  "tenant \<Rightarrow> instant \<Rightarrow> uuid \<Rightarrow> string \<Rightarrow> int \<Rightarrow> command_store \<Rightarrow> command_store \<times> bool" where
  "abandon_run t now rid owner fence s =
     (case run_by_id t rid s of
        None \<Rightarrow> (s, False)
      | Some row \<Rightarrow>
          if \<not> holds_lease rid owner fence row then (s, False)
          else (update_commands t (holds_lease rid owner fence)
                  (\<lambda>r. r\<lparr>cmd_lease_until := Some now, cmd_updated_at := now\<rparr>) s,
                length (select_where t (holds_lease rid owner fence) (command_runs_t s)) = 1))"

definition renew_run ::
  "tenant \<Rightarrow> instant \<Rightarrow> uuid \<Rightarrow> string \<Rightarrow> int \<Rightarrow> instant \<Rightarrow> command_store \<Rightarrow> ledger_error + command_store \<times> bool" where
  "renew_run t now rid owner fence lease_until s =
     (if lease_until \<le> now then Inl (Raised (ValueError ''lease_until must be in the future''))
      else let matches = (\<lambda>r. holds_lease rid owner fence r \<and> (case cmd_lease_until r of None \<Rightarrow> False | Some u \<Rightarrow> now < u))
        in Inr (update_commands t matches (\<lambda>r. r\<lparr>cmd_lease_until := Some lease_until, cmd_updated_at := now\<rparr>) s,
                length (select_where t matches (command_runs_t s)) = 1))"

section \<open>Reading the log\<close>

text \<open>\<open>_event_stream_predicates\<close>: no visibility at all means no stream.\<close>

definition visible_events :: "tenant \<Rightarrow> event_visibility set option \<Rightarrow> command_store \<Rightarrow> event_row list option" where
  "visible_events t allowed s =
     (case allowed of
        None \<Rightarrow> Some (events_of t s)
      | Some vs \<Rightarrow> if vs = {} then None else Some (filter (\<lambda>e. ev_visibility e \<in> vs) (events_of t s)))"

definition events_after ::
  "tenant \<Rightarrow> int \<Rightarrow> int option \<Rightarrow> event_visibility set option \<Rightarrow> command_store \<Rightarrow> ledger_error + event_row list" where
  "events_after t cursor limit allowed s =
     (if cursor < 0 then Inl (Raised (ValueError ''cursor cannot be negative''))
      else if (case limit of None \<Rightarrow> False | Some n \<Rightarrow> \<not> (1 \<le> n \<and> n \<le> 2000))
      then Inl (Raised (ValueError ''limit must be between 1 and 2000''))
      else case visible_events t allowed s of
        None \<Rightarrow> Inr []
      | Some es \<Rightarrow> let ordered = sort_key ev_cursor (filter (\<lambda>e. cursor < ev_cursor e) es)
          in Inr (case limit of None \<Rightarrow> ordered | Some n \<Rightarrow> take (nat n) ordered))"

definition events_for_run :: "tenant \<Rightarrow> uuid \<Rightarrow> command_store \<Rightarrow> event_row list" where
  "events_for_run t rid s = sort_key ev_cursor (filter (\<lambda>e. ev_run e = Some rid) (events_of t s))"

definition current_cursor :: "tenant \<Rightarrow> command_store \<Rightarrow> int" where
  "current_cursor t s = (case map ev_cursor (events_of t s) of [] \<Rightarrow> 0 | c # cs \<Rightarrow> foldl max c cs)"

definition oldest_cursor :: "event_row list \<Rightarrow> int" where
  "oldest_cursor es = (case map ev_cursor es of [] \<Rightarrow> 0 | c # cs \<Rightarrow> foldl min c cs)"

definition latest_cursor :: "event_row list \<Rightarrow> int" where
  "latest_cursor es = (case map ev_cursor es of [] \<Rightarrow> 0 | c # cs \<Rightarrow> foldl max c cs)"

definition stream_state ::
  "tenant \<Rightarrow> uuid \<Rightarrow> instant \<Rightarrow> event_visibility set option \<Rightarrow> command_store \<Rightarrow>
   ledger_error + command_store \<times> stream_bounds" where
  "stream_state t candidate now allowed s =
     (let missing = (rows t (event_ledgers_t s) = []);
          s1 = (if missing then s\<lparr>event_ledgers_t := insert_rows t [(candidate, now)] (event_ledgers_t s)\<rparr> else s);
          es = (case visible_events t allowed s of None \<Rightarrow> [] | Some es \<Rightarrow> es)
      in if missing \<and> candidate \<in> (fst \<circ> snd) ` set (event_ledgers_t s) then Inl Integrity_Violation
         else Inr (s1, \<lparr>stream_ledger = fst (hd (rows t (event_ledgers_t s1))),
            stream_oldest = oldest_cursor es, stream_latest = latest_cursor es\<rparr>))"

text \<open>
  \<open>has_domain_event\<close>: an event whose payload has every item of the given one, where a missing key
  reads as \<open>None\<close>. Python's equality of JSON values is the parameter \<open>same\<close>.
\<close>

definition has_domain_event ::
  "(json \<Rightarrow> json \<Rightarrow> bool) \<Rightarrow> tenant \<Rightarrow> string \<Rightarrow> uuid option \<Rightarrow> uuid option \<Rightarrow> (string \<times> json) list \<Rightarrow> command_store \<Rightarrow> bool" where
  "has_domain_event same t event_type project_id conversation payload s \<longleftrightarrow>
     list_ex (\<lambda>e. ev_type e = event_type \<and> ev_project e = project_id \<and> ev_conversation e = conversation
       \<and> list_all (\<lambda>(k, v). same (case map_of (ev_payload e) k of None \<Rightarrow> JNull | Some x \<Rightarrow> x) v) payload) (events_of t s)"

end
