(* ===== verification/Command_Log.thy ===== *)
theory Command_Log
  imports Command_Ledger Domain_Lifecycle
begin

text \<open>
  The ledger as a state machine, and its event log: what one appended event does, and that the
  log stays numbered. Cursors rise along the whole log, and the run events of each task carry the
  numbers 1, 2, 3 and so on without a gap, which is what lets a reader follow it.
\<close>

section \<open>Calls\<close>

datatype ledger_call =
    Create_Run command_request string
  | Transition_Run uuid command_status "string option" "int option"
  | Append_Event uuid string event_visibility string "(string \<times> json) list" "string option" "int option"
  | Append_Domain_Event string event_visibility string "(string \<times> json) list" string "uuid option" "uuid option"
      "uuid option" "uuid option"
  | Finish_Run uuid command_status string event_visibility string "(string \<times> json) list" "string option" "int option"
  | Claim_Run uuid string instant
  | Claim_Next string instant
  | Abandon_Run uuid string int
  | Renew_Run uuid string int instant
  | Stream_State "event_visibility set option"

datatype ledger_answer =
    Answer_Run command_row | Answer_Claim "command_row option" | Answer_Event event_row | Answer_Bool bool
  | Answer_Bounds stream_bounds

definition answer :: "('a \<Rightarrow> ledger_answer) \<Rightarrow> ledger_error + command_store \<times> 'a \<Rightarrow> ledger_error + command_store \<times> ledger_answer" where
  "answer f = map_sum id (map_prod id f)"

fun exec_ledger ::
  "(string \<Rightarrow> string) \<Rightarrow> tenant \<Rightarrow> (nat \<Rightarrow> uuid) \<Rightarrow> clock \<Rightarrow> ledger_call \<Rightarrow> command_store \<Rightarrow>
   ledger_error + command_store \<times> ledger_answer" where
  "exec_ledger sha256 t ids clk (Create_Run q key) s = answer Answer_Run (create_run sha256 t ids clk q key s)"
| "exec_ledger sha256 t ids clk (Transition_Run rid status owner fence) s =
     answer Answer_Run (transition_run t ids clk rid status owner fence s)"
| "exec_ledger sha256 t ids clk (Append_Event rid event_type vis msg payload owner fence) s =
     answer Answer_Event (append_event t ids clk rid event_type vis msg payload owner fence s)"
| "exec_ledger sha256 t ids clk (Append_Domain_Event event_type vis msg payload actor p c k v) s =
     answer Answer_Event (append_domain_event t (ids 0) (clk 0) event_type vis msg payload actor p c k v s)"
| "exec_ledger sha256 t ids clk (Finish_Run rid status event_type vis msg payload owner fence) s =
     answer Answer_Run (finish_run t ids clk rid status event_type vis msg payload owner fence s)"
| "exec_ledger sha256 t ids clk (Claim_Run rid worker until) s = answer Answer_Run (claim_run t ids clk rid worker until s)"
| "exec_ledger sha256 t ids clk (Claim_Next worker until) s = answer Answer_Claim (claim_next t ids clk worker until s)"
| "exec_ledger sha256 t ids clk (Abandon_Run rid owner fence) s =
     Inr (map_prod id Answer_Bool (abandon_run t (clk 0) rid owner fence s))"
| "exec_ledger sha256 t ids clk (Renew_Run rid owner fence until) s =
     answer Answer_Bool (renew_run t (clk 0) rid owner fence until s)"
| "exec_ledger sha256 t ids clk (Stream_State allowed) s =
     answer Answer_Bounds (stream_state t (ids 0) (clk 0) allowed s)"

definition ledger_step :: "(string \<Rightarrow> string) \<Rightarrow> command_store \<Rightarrow> command_store \<Rightarrow> bool" where
  "ledger_step sha256 s s' \<longleftrightarrow> (\<exists>t ids clk call a. exec_ledger sha256 t ids clk call s = Inr (s', a))"

lemma answer_Inr: "answer f m = Inr (s', a) \<longleftrightarrow> (\<exists>x. m = Inr (s', x) \<and> a = f x)"
  by (cases m) (auto simp: answer_def)

section \<open>One event\<close>

definition last_number :: "tenant \<Rightarrow> uuid \<Rightarrow> command_store \<Rightarrow> int" where
  "last_number t k s = (case last_sequence t k s of None \<Rightarrow> 0 | Some n \<Rightarrow> n)"

lemma insert_event_Inr:
  "insert_event t e s = Inr (s', row) \<longleftrightarrow> row = e\<lparr>ev_cursor := next_cursor s\<rparr>
     \<and> s' = s\<lparr>domain_events_t := domain_events_t s @ [(t, row)]\<rparr> \<and> ev_id e \<notin> ev_id ` set (events_of t s)
     \<and> (ev_task e \<noteq> None \<and> ev_task_sequence e \<noteq> None
        \<longrightarrow> (ev_task e, ev_task_sequence e) \<notin> (\<lambda>x. (ev_task x, ev_task_sequence x)) ` set (events_of t s))"
  by (auto simp: insert_event_def Let_def insert_rows_def)

lemma map_of_bump:
  "map_of (map (upd_row (\<lambda>x. fst x = k) (\<lambda>x. (fst x, snd x + 1))) xs) j
    = (if j = k then map_option (\<lambda>n. n + 1) (map_of xs j) else map_of xs j)"
  by (induction xs) (auto simp: upd_row_def)

lemma advance_sequence_eq:
  assumes "advance_sequence t k s = (s', n)"
  shows "n = last_number t k s + 1" and "command_runs_t s' = command_runs_t s" and "domain_events_t s' = domain_events_t s"
    and "event_ledgers_t s' = event_ledgers_t s"
    and "last_number t' j s' = (if t' = t \<and> j = k then n else last_number t' j s)"
proof -
  have s': "s' = (case last_sequence t k s of
        None \<Rightarrow> s\<lparr>task_sequences_t := insert_rows t [(k, 1)] (task_sequences_t s)\<rparr>
      | Some m \<Rightarrow> s\<lparr>task_sequences_t := update_where t (\<lambda>x. fst x = k) (\<lambda>x. (fst x, snd x + 1)) (task_sequences_t s)\<rparr>)"
    and n: "n = last_number t k s + 1"
    using assms by (auto simp: advance_sequence_def last_number_def split: option.splits)
  show "n = last_number t k s + 1"
    by (rule n)
  show "command_runs_t s' = command_runs_t s" "domain_events_t s' = domain_events_t s" "event_ledgers_t s' = event_ledgers_t s"
    by (simp_all add: s' split: option.split)
  show "last_number t' j s' = (if t' = t \<and> j = k then n else last_number t' j s)"
  proof (cases "t' = t")
    case True
    then show ?thesis
      unfolding n by (cases "last_sequence t k s")
        (auto simp: s' last_number_def last_sequence_def map_of_bump map_add_def split: option.split)
  next
    case False
    then show ?thesis
      by (auto simp: s' last_number_def last_sequence_def split: option.split)
  qed
qed

text \<open>The effect of appending the event of a run.\<close>

definition appended :: "tenant \<Rightarrow> command_row \<Rightarrow> string \<Rightarrow> event_row \<Rightarrow> command_store \<Rightarrow> command_store \<Rightarrow> bool" where
  "appended t run event_type e s s' \<longleftrightarrow> ev_cursor e = next_cursor s \<and> ev_id e \<notin> ev_id ` set (events_of t s)
     \<and> ev_run e = Some (cmd_id run) \<and> ev_task e = Some (cmd_task run) \<and> ev_type e = event_type
     \<and> ev_task_sequence e = Some (last_number t (cmd_task run) s + 1)
     \<and> domain_events_t s' = domain_events_t s @ [(t, e)]
     \<and> command_runs_t s' = command_runs_t s \<and> event_ledgers_t s' = event_ledgers_t s
     \<and> (\<forall>t' j. last_number t' j s' = (if t' = t \<and> j = cmd_task run then last_number t' j s + 1 else last_number t' j s))"

lemma append_run_event_Inr:
  assumes "append_run_event t i now run event_type vis msg payload s = Inr (s', e)"
  shows "appended t run event_type e s s'"
proof -
  obtain s1 n where adv: "advance_sequence t (cmd_task run) s = (s1, n)"
    by (cases "advance_sequence t (cmd_task run) s")
  note eff = advance_sequence_eq[OF adv]
  have "next_cursor s1 = next_cursor s"
    by (simp add: next_cursor_def eff(3))
  moreover have "last_number t' j (s1\<lparr>domain_events_t := x\<rparr>) = last_number t' j s1" for t' j x
    by (simp add: last_number_def last_sequence_def)
  ultimately show ?thesis
    using assms adv eff unfolding append_run_event_def appended_def
    by (auto simp: insert_event_Inr)
qed

section \<open>The log is numbered\<close>

definition run_events :: "tenant \<Rightarrow> uuid \<Rightarrow> command_store \<Rightarrow> event_row list" where
  "run_events t k s = filter (\<lambda>e. ev_task e = Some k \<and> ev_task_sequence e \<noteq> None) (events_of t s)"

definition numbered :: "command_store \<Rightarrow> bool" where
  "numbered s \<longleftrightarrow> sorted_wrt (<) (map (ev_cursor \<circ> snd) (domain_events_t s))
     \<and> (\<forall>x\<in>set (domain_events_t s). 0 < ev_cursor (snd x))
     \<and> (\<forall>t k. 0 \<le> last_number t k s \<and> map ev_task_sequence (run_events t k s) = map Some [1..last_number t k s])
     \<and> (\<forall>t. distinct (map ev_id (events_of t s)))"

lemma foldl_max_less: "(x::int) < c \<Longrightarrow> \<forall>y\<in>set xs. y < c \<Longrightarrow> foldl max x xs < c"
  by (induction xs arbitrary: x) auto

lemma foldl_max_ge: "x \<le> foldl max (x::int) xs \<and> (\<forall>y\<in>set xs. y \<le> foldl max x xs)"
proof (induction xs arbitrary: x)
  case (Cons y ys)
  then have "max x y \<le> foldl max (max x y) ys \<and> (\<forall>z\<in>set ys. z \<le> foldl max (max x y) ys)"
    by blast
  then show ?case by simp
qed simp

lemma next_cursor_greater: "x \<in> set (domain_events_t s) \<Longrightarrow> ev_cursor (snd x) < next_cursor s" "0 < next_cursor s"
  using foldl_max_ge[of 0 "map (ev_cursor \<circ> snd) (domain_events_t s)"] by (force simp: next_cursor_def)+

lemma rows_append: "rows t (tb @ [(t', r)]) = (if t = t' then rows t tb @ [r] else rows t tb)"
  by (simp add: rows_def)

lemma numbered_appended:
  assumes "appended t run event_type e s s'" and "numbered s"
  shows "numbered s'"
proof -
  have ev: "domain_events_t s' = domain_events_t s @ [(t, e)]" "ev_cursor e = next_cursor s"
    "ev_id e \<notin> ev_id ` set (events_of t s)" "ev_task e = Some (cmd_task run)"
    "ev_task_sequence e = Some (last_number t (cmd_task run) s + 1)"
    and num: "\<And>t' j. last_number t' j s' = (if t' = t \<and> j = cmd_task run then last_number t' j s + 1 else last_number t' j s)"
    using assms(1) by (simp_all add: appended_def)
  have "0 \<le> last_number t' k s' \<and> map ev_task_sequence (run_events t' k s') = map Some [1..last_number t' k s']" for t' k
  proof (cases "t' = t \<and> k = cmd_task run")
    case True
    have "0 \<le> last_number t k s" and IH: "map ev_task_sequence (run_events t k s) = map Some [1..last_number t k s]"
      using assms(2) by (simp_all add: numbered_def)
    moreover have "run_events t' k s' = run_events t k s @ [e]"
      using True by (simp add: run_events_def ev rows_append)
    ultimately show ?thesis
      using True num[of t' k] ev(5) upto_rec2[of 1 "last_number t k s + 1"] by auto
  next
    case False
    then have "run_events t' k s' = run_events t' k s"
      by (auto simp: run_events_def ev rows_append)
    then show ?thesis
      using False num[of t' k] assms(2) by (auto simp: numbered_def)
  qed
  moreover have "distinct (map ev_id (events_of t' s'))" for t'
    using assms(2) ev(3) by (simp add: numbered_def ev(1) rows_append)
  ultimately show ?thesis
    using assms(2) next_cursor_greater(1)[of _ s] next_cursor_greater(2)[of s] by (auto simp: numbered_def ev(1,2) sorted_wrt_append)
qed

text \<open>An event of the domain carries no number.\<close>

lemma numbered_domain_event:
  assumes "append_domain_event t i now event_type vis msg payload actor p c k v s = Inr (s', e)" and "numbered s"
  shows "numbered s'"
proof -
  have ev: "domain_events_t s' = domain_events_t s @ [(t, e)]" "ev_cursor e = next_cursor s"
    "ev_id e \<notin> ev_id ` set (events_of t s)" "ev_task_sequence e = None"
    and num: "\<And>t' j. last_number t' j s' = last_number t' j s"
    using assms(1) by (auto simp: append_domain_event_def insert_event_Inr last_number_def last_sequence_def)
  have "run_events t' j s' = run_events t' j s" for t' j
    by (simp add: run_events_def ev rows_append)
  then show ?thesis
    using assms(2) next_cursor_greater(1)[of _ s] next_cursor_greater(2)[of s] num ev(3)
    by (auto simp: numbered_def ev(1,2) sorted_wrt_append rows_append)
qed

lemma numbered_cong:
  "domain_events_t s' = domain_events_t s \<Longrightarrow> task_sequences_t s' = task_sequences_t s \<Longrightarrow> numbered s' = numbered s"
  by (simp add: numbered_def run_events_def last_number_def last_sequence_def)

end
