(* ===== verification/Command_Machine.thy ===== *)
theory Command_Machine
  imports Command_Log
begin

text \<open>
  What every call of the ledger does to the runs and the log of its tenant, as one relation with
  a case per kind of change, and the invariant that follows from it: keys are unique, exactly the
  running commands hold a lease, and the log is numbered.
\<close>

section \<open>Rows\<close>

definition lease_shape :: "command_row \<Rightarrow> bool" where
  "lease_shape r \<longleftrightarrow> (cmd_status r = Command_Running \<longleftrightarrow> cmd_lease_owner r \<noteq> None)
     \<and> (cmd_lease_owner r = None \<longleftrightarrow> cmd_lease_until r = None) \<and> 0 \<le> cmd_lease_fence r"

definition commands_ok :: "tenant \<Rightarrow> command_store \<Rightarrow> bool" where
  "commands_ok t s \<longleftrightarrow> distinct (map cmd_id (commands_of t s)) \<and> distinct (map cmd_key (commands_of t s))
     \<and> (\<forall>r\<in>set (commands_of t s). lease_shape r)"

lemma run_by_id_Some: "run_by_id t rid s = Some row \<Longrightarrow> row \<in> set (commands_of t s) \<and> cmd_id row = rid"
  by (auto simp: run_by_id_def find_Some_iff dest: nth_mem)

lemma run_by_key_Some: "run_by_key t key s = Some row \<Longrightarrow> row \<in> set (commands_of t s) \<and> cmd_key row = key"
  by (auto simp: run_by_key_def find_Some_iff dest: nth_mem)

lemma run_by_id_None: "run_by_id t rid s = None \<longleftrightarrow> rid \<notin> cmd_id ` set (commands_of t s)"
  by (auto simp: run_by_id_def find_None_iff)

lemma run_by_key_None: "run_by_key t key s = None \<longleftrightarrow> key \<notin> cmd_key ` set (commands_of t s)"
  by (auto simp: run_by_key_def find_None_iff)

lemma same_id_row:
  "commands_ok t s \<Longrightarrow> r \<in> set (commands_of t s) \<Longrightarrow> r' \<in> set (commands_of t s) \<Longrightarrow> cmd_id r = cmd_id r' \<Longrightarrow> r = r'"
  unfolding commands_ok_def using distinct_map_unique by metis

lemma run_by_id_row: "commands_ok t s \<Longrightarrow> r \<in> set (commands_of t s) \<Longrightarrow> run_by_id t (cmd_id r) s = Some r"
proof (cases "run_by_id t (cmd_id r) s")
  case None
  then show "r \<in> set (commands_of t s) \<Longrightarrow> ?thesis"
    using run_by_id_None[of t "cmd_id r" s] by blast
next
  case (Some r')
  then show "commands_ok t s \<Longrightarrow> r \<in> set (commands_of t s) \<Longrightarrow> ?thesis"
    using run_by_id_Some[OF Some] same_id_row[of t s r' r] by simp
qed

text \<open>One row replaced by another with its id.\<close>

definition changed :: "tenant \<Rightarrow> command_row \<Rightarrow> command_row \<Rightarrow> command_store \<Rightarrow> command_store \<Rightarrow> bool" where
  "changed t row row' s s' \<longleftrightarrow> row \<in> set (commands_of t s) \<and> cmd_id row' = cmd_id row \<and> cmd_key row' = cmd_key row
     \<and> cmd_task row' = cmd_task row \<and> cmd_fingerprint row' = cmd_fingerprint row
     \<and> s' = s\<lparr>command_runs_t := update_where t (\<lambda>r. cmd_id r = cmd_id row) (\<lambda>_. row') (command_runs_t s)\<rparr>"

lemma changed_commands:
  "changed t row row' s s' \<Longrightarrow> commands_of t' s' = (if t' = t
     then map (\<lambda>r. if cmd_id r = cmd_id row then row' else r) (commands_of t s) else commands_of t' s)"
  by (auto simp: changed_def upd_row_def)

lemma update_where_one:
  assumes "commands_ok t s" and "row \<in> set (commands_of t s)" and "\<And>r. p r \<Longrightarrow> cmd_id r = cmd_id row"
    and "length (select_where t p (command_runs_t s)) = 1"
  shows "update_where t p f (command_runs_t s) = update_where t (\<lambda>r. cmd_id r = cmd_id row) (\<lambda>_. f row) (command_runs_t s)"
    and "p row"
proof -
  obtain r where "r \<in> set (select_where t p (command_runs_t s))"
    using assms(4) by (cases "select_where t p (command_runs_t s)") auto
  then have "r \<in> set (commands_of t s)" and "p r"
    by simp_all
  then show "p row"
    using assms(2,3) same_id_row[OF assms(1)] by metis
  moreover have "fst x = t \<Longrightarrow> snd x \<in> set (commands_of t s)" if "x \<in> set (command_runs_t s)" for x
    using that by (force simp: rows_def)
  ultimately have hit: "p (snd x) \<longleftrightarrow> cmd_id (snd x) = cmd_id row" "p (snd x) \<Longrightarrow> snd x = row"
    if "x \<in> set (command_runs_t s)" "fst x = t" for x
    using that assms(2,3) same_id_row[OF assms(1)] by metis+
  show "update_where t p f (command_runs_t s)
      = update_where t (\<lambda>r. cmd_id r = cmd_id row) (\<lambda>_. f row) (command_runs_t s)"
    unfolding update_where_def
  proof (rule map_cong[OF refl])
    fix x
    assume x: "x \<in> set (command_runs_t s)"
    show "(if fst x = t \<and> p (snd x) then (fst x, f (snd x)) else x)
        = (if fst x = t \<and> cmd_id (snd x) = cmd_id row then (fst x, f row) else x)"
      using hit[OF x] by auto
  qed
qed

text \<open>An \<open>UPDATE\<close> that hit one row, which is then read again.\<close>

lemma updated_row:
  assumes "commands_ok t s" and "run_by_id t rid s = Some row" and "\<And>r. p r \<Longrightarrow> cmd_id r = rid"
    and "length (select_where t p (command_runs_t s)) = 1"
    and keeps: "cmd_id (f row) = cmd_id row" "cmd_key (f row) = cmd_key row" "cmd_task (f row) = cmd_task row"
      "cmd_fingerprint (f row) = cmd_fingerprint row"
  shows "changed t row (f row) s (update_commands t p f s)" and "run_by_id t rid (update_commands t p f s) = Some (f row)"
    and "p row"
proof -
  have row: "row \<in> set (commands_of t s)" "cmd_id row = rid"
    using run_by_id_Some[OF assms(2)] by simp_all
  note one = update_where_one[OF assms(1) row(1), of p, folded row(2), OF _ assms(4)]
  show c: "changed t row (f row) s (update_commands t p f s)"
    using one(1)[of f] assms(3) row keeps by (simp add: changed_def)
  show "p row"
    using one(2) assms(3) row by simp
  have "find (\<lambda>r. cmd_id r = rid) (map (\<lambda>r. if cmd_id r = rid then f row else r) xs) = Some (f row)"
    if "row \<in> set xs" for xs
    using that keeps(1) row(2) by (induction xs) auto
  moreover have "commands_of t (update_commands t p f s) = map (\<lambda>r. if cmd_id r = rid then f row else r) (commands_of t s)"
    using changed_commands[OF c, of t] row(2) by (simp only: if_True simp_thms)
  ultimately show "run_by_id t rid (update_commands t p f s) = Some (f row)"
    using row(1) by (simp only: run_by_id_def)
qed

section \<open>The effect of a call\<close>

text \<open>\<open>extra\<close> are the event types that the caller chose.\<close>

inductive ledger_effect :: "tenant \<Rightarrow> string list \<Rightarrow> command_store \<Rightarrow> command_store \<Rightarrow> bool" for t where
  quiet: "command_runs_t s' = command_runs_t s \<Longrightarrow> domain_events_t s' = domain_events_t s
    \<Longrightarrow> task_sequences_t s' = task_sequences_t s \<Longrightarrow> ledger_effect t [] s s'"
| created: "cmd_id row \<notin> cmd_id ` set (commands_of t s) \<Longrightarrow> cmd_key row \<notin> cmd_key ` set (commands_of t s)
    \<Longrightarrow> cmd_status row = Command_Created \<Longrightarrow> cmd_lease_owner row = None \<Longrightarrow> cmd_lease_until row = None
    \<Longrightarrow> cmd_lease_fence row = 0 \<Longrightarrow> s1 = s\<lparr>command_runs_t := insert_rows t [row] (command_runs_t s)\<rparr>
    \<Longrightarrow> appended t row ''command.created'' e s1 s' \<Longrightarrow> ledger_effect t [] s s'"
| moved: "changed t row row' s s1
    \<Longrightarrow> row' = row\<lparr>cmd_status := status, cmd_lease_owner := None, cmd_lease_until := None, cmd_updated_at := now\<rparr>
    \<Longrightarrow> status \<in> command_transitions (cmd_status row) \<Longrightarrow> status \<noteq> Command_Running
    \<Longrightarrow> appended t row' (status_event status) e s1 s' \<Longrightarrow> ledger_effect t [] s s'"
| finished: "changed t row row' s s1
    \<Longrightarrow> row' = row\<lparr>cmd_status := status, cmd_lease_owner := None, cmd_lease_until := None, cmd_updated_at := now\<rparr>
    \<Longrightarrow> status \<in> command_transitions (cmd_status row) \<Longrightarrow> status \<noteq> Command_Running
    \<Longrightarrow> appended t row' x e1 s1 s2 \<Longrightarrow> appended t row' (status_event status) e s2 s' \<Longrightarrow> ledger_effect t [x] s s'"
| leased: "changed t row row' s s1
    \<Longrightarrow> row' = row\<lparr>cmd_status := Command_Running, cmd_lease_owner := Some worker, cmd_lease_until := Some until,
          cmd_lease_fence := cmd_lease_fence row + 1, cmd_updated_at := now\<rparr> \<Longrightarrow> claimable now row
    \<Longrightarrow> appended t row' (if cmd_status row = Command_Running then ''command.reclaimed'' else ''command.running'') e s1 s'
    \<Longrightarrow> ledger_effect t [] s s'"
| extended: "changed t row row' s s' \<Longrightarrow> cmd_status row = Command_Running
    \<Longrightarrow> row' = row\<lparr>cmd_lease_until := Some until, cmd_updated_at := now\<rparr> \<Longrightarrow> ledger_effect t [] s s'"
| noted: "row \<in> set (commands_of t s) \<Longrightarrow> appended t row x e s s' \<Longrightarrow> ledger_effect t [x] s s'"
| domain_event: "append_domain_event t i now event_type vis msg payload actor p c k v s = Inr (s', e)
    \<Longrightarrow> ledger_effect t [] s s'"

fun extra_types :: "ledger_call \<Rightarrow> string list" where
  "extra_types (Append_Event rid event_type vis msg payload owner fence) = [event_type]"
| "extra_types (Finish_Run rid status event_type vis msg payload owner fence) = [event_type]"
| "extra_types _ = []"

section \<open>Every call has an effect\<close>

lemma move_run_Inr:
  assumes "commands_ok t s" and "move_run t rid status owner fence now s = Inr (s1, upd)"
  obtains row p where "run_by_id t rid s = Some row" and "status \<in> command_transitions (cmd_status row)"
    and "lease_predicates row owner fence now = Inr p"
    and "upd = row\<lparr>cmd_status := status, cmd_lease_owner := None, cmd_lease_until := None, cmd_updated_at := now\<rparr>"
    and "changed t row upd s s1"
proof -
  obtain row where row: "run_by_id t rid s = Some row"
    using assms(2) by (auto simp: move_run_def split: option.splits)
  then obtain p where p: "status \<in> command_transitions (cmd_status row)" "lease_predicates row owner fence now = Inr p"
    using assms(2) by (auto simp: move_run_def rbind_eq_Inr split: if_splits)
  define matches where "matches = (\<lambda>r. cmd_id r = rid \<and> cmd_status r = cmd_status row \<and> holds_if p r)"
  define f :: "command_row \<Rightarrow> command_row" where "f = (\<lambda>r. r\<lparr>cmd_status := status, cmd_lease_owner := None, cmd_lease_until := None, cmd_updated_at := now\<rparr>)"
  have body: "move_run t rid status owner fence now s =
      (if length (select_where t matches (command_runs_t s)) \<noteq> 1
       then Inl (Raised (if cmd_lease_owner row \<noteq> None then WorkerFenceError
                         else InvalidTransitionError ''command status changed concurrently''))
       else case run_by_id t rid (update_commands t matches f s) of
         None \<Rightarrow> Inl Assertion_Failed | Some updated \<Rightarrow> Inr (update_commands t matches f s, updated))"
    unfolding matches_def f_def using row p by (simp add: move_run_def Let_def)
  then have one: "length (select_where t matches (command_runs_t s)) = 1"
    using assms(2) by (auto split: if_splits)
  note upd = updated_row[OF assms(1) row, of matches f, OF _ one]
  have "cmd_id r = rid" if "matches r" for r
    using that by (simp add: matches_def)
  note upd = upd[OF this]
  have "s1 = update_commands t matches f s" and "upd = f row"
    using assms(2) one upd unfolding body by (simp_all add: f_def)
  then show ?thesis
    using that[OF row p(1,2)] upd by (simp add: f_def)
qed

lemma transition_effect:
  assumes "commands_ok t s" and "transition_run t ids clk rid status owner fence s = Inr (s', upd)"
  shows "ledger_effect t [] s s'"
proof -
  obtain s1 e where "status \<noteq> Command_Running" "move_run t rid status owner fence (clk 0) s = Inr (s1, upd)"
    and e: "append_run_event t (ids 0) (clk 1) upd (status_event status) Visible_User
      (''Command '' @ status_value status) [(''status'', JString (status_value status))] s1 = Inr (s', e)"
    using assms(2) by (auto simp: transition_run_def rbind_eq_Inr split: if_splits)
  moreover from this(2) obtain row where "status \<in> command_transitions (cmd_status row)" "changed t row upd s s1"
    "upd = row\<lparr>cmd_status := status, cmd_lease_owner := None, cmd_lease_until := None, cmd_updated_at := clk 0\<rparr>"
    using move_run_Inr[OF assms(1)] by metis
  ultimately show ?thesis
    using ledger_effect.moved append_run_event_Inr[OF e] by blast
qed

lemma finish_effect:
  assumes "commands_ok t s" and "finish_run t ids clk rid status event_type vis msg payload owner fence s = Inr (s', upd)"
  shows "ledger_effect t [event_type] s s'"
proof -
  obtain s1 s2 e1 e where status: "status \<noteq> Command_Running"
    and move: "move_run t rid status owner fence (clk 0) s = Inr (s1, upd)"
    and e1: "append_run_event t (ids 0) (clk 1) upd event_type vis msg payload s1 = Inr (s2, e1)"
    and e: "append_run_event t (ids 1) (clk 2) upd (status_event status) Visible_User
      (''Command '' @ status_value status) (closing_payload status payload) s2 = Inr (s', e)"
    using assms(2) by (auto simp: finish_run_def rbind_eq_Inr split: if_splits)
  from move obtain row where "status \<in> command_transitions (cmd_status row)" "changed t row upd s s1"
    "upd = row\<lparr>cmd_status := status, cmd_lease_owner := None, cmd_lease_until := None, cmd_updated_at := clk 0\<rparr>"
    using move_run_Inr[OF assms(1)] by metis
  then show ?thesis
    using ledger_effect.finished[OF _ _ _ status append_run_event_Inr[OF e1] append_run_event_Inr[OF e]] by blast
qed

lemma take_lease_Inr:
  assumes "commands_ok t s" and "row \<in> set (commands_of t s)" and "claimable now row"
    and "take_lease t i now event_at row worker until s = Inr (Some (s', upd))"
  obtains s1 e where "changed t row upd s s1"
    and "upd = row\<lparr>cmd_status := Command_Running, cmd_lease_owner := Some worker, cmd_lease_until := Some until,
          cmd_lease_fence := cmd_lease_fence row + 1, cmd_updated_at := now\<rparr>"
    and "appended t upd (if cmd_status row = Command_Running then ''command.reclaimed'' else ''command.running'') e s1 s'"
proof -
  define matches where "matches = (\<lambda>r. cmd_id r = cmd_id row \<and> cmd_status r = cmd_status row
    \<and> cmd_lease_fence r = cmd_lease_fence row \<and> (cmd_status row = Command_Running \<longrightarrow> lapsed now r))"
  define f :: "command_row \<Rightarrow> command_row" where "f = (\<lambda>r. r\<lparr>cmd_status := Command_Running, cmd_lease_owner := Some worker, cmd_lease_until := Some until,
          cmd_lease_fence := cmd_lease_fence row + 1, cmd_updated_at := now\<rparr>)"
  have one: "length (select_where t matches (command_runs_t s)) = 1"
    using assms(4) by (auto simp: take_lease_def Let_def matches_def split: if_splits)
  note upd = updated_row[OF assms(1) run_by_id_row[OF assms(1,2)], of matches f, OF _ one]
  have "cmd_id r = cmd_id row" if "matches r" for r
    using that by (simp add: matches_def)
  note upd = upd[OF this]
  have "run_by_id t (cmd_id row) (update_commands t matches f s) = Some (f row)"
    using upd(2) by (simp add: f_def)
  then obtain e where "upd = f row" and "append_run_event t i event_at (f row)
      (if cmd_status row = Command_Running then ''command.reclaimed'' else ''command.running'') Visible_User
      (if cmd_status row = Command_Running then ''Command reclaimed after worker interruption'' else ''Command running'')
      [(''status'', JString (status_value Command_Running)), (''lease_fence'', JNumber (show_int (cmd_lease_fence row + 1)))]
      (update_commands t matches f s) = Inr (s', e)"
    using assms(4) one by (auto simp: take_lease_def Let_def rbind_eq_Inr f_def matches_def)
  then show ?thesis
    using that[of "update_commands t matches f s" e] upd(1) append_run_event_Inr by (simp add: f_def)
qed

lemma claim_effect:
  assumes "commands_ok t s" and "claim_run t ids clk rid worker until s = Inr (s', upd)"
  obtains row s1 e where "run_by_id t rid s = Some row" and "claimable (clk 0) row" and "clk 0 < until"
    and "upd = row\<lparr>cmd_status := Command_Running, cmd_lease_owner := Some (strip worker), cmd_lease_until := Some until,
          cmd_lease_fence := cmd_lease_fence row + 1, cmd_updated_at := clk 0\<rparr>"
    and "changed t row upd s s1"
    and "appended t upd (if cmd_status row = Command_Running then ''command.reclaimed'' else ''command.running'') e s1 s'"
proof -
  define guards :: "(bool \<times> ledger_error) list" where "guards = 
    [(strip worker = [], Raised (ValueError ''worker_id must not be empty'')),
     (until \<le> clk 0, Raised (ValueError ''lease_until must be in the future''))]"
  have pass: "ensure guards () = Inr ()" and "clk 0 < until"
    using assms(2) unfolding claim_run_def Let_def guards_def [symmetric] rbind_eq_Inr
    by (auto simp: ensure_eq_Inr guards_def)
  obtain row where row: "run_by_id t rid s = Some row"
    using assms(2) pass unfolding claim_run_def Let_def guards_def [symmetric]
    by (cases "run_by_id t rid s") simp_all
  have ok: "claimable (clk 0) row"
    using assms(2) pass row unfolding claim_run_def Let_def guards_def [symmetric]
    by (cases "claimable (clk 0) row") simp_all
  have lease: "take_lease t (ids 0) (clk 0) (clk 1) row (strip worker) until s = Inr (Some (s', upd))"
    using assms(2) pass row ok unfolding claim_run_def Let_def guards_def [symmetric]
    by (auto simp: rbind_eq_Inr split: option.split_asm)
  have "row \<in> set (commands_of t s)"
    using run_by_id_Some[OF row] by simp
  from take_lease_Inr[OF assms(1) this ok lease] show ?thesis
    using that[OF row ok \<open>clk 0 < until\<close>] by blast
qed

lemma claim_next_cases:
  assumes "claim_next t ids clk worker until s = Inr (s', r)"
  obtains "s' = s" and "r = None"
    | row upd where "row \<in> set (commands_of t s)" and "claimable (clk 0) row" and "hd (claim_queue t (clk 0) s) = row"
      and "take_lease t (ids 0) (clk 0) (clk 1) row worker until s = Inr (Some (s', upd))" and "r = Some upd"
proof (cases "claim_queue t (clk 0) s")
  case Nil
  then show ?thesis
    using assms that(1) by (auto simp: claim_next_def Let_def split: if_splits)
next
  case (Cons row rest)
  have "row \<in> set (claim_queue t (clk 0) s)"
    by (simp add: Cons)
  then have row: "row \<in> set (commands_of t s)" "claimable (clk 0) row"
    by (simp_all add: claim_queue_def)
  obtain result where result: "take_lease t (ids 0) (clk 0) (clk 1) row worker until s = Inr result"
    and r: "(case result of None \<Rightarrow> Inr (s, None) | Some (s', updated) \<Rightarrow> Inr (s', Some updated))
      = (Inr (s', r) :: ledger_error + command_store \<times> command_row option)"
    using assms Cons by (auto simp: claim_next_def Let_def rbind_eq_Inr split: if_splits)
  show ?thesis
  proof (cases result)
    case None
    then show ?thesis using r that(1) by simp
  next
    case (Some x)
    then show ?thesis
      using r that(2)[OF row] result Cons by (cases x) simp
  qed
qed

lemma claim_next_effect:
  assumes "commands_ok t s" and "claim_next t ids clk worker until s = Inr (s', r)"
  shows "ledger_effect t [] s s'"
  using assms(2)
proof (cases rule: claim_next_cases)
  case 1
  then show ?thesis
    using ledger_effect.quiet by simp
next
  case (2 row upd)
  obtain s1 e where c: "changed t row upd s s1"
    "upd = row\<lparr>cmd_status := Command_Running, cmd_lease_owner := Some worker, cmd_lease_until := Some until,
          cmd_lease_fence := cmd_lease_fence row + 1, cmd_updated_at := clk 0\<rparr>"
    "appended t upd (if cmd_status row = Command_Running then ''command.reclaimed'' else ''command.running'') e s1 s'"
    by (rule take_lease_Inr[OF assms(1) 2(1,2,4)])
  show ?thesis
    by (rule ledger_effect.leased[OF c(1,2) 2(2) c(3)])
qed

lemma find_append_first: "find P xs = Some x \<Longrightarrow> find P (xs @ ys) = Some x"
  by (induction xs) (auto split: if_splits)

lemma find_snoc: "\<forall>x\<in>set xs. \<not> P x \<Longrightarrow> P y \<Longrightarrow> find P (xs @ [y]) = Some y"
  by (induction xs) simp_all

lemma create_effect:
  assumes "create_run sha256 t ids clk q key s = Inr (s', row)"
  shows "ledger_effect t [] s s'"
proof (cases "run_by_key t key s")
  case None
  define new where "new = new_command_row sha256 (ids 0) (clk 0) q key"
  define s1 where "s1 = s\<lparr>command_runs_t := insert_rows t [new] (command_runs_t s)\<rparr>"
  have new: "cmd_id new = ids 0" "cmd_key new = key" "cmd_status new = Command_Created" "cmd_lease_owner new = None"
    "cmd_lease_until new = None" "cmd_lease_fence new = 0"
    by (simp_all add: new_def new_command_row_def)
  have "run_by_key t key s1 = Some new"
  proof -
    have "\<forall>r\<in>set (commands_of t s). cmd_key r \<noteq> key"
      using None by (auto simp: run_by_key_None)
    then have "find (\<lambda>r. cmd_key r = key) (commands_of t s @ [new]) = Some new"
      using new(2) by (intro find_snoc) simp_all
    then show ?thesis
      by (simp add: s1_def run_by_key_def)
  qed
  then obtain e where "run_by_id t (ids 0) s = None"
    and "append_run_event t (ids 1) (clk 1) new ''command.created'' Visible_User (''Command created: '' @ req_name q)
      [(''command_name'', JString (req_name q)), (''status'', JString (status_value Command_Created))] s1 = Inr (s', e)"
    using assms None unfolding create_run_def Let_def new_def [symmetric] s1_def [symmetric]
    by (auto simp: rbind_eq_Inr split: if_splits)
  then show ?thesis
    using ledger_effect.created[of new t s s1 e s'] new None append_run_event_Inr
    by (simp add: s1_def run_by_id_None run_by_key_None)
next
  case (Some row')
  then have "s' = s"
    using assms by (auto simp: create_run_def Let_def split: if_splits)
  then show ?thesis
    using ledger_effect.quiet by simp
qed

lemma lease_predicates_Some:
  assumes "lease_predicates row owner fence now = Inr (Some p)"
  shows "owner = cmd_lease_owner row \<and> fence = Some (cmd_lease_fence row)"
  using assms by (auto simp: lease_predicates_def split: if_splits option.splits)

lemma append_event_effect:
  assumes "commands_ok t s" and "append_event t ids clk rid event_type vis msg payload owner fence s = Inr (s', e)"
  shows "ledger_effect t [event_type] s s'"
proof -
  obtain row p where row: "run_by_id t rid s = Some row" and p: "lease_predicates row owner fence (clk 0) = Inr p"
    using assms(2) by (auto simp: append_event_def rbind_eq_Inr split: option.splits)
  have mem: "row \<in> set (commands_of t s)" "cmd_id row = rid"
    using run_by_id_Some[OF row] by simp_all
  have "append_run_event t (ids 0) (clk 1) row event_type vis msg payload s = Inr (s', e)"
  proof (cases p)
    case None
    then show ?thesis
      using assms(2) row p by (simp add: append_event_def)
  next
    case (Some q)
    define matches where "matches = (\<lambda>r. cmd_id r = rid \<and> cmd_status r = Command_Running \<and> q r)"
    define f :: "command_row \<Rightarrow> command_row" where "f = (\<lambda>r. r\<lparr>cmd_lease_fence := (case fence of None \<Rightarrow> 0 | Some n \<Rightarrow> n)\<rparr>)"
    have body: "append_event t ids clk rid event_type vis msg payload owner fence s =
        (if length (select_where t matches (command_runs_t s)) \<noteq> 1 then Inl (Raised WorkerFenceError)
         else case run_by_id t rid (update_commands t matches f s) of
           None \<Rightarrow> Inl Assertion_Failed
         | Some run \<Rightarrow> append_run_event t (ids 0) (clk 1) run event_type vis msg payload (update_commands t matches f s))"
      unfolding matches_def f_def using row p Some by (simp add: append_event_def Let_def)
    then have one: "length (select_where t matches (command_runs_t s)) = 1"
      using assms(2) by (auto split: if_splits)
    have "cmd_id r = rid" if "matches r" for r
      using that by (simp add: matches_def)
    note upd = updated_row[OF assms(1) row, of matches f, OF this one]
    have "f row = row"
      using lease_predicates_Some[of row owner fence "clk 0" q] p Some by (simp add: f_def)
    moreover have "update_where t (\<lambda>r. cmd_id r = cmd_id row) (\<lambda>_. row) (command_runs_t s) = command_runs_t s"
      unfolding update_where_def
    proof (rule map_idI)
      fix x
      assume "x \<in> set (command_runs_t s)"
      then have "fst x = t \<Longrightarrow> cmd_id (snd x) = cmd_id row \<Longrightarrow> snd x = row"
        using same_id_row[OF assms(1) _ mem(1)] by (force simp: rows_def)
      then show "(if fst x = t \<and> cmd_id (snd x) = cmd_id row then (fst x, row) else x) = x"
        by auto
    qed
    ultimately have "update_commands t matches f s = s"
      using upd(1) by (simp add: f_def changed_def)
    then show ?thesis
      using assms(2) one upd(2) \<open>f row = row\<close> unfolding body by (simp add: f_def)
  qed
  then show ?thesis
    using ledger_effect.noted[OF mem(1) append_run_event_Inr] by blast
qed

lemma extend_effect:
  assumes "commands_ok t s" and "\<And>r. p r \<Longrightarrow> holds_lease rid owner fence r"
  shows "ledger_effect t [] s (update_commands t p (\<lambda>r. r\<lparr>cmd_lease_until := Some until, cmd_updated_at := now\<rparr>) s)"
proof (cases "select_where t p (command_runs_t s) = []")
  case True
  then have "update_where t p f (command_runs_t s) = command_runs_t s" for f
    by (intro update_where_no_match) (auto simp: select_where_def filter_empty_conv)
  then show ?thesis
    by (intro ledger_effect.quiet) simp_all
next
  case False
  then obtain row where row: "row \<in> set (commands_of t s)" "p row"
    by (auto simp: select_where_def filter_empty_conv)
  define f :: "command_row \<Rightarrow> command_row" where "f = (\<lambda>r. r\<lparr>cmd_lease_until := Some until, cmd_updated_at := now\<rparr>)"
  have rid: "cmd_id r = rid" if "p r" for r
    using assms(2)[OF that] by (simp add: holds_lease_def)
  have "select_where t p (command_runs_t s) = filter (\<lambda>r. cmd_id r = cmd_id row) (commands_of t s)"
    unfolding select_where_def
  proof (rule filter_cong[OF refl])
    fix r
    assume "r \<in> set (commands_of t s)"
    then have "r = row" if "cmd_id r = cmd_id row"
      using same_id_row[OF assms(1) _ row(1) that] by simp
    then show "p r \<longleftrightarrow> cmd_id r = cmd_id row"
      using row(2) rid[of r] rid[OF row(2)] by metis
  qed
  then have one: "length (select_where t p (command_runs_t s)) = 1"
    using filter_unique_key[of cmd_id "commands_of t s" row] assms(1) row(1) by (simp add: commands_ok_def)
  have "cmd_id r = cmd_id row" if "p r" for r
    using rid[OF that] rid[OF row(2)] by simp
  from updated_row(1)[OF assms(1) run_by_id_row[OF assms(1) row(1)], of p f, OF this one]
  have c: "changed t row (f row) s (update_commands t p f s)"
    by (simp add: f_def)
  have "cmd_status row = Command_Running"
    using assms(2)[OF row(2)] by (simp add: holds_lease_def)
  from ledger_effect.extended[OF c this] show ?thesis
    by (simp add: f_def)
qed

lemma call_effect:
  assumes "commands_ok t s" and "exec_ledger sha256 t ids clk call s = Inr (s', a)"
  shows "ledger_effect t (extra_types call) s s'"
proof (cases call)
  case (Create_Run q key)
  then show ?thesis
    using assms(2) create_effect by (auto simp: answer_Inr)
next
  case (Transition_Run rid status owner fence)
  then show ?thesis
    using assms transition_effect by (auto simp: answer_Inr)
next
  case (Append_Event rid event_type vis msg payload owner fence)
  then show ?thesis
    using assms append_event_effect by (auto simp: answer_Inr)
next
  case (Append_Domain_Event event_type vis msg payload actor p c k v)
  then show ?thesis
    using assms(2) ledger_effect.domain_event by (auto simp: answer_Inr)
next
  case (Finish_Run rid status event_type vis msg payload owner fence)
  then show ?thesis
    using assms finish_effect by (auto simp: answer_Inr)
next
  case (Claim_Run rid worker until)
  then obtain upd where "claim_run t ids clk rid worker until s = Inr (s', upd)"
    using assms(2) by (auto simp: answer_Inr)
  then show ?thesis
    using claim_effect[OF assms(1)] ledger_effect.leased Claim_Run by (metis extra_types.simps(6))
next
  case (Claim_Next worker until)
  then show ?thesis
    using assms claim_next_effect by (auto simp: answer_Inr)
next
  case (Abandon_Run rid owner fence)
  have "ledger_effect t [] s (fst (abandon_run t (clk 0) rid owner fence s))"
    using extend_effect[OF assms(1), of "holds_lease rid owner fence" rid owner fence] ledger_effect.quiet[of s s]
    by (auto simp: abandon_run_def split: option.split)
  then show ?thesis
    using assms(2) Abandon_Run by (cases "abandon_run t (clk 0) rid owner fence s") auto
next
  case (Renew_Run rid owner fence until)
  define p where "p = (\<lambda>r. holds_lease rid owner fence r \<and> (case cmd_lease_until r of None \<Rightarrow> False | Some u \<Rightarrow> clk 0 < u))"
  have "s' = update_commands t p (\<lambda>r. r\<lparr>cmd_lease_until := Some until, cmd_updated_at := clk 0\<rparr>) s"
    using assms(2) Renew_Run by (auto simp: answer_Inr renew_run_def p_def Let_def split: if_splits)
  then show ?thesis
    using extend_effect[OF assms(1), of p rid owner fence] Renew_Run by (simp add: p_def)
next
  case (Stream_State allowed)
  then have "command_runs_t s' = command_runs_t s \<and> domain_events_t s' = domain_events_t s \<and> task_sequences_t s' = task_sequences_t s"
    using assms(2) by (auto simp: answer_Inr stream_state_def Let_def split: if_splits)
  then show ?thesis
    using ledger_effect.quiet Stream_State by simp
qed

end
