(* ===== verification/Command_Invariants.thy ===== *)
theory Command_Invariants
  imports Command_Machine
begin

text \<open>
  The invariant of the ledger and what follows for one run: it keeps its identity and its request,
  its status moves along the table of transitions, its fence never goes back, and its events tell
  its status. The last needs that callers do not use the event types of the life cycle for
  events of their own.
\<close>

section \<open>The invariant\<close>

definition ledger_inv :: "command_store \<Rightarrow> bool" where
  "ledger_inv s \<longleftrightarrow> numbered s \<and> (\<forall>t. commands_ok t s)"

lemma changed_numbered: "changed t row row' s s' \<Longrightarrow> numbered s' = numbered s"
  by (rule numbered_cong) (simp_all add: changed_def)

lemma effect_numbered: "ledger_effect t xs s s' \<Longrightarrow> numbered s \<Longrightarrow> numbered s'"
proof (induction rule: ledger_effect.induct)
  case (quiet s' s)
  then show ?case using numbered_cong by blast
next
  case (created row s s1 e s')
  then have "numbered s1"
    using numbered_cong[of s1 s] by simp
  then show ?case using numbered_appended created by blast
qed (use numbered_appended changed_numbered numbered_domain_event in metis)+

lemma appended_commands: "appended t run x e s s' \<Longrightarrow> commands_of t' s' = commands_of t' s"
  by (simp add: appended_def)

lemma commands_ok_cong: "commands_of t s' = commands_of t s \<Longrightarrow> commands_ok t s' = commands_ok t s"
  by (simp add: commands_ok_def)

lemma changed_commands_ok:
  assumes "changed t row row' s s'" and "lease_shape row'" and "commands_ok t' s"
  shows "commands_ok t' s'"
proof (cases "t' = t")
  case True
  define g where "g = (\<lambda>r. if cmd_id r = cmd_id row then row' else r)"
  have row: "row \<in> set (commands_of t' s)" "cmd_id row' = cmd_id row" "cmd_key row' = cmd_key row"
    using assms(1) True by (simp_all add: changed_def)
  have c: "commands_of t' s' = map g (commands_of t' s)"
    using True changed_commands[OF assms(1), of t] by (simp add: g_def)
  have keep: "cmd_id (g r) = cmd_id r \<and> cmd_key (g r) = cmd_key r" if "r \<in> set (commands_of t' s)" for r
  proof (cases "cmd_id r = cmd_id row")
    case same: True
    then have "r = row"
      using same_id_row[OF assms(3) that row(1)] by simp
    then show ?thesis
      using row by (simp add: g_def)
  qed (simp add: g_def)
  have ok: "distinct (map cmd_id (commands_of t' s))" "distinct (map cmd_key (commands_of t' s))"
    "\<And>r. r \<in> set (commands_of t' s) \<Longrightarrow> lease_shape r"
    using assms(3) unfolding commands_ok_def by simp_all
  have "distinct (map cmd_id (map g (commands_of t' s)))"
    by (rule distinct_map_keep[OF ok(1)]) (simp add: keep)
  moreover have "distinct (map cmd_key (map g (commands_of t' s)))"
    by (rule distinct_map_keep[OF ok(2)]) (simp add: keep)
  moreover have "lease_shape (g r)" if "r \<in> set (commands_of t' s)" for r
    using assms(2) ok(3)[OF that] by (simp add: g_def)
  ultimately show ?thesis
    unfolding commands_ok_def c by auto
next
  case False
  then have "commands_of t' s' = commands_of t' s"
    using changed_commands[OF assms(1), of t'] by simp
  then show ?thesis
    using assms(3) commands_ok_cong by blast
qed

lemma leased_owner: "lease_shape r \<Longrightarrow> cmd_status r = Command_Running \<longleftrightarrow> cmd_lease_owner r \<noteq> None"
  by (metis lease_shape_def)

lemma shape_fence: "lease_shape r \<Longrightarrow> 0 \<le> cmd_lease_fence r"
  by (simp add: lease_shape_def)

lemma appended_commands_ok: "appended t run x e s s' \<Longrightarrow> commands_ok t' s' = commands_ok t' s"
  using appended_commands commands_ok_cong by blast

lemma domain_event_commands:
  "append_domain_event t i now event_type vis msg payload actor p c k v s = Inr (s', e) \<Longrightarrow> commands_of t' s' = commands_of t' s"
  by (auto simp: append_domain_event_def insert_event_Inr)

lemma commands_okD: "commands_ok t s \<Longrightarrow> changed t row row' s s' \<Longrightarrow> lease_shape row"
  by (simp add: commands_ok_def changed_def)

lemma effect_commands_ok:
  assumes "ledger_effect t xs s s'" and "\<And>t. commands_ok t s"
  shows "commands_ok t' s'"
  using assms
proof (induction rule: ledger_effect.induct)
  case (quiet s' s)
  then show ?case using commands_ok_cong[of t' s' s] by simp
next
  case (created row s s1 e s')
  have c: "commands_of t' s1 = commands_of t' s @ (if t' = t then [row] else [])"
    unfolding created(7) by simp
  have "lease_shape row"
    using created(3-6) by (simp add: lease_shape_def)
  then have "commands_ok t' s1"
    using created.prems[of t'] created(1,2) unfolding commands_ok_def c by (cases "t' = t") simp_all
  then show ?case
    by (simp add: appended_commands_ok[OF created(8)])
next
  case (moved row row' s s1 status now e s')
  have "lease_shape row'"
    using commands_okD[OF moved.prems moved(1)] moved(2,4) by (simp add: lease_shape_def)
  then show ?case
    using changed_commands_ok[OF moved(1) _ moved.prems] by (simp add: appended_commands_ok[OF moved(5)])
next
  case (finished row row' s s1 status now x e1 s2 e s')
  have "lease_shape row'"
    using commands_okD[OF finished.prems finished(1)] finished(2,4) by (simp add: lease_shape_def)
  then show ?case
    using changed_commands_ok[OF finished(1) _ finished.prems]
    by (simp add: appended_commands_ok[OF finished(5)] appended_commands_ok[OF finished(6)])
next
  case (leased row row' s s1 worker until now e s')
  have "lease_shape row'"
    using commands_okD[OF leased.prems leased(1)] leased(2) by (simp add: lease_shape_def)
  then show ?case
    using changed_commands_ok[OF leased(1) _ leased.prems] by (simp add: appended_commands_ok[OF leased(4)])
next
  case (extended row row' s s' until now)
  have shape: "lease_shape row"
    by (rule commands_okD[OF extended.prems extended(1)])
  have "cmd_lease_owner row \<noteq> None" and "0 \<le> cmd_lease_fence row"
    using leased_owner[OF shape] extended(2) shape_fence[OF shape] by simp_all
  then have "lease_shape row'"
    by (simp add: lease_shape_def extended(2,3))
  then show ?case
    using changed_commands_ok[OF extended(1) _ extended.prems] by simp
next
  case (noted row s x e s')
  then show ?case by (simp add: appended_commands_ok[OF noted(2)])
next
  case (domain_event i now event_type vis msg payload actor p c k v s s' e)
  then show ?case
    using commands_ok_cong[OF domain_event_commands[OF domain_event(1)]] by simp
qed

lemma step_effect:
  "ledger_inv s \<Longrightarrow> exec_ledger sha256 t ids clk call s = Inr (s', a) \<Longrightarrow> ledger_effect t (extra_types call) s s'"
  using call_effect by (simp add: ledger_inv_def)

interpretation ledger: invariant_system "\<lambda>s. s = empty_command_store" "ledger_step sha256" ledger_inv for sha256
proof
  fix s :: command_store
  assume "s = empty_command_store"
  then show "ledger_inv s"
    by (simp add: ledger_inv_def numbered_def run_events_def last_number_def last_sequence_def commands_ok_def)
next
  fix s s'
  assume inv: "ledger_inv s" and "ledger_step sha256 s s'"
  then obtain t ids clk call a where "exec_ledger sha256 t ids clk call s = Inr (s', a)"
    unfolding ledger_step_def by blast
  from step_effect[OF inv this] show "ledger_inv s'"
    using inv effect_numbered effect_commands_ok unfolding ledger_inv_def by blast
qed

section \<open>One run\<close>

text \<open>How the row of a run develops in one call.\<close>

definition evolves :: "command_row \<Rightarrow> command_row \<Rightarrow> bool" where
  "evolves r r' \<longleftrightarrow> cmd_id r' = cmd_id r \<and> cmd_key r' = cmd_key r \<and> cmd_task r' = cmd_task r
     \<and> cmd_fingerprint r' = cmd_fingerprint r
     \<and> (cmd_status r' = cmd_status r \<and> cmd_lease_fence r' = cmd_lease_fence r \<and> cmd_lease_owner r' = cmd_lease_owner r
        \<or> cmd_status r' \<in> command_transitions (cmd_status r) \<and> cmd_status r' \<noteq> Command_Running
          \<and> cmd_lease_fence r' = cmd_lease_fence r
        \<or> cmd_status r \<in> {Command_Queued, Command_Running} \<and> cmd_status r' = Command_Running
          \<and> cmd_lease_fence r' = cmd_lease_fence r + 1)"

lemma evolves_refl [simp]: "evolves r r"
  by (simp add: evolves_def)

lemma claimable_status: "claimable now r \<Longrightarrow> cmd_status r \<in> {Command_Queued, Command_Running}"
  by (auto simp: claimable_def lapsed_def)

lemma changed_run:
  assumes "commands_ok t s" and "changed t row row' s s'" and "evolves row row'" and "run_by_id t rid s = Some r"
  shows "\<exists>r'. run_by_id t rid s' = Some r' \<and> evolves r r' \<and> (rid \<noteq> cmd_id row \<longrightarrow> r' = r)"
proof (cases "rid = cmd_id row")
  case True
  have ok: "commands_ok t s' \<or> True" by simp
  have "row = r"
    using same_id_row[OF assms(1), of row r] run_by_id_Some[OF assms(4)] assms(2) True by (simp add: changed_def)
  moreover have "find (\<lambda>x. cmd_id x = rid) (map (\<lambda>x. if cmd_id x = cmd_id row then row' else x) xs) = Some row'"
    if "row \<in> set xs" for xs
    using that True assms(2) by (induction xs) (auto simp: changed_def)
  then have "run_by_id t rid s' = Some row'"
    using changed_commands[OF assms(2), of t] assms(2) by (simp add: run_by_id_def changed_def del: rows_update)
  ultimately show ?thesis
    using assms(3) True by blast
next
  case False
  have "find (\<lambda>x. cmd_id x = rid) (map (\<lambda>x. if cmd_id x = cmd_id row then row' else x) xs) = find (\<lambda>x. cmd_id x = rid) xs" for xs
    using False assms(2) by (induction xs) (auto simp: changed_def)
  then have "run_by_id t rid s' = Some r"
    using changed_commands[OF assms(2), of t] assms(4) by (simp add: run_by_id_def)
  then show ?thesis by simp
qed

lemma run_by_id_cong: "commands_of t s' = commands_of t s \<Longrightarrow> run_by_id t rid s' = run_by_id t rid s"
  by (simp add: run_by_id_def)

lemma effect_run:
  assumes "ledger_effect t xs s s'" and "commands_ok t s" and "run_by_id t rid s = Some r"
  shows "\<exists>r'. run_by_id t rid s' = Some r' \<and> evolves r r'"
  using assms
proof (induction rule: ledger_effect.induct)
  case (quiet s' s)
  have "run_by_id t rid s' = run_by_id t rid s"
    by (rule run_by_id_cong) (simp add: quiet)
  then show ?case
    by (simp add: quiet.prems)
next
  case (created row s s1 e s')
  have "run_by_id t rid s1 = Some r"
    using created.prems(2) created(7) by (auto simp: run_by_id_def find_append_first)
  then show ?case
    using appended_commands[OF created(8), of t] run_by_id_cong evolves_refl by metis
next
  case (moved row row' s s1 status now e s')
  then have "evolves row row'" by (simp add: evolves_def)
  then show ?case
    using changed_run[OF moved.prems(1) moved(1) _ moved.prems(2)] appended_commands[OF moved(5), of t] run_by_id_cong by metis
next
  case (finished row row' s s1 status now x e1 s2 e s')
  then have "evolves row row'" by (simp add: evolves_def)
  then show ?case
    using changed_run[OF finished.prems(1) finished(1) _ finished.prems(2)] appended_commands[OF finished(5), of t]
      appended_commands[OF finished(6), of t] run_by_id_cong by metis
next
  case (leased row row' s s1 worker until now e s')
  then have "evolves row row'" using claimable_status[OF leased(3)] by (simp add: evolves_def)
  then show ?case
    using changed_run[OF leased.prems(1) leased(1) _ leased.prems(2)] appended_commands[OF leased(4), of t] run_by_id_cong by metis
next
  case (extended row row' s s' until now)
  then have "evolves row row'" by (simp add: evolves_def)
  then show ?case
    using changed_run[OF extended.prems(1) extended(1) _ extended.prems(2)] by blast
next
  case (noted row s x e s')
  then show ?case using appended_commands[OF noted(2), of t] run_by_id_cong evolves_refl by metis
next
  case (domain_event i now event_type vis msg payload actor p c k v s s' e)
  then show ?case
    using run_by_id_cong[OF domain_event_commands[OF domain_event(1)], where rid = rid] by auto
qed

text \<open>A call of one tenant leaves the others alone.\<close>

lemma appended_events: "appended t run x e s s' \<Longrightarrow> events_of t' s' = events_of t' s @ (if t' = t then [e] else [])"
  by (simp add: appended_def rows_append)

lemma appended_events_other: "appended t run x e s s' \<Longrightarrow> t' \<noteq> t \<Longrightarrow> events_of t' s' = events_of t' s"
  by (simp add: appended_events)

lemma changed_other: "changed t row row' s s' \<Longrightarrow> t' \<noteq> t \<Longrightarrow> commands_of t' s' = commands_of t' s"
  by (simp add: changed_def)

lemma changed_events: "changed t row row' s s' \<Longrightarrow> events_of t' s' = events_of t' s"
  by (simp add: changed_def)

lemma effect_other: "ledger_effect t xs s s' \<Longrightarrow> t' \<noteq> t \<Longrightarrow> commands_of t' s' = commands_of t' s \<and> events_of t' s' = events_of t' s"
proof (induction rule: ledger_effect.induct)
  case (created row s s1 e s')
  then have "commands_of t' s1 = commands_of t' s \<and> events_of t' s1 = events_of t' s" by simp
  then show ?case
    using appended_commands[OF created(8)] appended_events_other[OF created(8) created(9)] by simp
next
  case (moved row row' s s1 status now e s')
  then show ?case
    by (simp add: appended_commands[OF moved(5)] appended_events_other[OF moved(5)] changed_other[OF moved(1)] changed_events[OF moved(1)])
next
  case (finished row row' s s1 status now x e1 s2 e s')
  then show ?case
    by (simp add: appended_commands[OF finished(5)] appended_events_other[OF finished(5)] appended_commands[OF finished(6)]
        appended_events_other[OF finished(6)] changed_other[OF finished(1)] changed_events[OF finished(1)])
next
  case (leased row row' s s1 worker until now e s')
  then show ?case
    by (simp add: appended_commands[OF leased(4)] appended_events_other[OF leased(4)] changed_other[OF leased(1)] changed_events[OF leased(1)])
next
  case (extended row row' s s' until now)
  then show ?case
    by (simp add: changed_other[OF extended(1)] changed_events[OF extended(1)])
next
  case (noted row s x e s')
  then show ?case
    by (simp add: appended_commands[OF noted(2)] appended_events_other[OF noted(2)])
next
  case (domain_event i now event_type vis msg payload actor p c k v s s' e)
  then show ?case
    by (auto simp: rows_append append_domain_event_def insert_event_Inr)
qed simp

lemma step_run:
  assumes "ledger_inv s" and "ledger_step sha256 s s'" and "run_by_id t rid s = Some r"
  shows "\<exists>r'. run_by_id t rid s' = Some r' \<and> evolves r r'"
proof -
  obtain t' ids clk call a where "exec_ledger sha256 t' ids clk call s = Inr (s', a)"
    using assms(2) unfolding ledger_step_def by blast
  from step_effect[OF assms(1) this] have eff: "ledger_effect t' (extra_types call) s s'" .
  show ?thesis
  proof (cases "t = t'")
    case True
    then show ?thesis using effect_run eff assms(1,3) unfolding ledger_inv_def by blast
  next
    case False
    then show ?thesis using effect_other[OF eff] run_by_id_cong assms(3) evolves_refl by metis
  qed
qed

text \<open>What holds of a run along any path: it stays, with its request, and its fence does not go back.\<close>

definition continues :: "command_row \<Rightarrow> command_row \<Rightarrow> bool" where
  "continues r r' \<longleftrightarrow> cmd_id r' = cmd_id r \<and> cmd_key r' = cmd_key r \<and> cmd_fingerprint r' = cmd_fingerprint r
     \<and> cmd_lease_fence r \<le> cmd_lease_fence r'"

lemma path_run:
  assumes "(ledger_step sha256)\<^sup>*\<^sup>* s s'" and "ledger_inv s" and "run_by_id t rid s = Some r"
  shows "\<exists>r'. run_by_id t rid s' = Some r' \<and> continues r r'"
proof (rule ledger.path_stable[OF assms(1,2)])
  show "\<exists>r'. run_by_id t rid s = Some r' \<and> continues r r'"
    using assms(3) by (simp add: continues_def)
next
  fix x y
  assume "ledger_inv x" "\<exists>r'. run_by_id t rid x = Some r' \<and> continues r r'" "ledger_step sha256 x y"
  then show "\<exists>r'. run_by_id t rid y = Some r' \<and> continues r r'"
    using step_run by (fastforce simp: continues_def evolves_def)
qed

end
