(* ===== verification/Command_Facts.thy ===== *)
theory Command_Facts
  imports Command_Invariants
begin

text \<open>
  What single calls of the ledger achieve: a call that carries a lease needs the lease that is in
  force, a claim takes the oldest run that can be claimed and raises its fence, a request is bound
  to its key, and a reader that follows the cursor sees every event once.
\<close>

section \<open>Leases\<close>

text \<open>The run, the owner and the fence of a call that carries a lease.\<close>

fun lease_call :: "ledger_call \<Rightarrow> (uuid \<times> string \<times> int) option" where
  "lease_call (Transition_Run rid status (Some owner) (Some fence)) = Some (rid, owner, fence)"
| "lease_call (Append_Event rid event_type vis msg payload (Some owner) (Some fence)) = Some (rid, owner, fence)"
| "lease_call (Finish_Run rid status event_type vis msg payload (Some owner) (Some fence)) = Some (rid, owner, fence)"
| "lease_call (Abandon_Run rid owner fence) = Some (rid, owner, fence)"
| "lease_call (Renew_Run rid owner fence until) = Some (rid, owner, fence)"
| "lease_call _ = None"

text \<open>A call is refused when it raises, or answers \<open>False\<close> and changes nothing.\<close>

definition refused :: "command_store \<Rightarrow> ledger_error + command_store \<times> ledger_answer \<Rightarrow> bool" where
  "refused s m \<longleftrightarrow> isl m \<or> m = Inr (s, Answer_Bool False)"

lemma leased_predicates:
  assumes "lease_predicates row (Some owner) (Some fence) now = Inr p"
  shows "cmd_status row = Command_Running" "cmd_lease_owner row = Some owner" "cmd_lease_fence row = fence"
    "\<exists>u. cmd_lease_until row = Some u \<and> now < u"
  using assms by (auto simp: lease_predicates_def not_le split: if_splits option.splits)

lemma transition_lease:
  assumes "commands_ok t s" and "transition_run t ids clk rid status (Some owner) (Some fence) s = Inr x"
  shows "\<exists>r. run_by_id t rid s = Some r \<and> holds_lease rid owner fence r"
proof -
  obtain s1 upd where "move_run t rid status (Some owner) (Some fence) (clk 0) s = Inr (s1, upd)"
    using assms(2) by (auto simp: transition_run_def rbind_eq_Inr split: if_splits)
  then show ?thesis
    by (rule move_run_Inr[OF assms(1)]) (use leased_predicates run_by_id_Some in \<open>metis holds_lease_def\<close>)
qed

lemma finish_lease:
  assumes "commands_ok t s" and "finish_run t ids clk rid status event_type vis msg payload (Some owner) (Some fence) s = Inr x"
  shows "\<exists>r. run_by_id t rid s = Some r \<and> holds_lease rid owner fence r"
proof -
  obtain s1 upd where "move_run t rid status (Some owner) (Some fence) (clk 0) s = Inr (s1, upd)"
    using assms(2) by (auto simp: finish_run_def rbind_eq_Inr split: if_splits)
  then show ?thesis
    by (rule move_run_Inr[OF assms(1)]) (use leased_predicates run_by_id_Some in \<open>metis holds_lease_def\<close>)
qed

lemma append_event_lease:
  assumes "append_event t ids clk rid event_type vis msg payload (Some owner) (Some fence) s = Inr x"
  shows "\<exists>r. run_by_id t rid s = Some r \<and> holds_lease rid owner fence r"
proof -
  obtain row p where "run_by_id t rid s = Some row" "lease_predicates row (Some owner) (Some fence) (clk 0) = Inr p"
    using assms by (auto simp: append_event_def rbind_eq_Inr split: option.splits)
  then show ?thesis
    using leased_predicates run_by_id_Some by (metis holds_lease_def)
qed

lemma abandon_refused:
  assumes "\<And>r. run_by_id t rid s = Some r \<Longrightarrow> \<not> holds_lease rid owner fence r"
  shows "abandon_run t now rid owner fence s = (s, False)"
  using assms by (auto simp: abandon_run_def split: option.split)

lemma renew_refused:
  assumes "commands_ok t s" and "\<And>r. run_by_id t rid s = Some r \<Longrightarrow> \<not> holds_lease rid owner fence r" and "now < until"
  shows "renew_run t now rid owner fence until s = Inr (s, False)"
proof -
  define matches where "matches = (\<lambda>r. holds_lease rid owner fence r \<and> (case cmd_lease_until r of None \<Rightarrow> False | Some u \<Rightarrow> now < u))"
  have none: "\<not> matches r" if r: "r \<in> set (commands_of t s)" for r
  proof
    assume "matches r"
    then have "holds_lease rid owner fence r" "cmd_id r = rid"
      by (simp_all add: matches_def holds_lease_def)
    then show False
      using run_by_id_row[OF assms(1) r] assms(2) by simp
  qed
  have "update_where t matches f (command_runs_t s) = command_runs_t s" for f
    by (rule update_where_no_match) (rule none)
  moreover have "select_where t matches (command_runs_t s) = []"
    using none by (simp add: select_where_def filter_empty_conv)
  ultimately show ?thesis
    using assms(3) unfolding renew_run_def matches_def [symmetric] by (simp add: Let_def)
qed

text \<open>A call with a lease that is not in force is refused.\<close>

lemma lease_needed:
  assumes "commands_ok t s" and "lease_call call = Some (rid, owner, fence)"
    and "\<And>r. run_by_id t rid s = Some r \<Longrightarrow> \<not> holds_lease rid owner fence r"
  shows "refused s (exec_ledger sha256 t ids clk call s)"
  using assms(2)
proof (cases call rule: lease_call.cases)
  case (1 rid' status owner' fence')
  then show ?thesis
    using assms transition_lease[OF assms(1), of ids clk rid status owner fence]
    by (cases "transition_run t ids clk rid status (Some owner) (Some fence) s") (auto simp: refused_def answer_def)
next
  case (2 rid' event_type vis msg payload owner' fence')
  then show ?thesis
    using assms append_event_lease[of t ids clk rid event_type vis msg payload owner fence s]
    by (cases "append_event t ids clk rid event_type vis msg payload (Some owner) (Some fence) s") (auto simp: refused_def answer_def)
next
  case (3 rid' status event_type vis msg payload owner' fence')
  then show ?thesis
    using assms finish_lease[OF assms(1), of ids clk rid status event_type vis msg payload owner fence]
    by (cases "finish_run t ids clk rid status event_type vis msg payload (Some owner) (Some fence) s") (auto simp: refused_def answer_def)
next
  case (4 rid' owner' fence')
  then show ?thesis
    using assms(2) abandon_refused[OF assms(3)] by (simp add: refused_def)
next
  case (5 rid' owner' fence' until)
  then have "call = Renew_Run rid owner fence until"
    using assms(2) by simp
  then show ?thesis
    using renew_refused[OF assms(1,3), of "clk 0" until]
    by (cases "clk 0 < until") (simp_all add: refused_def answer_def renew_run_def)
qed simp_all

section \<open>Claims\<close>

text \<open>The run that a call claimed.\<close>

fun claimed_run :: "ledger_call \<Rightarrow> ledger_answer \<Rightarrow> command_row option" where
  "claimed_run (Claim_Run rid worker until) (Answer_Run r) = Some r"
| "claimed_run (Claim_Next worker until) (Answer_Claim r) = r"
| "claimed_run _ _ = None"

definition claim_result :: "tenant \<Rightarrow> instant \<Rightarrow> command_row \<Rightarrow> command_store \<Rightarrow> command_store \<Rightarrow> bool" where
  "claim_result t now run s s' \<longleftrightarrow> run_by_id t (cmd_id run) s' = Some run \<and> cmd_status run = Command_Running
     \<and> (\<exists>r. run_by_id t (cmd_id run) s = Some r \<and> claimable now r \<and> cmd_lease_fence run = cmd_lease_fence r + 1)"

lemma leased_result:
  assumes "commands_ok t s" and "changed t row upd s s1" and "claimable now row"
    and "upd = row\<lparr>cmd_status := Command_Running, cmd_lease_owner := Some worker, cmd_lease_until := Some until,
          cmd_lease_fence := cmd_lease_fence row + 1, cmd_updated_at := at\<rparr>"
    and "appended t upd x e s1 s'"
  shows "claim_result t now upd s s'"
proof -
  have row: "row \<in> set (commands_of t s)" "cmd_id upd = cmd_id row"
    using assms(2) by (simp_all add: changed_def)
  have "evolves row upd"
    using claimable_status[OF assms(3)] assms(4) by (simp add: evolves_def)
  then obtain r' where "run_by_id t (cmd_id row) s1 = Some r'"
    using changed_run[OF assms(1,2) _ run_by_id_row[OF assms(1) row(1)]] by blast
  moreover have "find (\<lambda>x. cmd_id x = cmd_id row) (map (\<lambda>r. if cmd_id r = cmd_id row then upd else r) xs) = Some upd"
    if "row \<in> set xs" for xs
    using that row(2) by (induction xs) auto
  then have "run_by_id t (cmd_id row) s1 = Some upd"
    using changed_commands[OF assms(2), of t] row(1) by (simp add: run_by_id_def del: rows_update)
  ultimately have "run_by_id t (cmd_id row) s' = Some upd"
    using run_by_id_cong[OF appended_commands[OF assms(5)]] by simp
  then show ?thesis
    using run_by_id_row[OF assms(1) row(1)] assms(3,4) row(2) by (simp add: claim_result_def)
qed

lemma claim_grants:
  assumes "commands_ok t s" and "exec_ledger sha256 t ids clk call s = Inr (s', a)" and "claimed_run call a = Some run"
  shows "claim_result t (clk 0) run s s'"
  using assms(3)
proof (cases "(call, a)" rule: claimed_run.cases)
  case (1 rid worker until r)
  then have "claim_run t ids clk rid worker until s = Inr (s', run)"
    using assms(2,3) by (auto simp: answer_Inr)
  then show ?thesis
    by (rule claim_effect[OF assms(1)]) (rule leased_result[OF assms(1)], assumption+)
next
  case (2 worker until r)
  then have "claim_next t ids clk worker until s = Inr (s', Some run)"
    using assms(2,3) by (auto simp: answer_Inr)
  then show ?thesis
  proof (cases rule: claim_next_cases)
    case (2 row upd)
    have "claim_result t (clk 0) upd s s'"
      by (rule take_lease_Inr[OF assms(1) 2(1,2,4)]) (rule leased_result[OF assms(1) _ 2(2)], assumption+)
    then show ?thesis
      using 2(5) by simp
  qed simp
qed simp_all

text \<open>The \<open>UPDATE\<close> of a claim hits the row that was read.\<close>

lemma take_lease_hits:
  assumes "commands_ok t s" and "row \<in> set (commands_of t s)" and "claimable now row"
  shows "take_lease t i now event_at row worker until s \<noteq> Inr None"
proof -
  define matches where "matches = (\<lambda>r. cmd_id r = cmd_id row \<and> cmd_status r = cmd_status row
    \<and> cmd_lease_fence r = cmd_lease_fence row \<and> (cmd_status row = Command_Running \<longrightarrow> lapsed now r))"
  have "matches r \<longleftrightarrow> cmd_id r = cmd_id row" if "r \<in> set (commands_of t s)" for r
    using same_id_row[OF assms(1) that assms(2)] assms(3) by (auto simp: matches_def claimable_def)
  then have "select_where t matches (command_runs_t s) = filter (\<lambda>r. cmd_id r = cmd_id row) (commands_of t s)"
    unfolding select_where_def by (intro filter_cong) simp_all
  then have "length (select_where t matches (command_runs_t s)) = 1"
    using filter_unique_key[of cmd_id "commands_of t s" row] assms(1,2) by (simp add: commands_ok_def)
  then show ?thesis
    unfolding take_lease_def Let_def matches_def [symmetric] by (auto simp: rbind_def split: option.split sum.split)
qed

text \<open>
  \<open>claim_next\<close> takes the oldest run that can be claimed, and nothing only when none can: a run is
  never passed over for a younger one, and every run that was queued, or whose worker was lost,
  gets its turn.
\<close>

lemma claim_next_fair:
  assumes "commands_ok t s" and "claim_next t ids clk worker until s = Inr (s', r)"
  shows "case r of
      None \<Rightarrow> s' = s \<and> (\<forall>q\<in>set (commands_of t s). \<not> claimable (clk 0) q)
    | Some run \<Rightarrow> \<exists>row\<in>set (commands_of t s). cmd_id row = cmd_id run \<and> claimable (clk 0) row
        \<and> (\<forall>q\<in>set (commands_of t s). claimable (clk 0) q \<longrightarrow> (cmd_created_at row, cmd_id row) \<le> (cmd_created_at q, cmd_id q))"
  using assms(2)
proof (cases rule: claim_next_cases)
  case 1
  have "claim_queue t (clk 0) s = []"
  proof (cases "claim_queue t (clk 0) s")
    case (Cons row rest)
    have "row \<in> set (claim_queue t (clk 0) s)"
      by (simp add: Cons)
    then have row: "row \<in> set (commands_of t s)" "claimable (clk 0) row"
      by (simp_all add: claim_queue_def)
    have "take_lease t (ids 0) (clk 0) (clk 1) row worker until s = Inr None"
      using assms(2) 1 Cons
      by (auto simp: claim_next_def Let_def rbind_eq_Inr split: if_splits option.split_asm) (metis option.exhaust prod.exhaust)
    moreover have "take_lease t (ids 0) (clk 0) (clk 1) row worker until s \<noteq> Inr None"
      using take_lease_hits[OF assms(1) row] by simp
    ultimately show ?thesis by simp
  qed simp
  then have "filter (claimable (clk 0)) (commands_of t s) = []"
    unfolding claim_queue_def by (metis length_0_conv length_sort)
  then show ?thesis
    using 1 by (auto simp: filter_empty_conv)
next
  case (2 row upd)
  have sorted: "sorted (map (\<lambda>r. (cmd_created_at r, cmd_id r)) (claim_queue t (clk 0) s))"
    unfolding claim_queue_def by (rule sorted_sort_key)
  have "(cmd_created_at row, cmd_id row) \<le> (cmd_created_at q, cmd_id q)"
    if "q \<in> set (commands_of t s)" "claimable (clk 0) q" for q
  proof -
    have "q \<in> set (claim_queue t (clk 0) s)"
      using that by (simp add: claim_queue_def)
    then show ?thesis
      using sorted 2(3) by (cases "claim_queue t (clk 0) s") auto
  qed
  moreover have "cmd_id upd = cmd_id row"
    by (rule take_lease_Inr[OF assms(1) 2(1,2,4)]) simp
  ultimately show ?thesis
    using 2 by auto
qed

section \<open>Requests\<close>

text \<open>What \<open>create_run\<close> leaves for the key of a request.\<close>

lemma create_run_keyed:
  assumes "create_run sha256 t ids clk q key s = Inr (s', run)"
  shows "run_by_id t (cmd_id run) s' = Some run \<or> \<not> commands_ok t s'" and "cmd_key run = key"
    and "cmd_fingerprint run = command_request_fingerprint sha256 q" and "run \<in> set (commands_of t s')"
proof -
  define new where "new = new_command_row sha256 (ids 0) (clk 0) q key"
  have new: "cmd_key new = key" "cmd_fingerprint new = command_request_fingerprint sha256 q"
    by (simp_all add: new_def new_command_row_def)
  have "run \<in> set (commands_of t s') \<and> cmd_key run = key \<and> cmd_fingerprint run = cmd_fingerprint new"
  proof (cases "run_by_key t key s")
    case None
    define s1 where "s1 = s\<lparr>command_runs_t := insert_rows t [new] (command_runs_t s)\<rparr>"
    have "find (\<lambda>r. cmd_key r = key) (commands_of t s @ [new]) = Some new"
      using None new(1) by (auto simp: run_by_key_def find_None_iff intro!: find_snoc)
    then have "run_by_key t key s1 = Some new"
      by (simp add: s1_def run_by_key_def)
    then obtain e where "run = new" and "append_run_event t (ids 1) (clk 1) new ''command.created'' Visible_User
        (''Command created: '' @ req_name q)
        [(''command_name'', JString (req_name q)), (''status'', JString (status_value Command_Created))] s1 = Inr (s', e)"
      using assms None unfolding create_run_def Let_def new_def [symmetric] s1_def [symmetric]
      by (auto simp: rbind_eq_Inr split: if_splits)
    then show ?thesis
      using new appended_commands[OF append_run_event_Inr] by (simp add: s1_def)
  next
    case (Some row)
    then have "s' = s" "run = row" "cmd_fingerprint row = cmd_fingerprint new"
      using assms unfolding create_run_def Let_def new_def [symmetric] by (auto split: if_splits)
    then show ?thesis
      using run_by_key_Some[OF Some] by simp
  qed
  then show "cmd_key run = key" "cmd_fingerprint run = command_request_fingerprint sha256 q" "run \<in> set (commands_of t s')"
    using new(2) by simp_all
  then show "run_by_id t (cmd_id run) s' = Some run \<or> \<not> commands_ok t s'"
    using run_by_id_row by blast
qed

text \<open>A second request under a key in use.\<close>

lemma create_run_again:
  assumes "commands_ok t s" and "r \<in> set (commands_of t s)" and "cmd_key r = key"
  shows "create_run sha256 t ids clk q key s = (if cmd_fingerprint r = command_request_fingerprint sha256 q then Inr (s, r)
    else Inl (Raised IdempotencyConflictError))"
proof -
  obtain r' where r': "run_by_key t key s = Some r'"
    using assms(2,3) run_by_key_None[of t key s] by (cases "run_by_key t key s") auto
  have "cmd_key r' = cmd_key r" "r' \<in> set (commands_of t s)"
    using run_by_key_Some[OF r'] assms(3) by simp_all
  moreover have "distinct (map cmd_key (commands_of t s))"
    using assms(1) by (simp add: commands_ok_def)
  ultimately have "r' = r"
    using distinct_map_unique assms(2) by metis
  then show ?thesis
    using r' by (simp add: create_run_def Let_def new_command_row_def)
qed

section \<open>Reading\<close>

lemma log_sorted:
  assumes "numbered s"
  shows "sorted_wrt (<) (map ev_cursor (events_of t s))"
proof -
  have "sorted_wrt (<) (map (ev_cursor \<circ> snd) (filter (\<lambda>x. fst x = t) (domain_events_t s)))"
    using assms sorted_wrt_filter unfolding numbered_def by (simp add: sorted_wrt_map sorted_wrt_filter)
  then show ?thesis
    by (simp add: rows_def comp_def)
qed

definition visible_log :: "tenant \<Rightarrow> event_visibility set option \<Rightarrow> command_store \<Rightarrow> event_row list" where
  "visible_log t allowed s = filter (\<lambda>e. case allowed of None \<Rightarrow> True | Some vs \<Rightarrow> ev_visibility e \<in> vs) (events_of t s)"

lemma visible_sorted: "numbered s \<Longrightarrow> sorted_wrt (<) (map ev_cursor (visible_log t allowed s))"
  using log_sorted[of s t] by (simp add: visible_log_def sorted_wrt_map sorted_wrt_filter)

lemma sort_cursor_id: "sorted_wrt (<) (map ev_cursor es) \<Longrightarrow> sort_key ev_cursor es = es"
  by (rule sort_key_id_if_sorted) (metis strict_sorted_imp_sorted)

text \<open>What a reader gets is the visible part of the log after its cursor, up to the limit.\<close>

lemma events_after_eq:
  assumes "numbered s" and "0 \<le> cursor" and "case limit of None \<Rightarrow> True | Some n \<Rightarrow> 1 \<le> n \<and> n \<le> 2000"
  shows "events_after t cursor limit allowed s = Inr
    ((case limit of None \<Rightarrow> id | Some n \<Rightarrow> take (nat n)) (filter (\<lambda>e. cursor < ev_cursor e) (visible_log t allowed s)))"
proof -
  define rest where "rest = filter (\<lambda>e. cursor < ev_cursor e) (visible_log t allowed s)"
  have "sorted_wrt (<) (map ev_cursor rest)"
    using visible_sorted[OF assms(1)] by (simp add: rest_def sorted_wrt_map sorted_wrt_filter)
  then have "sort_key ev_cursor rest = rest"
    by (rule sort_cursor_id)
  moreover have "(case visible_events t allowed s of None \<Rightarrow> [] | Some es \<Rightarrow> es) = visible_log t allowed s"
    by (auto simp: visible_events_def visible_log_def split: option.split)
  ultimately show ?thesis
    using assms(2,3) unfolding events_after_def rest_def
    by (cases "visible_events t allowed s"; cases limit) (auto simp: Let_def)
qed

text \<open>The page that a limit cuts off is continued by reading after its last cursor.\<close>

lemma filter_after_take:
  assumes "sorted_wrt (<) (map f xs)" and "n < length xs"
  shows "filter (\<lambda>x. (f (xs ! n) :: int) < f x) xs = drop (Suc n) xs"
  using assms
proof (induction xs arbitrary: n)
  case (Cons x xs)
  show ?case
  proof (cases n)
    case 0
    then show ?thesis
      using Cons.prems(1) by (auto simp: filter_id_conv)
  next
    case (Suc k)
    have "\<not> f (xs ! k) < f x"
      using Cons.prems Suc nth_mem[of k xs] by (auto simp: not_less intro: less_imp_le)
    moreover have "filter (\<lambda>x. f (xs ! k) < f x) xs = drop (Suc k) xs"
      using Cons.IH[of k] Cons.prems Suc by simp
    ultimately show ?thesis
      by (simp only: Suc nth_Cons_Suc filter.simps drop_Suc_Cons if_False)
  qed
qed simp

end
