(* ===== verification/Command_History.thy ===== *)
theory Command_History
  imports Command_Invariants
begin

text \<open>
  The event log as the history of the runs: the life-cycle events of a run, in the order of the
  log, start at \<open>created\<close>, follow the table of transitions, end in the status of its row, and
  count its claims. So the state of every command can be rebuilt from the log alone.
\<close>

section \<open>Life-cycle events\<close>

definition lifecycle_types :: "(string \<times> command_status) list" where
  "lifecycle_types = (''command.reclaimed'', Command_Running) # map (\<lambda>st. (status_event st, st))
     [Command_Created, Command_Queued, Command_Waiting_Approval, Command_Running, Command_Succeeded,
      Command_Failed, Command_Rejected, Command_Cancelled, Command_Interrupted]"

definition lifecycle_status :: "string \<Rightarrow> command_status option" where
  "lifecycle_status event_type = map_of lifecycle_types event_type"

lemma lifecycle_status_simps [simp]:
  "lifecycle_status ''command.created'' = Some Command_Created"
  "lifecycle_status ''command.running'' = Some Command_Running"
  "lifecycle_status ''command.reclaimed'' = Some Command_Running"
  by code_simp+

lemma lifecycle_status_event [simp]: "lifecycle_status (status_event st) = Some st"
  by (cases st; simp only:; code_simp)

definition history :: "tenant \<Rightarrow> uuid \<Rightarrow> command_store \<Rightarrow> command_status list" where
  "history t rid s = List.map_filter (lifecycle_status \<circ> ev_type) (filter (\<lambda>e. ev_run e = Some rid) (events_of t s))"

definition follows :: "command_status \<Rightarrow> command_status \<Rightarrow> bool" where
  "follows a b \<longleftrightarrow> b \<in> command_transitions a \<or> a = Command_Running \<and> b = Command_Running"

definition valid_history :: "command_status list \<Rightarrow> bool" where
  "valid_history h \<longleftrightarrow> h \<noteq> [] \<and> hd h = Command_Created \<and> successively follows h"

definition tells :: "command_status list \<Rightarrow> command_row \<Rightarrow> bool" where
  "tells h r \<longleftrightarrow> valid_history h \<and> last h = cmd_status r \<and> int (count_list h Command_Running) = cmd_lease_fence r"

definition plain_call :: "ledger_call \<Rightarrow> bool" where
  "plain_call call \<longleftrightarrow> list_all (\<lambda>x. lifecycle_status x = None) (extra_types call)"

definition plain_step :: "(string \<Rightarrow> string) \<Rightarrow> command_store \<Rightarrow> command_store \<Rightarrow> bool" where
  "plain_step sha256 s s' \<longleftrightarrow> (\<exists>t ids clk call a. plain_call call \<and> exec_ledger sha256 t ids clk call s = Inr (s', a))"

section \<open>The log tells the status\<close>

definition log_tells :: "command_store \<Rightarrow> bool" where
  "log_tells s \<longleftrightarrow> (\<forall>t rid. case run_by_id t rid s of None \<Rightarrow> history t rid s = [] | Some r \<Rightarrow> tells (history t rid s) r)"

lemma log_tellsD:
  "log_tells s \<Longrightarrow> run_by_id t rid s = Some r \<Longrightarrow> tells (history t rid s) r"
  "log_tells s \<Longrightarrow> run_by_id t rid s = None \<Longrightarrow> history t rid s = []"
  unfolding log_tells_def by (metis option.case)+

lemma history_cong: "events_of t s' = events_of t s \<Longrightarrow> history t rid s' = history t rid s"
  by (simp add: history_def)

lemma map_filter_append: "List.map_filter f (xs @ ys) = List.map_filter f xs @ List.map_filter f ys"
  by (simp add: List.map_filter_def)

lemma history_appended:
  assumes "appended t run x e s s'"
  shows "history t' rid s' = history t' rid s
    @ (if t' = t \<and> rid = cmd_id run then (case lifecycle_status x of None \<Rightarrow> [] | Some st \<Rightarrow> [st]) else [])"
proof -
  have e: "ev_run e = Some (cmd_id run)" "ev_type e = x"
    using assms by (simp_all add: appended_def)
  show ?thesis
    by (auto simp: history_def appended_events[OF assms] map_filter_append e List.map_filter_simps split: option.split)
qed

lemma history_changed: "changed t row row' s s' \<Longrightarrow> history t' rid s' = history t' rid s"
  by (rule history_cong) (rule changed_events)

lemma changed_lookup:
  assumes "commands_ok t s" and "changed t row row' s s'"
  shows "run_by_id t' rid s' = (if t' = t \<and> rid = cmd_id row then Some row' else run_by_id t' rid s)"
proof (cases "t' = t")
  case True
  have c: "commands_of t s' = map (\<lambda>r. if cmd_id r = cmd_id row then row' else r) (commands_of t s)"
    using changed_commands[OF assms(2), of t] by simp
  have row: "row \<in> set (commands_of t s)" "cmd_id row' = cmd_id row"
    using assms(2) by (simp_all add: changed_def)
  have "find (\<lambda>x. cmd_id x = cmd_id row) (map (\<lambda>r. if cmd_id r = cmd_id row then row' else r) xs) = Some row'"
    if "row \<in> set xs" for xs
    using that row(2) by (induction xs) auto
  moreover have "find (\<lambda>x. cmd_id x = rid) (map (\<lambda>r. if cmd_id r = cmd_id row then row' else r) xs) = find (\<lambda>x. cmd_id x = rid) xs"
    if "rid \<noteq> cmd_id row" for xs
    using that row(2) by (induction xs) auto
  ultimately show ?thesis
    using True row(1) unfolding run_by_id_def by (simp only: c if_True simp_thms) simp
next
  case False
  then show ?thesis
    using run_by_id_cong[OF changed_other[OF assms(2) False]] by simp
qed

lemma find_snoc_if:
  "find P (xs @ [y]) = (case find P xs of None \<Rightarrow> if P y then Some y else None | Some x \<Rightarrow> Some x)"
  by (induction xs) simp_all

lemma inserted_lookup:
  assumes "run_by_id t (cmd_id row) s = None"
  shows "run_by_id t' rid (s\<lparr>command_runs_t := insert_rows t [row] (command_runs_t s)\<rparr>)
    = (if t' = t \<and> rid = cmd_id row then Some row else run_by_id t' rid s)"
proof (cases "t' = t")
  case True
  then show ?thesis
    using assms by (cases "rid = cmd_id row") (auto simp: run_by_id_def find_snoc_if split: option.split)
next
  case False
  then show ?thesis
    by (simp add: run_by_id_def)
qed

lemma appended_lookup: "appended t run x e s s' \<Longrightarrow> run_by_id t' rid s' = run_by_id t' rid s"
  by (rule run_by_id_cong) (rule appended_commands)

text \<open>A history grows by the status that its row takes.\<close>

lemma tells_extend:
  assumes "tells h r" and "follows (cmd_status r) (cmd_status r')"
    and "cmd_lease_fence r' = cmd_lease_fence r + (if cmd_status r' = Command_Running then 1 else 0)"
  shows "tells (h @ [cmd_status r']) r'"
  using assms by (auto simp: tells_def valid_history_def successively_append_iff)

lemma tells_same: "tells h r \<Longrightarrow> cmd_status r' = cmd_status r \<Longrightarrow> cmd_lease_fence r' = cmd_lease_fence r \<Longrightarrow> tells h r'"
  by (simp add: tells_def)

text \<open>One row changes and its history grows by \<open>extra\<close>; the other histories stay.\<close>

lemma log_tells_change:
  assumes "log_tells s" and "run_by_id t (cmd_id row) s = Some row"
    and "\<And>t' rid. run_by_id t' rid s' = (if t' = t \<and> rid = cmd_id row then Some row' else run_by_id t' rid s)"
    and "\<And>t' rid. history t' rid s' = history t' rid s @ (if t' = t \<and> rid = cmd_id row then extra else [])"
    and "tells (history t (cmd_id row) s) row \<Longrightarrow> tells (history t (cmd_id row) s @ extra) row'"
  shows "log_tells s'"
  unfolding log_tells_def
proof (intro allI)
  fix t' rid
  show "case run_by_id t' rid s' of None \<Rightarrow> history t' rid s' = [] | Some r \<Rightarrow> tells (history t' rid s') r"
  proof (cases "t' = t \<and> rid = cmd_id row")
    case True
    then show ?thesis
      using assms(5) log_tellsD(1)[OF assms(1,2)] by (simp add: assms(3,4))
  next
    case False
    have "case run_by_id t' rid s of None \<Rightarrow> history t' rid s = [] | Some r \<Rightarrow> tells (history t' rid s) r"
      using assms(1) unfolding log_tells_def by blast
    moreover have "run_by_id t' rid s' = run_by_id t' rid s" and "history t' rid s' = history t' rid s"
      using False unfolding assms(3,4) by auto
    ultimately show ?thesis
      by (simp only:)
  qed
qed

lemma log_tells_same:
  assumes "log_tells s" and "\<And>t'. commands_of t' s' = commands_of t' s" and "\<And>t' rid. history t' rid s' = history t' rid s"
  shows "log_tells s'"
  using assms(1) unfolding log_tells_def assms(3) run_by_id_cong[OF assms(2)] .

lemma effect_log_tells:
  assumes "ledger_effect t xs s s'" and "log_tells s" and "\<And>t. commands_ok t s" and "list_all (\<lambda>x. lifecycle_status x = None) xs"
  shows "log_tells s'"
  using assms
proof (induction rule: ledger_effect.induct)
  case (quiet s' s)
  show ?case
    by (rule log_tells_same[OF quiet.prems(1)]) (simp_all add: quiet history_def)
next
  case (created row s s1 e s')
  have fresh: "run_by_id t (cmd_id row) s = None"
    using created(1) by (simp add: run_by_id_None)
  have hist: "history t' rid s1 = history t' rid s" for t' rid
    by (rule history_cong) (simp add: created(7))
  have look: "run_by_id t' rid s1 = (if t' = t \<and> rid = cmd_id row then Some row else run_by_id t' rid s)" for t' rid
    unfolding created(7) by (rule inserted_lookup[OF fresh])
  show ?case
    unfolding log_tells_def
  proof (intro allI)
    fix t' rid
    show "case run_by_id t' rid s' of None \<Rightarrow> history t' rid s' = [] | Some r \<Rightarrow> tells (history t' rid s') r"
    proof (cases "t' = t \<and> rid = cmd_id row")
      case True
      have "tells [Command_Created] row"
        by (simp add: tells_def valid_history_def created(3,6))
      then show ?thesis
        using True log_tellsD(2)[OF created.prems(1) fresh]
        by (simp add: appended_lookup[OF created(8)] look history_appended[OF created(8)] hist)
    next
      case False
      have "case run_by_id t' rid s of None \<Rightarrow> history t' rid s = [] | Some r \<Rightarrow> tells (history t' rid s) r"
        using created.prems(1) unfolding log_tells_def by blast
      moreover have "run_by_id t' rid s' = run_by_id t' rid s" and "history t' rid s' = history t' rid s"
        using False unfolding appended_lookup[OF created(8)] look history_appended[OF created(8)] hist by auto
      ultimately show ?thesis
        by (simp only:)
    qed
  qed
next
  case (moved row row' s s1 now status e s')
  have row: "row \<in> set (commands_of t s)" "cmd_id row' = cmd_id row" "cmd_status row' = status"
    "cmd_lease_fence row' = cmd_lease_fence row"
    using moved(1,2) by (simp_all add: changed_def)
  show ?case
  proof (rule log_tells_change[OF moved.prems(1) run_by_id_row[OF moved.prems(2) row(1)], where row' = row' and extra = "[status]"])
    show "run_by_id t' rid s' = (if t' = t \<and> rid = cmd_id row then Some row' else run_by_id t' rid s)" for t' rid
      unfolding appended_lookup[OF moved(5)] by (rule changed_lookup[OF moved.prems(2) moved(1)])
    show "history t' rid s' = history t' rid s @ (if t' = t \<and> rid = cmd_id row then [status] else [])" for t' rid
      by (simp add: history_appended[OF moved(5)] history_changed[OF moved(1)] row(2))
    show "tells (history t (cmd_id row) s @ [status]) row'" if "tells (history t (cmd_id row) s) row"
      using tells_extend[OF that, of row'] moved(3,4) row by (simp add: follows_def)
  qed
next
  case (finished row row' s s1 now status x e1 s2 e s')
  have row: "row \<in> set (commands_of t s)" "cmd_id row' = cmd_id row" "cmd_status row' = status"
    "cmd_lease_fence row' = cmd_lease_fence row"
    using finished(1,2) by (simp_all add: changed_def)
  show ?case
  proof (rule log_tells_change[OF finished.prems(1) run_by_id_row[OF finished.prems(2) row(1)], where row' = row' and extra = "[status]"])
    show "run_by_id t' rid s' = (if t' = t \<and> rid = cmd_id row then Some row' else run_by_id t' rid s)" for t' rid
      unfolding appended_lookup[OF finished(6)] appended_lookup[OF finished(5)]
      by (rule changed_lookup[OF finished.prems(2) finished(1)])
    show "history t' rid s' = history t' rid s @ (if t' = t \<and> rid = cmd_id row then [status] else [])" for t' rid
      using finished.prems(3)
      by (simp add: history_appended[OF finished(6)] history_appended[OF finished(5)] history_changed[OF finished(1)] row(2))
    show "tells (history t (cmd_id row) s @ [status]) row'" if "tells (history t (cmd_id row) s) row"
      using tells_extend[OF that, of row'] finished(3,4) row by (simp add: follows_def)
  qed
next
  case (leased row row' s s1 now until worker e s')
  have row: "row \<in> set (commands_of t s)" "cmd_id row' = cmd_id row" "cmd_status row' = Command_Running"
    "cmd_lease_fence row' = cmd_lease_fence row + 1"
    using leased(1,2) by (simp_all add: changed_def)
  have "follows (cmd_status row) Command_Running"
    using claimable_status[OF leased(3)] by (auto simp: follows_def)
  then show ?case
  proof (intro log_tells_change[OF leased.prems(1) run_by_id_row[OF leased.prems(2) row(1)], where row' = row' and extra = "[Command_Running]"])
    show "run_by_id t' rid s' = (if t' = t \<and> rid = cmd_id row then Some row' else run_by_id t' rid s)" for t' rid
      unfolding appended_lookup[OF leased(4)] by (rule changed_lookup[OF leased.prems(2) leased(1)])
    show "history t' rid s' = history t' rid s @ (if t' = t \<and> rid = cmd_id row then [Command_Running] else [])" for t' rid
      by (simp add: history_appended[OF leased(4)] history_changed[OF leased(1)] row(2))
    show "tells (history t (cmd_id row) s @ [Command_Running]) row'"
      if "follows (cmd_status row) Command_Running" "tells (history t (cmd_id row) s) row"
      using tells_extend[OF that(2), of row'] that(1) row by simp
  qed
next
  case (extended row row' s s' now until)
  have row: "row \<in> set (commands_of t s)" "cmd_status row' = cmd_status row" "cmd_lease_fence row' = cmd_lease_fence row"
    using extended(1,3) by (simp_all add: changed_def)
  show ?case
  proof (rule log_tells_change[OF extended.prems(1) run_by_id_row[OF extended.prems(2) row(1)], where row' = row' and extra = "[]"])
    show "run_by_id t' rid s' = (if t' = t \<and> rid = cmd_id row then Some row' else run_by_id t' rid s)" for t' rid
      by (rule changed_lookup[OF extended.prems(2) extended(1)])
    show "history t' rid s' = history t' rid s @ (if t' = t \<and> rid = cmd_id row then [] else [])" for t' rid
      by (simp add: history_changed[OF extended(1)])
    show "tells (history t (cmd_id row) s @ []) row'" if "tells (history t (cmd_id row) s) row"
      using tells_same[OF that row(2,3)] by simp
  qed
next
  case (noted row s x e s')
  have "history t' rid s' = history t' rid s" for t' rid
    using noted.prems(3) by (simp add: history_appended[OF noted(2)])
  then show ?case
    using log_tells_same[OF noted.prems(1) appended_commands[OF noted(2)]] by blast
next
  case (domain_event i now event_type vis msg payload actor p c k v s s' e)
  have "history t' rid s' = history t' rid s" for t' rid
    using domain_event(1)
    by (auto simp: append_domain_event_def insert_event_Inr history_def rows_append map_filter_append List.map_filter_simps)
  then show ?case
    using log_tells_same[OF domain_event.prems(1) domain_event_commands[OF domain_event(1)]] by blast
qed

lemma plain_ledger_step: "plain_step sha256 s s' \<Longrightarrow> ledger_step sha256 s s'"
  unfolding plain_step_def ledger_step_def by blast

interpretation logs: invariant_system "\<lambda>s. s = empty_command_store" "plain_step sha256" "\<lambda>s. ledger_inv s \<and> log_tells s" for sha256
proof
  fix s :: command_store
  assume "s = empty_command_store"
  then show "ledger_inv s \<and> log_tells s"
    using ledger.init_inv[of s] by (simp add: log_tells_def run_by_id_def history_def List.map_filter_simps)
next
  fix s s'
  assume inv: "ledger_inv s \<and> log_tells s" and step: "plain_step sha256 s s'"
  then obtain t ids clk call a where "plain_call call" "exec_ledger sha256 t ids clk call s = Inr (s', a)"
    unfolding plain_step_def by blast
  then have "log_tells s'"
    using effect_log_tells[OF step_effect] inv unfolding plain_call_def ledger_inv_def by blast
  then show "ledger_inv s' \<and> log_tells s'"
    using ledger.step_inv[OF _ plain_ledger_step[OF step]] inv by blast
qed

end
