(* ===== verification/Command_Bus.thy ===== *)
theory Command_Bus
  imports Command_Facts Command_History
begin

text \<open>
  \<open>CommandBus\<close> of \<open>commanding/bus.py\<close>, the gate between callers and the ledger, and
  \<open>LocalDeviceCommandBus\<close> of \<open>commanding/local_device_bus.py\<close>, the gate of private commands that
  are not recorded. A call of the bus runs inside the transaction of its unit of work: it returns
  the new store, or the exception with which everything it did is rolled back. The calls that it
  makes draw their identifiers and readings of the clock one after the other from the two streams.
\<close>

section \<open>The bus\<close>

record bus_request =
  bus_tool :: string
  bus_actor :: string
  bus_scope :: scope_contract
  bus_payload :: "(string \<times> json) list"
  bus_key :: string

record dispatch_result =
  dispatch_accepted :: bool
  dispatch_requires_approval :: bool
  dispatch_run :: "command_row option"
  dispatch_error_code :: "string option"
  dispatch_reason :: string

definition ledger_request :: "bus_request \<Rightarrow> risk_level \<Rightarrow> command_request" where
  "ledger_request q risk = \<lparr>req_name = bus_tool q, req_actor = bus_actor q, req_scope = bus_scope q,
     req_input = bus_payload q, req_risk = risk\<rparr>"

definition later :: "nat \<Rightarrow> (nat \<Rightarrow> 'a) \<Rightarrow> nat \<Rightarrow> 'a" where
  "later n f = (\<lambda>i. f (i + n))"

definition submit_command ::
  "(string \<Rightarrow> string) \<Rightarrow> tool_registry \<Rightarrow> tenant \<Rightarrow> (nat \<Rightarrow> uuid) \<Rightarrow> clock \<Rightarrow> bus_request \<Rightarrow> permission_profile \<Rightarrow>
   (string \<times> bool) list \<Rightarrow> bool \<Rightarrow> command_store \<Rightarrow> ledger_error + command_store \<times> dispatch_result" where
  "submit_command sha256 reg t ids clk q profile overrides healthy s =
     (let decision = evaluate_policy reg (bus_tool q) profile overrides False healthy;
          denied = \<lparr>dispatch_accepted = False, dispatch_requires_approval = False, dispatch_run = None,
                    dispatch_error_code = decision_error_code decision, dispatch_reason = decision_reason decision\<rparr>
      in case registry_get reg (bus_tool q) of
        None \<Rightarrow> Inr (s, denied)
      | Some d \<Rightarrow>
          if \<not> decision_allowed decision \<and> \<not> decision_requires_approval decision then Inr (s, denied)
          else rbind (create_run sha256 t ids clk (ledger_request q (tool_risk d)) (bus_key q) s) (\<lambda>(s1, run).
            if cmd_status run \<noteq> Command_Created
            then Inr (s1, \<lparr>dispatch_accepted = (cmd_status run \<notin> {Command_Failed, Command_Rejected, Command_Cancelled}),
                dispatch_requires_approval = (cmd_status run = Command_Waiting_Approval), dispatch_run = Some run,
                dispatch_error_code = None, dispatch_reason = []\<rparr>)
            else rbind (transition_run t (later 2 ids) (later 2 clk) (cmd_id run)
                (if decision_requires_approval decision then Command_Waiting_Approval else Command_Queued) None None s1)
              (\<lambda>(s2, moved). Inr (s2, \<lparr>dispatch_accepted = True,
                dispatch_requires_approval = decision_requires_approval decision, dispatch_run = Some moved,
                dispatch_error_code = None, dispatch_reason = []\<rparr>))))"

definition bus_decide_approval ::
  "tenant \<Rightarrow> (nat \<Rightarrow> uuid) \<Rightarrow> clock \<Rightarrow> uuid \<Rightarrow> bool \<Rightarrow> command_store \<Rightarrow> ledger_error + command_store \<times> command_row" where
  "bus_decide_approval t ids clk rid approved =
     transition_run t ids clk rid (if approved then Command_Queued else Command_Rejected) None None"

text \<open>\<open>_DEFAULT_LEASE_DURATION\<close>, in microseconds.\<close>

definition default_lease :: int where
  "default_lease = 5 * 60 * 1000000"

definition start_command ::
  "tenant \<Rightarrow> (nat \<Rightarrow> uuid) \<Rightarrow> clock \<Rightarrow> uuid \<Rightarrow> string option \<Rightarrow> instant option \<Rightarrow> command_store \<Rightarrow>
   ledger_error + command_store \<times> command_row" where
  "start_command t ids clk rid worker lease_until =
     claim_run t (later 1 ids) (later 1 clk) rid
       (case worker of None \<Rightarrow> ''core:'' @ uuid_str (ids 0) | Some w \<Rightarrow> if w = [] then ''core:'' @ uuid_str (ids 0) else w)
       (case lease_until of None \<Rightarrow> clk 0 + default_lease | Some u \<Rightarrow> u)"

definition complete_command ::
  "tenant \<Rightarrow> (nat \<Rightarrow> uuid) \<Rightarrow> clock \<Rightarrow> uuid \<Rightarrow> (string \<times> json) list \<Rightarrow> string option \<Rightarrow> int option \<Rightarrow> command_store \<Rightarrow>
   ledger_error + command_store \<times> command_row" where
  "complete_command t ids clk rid output owner fence =
     finish_run t ids clk rid Command_Succeeded ''command.output'' Visible_Developer ''Command produced output'' output owner fence"

definition fail_command ::
  "tenant \<Rightarrow> (nat \<Rightarrow> uuid) \<Rightarrow> clock \<Rightarrow> uuid \<Rightarrow> string \<Rightarrow> string option \<Rightarrow> int option \<Rightarrow> command_store \<Rightarrow>
   ledger_error + command_store \<times> command_row" where
  "fail_command t ids clk rid error_code owner fence =
     finish_run t ids clk rid Command_Failed ''command.failure'' Visible_User ''Command failed''
       [(''error_code'', JString error_code)] owner fence"

definition cancel_command ::
  "tenant \<Rightarrow> (nat \<Rightarrow> uuid) \<Rightarrow> clock \<Rightarrow> uuid \<Rightarrow> string option \<Rightarrow> int option \<Rightarrow> command_store \<Rightarrow>
   ledger_error + command_store \<times> command_row" where
  "cancel_command t ids clk rid owner fence = transition_run t ids clk rid Command_Cancelled owner fence"

section \<open>The local bus\<close>

record device_request =
  device_command :: string
  device_actor :: string
  device_digest :: string
  device_key :: string

definition device_post_init :: "device_request \<Rightarrow> domain_error + device_request" where
  "device_post_init q = ensure
     [(device_actor q \<noteq> ''core:ambient_dialogue'', ValueError ''local device command actor is not authorized''),
      (length (device_digest q) \<noteq> 64 \<or> list_ex (\<lambda>c. c \<notin> set ''0123456789abcdef'') (device_digest q),
       ValueError ''local device command payload digest must be SHA-256''),
      (\<not> starts_with ''ambient-dialogue:'' (device_key q), ValueError ''local device command idempotency key is out of scope'')] q"

text \<open>\<open>execute\<close>: the handler is run, or not: \<open>None\<close> is the \<open>PermissionError\<close>.\<close>

definition execute_local :: "tool_registry \<Rightarrow> device_request \<Rightarrow> 'a \<Rightarrow> 'a option" where
  "execute_local reg q handler =
     (case registry_get reg (device_command q) of
        None \<Rightarrow> None
      | Some d \<Rightarrow>
          if device_command q \<noteq> ''model.generate'' \<or> tool_model_visible d \<or> \<not> tool_idempotent d
            \<or> tool_side_effect d \<noteq> Effect_Read \<or> Observe \<notin> tool_profiles d
          then None else Some handler)"

section \<open>Approvals and recovery\<close>

text \<open>
  What \<open>ApprovalApplication.decide\<close> (\<open>application/approval.py\<close>) does to the ledger, once its checks
  of the approval itself have passed: it records the decision on a run that waits for it.
\<close>

definition record_decision ::
  "tenant \<Rightarrow> (nat \<Rightarrow> uuid) \<Rightarrow> clock \<Rightarrow> uuid \<Rightarrow> uuid \<Rightarrow> bool \<Rightarrow> command_store \<Rightarrow> ledger_error + command_store \<times> command_row" where
  "record_decision t ids clk approval_id rid approved s =
     (case run_by_id t rid s of
        None \<Rightarrow> Inl (Raised KeyError)
      | Some run \<Rightarrow>
          if cmd_status run \<noteq> Command_Waiting_Approval
          then Inl (Raised (InvalidTransitionError (''approval CommandRun cannot be decided from '' @ status_value (cmd_status run))))
          else rbind (append_event t ids clk (cmd_id run) ''approval.decided'' Visible_User ''Approval decision recorded''
              [(''approval_id'', JString (uuid_str approval_id)),
               (''decision'', JString (if approved then ''approved'' else ''rejected''))] None None s)
            (\<lambda>(s1, event). transition_run t (later 1 ids) (later 2 clk) (cmd_id run)
              (if approved then Command_Queued else Command_Rejected) None None s1))"

text \<open>
  \<open>_prepare_recovery_command\<close> of the preview runtimes (\<open>application/runtime_support.py\<close>): the active
  command of a runtime is claimed for the worker that is expected to run it. An interrupted run is
  queued again, and one that waits for approval is approved on the way, without a user.
\<close>

definition active_recovery_command :: "tenant \<Rightarrow> uuid \<Rightarrow> uuid \<Rightarrow> string \<Rightarrow> command_store \<Rightarrow> command_row option" where
  "active_recovery_command t for_task runtime name s =
     (case active_run_for_task t for_task name s of
        None \<Rightarrow> None
      | Some run \<Rightarrow> if map_of (cmd_input run) ''runtime_id'' = Some (JString (uuid_str runtime)) then Some run else None)"

definition prepare_recovery ::
  "tenant \<Rightarrow> (nat \<Rightarrow> uuid) \<Rightarrow> clock \<Rightarrow> uuid \<Rightarrow> uuid \<Rightarrow> string \<Rightarrow> string \<Rightarrow> command_store \<Rightarrow>
   ledger_error + command_store \<times> command_row option" where
  "prepare_recovery t ids clk for_task runtime name expected_worker s =
     (case active_recovery_command t for_task runtime name s of
        None \<Rightarrow> Inr (s, None)
      | Some run \<Rightarrow>
          if cmd_status run = Command_Running
          then (case cmd_lease_until run of
              None \<Rightarrow> Inr (s, None)
            | Some until \<Rightarrow>
                if cmd_lease_owner run = Some expected_worker \<and> clk 0 < until then Inr (s, Some run)
                else if until \<le> clk 0
                then map_sum id (map_prod id Some) (start_command t ids (later 1 clk) (cmd_id run) (Some expected_worker) None s)
                else Inr (s, None))
          else rbind (if cmd_status run = Command_Interrupted
              then transition_run t ids (later 1 clk) (cmd_id run) Command_Queued None None s
              else if cmd_status run = Command_Waiting_Approval
              then bus_decide_approval t ids (later 1 clk) (cmd_id run) True s
              else if cmd_status run = Command_Created
              then transition_run t ids (later 1 clk) (cmd_id run) Command_Queued None None s
              else Inr (s, run))
            (\<lambda>(s1, queued). if cmd_status queued = Command_Queued
               then map_sum id (map_prod id Some)
                 (start_command t (later 1 ids) (later 3 clk) (cmd_id queued) (Some expected_worker) None s1)
               else Inr (s1, None)))"

section \<open>The bus as a machine\<close>

text \<open>
  The calls of the bus, the two compositions above, and the calls of the ledger that workers and
  applications make beside it.
\<close>

datatype bus_call =
    Submit bus_request permission_profile "(string \<times> bool) list" bool
  | Decide_Approval uuid bool
  | Record_Decision uuid uuid bool
  | Recover uuid uuid string string
  | Start uuid "string option" "instant option"
  | Complete uuid "(string \<times> json) list" "string option" "int option"
  | Fail_Command uuid string "string option" "int option"
  | Cancel_Command uuid "string option" "int option"
  | Beside ledger_call

fun exec_bus ::
  "(string \<Rightarrow> string) \<Rightarrow> tool_registry \<Rightarrow> tenant \<Rightarrow> (nat \<Rightarrow> uuid) \<Rightarrow> clock \<Rightarrow> bus_call \<Rightarrow> command_store \<Rightarrow>
   ledger_error + command_store" where
  "exec_bus sha256 reg t ids clk (Submit q profile overrides healthy) s =
     map_sum id fst (submit_command sha256 reg t ids clk q profile overrides healthy s)"
| "exec_bus sha256 reg t ids clk (Decide_Approval rid approved) s = map_sum id fst (bus_decide_approval t ids clk rid approved s)"
| "exec_bus sha256 reg t ids clk (Record_Decision approval_id rid approved) s =
     map_sum id fst (record_decision t ids clk approval_id rid approved s)"
| "exec_bus sha256 reg t ids clk (Recover for_task runtime name worker) s =
     map_sum id fst (prepare_recovery t ids clk for_task runtime name worker s)"
| "exec_bus sha256 reg t ids clk (Start rid worker until) s = map_sum id fst (start_command t ids clk rid worker until s)"
| "exec_bus sha256 reg t ids clk (Complete rid output owner fence) s =
     map_sum id fst (complete_command t ids clk rid output owner fence s)"
| "exec_bus sha256 reg t ids clk (Fail_Command rid error_code owner fence) s =
     map_sum id fst (fail_command t ids clk rid error_code owner fence s)"
| "exec_bus sha256 reg t ids clk (Cancel_Command rid owner fence) s =
     map_sum id fst (cancel_command t ids clk rid owner fence s)"
| "exec_bus sha256 reg t ids clk (Beside call) s = map_sum id fst (exec_ledger sha256 t ids clk call s)"

text \<open>
  What is called beside the bus: not \<open>create_run\<close>, which only the bus calls, and not the transition
  of a run that waits for approval to \<open>queued\<close>: besides the calls above, the code calls
  \<open>transition(run, QUEUED)\<close> on interrupted runs only (\<open>recoverable_command.py\<close>, \<open>system_actions\<close>).
\<close>

definition waits_for_approval :: "tenant \<Rightarrow> uuid \<Rightarrow> command_store \<Rightarrow> bool" where
  "waits_for_approval t rid s \<longleftrightarrow> map_option cmd_status (run_by_id t rid s) = Some Command_Waiting_Approval"

fun called :: "tenant \<Rightarrow> command_store \<Rightarrow> bus_call \<Rightarrow> bool" where
  "called t s (Beside (Create_Run q key)) \<longleftrightarrow> False"
| "called t s (Beside (Transition_Run rid status owner fence)) \<longleftrightarrow> \<not> (status = Command_Queued \<and> waits_for_approval t rid s)"
| "called t s _ \<longleftrightarrow> True"

definition bus_step :: "(string \<Rightarrow> string) \<Rightarrow> command_store \<Rightarrow> command_store \<Rightarrow> bool" where
  "bus_step sha256 s s' \<longleftrightarrow> (\<exists>reg t ids clk call. called t s call \<and> exec_bus sha256 reg t ids clk call s = Inr s')"

text \<open>
  A history: calls of any tenants, each with the registry of the moment and its identifiers and
  readings of the clock. A call that raises is rolled back. \<open>None\<close>: a call that nobody makes.
\<close>

type_synonym bus_event = "tenant \<times> tool_registry \<times> (nat \<Rightarrow> uuid) \<times> clock \<times> bus_call"

definition after_event :: "(string \<Rightarrow> string) \<Rightarrow> bus_event \<Rightarrow> command_store \<Rightarrow> command_store" where
  "after_event sha256 = (\<lambda>(t, reg, ids, clk, call) s. case exec_bus sha256 reg t ids clk call s of Inl _ \<Rightarrow> s | Inr s' \<Rightarrow> s')"

fun run_bus :: "(string \<Rightarrow> string) \<Rightarrow> bus_event list \<Rightarrow> command_store \<Rightarrow> command_store option" where
  "run_bus sha256 [] s = Some s"
| "run_bus sha256 ((t, reg, ids, clk, call) # events) s =
     (if called t s call then run_bus sha256 events (after_event sha256 (t, reg, ids, clk, call) s) else None)"

text \<open>
  The calls that approve a run: \<open>decide_approval\<close> of the bus, the recorded decision of a user, and
  the recovery of a runtime whose active command it is.
\<close>

fun approves :: "tenant \<Rightarrow> uuid \<Rightarrow> command_store \<Rightarrow> bus_call \<Rightarrow> bool" where
  "approves t rid s (Decide_Approval run approved) \<longleftrightarrow> run = rid \<and> approved"
| "approves t rid s (Record_Decision approval_id run approved) \<longleftrightarrow> run = rid \<and> approved"
| "approves t rid s (Recover for_task runtime name worker) \<longleftrightarrow>
     map_option cmd_id (active_recovery_command t for_task runtime name s) = Some rid"
| "approves t rid s _ \<longleftrightarrow> False"

fun approved_in :: "(string \<Rightarrow> string) \<Rightarrow> tenant \<Rightarrow> uuid \<Rightarrow> bus_event list \<Rightarrow> command_store \<Rightarrow> bool" where
  "approved_in sha256 t rid [] s \<longleftrightarrow> False"
| "approved_in sha256 t rid (event # events) s \<longleftrightarrow>
     fst event = t \<and> approves t rid s (snd (snd (snd (snd event)))) \<or> approved_in sha256 t rid events (after_event sha256 event s)"

definition held :: "command_status \<Rightarrow> bool" where
  "held status \<longleftrightarrow> status \<in> {Command_Waiting_Approval, Command_Rejected, Command_Cancelled}"

end
