(* ===== verification/Command_Bus_Facts.thy ===== *)
theory Command_Bus_Facts
  imports Command_Bus
begin

text \<open>
  What follows for the bus: every call of it is a path of calls of the ledger, so the invariants
  of the ledger hold; and a run whose submission asks for approval is held until a call approves
  this run.
\<close>

section \<open>The bus on the ledger\<close>

lemma map_fst_Inr: "map_sum id fst m = Inr s' \<longleftrightarrow> (\<exists>x. m = Inr (s', x))"
  by (cases m) auto

lemma ledger_stepI: "exec_ledger sha256 t ids clk call s = Inr (s', a) \<Longrightarrow> ledger_step sha256 s s'"
  unfolding ledger_step_def by blast

lemma create_step: "create_run sha256 t ids clk q key s = Inr (s', run) \<Longrightarrow> ledger_step sha256 s s'"
  by (rule ledger_stepI[of _ _ _ _ "Create_Run q key" _ _ "Answer_Run run"]) (simp add: answer_Inr)

lemma transition_step: "transition_run t ids clk rid status owner fence s = Inr (s', run) \<Longrightarrow> ledger_step sha256 s s'"
  by (rule ledger_stepI[of _ _ _ _ "Transition_Run rid status owner fence" _ _ "Answer_Run run"]) (simp add: answer_Inr)

lemma finish_step:
  "finish_run t ids clk rid status event_type vis msg payload owner fence s = Inr (s', run) \<Longrightarrow> ledger_step sha256 s s'"
  by (rule ledger_stepI[of _ _ _ _ "Finish_Run rid status event_type vis msg payload owner fence" _ _ "Answer_Run run"])
    (simp add: answer_Inr)

lemma claim_step: "claim_run t ids clk rid worker until s = Inr (s', run) \<Longrightarrow> ledger_step sha256 s s'"
  by (rule ledger_stepI[of _ _ _ _ "Claim_Run rid worker until" _ _ "Answer_Run run"]) (simp add: answer_Inr)

lemma map_sum_prod_Inr: "map_sum id (map_prod id Some) m = Inr (s', x) \<longleftrightarrow> (\<exists>r. m = Inr (s', r) \<and> x = Some r)"
  by (cases m) auto

text \<open>A submission denies, finds the run of its key, or makes a run and moves it on.\<close>

lemma submit_cases:
  assumes "submit_command sha256 reg t ids clk q profile overrides healthy s = Inr (s', result)"
  obtains "s' = s" and "dispatch_run result = None" and "\<not> dispatch_accepted result"
    | s1 run d where "registry_get reg (bus_tool q) = Some d"
      and "create_run sha256 t ids clk (ledger_request q (tool_risk d)) (bus_key q) s = Inr (s1, run)"
      and "cmd_status run \<noteq> Command_Created" and "s' = s1" and "dispatch_run result = Some run"
    | s1 run d moved decision where "registry_get reg (bus_tool q) = Some d"
      and "decision = evaluate_policy reg (bus_tool q) profile overrides False healthy"
      and "decision_allowed decision \<or> decision_requires_approval decision"
      and "create_run sha256 t ids clk (ledger_request q (tool_risk d)) (bus_key q) s = Inr (s1, run)"
      and "cmd_status run = Command_Created"
      and "transition_run t (later 2 ids) (later 2 clk) (cmd_id run)
        (if decision_requires_approval decision then Command_Waiting_Approval else Command_Queued) None None s1 = Inr (s', moved)"
      and "dispatch_run result = Some moved" and "dispatch_requires_approval result = decision_requires_approval decision"
proof (cases "registry_get reg (bus_tool q)")
  case None
  then show ?thesis
    using assms that(1) by (auto simp: submit_command_def Let_def)
next
  case (Some d)
  define decision where "decision = evaluate_policy reg (bus_tool q) profile overrides False healthy"
  show ?thesis
  proof (cases "decision_allowed decision \<or> decision_requires_approval decision")
    case False
    then show ?thesis
      using assms that(1) Some by (auto simp: submit_command_def Let_def decision_def)
  next
    case True
    obtain s1 run where c: "create_run sha256 t ids clk (ledger_request q (tool_risk d)) (bus_key q) s = Inr (s1, run)"
      using assms Some True by (auto simp: submit_command_def Let_def decision_def rbind_eq_Inr)
    show ?thesis
    proof (cases "cmd_status run = Command_Created")
      case False
      then show ?thesis
        using assms that(2)[OF Some c False] Some True c
        by (auto simp: submit_command_def Let_def decision_def rbind_def)
    next
      case created: True
      obtain moved where "transition_run t (later 2 ids) (later 2 clk) (cmd_id run)
          (if decision_requires_approval decision then Command_Waiting_Approval else Command_Queued) None None s1 = Inr (s', moved)"
        and "dispatch_run result = Some moved" and "dispatch_requires_approval result = decision_requires_approval decision"
        using assms Some True c created
        by (auto simp: submit_command_def Let_def decision_def rbind_def split: sum.splits)
      then show ?thesis
        using that(3)[OF Some decision_def True c created] by blast
    qed
  qed
qed

lemma submit_path:
  assumes "submit_command sha256 reg t ids clk q profile overrides healthy s = Inr (s', result)"
  shows "(ledger_step sha256)\<^sup>*\<^sup>* s s'"
  using assms
proof (cases rule: submit_cases)
  case (2 s1 run d)
  then show ?thesis using create_step by blast
next
  case (3 s1 run d moved decision)
  then show ?thesis
    using create_step transition_step by (meson converse_rtranclp_into_rtranclp r_into_rtranclp)
qed simp

lemma started_step: "start_command t ids clk rid worker until s = Inr (s', run) \<Longrightarrow> ledger_step sha256 s s'"
  unfolding start_command_def by (rule claim_step)

lemma appended_step: "append_event t ids clk rid event_type vis msg payload owner fence s = Inr (s', e) \<Longrightarrow> ledger_step sha256 s s'"
  by (rule ledger_stepI[of _ _ _ _ "Append_Event rid event_type vis msg payload owner fence" _ _ "Answer_Event e"]) (simp add: answer_Inr)

lemma record_cases:
  assumes "record_decision t ids clk approval_id rid approved s = Inr (s', moved)"
  obtains s1 e payload where "waits_for_approval t rid s"
    and "append_event t ids clk rid ''approval.decided'' Visible_User ''Approval decision recorded'' payload None None s = Inr (s1, e)"
    and "transition_run t (later 1 ids) (later 2 clk) rid (if approved then Command_Queued else Command_Rejected) None None s1 = Inr (s', moved)"
proof -
  obtain run where run: "run_by_id t rid s = Some run" "cmd_status run = Command_Waiting_Approval"
    using assms by (auto simp: record_decision_def split: option.splits if_splits)
  then have "cmd_id run = rid"
    using run_by_id_Some by blast
  then show ?thesis
    using assms run that by (auto simp: record_decision_def rbind_eq_Inr waits_for_approval_def)
qed

text \<open>A recovery leaves everything, claims a run, or queues a run and then claims it.\<close>

lemma recovery_cases:
  assumes "prepare_recovery t ids clk for_task runtime name worker s = Inr (s', found)"
  obtains "s' = s"
    | run r ids' clk' where "active_recovery_command t for_task runtime name s = Some run"
      and "start_command t ids' clk' (cmd_id run) (Some worker) None s = Inr (s', r)"
    | run s1 queued r ids' clk' where "active_recovery_command t for_task runtime name s = Some run"
      and "transition_run t ids (later 1 clk) (cmd_id run) Command_Queued None None s = Inr (s1, queued)"
      and "s' = s1 \<or> start_command t ids' clk' (cmd_id queued) (Some worker) None s1 = Inr (s', r)"
proof (cases "active_recovery_command t for_task runtime name s")
  case None
  then show ?thesis
    using assms that(1) by (simp add: prepare_recovery_def)
next
  case (Some run)
  note found = this
  show ?thesis
  proof (cases "cmd_status run = Command_Running")
    case True
    then show ?thesis
      using assms that(1) that(2)[OF found] found
      by (auto simp: prepare_recovery_def map_sum_prod_Inr split: option.splits if_splits)
  next
    case False
    show ?thesis
    proof (cases "cmd_status run \<in> {Command_Interrupted, Command_Waiting_Approval, Command_Created}")
      case True
      then obtain s1 queued where "transition_run t ids (later 1 clk) (cmd_id run) Command_Queued None None s = Inr (s1, queued)"
        and "(if cmd_status queued = Command_Queued then map_sum id (map_prod id Some)
          (start_command t (later 1 ids) (later 3 clk) (cmd_id queued) (Some worker) None s1) else Inr (s1, None)) = Inr (s', found)"
        using assms found by (auto simp: prepare_recovery_def bus_decide_approval_def rbind_eq_Inr)
      then show ?thesis
        using that(3)[OF found] by (auto simp: map_sum_prod_Inr split: if_splits)
    next
      case other: False
      then show ?thesis
        using assms found False that(1) that(2)[OF found]
        by (auto simp: prepare_recovery_def rbind_def map_sum_prod_Inr split: if_splits)
    qed
  qed
qed

lemma bus_path:
  assumes "exec_bus sha256 reg t ids clk call s = Inr s'"
  shows "(ledger_step sha256)\<^sup>*\<^sup>* s s'"
proof (cases call)
  case (Submit q profile overrides healthy)
  then show ?thesis
    using assms submit_path by (auto simp: map_fst_Inr)
next
  case (Decide_Approval rid approved)
  then show ?thesis
    using assms transition_step by (fastforce simp: map_fst_Inr bus_decide_approval_def)
next
  case (Record_Decision approval_id rid approved)
  then obtain moved where "record_decision t ids clk approval_id rid approved s = Inr (s', moved)"
    using assms by (auto simp: map_fst_Inr)
  then show ?thesis
    by (cases rule: record_cases) (meson appended_step transition_step converse_rtranclp_into_rtranclp r_into_rtranclp)
next
  case (Recover for_task runtime name worker)
  then obtain found where "prepare_recovery t ids clk for_task runtime name worker s = Inr (s', found)"
    using assms by (auto simp: map_fst_Inr)
  then show ?thesis
  proof (cases rule: recovery_cases)
    case (3 run s1 queued r ids' clk')
    then show ?thesis
      using transition_step started_step by (meson converse_rtranclp_into_rtranclp r_into_rtranclp)
  qed (use started_step in blast)+
next
  case (Start rid worker until)
  then show ?thesis
    using assms started_step by (fastforce simp: map_fst_Inr)
next
  case (Complete rid out owner fence)
  then show ?thesis
    using assms finish_step by (fastforce simp: map_fst_Inr complete_command_def)
next
  case (Fail_Command rid error_code owner fence)
  then show ?thesis
    using assms finish_step by (fastforce simp: map_fst_Inr fail_command_def)
next
  case (Cancel_Command rid owner fence)
  then show ?thesis
    using assms transition_step by (fastforce simp: map_fst_Inr cancel_command_def)
next
  case (Beside c)
  then show ?thesis
    using assms ledger_stepI by (fastforce simp: map_fst_Inr)
qed

section \<open>How statuses move\<close>

text \<open>
  Every run of the new store was there, under its name, with its status or one that \<open>R\<close> allows.
\<close>

definition traced ::
  "(tenant \<Rightarrow> uuid \<Rightarrow> command_status \<Rightarrow> command_status \<Rightarrow> bool) \<Rightarrow> command_store \<Rightarrow> command_store \<Rightarrow> bool" where
  "traced R s s' \<longleftrightarrow> (\<forall>t rid r'. run_by_id t rid s' = Some r' \<longrightarrow> (\<exists>r. run_by_id t rid s = Some r \<and> cmd_name r' = cmd_name r
     \<and> (cmd_status r' = cmd_status r \<or> R t rid (cmd_status r) (cmd_status r'))))"

lemma traced_refl [simp]: "traced R s s"
  by (simp add: traced_def)

lemma tracedI: "(\<And>t. commands_of t s' = commands_of t s) \<Longrightarrow> traced R s s'"
  by (auto simp: traced_def run_by_id_def)

lemma traced_commands: "traced R s s1 \<Longrightarrow> (\<And>t. commands_of t s' = commands_of t s1) \<Longrightarrow> traced R s s'"
  by (simp add: traced_def run_by_id_def)

lemma traced_appended: "append_run_event t i now run event_type vis msg payload s1 = Inr (s', e) \<Longrightarrow> traced R s s1 \<Longrightarrow> traced R s s'"
  using traced_commands appended_commands[OF append_run_event_Inr] by blast

lemma find_updated:
  "(\<And>r. key (g r) = key r) \<Longrightarrow> find (\<lambda>r. key r = k) (map g xs) = map_option g (find (\<lambda>r. key r = k) xs)"
  by (induction xs) simp_all

lemma traced_update:
  assumes "\<And>r. cmd_id (f r) = cmd_id r \<and> cmd_name (f r) = cmd_name r"
    and "\<And>r. p r \<Longrightarrow> cmd_status (f r) = cmd_status r \<or> R t (cmd_id r) (cmd_status r) (cmd_status (f r))"
  shows "traced R s (update_commands t p f s)"
  unfolding traced_def
proof (intro allI impI)
  fix t' rid r'
  assume new: "run_by_id t' rid (update_commands t p f s) = Some r'"
  show "\<exists>r. run_by_id t' rid s = Some r \<and> cmd_name r' = cmd_name r
      \<and> (cmd_status r' = cmd_status r \<or> R t' rid (cmd_status r) (cmd_status r'))"
  proof (cases "t' = t")
    case True
    have "cmd_id (upd_row p f r) = cmd_id r" for r
      using assms(1) by (simp add: upd_row_def)
    then obtain r where r: "run_by_id t rid s = Some r" "r' = upd_row p f r"
      using new True find_updated[of cmd_id "upd_row p f" rid "commands_of t s"] by (auto simp: run_by_id_def)
    moreover have "cmd_id r = rid"
      using run_by_id_Some[OF r(1)] by simp
    ultimately show ?thesis
      using True assms by (auto simp: upd_row_def)
  next
    case False
    then show ?thesis
      using new by (auto simp: run_by_id_def)
  qed
qed

lemma move_traced:
  assumes "move_run t rid status owner fence now s = Inr (s1, upd)"
  shows "traced (\<lambda>t' r a b. t' = t \<and> r = rid \<and> b = status \<and> b \<in> command_transitions a) s s1"
proof -
  obtain row p where "run_by_id t rid s = Some row" "status \<in> command_transitions (cmd_status row)"
    and "s1 = update_commands t (\<lambda>r. cmd_id r = rid \<and> cmd_status r = cmd_status row \<and> holds_if p r)
      (\<lambda>r. r\<lparr>cmd_status := status, cmd_lease_owner := None, cmd_lease_until := None, cmd_updated_at := now\<rparr>) s"
    using assms by (auto simp: move_run_def rbind_eq_Inr Let_def split: if_splits option.splits)
  then show ?thesis
    by (simp only:) (rule traced_update, auto)
qed

lemma take_lease_traced:
  assumes "take_lease t i now event_at row worker until s = Inr (Some (s', upd))" and "claimable now row"
  shows "traced (\<lambda>t' r a b. a \<in> {Command_Queued, Command_Running} \<and> b = Command_Running) s s'"
proof -
  define matches where "matches = (\<lambda>r. cmd_id r = cmd_id row \<and> cmd_status r = cmd_status row
    \<and> cmd_lease_fence r = cmd_lease_fence row \<and> (cmd_status row = Command_Running \<longrightarrow> lapsed now r))"
  define f :: "command_row \<Rightarrow> command_row" where "f = (\<lambda>r. r\<lparr>cmd_status := Command_Running, cmd_lease_owner := Some worker, cmd_lease_until := Some until,
          cmd_lease_fence := cmd_lease_fence row + 1, cmd_updated_at := now\<rparr>)"
  obtain event_type msg payload e where "append_run_event t i event_at upd event_type Visible_User msg payload
      (update_commands t matches f s) = Inr (s', e)"
    using assms(1) unfolding take_lease_def Let_def matches_def [symmetric] f_def [symmetric]
    by (auto simp: rbind_eq_Inr split: if_splits option.splits)
  then show ?thesis
    by (rule traced_appended) (rule traced_update, use claimable_status[OF assms(2)] in \<open>auto simp: f_def matches_def\<close>)
qed

text \<open>How a call other than the creation of a run moves statuses.\<close>

definition moves :: "ledger_call \<Rightarrow> tenant \<Rightarrow> tenant \<Rightarrow> uuid \<Rightarrow> command_status \<Rightarrow> command_status \<Rightarrow> bool" where
  "moves call t t' rid a b \<longleftrightarrow> a \<in> {Command_Queued, Command_Running, Command_Interrupted} \<and> b \<noteq> Command_Created
     \<or> t' = t \<and> b \<in> command_transitions a \<and> b \<noteq> Command_Running \<and> (\<exists>owner fence. call = Transition_Run rid b owner fence)"

lemma traced_mono: "traced R s s' \<Longrightarrow> (\<And>t rid a b. R t rid a b \<Longrightarrow> a = b \<or> R' t rid a b) \<Longrightarrow> traced R' s s'"
  unfolding traced_def by metis

lemma transition_traced:
  assumes "transition_run t ids clk rid status owner fence s = Inr (s', run)"
  shows "traced (\<lambda>t' r a b. t' = t \<and> r = rid \<and> b = status \<and> b \<in> command_transitions a \<and> b \<noteq> Command_Running) s s'"
proof -
  obtain s1 upd e where "status \<noteq> Command_Running" and m: "move_run t rid status owner fence (clk 0) s = Inr (s1, upd)"
    and e: "append_run_event t (ids 0) (clk 1) upd (status_event status) Visible_User
      (''Command '' @ status_value status) [(''status'', JString (status_value status))] s1 = Inr (s', e)"
    using assms by (auto simp: transition_run_def rbind_eq_Inr split: if_splits)
  then show ?thesis
    by (intro traced_mono[OF traced_appended[OF e move_traced[OF m]]]) simp
qed

lemma finish_from: "status \<in> {Command_Succeeded, Command_Failed} \<Longrightarrow> status \<in> command_transitions a
    \<Longrightarrow> a \<in> {Command_Running, Command_Interrupted}"
  by (cases a) auto

lemma no_way_back: "Command_Created \<notin> command_transitions a"
  by (cases a) simp_all

lemma call_traced:
  assumes "exec_ledger sha256 t ids clk call s = Inr (s', a)" and "\<And>q key. call \<noteq> Create_Run q key"
  shows "traced (moves call t) s s'"
proof (cases call)
  case (Create_Run q key)
  then show ?thesis using assms(2) by simp
next
  case (Transition_Run rid status owner fence)
  then obtain run where "transition_run t ids clk rid status owner fence s = Inr (s', run)"
    using assms(1) by (auto simp: answer_Inr)
  then show ?thesis
    by (rule traced_mono[OF transition_traced]) (auto simp: moves_def Transition_Run)
next
  case (Append_Event rid event_type vis msg payload owner fence)
  obtain row p where row: "run_by_id t rid s = Some row" and p: "lease_predicates row owner fence (clk 0) = Inr p"
    using assms(1) Append_Event by (auto simp: answer_Inr append_event_def rbind_eq_Inr split: option.splits)
  show ?thesis
  proof (cases p)
    case None
    then obtain e where "append_run_event t (ids 0) (clk 1) row event_type vis msg payload s = Inr (s', e)"
      using assms(1) Append_Event row p by (auto simp: answer_Inr append_event_def)
    then show ?thesis
      by (rule traced_appended) simp
  next
    case (Some q)
    then obtain run e where "append_run_event t (ids 0) (clk 1) run event_type vis msg payload
        (update_commands t (\<lambda>r. cmd_id r = rid \<and> cmd_status r = Command_Running \<and> q r)
          (\<lambda>r. r\<lparr>cmd_lease_fence := (case fence of None \<Rightarrow> 0 | Some f \<Rightarrow> f)\<rparr>) s) = Inr (s', e)"
      using assms(1) Append_Event row p
      by (auto simp: answer_Inr append_event_def Let_def split: if_splits option.splits)
    then show ?thesis
      by (rule traced_appended) (rule traced_update, simp_all)
  qed
next
  case (Append_Domain_Event event_type vis msg payload actor p c k v)
  then obtain e where "append_domain_event t (ids 0) (clk 0) event_type vis msg payload actor p c k v s = Inr (s', e)"
    using assms(1) by (auto simp: answer_Inr)
  then show ?thesis
    using domain_event_commands by (intro tracedI) blast
next
  case (Finish_Run rid status event_type vis msg payload owner fence)
  then obtain s1 s2 upd e1 e where status: "status \<in> {Command_Succeeded, Command_Failed}"
    and m: "move_run t rid status owner fence (clk 0) s = Inr (s1, upd)"
    and e1: "append_run_event t (ids 0) (clk 1) upd event_type vis msg payload s1 = Inr (s2, e1)"
    and e: "append_run_event t (ids 1) (clk 2) upd (status_event status) Visible_User
      (''Command '' @ status_value status) (closing_payload status payload) s2 = Inr (s', e)"
    using assms(1) by (auto simp: answer_Inr finish_run_def rbind_eq_Inr split: if_splits)
  show ?thesis
    using status finish_from[OF status]
    by (intro traced_mono[OF traced_appended[OF e traced_appended[OF e1 move_traced[OF m]]]]) (auto simp: moves_def)
next
  case (Claim_Run rid worker until)
  then obtain upd where c: "claim_run t ids clk rid worker until s = Inr (s', upd)"
    using assms(1) by (auto simp: answer_Inr)
  then obtain row where "take_lease t (ids 0) (clk 0) (clk 1) row (strip worker) until s = Inr (Some (s', upd))"
    and "claimable (clk 0) row"
    by (auto simp: claim_run_def Let_def rbind_eq_Inr split: if_splits option.splits)
  then show ?thesis
    by (intro traced_mono[OF take_lease_traced]) (auto simp: moves_def)
next
  case (Claim_Next worker until)
  then obtain r where "claim_next t ids clk worker until s = Inr (s', r)"
    using assms(1) by (auto simp: answer_Inr)
  then show ?thesis
  proof (cases rule: claim_next_cases)
    case (2 row upd)
    show ?thesis
      by (rule traced_mono[OF take_lease_traced[OF 2(4,2)]]) (auto simp: moves_def)
  qed simp
next
  case (Abandon_Run rid owner fence)
  have "traced (moves call t) s (fst (abandon_run t (clk 0) rid owner fence s))"
    by (auto simp: abandon_run_def split: option.split intro!: traced_update)
  then show ?thesis
    using assms(1) Abandon_Run by (cases "abandon_run t (clk 0) rid owner fence s") auto
next
  case (Renew_Run rid owner fence until)
  then have "s' = update_commands t (\<lambda>r. holds_lease rid owner fence r \<and> (case cmd_lease_until r of None \<Rightarrow> False | Some u \<Rightarrow> clk 0 < u))
      (\<lambda>r. r\<lparr>cmd_lease_until := Some until, cmd_updated_at := clk 0\<rparr>) s"
    using assms(1) by (auto simp: answer_Inr renew_run_def Let_def split: if_splits)
  then show ?thesis
    by (simp only:) (rule traced_update, simp_all)
next
  case (Stream_State allowed)
  then have "command_runs_t s' = command_runs_t s"
    using assms(1) by (auto simp: answer_Inr stream_state_def Let_def split: if_splits)
  then show ?thesis
    by (intro tracedI) simp
qed

section \<open>Submissions\<close>

text \<open>What a request finds or makes.\<close>

lemma create_run_cases:
  assumes "create_run sha256 t ids clk q key s = Inr (s', run)"
  obtains "s' = s" and "run_by_key t key s = Some run"
    | s0 e where "run = new_command_row sha256 (ids 0) (clk 0) q key" and "run_by_id t (cmd_id run) s = None"
      and "s0 = s\<lparr>command_runs_t := insert_rows t [run] (command_runs_t s)\<rparr>"
      and "appended t run ''command.created'' e s0 s'"
proof (cases "run_by_key t key s")
  case None
  define new where "new = new_command_row sha256 (ids 0) (clk 0) q key"
  define s0 where "s0 = s\<lparr>command_runs_t := insert_rows t [new] (command_runs_t s)\<rparr>"
  have key: "cmd_key new = key" and id: "cmd_id new = ids 0"
    by (simp_all add: new_def new_command_row_def)
  have "find (\<lambda>r. cmd_key r = key) (commands_of t s @ [new]) = Some new"
    using None key by (auto simp: run_by_key_def find_None_iff intro!: find_snoc)
  then have "run_by_key t key s0 = Some new"
    by (simp add: s0_def run_by_key_def)
  then obtain e where "run = new" and "run_by_id t (ids 0) s = None"
    and "append_run_event t (ids 1) (clk 1) new ''command.created'' Visible_User (''Command created: '' @ req_name q)
      [(''command_name'', JString (req_name q)), (''status'', JString (status_value Command_Created))] s0 = Inr (s', e)"
    using assms None unfolding create_run_def Let_def new_def [symmetric] s0_def [symmetric]
    by (auto simp: rbind_eq_Inr split: if_splits)
  then show ?thesis
    using that(2)[of s0 e] append_run_event_Inr id by (simp add: new_def s0_def)
next
  case (Some row)
  then show ?thesis
    using assms that(1) unfolding create_run_def Let_def by (auto split: if_splits)
qed

text \<open>The store after a transition.\<close>

lemma transition_lookup:
  assumes "commands_ok t s" and "transition_run t ids clk rid status owner fence s = Inr (s', moved)" and "run_by_id t rid s = Some run"
  shows "run_by_id t' r s' = (if t' = t \<and> r = rid then Some moved else run_by_id t' r s)"
    and "cmd_name moved = cmd_name run \<and> cmd_status moved = status"
proof -
  obtain s1 e where m: "move_run t rid status owner fence (clk 0) s = Inr (s1, moved)"
    and e: "append_run_event t (ids 0) (clk 1) moved (status_event status) Visible_User
      (''Command '' @ status_value status) [(''status'', JString (status_value status))] s1 = Inr (s', e)"
    using assms(2) by (auto simp: transition_run_def rbind_eq_Inr split: if_splits)
  obtain row where row: "run_by_id t rid s = Some row"
    and upd: "moved = row\<lparr>cmd_status := status, cmd_lease_owner := None, cmd_lease_until := None, cmd_updated_at := clk 0\<rparr>"
    and c: "changed t row moved s s1"
    by (rule move_run_Inr[OF assms(1) m])
  show "run_by_id t' r s' = (if t' = t \<and> r = rid then Some moved else run_by_id t' r s)"
    using changed_lookup[OF assms(1) c] run_by_id_Some[OF row] by (simp add: appended_lookup[OF append_run_event_Inr[OF e]])
  show "cmd_name moved = cmd_name run \<and> cmd_status moved = status"
    using row assms(3) upd by simp
qed

lemma needs_approval_requires:
  "registry_get reg name = Some d \<Longrightarrow> needs_approval profile d \<Longrightarrow>
    \<not> decision_allowed (evaluate_policy reg name profile overrides False healthy)"
  by (simp add: evaluate_policy_def deny_def)

text \<open>The submission that makes the run of a tool that asks for approval leaves it waiting.\<close>

lemma submit_waits:
  assumes "ledger_inv s" and "submit_command sha256 reg t ids clk q profile overrides healthy s = Inr (s', result)"
    and "registry_get reg (bus_tool q) = Some d" and "needs_approval profile d"
    and "run_by_key t (bus_key q) s = None" and "dispatch_run result = Some run"
  shows "dispatch_requires_approval result \<and> cmd_status run = Command_Waiting_Approval \<and> run_by_id t (cmd_id run) s' = Some run"
  using assms(2)
proof (cases rule: submit_cases)
  case (2 s1 new d')
  show ?thesis
    using 2(2)
  proof (cases rule: create_run_cases)
    case 1
    then show ?thesis using assms(5) by simp
  next
    case (2 s0 e)
    then have "cmd_status new = Command_Created"
      by (simp add: new_command_row_def)
    then show ?thesis using \<open>cmd_status new \<noteq> Command_Created\<close> by simp
  qed
next
  case (3 s1 new d' moved decision)
  then have asks: "decision_requires_approval decision"
    using needs_approval_requires[OF assms(3,4), of overrides healthy] by simp
  have inv: "ledger_inv s1"
    using ledger.step_inv[OF assms(1) create_step[OF 3(4)]] .
  have "run_by_id t (cmd_id new) s1 = Some new"
    using 3(4)
  proof (cases rule: create_run_cases)
    case 1
    then show ?thesis using assms(5) by simp
  next
    case (2 s0 e)
    then show ?thesis
      using appended_lookup[OF 2(4)] inserted_lookup[OF 2(2)] by simp
  qed
  moreover have "transition_run t (later 2 ids) (later 2 clk) (cmd_id new) Command_Waiting_Approval None None s1 = Inr (s', moved)"
    using 3(6) asks by simp
  ultimately have "run_by_id t (cmd_id new) s' = Some moved" "cmd_status moved = Command_Waiting_Approval"
    using transition_lookup[of t s1 "later 2 ids" "later 2 clk" "cmd_id new" Command_Waiting_Approval None None s' moved new]
      inv by (simp_all add: ledger_inv_def)
  then show ?thesis
    using run_by_id_Some[of t "cmd_id new" s' moved] assms(6) 3(7,8) asks by simp
qed (use assms(6) in simp)

section \<open>Approvals\<close>

text \<open>A run that is held stays held.\<close>

definition stays_held :: "tenant \<Rightarrow> uuid \<Rightarrow> command_store \<Rightarrow> command_store \<Rightarrow> bool" where
  "stays_held t rid s s' \<longleftrightarrow> (\<forall>r. run_by_id t rid s = Some r \<longrightarrow> held (cmd_status r) \<longrightarrow>
     (\<exists>r'. run_by_id t rid s' = Some r' \<and> held (cmd_status r')))"

lemma stays_held_refl [simp]: "stays_held t rid s s"
  by (simp add: stays_held_def)

lemma stays_held_trans: "stays_held t rid s s1 \<Longrightarrow> stays_held t rid s1 s' \<Longrightarrow> stays_held t rid s s'"
  unfolding stays_held_def by blast

lemma traced_held:
  assumes "ledger_inv s" and "ledger_step sha256 s s'" and "traced R s s'" and "\<And>a b. R t rid a b \<Longrightarrow> held a \<Longrightarrow> held b"
  shows "stays_held t rid s s'"
  unfolding stays_held_def
proof (intro allI impI)
  fix r
  assume r: "run_by_id t rid s = Some r" "held (cmd_status r)"
  obtain r' where r': "run_by_id t rid s' = Some r'"
    using path_run[OF r_into_rtranclp[of "ledger_step sha256", OF assms(2)] assms(1) r(1)] by blast
  then have "cmd_status r' = cmd_status r \<or> R t rid (cmd_status r) (cmd_status r')"
    using assms(3) r(1) by (fastforce simp: traced_def)
  then show "\<exists>r'. run_by_id t rid s' = Some r' \<and> held (cmd_status r')"
    using r' r(2) assms(4) by auto
qed

text \<open>The calls of the ledger one by one.\<close>

lemma held_moves: "held a \<Longrightarrow> b \<in> command_transitions a \<Longrightarrow> b \<noteq> Command_Running \<Longrightarrow> b \<noteq> Command_Queued \<Longrightarrow> held b"
  by (auto simp: held_def)

lemma held_exec:
  assumes "ledger_inv s" and "exec_ledger sha256 t' ids clk call s = Inr (s', a)" and "\<And>q key. call \<noteq> Create_Run q key"
    and "\<And>r status owner fence. call \<noteq> Transition_Run r status owner fence"
  shows "stays_held t rid s s'"
proof (rule traced_held[OF assms(1) ledger_stepI[OF assms(2)]])
  show "traced (moves call t') s s'"
    by (rule call_traced[OF assms(2,3)])
qed (use assms(4) in \<open>auto simp: moves_def held_def\<close>)

lemma held_transition:
  assumes "ledger_inv s" and "transition_run t' ids clk rid' status owner fence s = Inr (s', run)"
    and "status = Command_Queued \<Longrightarrow> t' = t \<Longrightarrow> rid' = rid \<Longrightarrow> \<not> waits_for_approval t rid s"
  shows "stays_held t rid s s'"
  unfolding stays_held_def
proof (intro allI impI)
  fix r
  assume r: "run_by_id t rid s = Some r" "held (cmd_status r)"
  obtain row where row: "run_by_id t' rid' s = Some row" "status \<in> command_transitions (cmd_status row)" "status \<noteq> Command_Running"
    using assms(2) by (auto simp: transition_run_def move_run_def rbind_eq_Inr Let_def split: if_splits option.splits)
  note look = transition_lookup[OF _ assms(2) row(1)]
  show "\<exists>r'. run_by_id t rid s' = Some r' \<and> held (cmd_status r')"
  proof (cases "t = t' \<and> rid = rid'")
    case True
    then have "row = r" and "status = Command_Queued \<Longrightarrow> cmd_status r \<noteq> Command_Waiting_Approval"
      using r(1) row(1) assms(3) by (auto simp: waits_for_approval_def)
    then have "held status"
      using held_moves[OF r(2)] row(2,3) r(2) by (cases "status = Command_Queued") (auto simp: held_def)
    then show ?thesis
      using look assms(1) True by (simp add: ledger_inv_def)
  next
    case False
    then show ?thesis
      using look(1) assms(1) r by (auto simp: ledger_inv_def)
  qed
qed

lemma held_claim:
  assumes "ledger_inv s" and "start_command t' ids clk rid' worker until s = Inr (s', run)"
  shows "stays_held t rid s s'"
proof -
  obtain w u where "exec_ledger (\<lambda>x. x) t' (later 1 ids) (later 1 clk) (Claim_Run rid' w u) s = Inr (s', Answer_Run run)"
    using assms(2) by (auto simp: start_command_def answer_Inr)
  then show ?thesis
    by (rule held_exec[OF assms(1)]) simp_all
qed

lemma held_submit:
  assumes "ledger_inv s" and "submit_command sha256 reg t' ids clk q profile overrides healthy s = Inr (s', result)"
  shows "stays_held t rid s s'"
  using assms(2)
proof (cases rule: submit_cases)
  case (2 s1 run d)
  then have "s' = s"
    by (cases rule: create_run_cases[OF 2(2)]) (simp_all add: new_command_row_def)
  then show ?thesis by simp
next
  case (3 s1 run d moved decision)
  have inv: "ledger_inv s1"
    using ledger.step_inv[OF assms(1) create_step[OF 3(4)]] .
  have created: "\<not> held (cmd_status run)"
    using 3(5) by (simp add: held_def)
  have facts: "run_by_id t' (cmd_id run) s1 = Some run \<and> stays_held t rid s s1
      \<and> (\<forall>r. run_by_id t rid s = Some r \<longrightarrow> held (cmd_status r) \<longrightarrow> \<not> (t = t' \<and> rid = cmd_id run))"
    using 3(4)
  proof (cases rule: create_run_cases)
    case 1
    have "run_by_id t' (cmd_id run) s = Some run"
      using assms(1) run_by_key_Some[OF 1(2)] run_by_id_row unfolding ledger_inv_def by blast
    then show ?thesis
      using 1(1) created by auto
  next
    case (2 s0 e)
    have "run_by_id t2 rid2 s1 = (if t2 = t' \<and> rid2 = cmd_id run then Some run else run_by_id t2 rid2 s)" for t2 rid2
      unfolding appended_lookup[OF 2(4)] 2(3) by (rule inserted_lookup[OF 2(2)])
    then show ?thesis
      using 2(2) by (auto simp: stays_held_def)
  qed
  then have found: "run_by_id t' (cmd_id run) s1 = Some run"
    by blast
  have "run_by_id t rid s' = run_by_id t rid s1" if "\<not> (t = t' \<and> rid = cmd_id run)"
    using transition_lookup(1)[OF _ 3(6) found] that inv by (auto simp: ledger_inv_def)
  then show ?thesis
    using facts unfolding stays_held_def by metis
qed simp

lemma held_bus:
  assumes inv: "ledger_inv s" and "called t' s call" and exec: "exec_bus sha256 reg t' ids clk call s = Inr s'"
    and no: "\<not> (t' = t \<and> approves t rid s call)"
  shows "stays_held t rid s s'"
proof (cases call)
  case (Submit q profile overrides healthy)
  then show ?thesis
    using exec held_submit[OF inv] by (auto simp: map_fst_Inr)
next
  case (Decide_Approval run approved)
  then obtain moved where "transition_run t' ids clk run (if approved then Command_Queued else Command_Rejected) None None s = Inr (s', moved)"
    using exec by (auto simp: map_fst_Inr bus_decide_approval_def)
  then show ?thesis
    by (rule held_transition[OF inv]) (use no Decide_Approval in \<open>auto split: if_splits\<close>)
next
  case (Record_Decision approval_id run approved)
  then obtain moved where "record_decision t' ids clk approval_id run approved s = Inr (s', moved)"
    using exec by (auto simp: map_fst_Inr)
  then show ?thesis
  proof (cases rule: record_cases)
    case (1 s1 e payload)
    have e: "exec_ledger sha256 t' ids clk (Append_Event run ''approval.decided'' Visible_User ''Approval decision recorded'' payload None None) s
        = Inr (s1, Answer_Event e)"
      using 1(2) by (simp add: answer_Inr)
    have "stays_held t rid s s1"
      by (rule held_exec[OF inv e]) simp_all
    moreover have "stays_held t rid s1 s'"
      by (rule held_transition[OF ledger.step_inv[OF inv ledger_stepI[OF e]] 1(3)])
        (use no Record_Decision in \<open>auto split: if_splits\<close>)
    ultimately show ?thesis
      by (rule stays_held_trans)
  qed
next
  case (Recover for_task runtime name worker)
  then obtain found where "prepare_recovery t' ids clk for_task runtime name worker s = Inr (s', found)"
    using exec by (auto simp: map_fst_Inr)
  then show ?thesis
  proof (cases rule: recovery_cases)
    case (2 run r ids' clk')
    show ?thesis
      by (rule held_claim[OF inv 2(2)])
  next
    case (3 run s1 queued r ids' clk')
    have "stays_held t rid s s1"
      by (rule held_transition[OF inv 3(2)]) (use no Recover 3(1) in auto)
    moreover have "stays_held t rid s1 s'"
      using 3(3) held_claim[OF ledger.step_inv[OF inv transition_step[OF 3(2)]]] by auto
    ultimately show ?thesis
      by (rule stays_held_trans)
  qed simp
next
  case (Start run worker until)
  then show ?thesis
    using exec held_claim[OF inv] by (auto simp: map_fst_Inr)
next
  case (Complete run out owner fence)
  then obtain r where "exec_ledger sha256 t' ids clk (Finish_Run run Command_Succeeded ''command.output'' Visible_Developer
      ''Command produced output'' out owner fence) s = Inr (s', Answer_Run r)"
    using exec by (auto simp: map_fst_Inr complete_command_def answer_Inr)
  then show ?thesis
    by (rule held_exec[OF inv]) simp_all
next
  case (Fail_Command run error_code owner fence)
  then obtain r where "exec_ledger sha256 t' ids clk (Finish_Run run Command_Failed ''command.failure'' Visible_User
      ''Command failed'' [(''error_code'', JString error_code)] owner fence) s = Inr (s', Answer_Run r)"
    using exec by (auto simp: map_fst_Inr fail_command_def answer_Inr)
  then show ?thesis
    by (rule held_exec[OF inv]) simp_all
next
  case (Cancel_Command run owner fence)
  then obtain r where "transition_run t' ids clk run Command_Cancelled owner fence s = Inr (s', r)"
    using exec by (auto simp: map_fst_Inr cancel_command_def)
  then show ?thesis
    by (rule held_transition[OF inv]) simp
next
  case (Beside c)
  then obtain a where a: "exec_ledger sha256 t' ids clk c s = Inr (s', a)"
    using exec by (auto simp: map_fst_Inr)
  show ?thesis
  proof (cases "\<exists>run status owner fence. c = Transition_Run run status owner fence")
    case True
    then obtain run status owner fence where c: "c = Transition_Run run status owner fence"
      by blast
    then obtain r where "transition_run t' ids clk run status owner fence s = Inr (s', r)"
      using a by (auto simp: answer_Inr)
    then show ?thesis
      by (rule held_transition[OF inv]) (use assms(2) Beside c in auto)
  next
    case False
    show ?thesis
      by (rule held_exec[OF inv a]) (use False assms(2) Beside in auto)
  qed
qed

section \<open>Histories\<close>

lemma bus_step_path: "bus_step sha256 s s' \<Longrightarrow> (ledger_step sha256)\<^sup>*\<^sup>* s s'"
  unfolding bus_step_def using bus_path by blast

interpretation bus: invariant_system "\<lambda>s. s = empty_command_store" "bus_step sha256" ledger_inv for sha256
proof
  fix s
  assume "s = empty_command_store"
  then show "ledger_inv s"
    using ledger.init_inv[of s] by simp
next
  fix s s'
  assume "ledger_inv s" and "bus_step sha256 s s'"
  then show "ledger_inv s'"
    using ledger.path_inv[OF bus_step_path] by blast
qed

lemma after_event_path: "(ledger_step sha256)\<^sup>*\<^sup>* s (after_event sha256 event s)"
  by (cases event) (auto simp: after_event_def bus_path split: sum.split)

lemma after_event_held:
  assumes "ledger_inv s" and "called t' s call" and "\<not> (t' = t \<and> approves t rid s call)"
  shows "stays_held t rid s (after_event sha256 (t', reg, ids, clk, call) s)"
  using held_bus[OF assms(1,2) _ assms(3)] by (auto simp: after_event_def split: sum.split)

lemma run_bus_path: "run_bus sha256 events s = Some s' \<Longrightarrow> (ledger_step sha256)\<^sup>*\<^sup>* s s'"
proof (induction sha256 events s rule: run_bus.induct)
  case (2 sha256 t reg ids clk call events s)
  then have "(ledger_step sha256)\<^sup>*\<^sup>* (after_event sha256 (t, reg, ids, clk, call) s) s'"
    by (auto split: if_splits)
  then show ?case
    by (rule rtranclp_trans[OF after_event_path])
qed simp

lemma run_bus_held:
  assumes "run_bus sha256 events s = Some s'" and "ledger_inv s" and "\<not> approved_in sha256 t rid events s"
  shows "stays_held t rid s s'"
  using assms
proof (induction sha256 events s rule: run_bus.induct)
  case (2 sha256 t' reg ids clk call events s)
  have inv: "ledger_inv (after_event sha256 (t', reg, ids, clk, call) s)"
    using ledger.path_inv[OF after_event_path 2(3)] .
  have "stays_held t rid s (after_event sha256 (t', reg, ids, clk, call) s)"
    by (rule after_event_held) (use 2 in \<open>auto split: if_splits\<close>)
  moreover have "stays_held t rid (after_event sha256 (t', reg, ids, clk, call) s) s'"
    by (rule 2(1)[OF _ _ inv]) (use 2 in \<open>auto split: if_splits\<close>)
  ultimately show ?case
    by (rule stays_held_trans)
qed simp

end
