(* ===== verification/Command_Manifest.thy ===== *)
theory Command_Manifest
  imports Command_Registry
begin

text \<open>
  \<open>capability_manifest\<close> of \<open>commanding/registry_projection.py\<close>: which tools a profile can use,
  where a tool needs the tools it depends on. The code searches depth first and remembers every
  result, also those found while other tools are still being visited. The search is proved to
  end, and what it returns to be the reference definition \<open>capable\<close>, whatever the order in which
  dependencies are tried.
\<close>

section \<open>The search\<close>

record manifest_env =
  env_definitions :: "(string \<times> tool_definition) list"
  env_ready :: "string set"
  env_profile :: permission_profile
  env_sandbox :: bool
  env_overrides :: "(string \<times> bool) list"
  env_order :: "string set \<Rightarrow> string list"

text \<open>\<open>allowed\<close> before the dependencies are looked at.\<close>

definition allowed_alone :: "manifest_env \<Rightarrow> string \<Rightarrow> tool_definition \<Rightarrow> bool" where
  "allowed_alone env name d \<longleftrightarrow> env_profile env \<in> tool_profiles d
     \<and> (case map_of (env_overrides env) name of None \<Rightarrow> True | Some b \<Rightarrow> b)
     \<and> (\<not> tool_requires_sandbox d \<or> env_sandbox env)
     \<and> tool_required_extensions d \<subseteq> env_ready env"

type_synonym resolved = "string \<Rightarrow> bool option"

definition unvisited :: "manifest_env \<Rightarrow> string set \<Rightarrow> nat" where
  "unvisited env visiting = card (fst ` set (env_definitions env) - visiting)"

lemma unvisited_insert:
  "map_of (env_definitions env) name = Some d \<Longrightarrow> name \<notin> visiting \<Longrightarrow> unvisited env (insert name visiting) < unvisited env visiting"
  unfolding unvisited_def by (rule psubset_card_mono) (auto dest!: map_of_SomeD, force)

function enabled :: "manifest_env \<Rightarrow> string set \<Rightarrow> string \<Rightarrow> resolved \<Rightarrow> bool \<times> resolved"
  and all_enabled :: "manifest_env \<Rightarrow> string set \<Rightarrow> string list \<Rightarrow> resolved \<Rightarrow> bool \<times> resolved"
where
  "enabled env visiting name res =
     (case res name of
        Some cached \<Rightarrow> (cached, res)
      | None \<Rightarrow> case map_of (env_definitions env) name of
          None \<Rightarrow> (False, res)
        | Some d \<Rightarrow>
            if name \<in> visiting then (False, res)
            else if allowed_alone env name d
            then (case all_enabled env (insert name visiting) (env_order env (tool_required_operations d)) res of
                    (allowed, res') \<Rightarrow> (allowed, res'(name := Some allowed)))
            else (False, res(name := Some False)))"
| "all_enabled env visiting [] res = (True, res)"
| "all_enabled env visiting (name # ns) res =
     (case enabled env visiting name res of
        (True, res') \<Rightarrow> all_enabled env visiting ns res'
      | (False, res') \<Rightarrow> (False, res'))"
  by pat_completeness auto

termination
  by (relation "measures
      [\<lambda>x. case x of Inl (env, visiting, _) \<Rightarrow> unvisited env visiting | Inr (env, visiting, _) \<Rightarrow> unvisited env visiting,
       \<lambda>x. case x of Inl _ \<Rightarrow> 0 | Inr (_, _, ns, _) \<Rightarrow> Suc (length ns)]")
    (auto intro: unvisited_insert)

declare enabled.simps [simp del]

text \<open>The comprehension over the definitions, which shares \<open>resolved\<close>.\<close>

fun manifest_loop :: "manifest_env \<Rightarrow> string list \<Rightarrow> resolved \<Rightarrow> (string \<times> bool) list" where
  "manifest_loop env [] res = []"
| "manifest_loop env (name # ns) res =
     (case enabled env {} name res of (b, res') \<Rightarrow> (name, b) # manifest_loop env ns res')"

definition capability_manifest :: "manifest_env \<Rightarrow> (string \<times> bool) list" where
  "capability_manifest env = manifest_loop env (map fst (env_definitions env)) (\<lambda>_. None)"

definition available_agent_definitions :: "manifest_env \<Rightarrow> tool_definition list" where
  "available_agent_definitions env = filter
     (\<lambda>d. tool_model_visible d \<and> map_of (capability_manifest env) (tool_name d) = Some True)
     (map snd (env_definitions env))"

definition registry_env ::
  "(string set \<Rightarrow> string list) \<Rightarrow> tool_registry \<Rightarrow> permission_profile \<Rightarrow> bool \<Rightarrow> (string \<times> bool) list \<Rightarrow> manifest_env" where
  "registry_env order r profile sandbox overrides =
     \<lparr>env_definitions = reg_definitions r, env_ready = reg_ready_extensions r, env_profile = profile,
      env_sandbox = sandbox, env_overrides = overrides, env_order = order\<rparr>"

section \<open>What it computes\<close>

text \<open>A tool is capable when it is known, allowed, and every tool it requires is capable.\<close>

inductive capable :: "manifest_env \<Rightarrow> string \<Rightarrow> bool" for env where
  capableI: "map_of (env_definitions env) name = Some d \<Longrightarrow> allowed_alone env name d
     \<Longrightarrow> (\<And>n. n \<in> tool_required_operations d \<Longrightarrow> capable env n) \<Longrightarrow> capable env name"

inductive_simps capable_iff: "capable env name"

definition requires :: "manifest_env \<Rightarrow> (string \<times> string) set" where
  "requires env = {(a, b). \<exists>d. map_of (env_definitions env) a = Some d \<and> b \<in> tool_required_operations d}"

lemma capable_requires: "capable env a \<Longrightarrow> (a, b) \<in> (requires env)\<^sup>* \<Longrightarrow> capable env b"
  by (rotate_tac, induction rule: rtrancl_induct) (auto simp: requires_def elim: capable.cases)

text \<open>A capable tool does not depend on itself.\<close>

lemma capable_acyclic: "capable env a \<Longrightarrow> (a, a) \<notin> (requires env)\<^sup>+"
proof (induction rule: capable.induct)
  case (capableI a d)
  show ?case
  proof
    assume "(a, a) \<in> (requires env)\<^sup>+"
    then obtain b where b: "(a, b) \<in> requires env" "(b, a) \<in> (requires env)\<^sup>*"
      by (meson tranclD)
    then have "b \<in> tool_required_operations d"
      using capableI.hyps(1) by (auto simp: requires_def)
    moreover have "(b, b) \<in> (requires env)\<^sup>+"
      using b by (meson rtrancl_into_trancl1)
    ultimately show False
      using capableI.IH by blast
  qed
qed

definition resolved_ok :: "manifest_env \<Rightarrow> resolved \<Rightarrow> bool" where
  "resolved_ok env res \<longleftrightarrow> (\<forall>name b. res name = Some b \<longrightarrow> b = capable env name)"

lemma resolved_ok_update: "resolved_ok env res \<Longrightarrow> b = capable env name \<Longrightarrow> resolved_ok env (res(name := Some b))"
  by (simp add: resolved_ok_def)

text \<open>An iteration over a set meets each element; the sets of a definition are finite.\<close>

definition env_fine :: "manifest_env \<Rightarrow> bool" where
  "env_fine env \<longleftrightarrow> (\<forall>A. finite A \<longrightarrow> set (env_order env A) = A)
     \<and> (\<forall>d\<in>snd ` set (env_definitions env). finite (tool_required_operations d))"

lemma env_fineD:
  "env_fine env \<Longrightarrow> map_of (env_definitions env) name = Some d
    \<Longrightarrow> set (env_order env (tool_required_operations d)) = tool_required_operations d"
  unfolding env_fine_def by (fastforce dest: map_of_SomeD)

text \<open>
  The tools being visited all depend on the one the search is at, so that meeting one of them
  again shows a cycle: the answer \<open>False\<close> is right for good, and may be remembered.
\<close>

lemma enabled_correct:
  "env_fine env \<Longrightarrow> resolved_ok env res \<Longrightarrow> \<forall>v\<in>visiting. (v, name) \<in> (requires env)\<^sup>+ \<Longrightarrow>
    fst (enabled env visiting name res) = capable env name \<and> resolved_ok env (snd (enabled env visiting name res))"
  "env_fine env \<Longrightarrow> resolved_ok env res \<Longrightarrow> \<forall>v\<in>visiting. \<forall>n\<in>set ns. (v, n) \<in> (requires env)\<^sup>+ \<Longrightarrow>
    fst (all_enabled env visiting ns res) = (\<forall>n\<in>set ns. capable env n)
    \<and> resolved_ok env (snd (all_enabled env visiting ns res))"
proof (induction env visiting name res and env visiting ns res rule: enabled_all_enabled.induct)
  case (1 env visiting name res)
  show ?case
  proof (cases "res name")
    case None
    show ?thesis
    proof (cases "map_of (env_definitions env) name")
      case unknown: None
      then have "\<not> capable env name"
        by (auto elim: capable.cases)
      then show ?thesis
        using None unknown "1.prems" by (simp add: enabled.simps)
    next
      case (Some d)
      show ?thesis
      proof (cases "name \<in> visiting \<or> \<not> allowed_alone env name d")
        case True
        then have "\<not> capable env name"
        proof
          assume "name \<in> visiting"
          then show ?thesis
            using "1.prems"(3) capable_acyclic by blast
        next
          assume "\<not> allowed_alone env name d"
          then show ?thesis
            unfolding capable_iff[of env name] using Some by simp
        qed
        then have "enabled env visiting name res
            = (False, if name \<in> visiting then res else res(name := Some False))"
          using None Some True by (auto simp: enabled.simps)
        then show ?thesis
          using \<open>\<not> capable env name\<close> "1.prems"(2) resolved_ok_update[of env res False name] by simp
      next
        case False
        define ns where "ns = env_order env (tool_required_operations d)"
        have ns: "set ns = tool_required_operations d"
          unfolding ns_def using env_fineD[OF "1.prems"(1) Some] .
        have "\<forall>v\<in>insert name visiting. \<forall>n\<in>set ns. (v, n) \<in> (requires env)\<^sup>+"
        proof (intro ballI)
          fix v n
          assume "v \<in> insert name visiting" and "n \<in> set ns"
          then have "(name, n) \<in> requires env"
            using Some ns by (auto simp: requires_def)
          then show "(v, n) \<in> (requires env)\<^sup>+"
            using \<open>v \<in> insert name visiting\<close> "1.prems"(3) by (auto intro: trancl_into_trancl)
        qed
        then have rec: "fst (all_enabled env (insert name visiting) ns res) = (\<forall>n\<in>set ns. capable env n)
            \<and> resolved_ok env (snd (all_enabled env (insert name visiting) ns res))"
          using "1.IH"[OF None Some] False "1.prems" by (simp add: ns_def)
        moreover have "capable env name = (\<forall>n\<in>set ns. capable env n)"
          unfolding capable_iff[of env name] using Some False ns by auto
        moreover obtain b res' where all: "all_enabled env (insert name visiting) ns res = (b, res')"
          by (cases "all_enabled env (insert name visiting) ns res")
        moreover have "enabled env visiting name res = (b, res'(name := Some b))"
          using None Some False all by (simp add: enabled.simps ns_def)
        ultimately show ?thesis
          using resolved_ok_update[of env res' b name] by (metis fst_conv snd_conv)
      qed
    qed
  next
    case (Some b)
    then show ?thesis
      using "1.prems"(2) by (simp add: enabled.simps resolved_ok_def)
  qed
next
  case (3 env visiting name ns res)
  obtain b res' where e: "enabled env visiting name res = (b, res')"
    by (cases "enabled env visiting name res")
  have "b = capable env name \<and> resolved_ok env res'"
    using "3.IH"(1)[OF "3.prems"(1,2)] "3.prems"(3) e by simp
  then show ?case
    using "3.IH"(2) "3.prems" e by (cases b) (simp_all add: enabled.simps)
qed (simp add: enabled.simps)

lemma manifest_loop_correct:
  "env_fine env \<Longrightarrow> resolved_ok env res \<Longrightarrow> manifest_loop env ns res = map (\<lambda>n. (n, capable env n)) ns"
proof (induction ns arbitrary: res)
  case (Cons n ns)
  then show ?case
    using enabled_correct(1)[of env res "{}" n] by (cases "enabled env {} n res") simp
qed simp

theorem capability_manifest_correct:
  "env_fine env \<Longrightarrow> capability_manifest env = map (\<lambda>n. (n, capable env n)) (map fst (env_definitions env))"
  unfolding capability_manifest_def by (rule manifest_loop_correct) (simp_all add: resolved_ok_def)

end
