(* ===== verification/Command_Examples.thy ===== *)
theory Command_Examples
  imports Command_Bus_Facts Command_Manifest Domain_Examples
begin

text \<open>
  Concrete ledgers and buses, each evaluated: a run that two workers claim one after the other, a
  run that waits for its approval, and a registry whose tools depend on each other.
\<close>

section \<open>A ledger\<close>

definition ex_hash :: "string \<Rightarrow> string" where
  "ex_hash = (\<lambda>s. [])"

definition ex_request :: command_request where
  "ex_request = \<lparr>req_name = ''tool'', req_actor = ''core'', req_scope = ex_given, req_input = [], req_risk = Risk_Low\<rparr>"

definition ex_exec :: "ledger_call \<Rightarrow> nat \<times> instant \<Rightarrow> command_store \<Rightarrow> ledger_error + command_store \<times> ledger_answer" where
  "ex_exec call c = exec_ledger ex_hash ''t'' (\<lambda>i. fst c + i) (\<lambda>i. snd c) call"

definition ex_call :: "ledger_call \<Rightarrow> nat \<times> instant \<Rightarrow> command_store \<Rightarrow> ledger_error + command_store" where
  "ex_call call c s = map_sum id fst (ex_exec call c s)"

lemma ex_exec_plain: "plain_call call \<Longrightarrow> ex_exec call c s = Inr (s', a) \<Longrightarrow> plain_step ex_hash s s'"
  unfolding ex_exec_def plain_step_def by blast

lemma ex_exec_step: "ex_exec call c s = Inr (s', a) \<Longrightarrow> ledger_step ex_hash s s'"
  unfolding ex_exec_def ledger_step_def by blast

lemma ex_call_step: "ex_call call c s = Inr s' \<Longrightarrow> ledger_step ex_hash s s'"
  unfolding ex_call_def map_fst_Inr using ex_exec_step by blast

lemma run_plain:
  "run_ops ex_call calls s = Some s' \<Longrightarrow> list_all (\<lambda>x. plain_call (fst x)) calls \<Longrightarrow> (plain_step ex_hash)\<^sup>*\<^sup>* s s'"
proof (induction calls arbitrary: s)
  case (Cons x calls)
  obtain call c where x: "x = (call, c)"
    by (cases x)
  then obtain s1 where call: "ex_call call c s = Inr s1" and rest: "run_ops ex_call calls s1 = Some s'"
    using Cons.prems(1) by (auto split: sum.splits)
  obtain a where "ex_exec call c s = Inr (s1, a)"
    using call unfolding ex_call_def map_fst_Inr by blast
  note s1 = this rest
  then have "plain_step ex_hash s s1" and "(plain_step ex_hash)\<^sup>*\<^sup>* s1 s'"
    using ex_exec_plain[OF _ s1(1)] Cons.IH[OF s1(2)] Cons.prems(2) x by simp_all
  then show ?case
    by (rule converse_rtranclp_into_rtranclp)
qed simp

definition ex_queue_calls :: "(ledger_call \<times> nat \<times> instant) list" where
  "ex_queue_calls = [(Create_Run ex_request ''k'', 1, 1), (Transition_Run 1 Command_Queued None None, 3, 2)]"

definition ex_queued :: command_store where
  "ex_queued = the (run_ops ex_call ex_queue_calls empty_command_store)"

lemma ex_queued_run: "run_ops ex_call ex_queue_calls empty_command_store = Some ex_queued"
proof -
  have "run_ops ex_call ex_queue_calls empty_command_store \<noteq> None"
    by code_simp
  then show ?thesis
    unfolding ex_queued_def by (rule the_run)
qed

lemma ex_queued_path: "(ledger_step ex_hash)\<^sup>*\<^sup>* empty_command_store ex_queued"
  by (rule run_ops_path[OF ex_queued_run ex_call_step])

text \<open>The worker \<open>w\<close> claims the run, is lost, and \<open>v\<close> reclaims it.\<close>

definition ex_take :: ledger_call where
  "ex_take = Claim_Run 1 ''w'' 20"

definition ex_taken :: command_store where
  "ex_taken = fst (value_of (ex_exec ex_take (5, 10) ex_queued))"

definition ex_taken_run :: command_row where
  "ex_taken_run = the (claimed_run ex_take (snd (value_of (ex_exec ex_take (5, 10) ex_queued))))"

definition ex_reclaim :: ledger_call where
  "ex_reclaim = Claim_Next ''v'' 40"

definition ex_reclaimed :: command_store where
  "ex_reclaimed = fst (value_of (ex_exec ex_reclaim (6, 30) ex_taken))"

definition ex_rerun :: command_row where
  "ex_rerun = the (claimed_run ex_reclaim (snd (value_of (ex_exec ex_reclaim (6, 30) ex_taken))))"

lemma ex_taken_exec: "ex_exec ex_take (5, 10) ex_queued = Inr (ex_taken, Answer_Run ex_taken_run)"
proof -
  have "\<not> isl (ex_exec ex_take (5, 10) ex_queued)"
    by code_simp
  moreover have "snd (value_of (ex_exec ex_take (5, 10) ex_queued)) = Answer_Run ex_taken_run"
    by code_simp
  ultimately show ?thesis
    unfolding ex_taken_def by (metis prod.collapse value_ofI)
qed

lemma ex_reclaimed_exec: "ex_exec ex_reclaim (6, 30) ex_taken = Inr (ex_reclaimed, Answer_Claim (Some ex_rerun))"
proof -
  have "\<not> isl (ex_exec ex_reclaim (6, 30) ex_taken)"
    by code_simp
  moreover have "snd (value_of (ex_exec ex_reclaim (6, 30) ex_taken)) = Answer_Claim (Some ex_rerun)"
    by code_simp
  ultimately show ?thesis
    unfolding ex_reclaimed_def by (metis prod.collapse value_ofI)
qed

lemma ex_reclaimed_path: "(ledger_step ex_hash)\<^sup>*\<^sup>* empty_command_store ex_reclaimed"
  using ex_queued_path ex_exec_step[OF ex_taken_exec] ex_exec_step[OF ex_reclaimed_exec] by auto

lemma ex_reclaimed_plain: "(plain_step ex_hash)\<^sup>*\<^sup>* empty_command_store ex_reclaimed"
proof -
  have "list_all (\<lambda>x. plain_call (fst x)) ex_queue_calls" and plain: "plain_call ex_take" "plain_call ex_reclaim"
    by code_simp+
  then have "(plain_step ex_hash)\<^sup>*\<^sup>* empty_command_store ex_queued"
    using run_plain[OF ex_queued_run] by blast
  then show ?thesis
    using ex_exec_plain[OF plain(1) ex_taken_exec] ex_exec_plain[OF plain(2) ex_reclaimed_exec] by auto
qed

text \<open>A run as it was made, and a page of the log.\<close>

definition ex_created :: command_store where
  "ex_created = fst (value_of (create_run ex_hash ''t'' (\<lambda>i. 1 + i) (\<lambda>i. 1) ex_request ''k'' empty_command_store))"

definition ex_created_row :: command_row where
  "ex_created_row = snd (value_of (create_run ex_hash ''t'' (\<lambda>i. 1 + i) (\<lambda>i. 1) ex_request ''k'' empty_command_store))"

lemma ex_created_run:
  "create_run ex_hash ''t'' (\<lambda>i. 1 + i) (\<lambda>i. 1) ex_request ''k'' empty_command_store = Inr (ex_created, ex_created_row)"
proof -
  have "\<not> isl (create_run ex_hash ''t'' (\<lambda>i. 1 + i) (\<lambda>i. 1) ex_request ''k'' empty_command_store)"
    by code_simp
  then show ?thesis
    unfolding ex_created_def ex_created_row_def by (metis prod.collapse value_ofI)
qed

lemma ex_request_ok: "json_ok (request_payload ex_request)"
  by code_simp

definition ex_page :: "event_row list" where
  "ex_page = value_of (events_after ''t'' 1 (Some 5) None ex_queued)"

lemma ex_page_read: "events_after ''t'' 1 (Some 5) None ex_queued = Inr ex_page" "ex_page \<noteq> []"
proof -
  have "\<not> isl (events_after ''t'' 1 (Some 5) None ex_queued)"
    by code_simp
  then show "events_after ''t'' 1 (Some 5) None ex_queued = Inr ex_page"
    unfolding ex_page_def by (rule value_ofI)
  have "length ex_page = 1"
    by code_simp
  then show "ex_page \<noteq> []"
    by auto
qed

section \<open>A bus\<close>

definition ex_tool :: "string \<Rightarrow> string set \<Rightarrow> tool_definition" where
  "ex_tool name needs =
     \<lparr>tool_name = name, tool_side_effect = Effect_Read, tool_risk = Risk_Low, tool_approval = Approval_Always,
      tool_profiles = {Standard}, tool_executor = ''core'', tool_requires_sandbox = False, tool_idempotent = True,
      tool_concurrency_policy = Tool_Serial, tool_resource_keys = [], tool_model_visible = True,
      tool_description = ''d'', tool_source = ''builtin'', tool_origin = None, tool_required_operations = needs,
      tool_required_extensions = {}, tool_input_schema = [], tool_digest = [], tool_legacy_digest = []\<rparr>"

definition ex_registry :: tool_registry where
  "ex_registry = value_of (new_registry [ex_tool ''tool'' {}, ex_tool ''b'' {''tool''}, ex_tool ''c'' {''missing''}] [])"

lemma ex_registry_definitions:
  "reg_definitions ex_registry = [(''tool'', ex_tool ''tool'' {}), (''b'', ex_tool ''b'' {''tool''}), (''c'', ex_tool ''c'' {''missing''})]"
  by (simp add: ex_registry_def new_registry_def register_tool_def registry_get_def ex_tool_def rbind_def ensure.simps)

definition ex_bus_request :: bus_request where
  "ex_bus_request = \<lparr>bus_tool = ''tool'', bus_actor = ''core'', bus_scope = ex_given, bus_payload = [], bus_key = ''k''\<rparr>"

definition ex_submitted :: "command_store \<times> dispatch_result" where
  "ex_submitted = value_of (submit_command ex_hash ex_registry ''t'' (\<lambda>i. 1 + i) (\<lambda>i. 1) ex_bus_request Standard [] True empty_command_store)"

lemma ex_submitted_eq:
  "submit_command ex_hash ex_registry ''t'' (\<lambda>i. 1 + i) (\<lambda>i. 1) ex_bus_request Standard [] True empty_command_store
     = Inr (fst ex_submitted, snd ex_submitted)"
  unfolding ex_submitted_def prod.collapse by (rule value_ofI) code_simp

text \<open>The request again, a worker that tries to start the run, and the decision of another tenant.\<close>

definition ex_bus_events :: "bus_event list" where
  "ex_bus_events = map (\<lambda>(t, n, call). (t, ex_registry, \<lambda>i. n + i, \<lambda>i. int n, call))
     [(''t'', 5, Submit ex_bus_request Standard [] True), (''t'', 9, Start 1 (Some ''w'') (Some 20)), (''u'', 12, Decide_Approval 1 True)]"

section \<open>A manifest\<close>

text \<open>The list of a finite set of names, in the order of the names that it is drawn from.\<close>

definition ex_env :: manifest_env where
  "ex_env = registry_env sorted_strings ex_registry Standard True []"

lemma ex_env_fine: "env_fine ex_env"
proof -
  have "set (sorted_strings A) = A" if "finite A" for A
    using that by (simp add: sorted_strings_def)
  moreover have "\<forall>d\<in>snd ` set (reg_definitions ex_registry). finite (tool_required_operations d)"
    by (simp add: ex_registry_definitions ex_tool_def)
  ultimately show ?thesis
    by (simp add: env_fine_def ex_env_def registry_env_def)
qed

lemma ex_env_names: "list_all (\<lambda>(k, d). k = tool_name d) (env_definitions ex_env)"
  by (simp add: ex_env_def registry_env_def ex_registry_definitions ex_tool_def)

end
