(* ===== verification/Command_Reading.thy ===== *)
theory Command_Reading
  imports Command_Facts
begin

text \<open>
  Following the event log while it grows: the log of a tenant only grows at its end, so a reader
  that goes on after the last cursor it has seen gets every visible event exactly once.
\<close>

section \<open>Following the log\<close>

text \<open>The log of a tenant only grows at its end.\<close>

definition log_grows :: "command_store \<Rightarrow> command_store \<Rightarrow> bool" where
  "log_grows s s' \<longleftrightarrow> (\<forall>t. \<exists>es. events_of t s' = events_of t s @ es)"

lemma log_grows_refl [simp]: "log_grows s s"
  by (simp add: log_grows_def)

lemma log_grows_trans: "log_grows s s1 \<Longrightarrow> log_grows s1 s' \<Longrightarrow> log_grows s s'"
  unfolding log_grows_def by (metis append.assoc)

lemma log_grows_same: "domain_events_t s' = domain_events_t s \<Longrightarrow> log_grows s s'"
  by (simp add: log_grows_def)

lemma log_grows_appended: "appended t run x e s s' \<Longrightarrow> log_grows s s'"
  by (simp add: log_grows_def appended_events)

lemma log_grows_changed: "changed t row row' s s' \<Longrightarrow> log_grows s s'"
  by (rule log_grows_same) (simp add: changed_def)

lemma effect_log_grows: "ledger_effect t xs s s' \<Longrightarrow> log_grows s s'"
proof (induction rule: ledger_effect.induct)
  case (quiet s' s)
  then show ?case by (intro log_grows_same)
next
  case (created row s s1 e s')
  have "log_grows s s1"
    by (rule log_grows_same) (simp add: created(7))
  then show ?case
    using log_grows_appended[OF created(8)] log_grows_trans by blast
next
  case (moved row row' s s1 now status e s')
  show ?case
    by (rule log_grows_trans[OF log_grows_changed[OF moved(1)] log_grows_appended[OF moved(5)]])
next
  case (finished row row' s s1 now status x e1 s2 e s')
  show ?case
    by (rule log_grows_trans[OF log_grows_trans[OF log_grows_changed[OF finished(1)] log_grows_appended[OF finished(5)]]
      log_grows_appended[OF finished(6)]])
next
  case (leased row row' s s1 now until worker e s')
  show ?case
    by (rule log_grows_trans[OF log_grows_changed[OF leased(1)] log_grows_appended[OF leased(4)]])
next
  case (extended row row' s s' now until)
  show ?case by (rule log_grows_changed[OF extended(1)])
next
  case (noted row s x e s')
  show ?case by (rule log_grows_appended[OF noted(2)])
next
  case (domain_event i now event_type vis msg payload actor p c k v s s' e)
  then show ?case
    by (auto simp: log_grows_def append_domain_event_def insert_event_Inr rows_append)
qed

lemma path_log_grows:
  assumes "(ledger_step sha256)\<^sup>*\<^sup>* s s'" and "ledger_inv s"
  shows "log_grows s s'"
proof (rule ledger.path_stable[OF assms, of "log_grows s"])
  fix x y
  assume "ledger_inv x" "log_grows s x" "ledger_step sha256 x y"
  then show "log_grows s y"
    using effect_log_grows[OF step_effect] log_grows_trans unfolding ledger_step_def by blast
qed simp

lemma filter_last_take:
  assumes "sorted_wrt (<) (map f (xs :: 'a list))" and "n \<le> length xs" and "0 < n"
  shows "filter (\<lambda>x. (f (last (take n xs)) :: int) < f x) xs = drop n xs"
proof -
  have "last (take n xs) = xs ! (n - 1)"
    using assms(2,3) by (subst last_conv_nth) (auto simp: min_def)
  then show ?thesis
    using filter_after_take[OF assms(1), of "n - 1"] assms(2,3) by simp
qed

text \<open>
  A reader that got a page of the log and reads on after its last cursor misses nothing and reads
  nothing twice, although the log has grown since.
\<close>

lemma read_on:
  assumes "ledger_inv s" and "ledger_inv s'" and "log_grows s s'"
    and "events_after t cursor limit allowed s = Inr page" and "page \<noteq> []"
  shows "\<exists>rest. events_after t (ev_cursor (last page)) None allowed s' = Inr rest
    \<and> events_after t cursor None allowed s' = Inr (page @ rest)"
proof -
  have num: "numbered s" "numbered s'"
    using assms(1,2) by (simp_all add: ledger_inv_def)
  have args: "0 \<le> cursor" "case limit of None \<Rightarrow> True | Some n \<Rightarrow> 1 \<le> n \<and> n \<le> 2000"
    using assms(4) by (auto simp: events_after_def split: if_splits option.splits)
  define old where "old = filter (\<lambda>e. cursor < ev_cursor e) (visible_log t allowed s)"
  define now where "now = filter (\<lambda>e. cursor < ev_cursor e) (visible_log t allowed s')"
  define n where "n = (case limit of None \<Rightarrow> length old | Some k \<Rightarrow> min (nat k) (length old))"
  have page: "page = take n old"
    using assms(4) events_after_eq[OF num(1) args, of t allowed] by (auto simp: old_def n_def min_def split: option.splits)
  obtain es where "events_of t s' = events_of t s @ es"
    using assms(3) unfolding log_grows_def by blast
  then obtain more where now: "now = old @ more"
    by (simp add: now_def old_def visible_log_def)
  have "n \<le> length old" and "0 < n"
    using page assms(5) by (auto simp: n_def split: option.split)
  then have n: "n \<le> length now" "0 < n" "page = take n now"
    using now page by simp_all
  have sorted: "sorted_wrt (<) (map ev_cursor now)"
    using visible_sorted[OF num(2)] by (simp add: now_def sorted_wrt_map sorted_wrt_filter)
  have "last page \<in> set now"
    using n assms(5) last_in_set[of page] set_take_subset[of n now] by auto
  then have cut: "cursor < ev_cursor (last page)"
    by (simp add: now_def)
  have "filter (\<lambda>e. ev_cursor (last page) < ev_cursor e) (visible_log t allowed s')
      = filter (\<lambda>e. ev_cursor (last page) < ev_cursor e) now"
    using cut unfolding now_def by (auto intro: filter_cong)
  also have "\<dots> = drop n now"
    using filter_last_take[OF sorted n(1,2)] n(3) by simp
  finally have "events_after t (ev_cursor (last page)) None allowed s' = Inr (drop n now)"
    using events_after_eq[OF num(2), of "ev_cursor (last page)" None t allowed] cut args(1) by simp
  moreover have "events_after t cursor None allowed s' = Inr now"
    using events_after_eq[OF num(2) args(1), of None t allowed] by (simp add: now_def)
  ultimately show ?thesis
    using n(3) by (metis append_take_drop_id)
qed

lemma read_distinct:
  assumes "ledger_inv s" and "events_after t cursor limit allowed s = Inr es"
  shows "distinct (map ev_cursor es)"
proof -
  have num: "numbered s"
    using assms(1) by (simp add: ledger_inv_def)
  have args: "0 \<le> cursor" "case limit of None \<Rightarrow> True | Some n \<Rightarrow> 1 \<le> n \<and> n \<le> 2000"
    using assms(2) by (auto simp: events_after_def split: if_splits option.splits)
  have "distinct (map ev_cursor (visible_log t allowed s))"
    using visible_sorted[OF num] by (simp add: strict_sorted_iff)
  then have "distinct (map ev_cursor (filter (\<lambda>e. cursor < ev_cursor e) (visible_log t allowed s)))"
    by (rule distinct_map_filter)
  then show ?thesis
    using assms(2) events_after_eq[OF num args, of t allowed]
    by (auto simp: take_map [symmetric] split: option.splits)
qed

end
