(* ===== verification/Command_Properties.thy ===== *)
theory Command_Properties
  imports Command_Examples Command_Reading
begin

text \<open>
  The properties of the command ledger, of the bus in front of it and of the capability manifest,
  each with its witness.
\<close>

section \<open>The bus\<close>

text \<open>
  C16. A run that needs an approval waits for it. The submission that makes a run of a tool which
  asks for approval under the profile of the submission leaves it waiting, and through any calls
  of any tenants that follow, submissions of the same request under other profiles among them, it
  is waiting, rejected or cancelled, so no worker claims it, unless one of these calls approves
  this very run: \<open>decide_approval\<close> of the bus, the decision that the approval application records, or
  the recovery of a preview runtime, which approves the waiting command of the runtime by itself.
\<close>

theorem approvals_are_respected:
  assumes "(bus_step sha256)\<^sup>*\<^sup>* empty_command_store s"
    and "submit_command sha256 reg t ids clk q profile overrides healthy s = Inr (s1, result)"
    and "registry_get reg (bus_tool q) = Some d" and "needs_approval profile d"
    and "run_by_key t (bus_key q) s = None" and "dispatch_run result = Some run"
    and "run_bus sha256 events s1 = Some s2"
  shows "dispatch_requires_approval result \<and> cmd_status run = Command_Waiting_Approval
    \<and> (\<exists>r. run_by_id t (cmd_id run) s2 = Some r \<and> (held (cmd_status r) \<or> approved_in sha256 t (cmd_id run) events s1))"
proof -
  have inv: "ledger_inv s"
    using bus.reachable_inv[OF refl assms(1)] .
  then have inv1: "ledger_inv s1"
    using ledger.path_inv[OF submit_path[OF assms(2)]] by blast
  note waits = submit_waits[OF inv assms(2-6)]
  then obtain r where "run_by_id t (cmd_id run) s2 = Some r"
    using path_run[OF run_bus_path[OF assms(7)] inv1] by blast
  moreover have "held (cmd_status r)" if "\<not> approved_in sha256 t (cmd_id run) events s1"
    using run_bus_held[OF assms(7) inv1 that] waits calculation by (auto simp: stays_held_def held_def)
  ultimately show ?thesis
    using waits by blast
qed

theorem approvals_are_respected_witness:
  "\<exists>r. run_by_id ''t'' 1 (the (run_bus ex_hash ex_bus_events (fst ex_submitted))) = Some r \<and> held (cmd_status r)"
proof -
  obtain run where run: "dispatch_run (snd ex_submitted) = Some run" "cmd_id run = 1"
  proof -
    have "map_option cmd_id (dispatch_run (snd ex_submitted)) = Some 1"
      by code_simp
    then show ?thesis
      using that by auto
  qed
  obtain d where d: "registry_get ex_registry (bus_tool ex_bus_request) = Some d" "needs_approval Standard d"
  proof -
    have "map_option (needs_approval Standard) (registry_get ex_registry (bus_tool ex_bus_request)) = Some True"
      by code_simp
    then show ?thesis
      using that by auto
  qed
  have "run_by_key ''t'' (bus_key ex_bus_request) empty_command_store = None"
    by code_simp
  note waits = approvals_are_respected[OF rtranclp.rtrancl_refl ex_submitted_eq d this run(1)]
  have "run_bus ex_hash ex_bus_events (fst ex_submitted) \<noteq> None" and no: "\<not> approved_in ex_hash ''t'' 1 ex_bus_events (fst ex_submitted)"
    by code_simp+
  then obtain s2 where "run_bus ex_hash ex_bus_events (fst ex_submitted) = Some s2"
    by blast
  then show ?thesis
    using waits[of ex_bus_events s2] no run(2) by simp
qed

section \<open>The ledger\<close>

text \<open>
  C17. A worker that lost its claim is fenced off for good: once a run was claimed again, the fence
  of the new claim is larger, and every call that carries the lease of the old one, to finish,
  move, renew, abandon or report on the run, is refused, whatever happened in between.
\<close>

theorem stale_workers_are_fenced:
  assumes "(ledger_step sha256)\<^sup>*\<^sup>* empty_command_store s"
    and "exec_ledger sha256 t ids clk call s = Inr (s1, a)" and "claimed_run call a = Some run"
    and "(ledger_step sha256)\<^sup>*\<^sup>* s1 s2"
    and "exec_ledger sha256 t ids' clk' call' s2 = Inr (s3, a')" and "claimed_run call' a' = Some run'"
    and "cmd_id run' = cmd_id run" and "(ledger_step sha256)\<^sup>*\<^sup>* s3 s4"
    and "lease_call late = Some (cmd_id run, owner, cmd_lease_fence run)"
  shows "cmd_lease_fence run < cmd_lease_fence run' \<and> refused s4 (exec_ledger sha256 t ids'' clk'' late s4)"
proof -
  have step: "ledger_step sha256 s s1" "ledger_step sha256 s2 s3"
    using assms(2,5) unfolding ledger_step_def by blast+
  have inv: "ledger_inv s" "ledger_inv s1" "ledger_inv s2" "ledger_inv s3" "ledger_inv s4"
    using ledger.reachable_inv[OF refl assms(1)] ledger.step_inv[OF _ step(1)] ledger.path_inv[OF assms(4)]
      ledger.step_inv[OF _ step(2)] ledger.path_inv[OF assms(8)] by blast+
  have "run_by_id t (cmd_id run) s1 = Some run"
    using claim_grants[OF _ assms(2,3)] inv(1) by (simp add: ledger_inv_def claim_result_def)
  then obtain r2 where r2: "run_by_id t (cmd_id run) s2 = Some r2" "continues run r2"
    using path_run[OF assms(4) inv(2)] by blast
  have claim: "claim_result t (clk' 0) run' s2 s3"
    using claim_grants[OF _ assms(5,6)] inv(3) by (simp add: ledger_inv_def)
  then have less: "cmd_lease_fence run < cmd_lease_fence run'"
    using r2 assms(7) by (auto simp: claim_result_def continues_def)
  have "run_by_id t (cmd_id run) s3 = Some run'"
    using claim assms(7) by (simp add: claim_result_def)
  then obtain r4 where r4: "run_by_id t (cmd_id run) s4 = Some r4" "continues run' r4"
    using path_run[OF assms(8) inv(4)] by blast
  have "refused s4 (exec_ledger sha256 t ids'' clk'' late s4)"
  proof (rule lease_needed[OF _ assms(9)])
    show "commands_ok t s4"
      using inv(5) by (simp add: ledger_inv_def)
    show "\<not> holds_lease (cmd_id run) owner (cmd_lease_fence run) r" if "run_by_id t (cmd_id run) s4 = Some r" for r
      using that r4 less by (auto simp: holds_lease_def continues_def)
  qed
  then show ?thesis
    using less by simp
qed

theorem stale_workers_are_fenced_witness:
  "cmd_lease_fence ex_taken_run < cmd_lease_fence ex_rerun
    \<and> refused ex_reclaimed (exec_ledger ex_hash ''t'' id (\<lambda>i. 35) (Abandon_Run (cmd_id ex_taken_run) ''w'' (cmd_lease_fence ex_taken_run)) ex_reclaimed)"
proof (rule stale_workers_are_fenced[OF ex_queued_path])
  show "exec_ledger ex_hash ''t'' (\<lambda>i. 5 + i) (\<lambda>i. 10) ex_take ex_queued = Inr (ex_taken, Answer_Run ex_taken_run)"
    using ex_taken_exec by (simp add: ex_exec_def)
  show "exec_ledger ex_hash ''t'' (\<lambda>i. 6 + i) (\<lambda>i. 30) ex_reclaim ex_taken = Inr (ex_reclaimed, Answer_Claim (Some ex_rerun))"
    using ex_reclaimed_exec by (simp add: ex_exec_def)
  show "cmd_id ex_rerun = cmd_id ex_taken_run"
    by code_simp
qed (simp_all add: ex_take_def ex_reclaim_def)

text \<open>
  C18. The log tells the state: in every state that calls reach which do not write events of the
  life cycle by hand, the life-cycle events of a run, read in the order of the log, start at
  created, follow the table of transitions, end in the status the run has now, and contain running
  exactly as often as its fence says it was claimed.
\<close>

theorem log_tells_the_status:
  assumes "(plain_step sha256)\<^sup>*\<^sup>* empty_command_store s" and "run_by_id t rid s = Some r"
  shows "tells (history t rid s) r"
  using logs.reachable_inv[OF refl assms(1)] log_tellsD(1)[OF _ assms(2)] by blast

theorem log_tells_the_status_witness: "tells (history ''t'' 1 ex_reclaimed) (the (run_by_id ''t'' 1 ex_reclaimed))"
proof (rule log_tells_the_status)
  show "(plain_step ex_hash)\<^sup>*\<^sup>* empty_command_store ex_reclaimed"
    by (rule ex_reclaimed_plain)
  have "run_by_id ''t'' 1 ex_reclaimed \<noteq> None"
    by code_simp
  then show "run_by_id ''t'' 1 ex_reclaimed = Some (the (run_by_id ''t'' 1 ex_reclaimed))"
    by simp
qed

text \<open>
  C19. A request under a key that is in use makes no second run, however the first has developed
  since: if it asks for the same, up to the order of keys, it gets the run of the first request and
  nothing changes; if not, it is an IdempotencyConflictError, or the texts of the two requests are a
  collision of the hash.
\<close>

theorem requests_are_idempotent:
  assumes "(ledger_step sha256)\<^sup>*\<^sup>* empty_command_store s"
    and "create_run sha256 t ids clk q key s = Inr (s1, run)" and "(ledger_step sha256)\<^sup>*\<^sup>* s1 s2"
    and "json_ok (request_payload q)" and "json_ok (request_payload q')"
  shows "if json_sorted (request_payload q') = json_sorted (request_payload q)
     then \<exists>run'. create_run sha256 t ids' clk' q' key s2 = Inr (s2, run') \<and> cmd_id run' = cmd_id run
     else create_run sha256 t ids' clk' q' key s2 = Inl (Raised IdempotencyConflictError)
       \<or> (\<exists>x y. x = json_compact (request_payload q) \<and> y = json_compact (request_payload q') \<and> x \<noteq> y \<and> sha256 x = sha256 y)"
proof -
  have inv: "ledger_inv s" "ledger_inv s1" "ledger_inv s2"
    using ledger.reachable_inv[OF refl assms(1)] ledger.step_inv[OF _ create_step[OF assms(2)]] ledger.path_inv[OF assms(3)]
    by blast+
  have "run_by_id t (cmd_id run) s1 = Some run"
    using create_run_keyed(1)[OF assms(2)] inv(2) by (simp add: ledger_inv_def)
  then obtain r where r: "run_by_id t (cmd_id run) s2 = Some r" "continues run r"
    using path_run[OF assms(3) inv(2)] by blast
  then have row: "r \<in> set (commands_of t s2)" "cmd_key r = key" "cmd_id r = cmd_id run"
    "cmd_fingerprint r = sha256 (json_compact (request_payload q))"
    using run_by_id_Some[OF r(1)] create_run_keyed(2,3)[OF assms(2)]
    by (simp_all add: continues_def command_request_fingerprint_def)
  have again: "create_run sha256 t ids' clk' q' key s2 =
      (if sha256 (json_compact (request_payload q)) = sha256 (json_compact (request_payload q')) then Inr (s2, r)
       else Inl (Raised IdempotencyConflictError))"
    using create_run_again[OF _ row(1,2)] inv(3) row(4) by (simp add: ledger_inv_def command_request_fingerprint_def)
  show ?thesis
  proof (cases "json_sorted (request_payload q') = json_sorted (request_payload q)")
    case True
    then show ?thesis
      using again row(3) by (simp add: json_compact_def)
  next
    case False
    then have "json_compact (request_payload q) \<noteq> json_compact (request_payload q')"
      using json_compact_inj[OF assms(4,5)] by metis
    then show ?thesis
      using again False by auto
  qed
qed

theorem requests_are_idempotent_witness:
  "if json_sorted (request_payload ex_request) = json_sorted (request_payload ex_request)
     then \<exists>run'. create_run ex_hash ''t'' id (\<lambda>i. 5) ex_request ''k'' ex_created = Inr (ex_created, run') \<and> cmd_id run' = cmd_id ex_created_row
     else create_run ex_hash ''t'' id (\<lambda>i. 5) ex_request ''k'' ex_created = Inl (Raised IdempotencyConflictError)
       \<or> (\<exists>x y. x = json_compact (request_payload ex_request) \<and> y = json_compact (request_payload ex_request) \<and> x \<noteq> y \<and> ex_hash x = ex_hash y)"
  by (rule requests_are_idempotent[OF rtranclp.rtrancl_refl ex_created_run rtranclp.rtrancl_refl ex_request_ok ex_request_ok])

text \<open>
  C30. A reader that follows the log misses nothing: when it reads on after the last cursor of a page,
  at any later time, what it gets is exactly the visible events that were left, so page and rest
  together are what a single read would return then, in order and without a repetition, whatever
  was written in between.
\<close>

theorem readers_miss_nothing:
  assumes "(ledger_step sha256)\<^sup>*\<^sup>* empty_command_store s" and "(ledger_step sha256)\<^sup>*\<^sup>* s s'"
    and "events_after t cursor limit allowed s = Inr page" and "page \<noteq> []"
  shows "\<exists>rest. events_after t (ev_cursor (last page)) None allowed s' = Inr rest
    \<and> events_after t cursor None allowed s' = Inr (page @ rest) \<and> distinct (map ev_cursor (page @ rest))"
proof -
  have inv: "ledger_inv s" "ledger_inv s'"
    using ledger.reachable_inv[OF refl assms(1)] ledger.path_inv[OF assms(2)] by blast+
  obtain rest where rest: "events_after t (ev_cursor (last page)) None allowed s' = Inr rest"
    and all: "events_after t cursor None allowed s' = Inr (page @ rest)"
    using read_on[OF inv path_log_grows[OF assms(2) inv(1)] assms(3,4)] by blast
  then show ?thesis
    using read_distinct[OF inv(2) all] by blast
qed

theorem readers_miss_nothing_witness:
  "\<exists>rest. events_after ''t'' (ev_cursor (last ex_page)) None None ex_reclaimed = Inr rest
    \<and> events_after ''t'' 1 None None ex_reclaimed = Inr (ex_page @ rest) \<and> distinct (map ev_cursor (ex_page @ rest))"
proof (rule readers_miss_nothing[OF ex_queued_path])
  show "(ledger_step ex_hash)\<^sup>*\<^sup>* ex_queued ex_reclaimed"
    using ex_exec_step[OF ex_taken_exec] ex_exec_step[OF ex_reclaimed_exec] by auto
  show "events_after ''t'' 1 (Some 5) None ex_queued = Inr ex_page" and "ex_page \<noteq> []"
    by (rule ex_page_read)+
qed

section \<open>Capabilities\<close>

lemma map_of_tabulated: "name \<in> set ns \<Longrightarrow> map_of (map (\<lambda>n. (n, f n)) ns) name = Some (f name)"
  by (induction ns) auto

text \<open>
  C33. The capability manifest is exact: it names every registered tool once and reports as available
  exactly the tools that the profile, the overrides, the sandbox and the extensions allow and that
  depend only on such tools, through any number of steps; a tool on a cycle is not available. The
  order in which dependencies are tried and what the search remembered do not matter. The tools that
  an agent is offered are the visible ones among them.
\<close>

theorem capability_manifest_is_exact:
  assumes "env_fine env" and "list_all (\<lambda>(k, d). k = tool_name d) (env_definitions env)"
  shows "capability_manifest env = map (\<lambda>n. (n, capable env n)) (map fst (env_definitions env))
    \<and> available_agent_definitions env = filter (\<lambda>d. tool_model_visible d \<and> capable env (tool_name d)) (map snd (env_definitions env))"
proof -
  have exact: "capability_manifest env = map (\<lambda>n. (n, capable env n)) (map fst (env_definitions env))"
    by (rule capability_manifest_correct[OF assms(1)])
  have "map_of (capability_manifest env) (tool_name d) = Some (capable env (tool_name d))"
    if d: "d \<in> set (map snd (env_definitions env))" for d
  proof -
    obtain k where "(k, d) \<in> set (env_definitions env)"
      using d by auto
    moreover from this have "k = tool_name d"
      using assms(2) by (auto simp: list_all_iff)
    ultimately have "tool_name d \<in> set (map fst (env_definitions env))"
      by force
    then show ?thesis
      unfolding exact by (rule map_of_tabulated)
  qed
  then have "available_agent_definitions env = filter (\<lambda>d. tool_model_visible d \<and> capable env (tool_name d)) (map snd (env_definitions env))"
    unfolding available_agent_definitions_def by (intro filter_cong refl) simp
  then show ?thesis
    using exact by blast
qed

theorem capability_manifest_is_exact_witness:
  "capability_manifest ex_env = map (\<lambda>n. (n, capable ex_env n)) (map fst (env_definitions ex_env))
    \<and> available_agent_definitions ex_env
      = filter (\<lambda>d. tool_model_visible d \<and> capable ex_env (tool_name d)) (map snd (env_definitions ex_env))"
  by (rule capability_manifest_is_exact[OF ex_env_fine ex_env_names])

end
