(* ===== verification/Command_Findings.thy ===== *)
theory Command_Findings
  imports Command_Examples
begin

text \<open>
  What the model of the command bus shows to go differently than meant: one computation on the
  model per finding.
\<close>

text \<open>
  The policy that \<open>submit\<close> asks does not look at the operations and extensions that a tool
  requires. So a tool that the capability manifest reports as unavailable, because a tool that it
  requires is missing, is accepted all the same, and its run is queued for a worker.
\<close>

definition open_registry :: tool_registry where
  "open_registry = value_of (new_registry [(ex_tool ''c'' {''missing''})\<lparr>tool_approval := Approval_Never\<rparr>] [])"

lemma unavailable_tool_is_accepted:
  "map_of (capability_manifest (registry_env (\<lambda>A. [''missing'']) open_registry Standard True [])) ''c'' = Some False"
  "decision_allowed (evaluate_policy open_registry ''c'' Standard [] False True)"
  "map_option cmd_status (dispatch_run (snd (value_of (submit_command ex_hash open_registry ''t'' (\<lambda>i. 1 + i) (\<lambda>i. 1)
     \<lparr>bus_tool = ''c'', bus_actor = ''core'', bus_scope = ex_given, bus_payload = [], bus_key = ''k''\<rparr>
     Standard [] True empty_command_store)))) = Some Command_Queued"
  by code_simp+

end
