(* ===== verification/Spec2Isabelle.thy ===== *)
theory Spec2Isabelle
  imports Workflow_Properties Scheduler_Properties Workflow_Findings
    Domain_Properties Domain_Findings Command_Properties Command_Findings
begin

text \<open>
  Verification library of Fairy Core, the local backend of Fairy V3
  (\<open>fairy-v3/core/src/fairy_core\<close>; the paths below are relative to it).

  \<^bold>\<open>The program.\<close> The Core keeps projects, conversations and tasks, and carries out the work of
  a task as a workflow: a plan of nodes that workers claim under a lease, execute through an
  adapter, and settle. Work runs in a scope that a digest binds; what it produces are changesets,
  runtime and preview sessions, and artifacts. What a task does to the world goes through a bus of
  commands: a policy decides, an approval may be asked for, and a ledger records every run and its
  events. Four parts of the program are modelled here.

  \<^bold>\<open>Workflow\<close> (\<open>workflow/\<close>, \<open>storage/workflow_schema.py\<close>).
  \<open>Workflow_Model\<close> has the dataclasses and their checks, \<open>Workflow_Plan\<close> the validation of a plan
  and the concurrency rule, \<open>Workflow_Store\<close> the six tables with their constraints and the record
  readers and writers, \<open>Workflow_Claims\<close> the fence, the recovery sweeps, the selection loop and
  the claim, \<open>Workflow_Repository\<close> the public methods of \<open>SqlAlchemyWorkflowRepository\<close> and its
  mixins. \<open>Workflow_Machine\<close> makes them a state machine: a call runs in one unit of work of one
  tenant and is committed, or raises and changes nothing. \<open>Workflow_Invariants\<close> states the
  invariant of the store; \<open>Workflow_Steps\<close>, \<open>Workflow_Preservation\<close>, \<open>Workflow_Steering\<close>,
  \<open>Workflow_Claiming\<close> and \<open>Workflow_Planning\<close> show that every call keeps it, over the facts on the
  selection loop in \<open>Workflow_Selection\<close>. \<open>Workflow_Attempts\<close> follows one attempt row through
  calls, \<open>Workflow_Facts\<close> says what single calls achieve, \<open>Workflow_Effects\<close> gives the budget calls
  and the promotion of a completion their exact effect, and \<open>Workflow_Properties\<close> has the
  properties: exclusion of claims, closed runs, deadlines, recovery of leases, bounds on
  concurrency and attempts, enforcement of budgets, order of the plan, isolation of tenants.

  \<^bold>\<open>Scheduler\<close> (\<open>workflow/scheduler.py\<close>, \<open>CancellationToken\<close> of \<open>providers/ports.py\<close>).
  \<open>Scheduler_Model\<close> has one definition per critical section and per unit of work of the
  coordinator, the workers and the public methods; \<open>Scheduler_Machine\<close> interleaves them, with the
  calls of other clients on the same store. The registration of a claim is three blocks: the item
  enters the pool, its job is submitted, and where the thread pool refuses the job the item is
  withdrawn. \<open>Scheduler_Invariants\<close> shows that each block is at most
  one committed call, so the scheduler refines the repository's machine, and \<open>Scheduler_Calls\<close>
  which call it is: a function of the action and the state; \<open>Scheduler_Pool\<close> and
  \<open>Scheduler_Capacity\<close> bound the pool and keep the slot of a child run, \<open>Scheduler_Claims\<close>,
  \<open>Scheduler_Safety\<close>, \<open>Scheduler_Release\<close> and \<open>Scheduler_Intents\<close> follow claims, jobs and
  intents; the properties are in \<open>Scheduler_Properties\<close>. That no approval intent is left without
  anyone to act on it holds while the pool takes the jobs and the checks can read and resume the
  run; where a job is refused it fails (\<open>Workflow_Findings\<close>).

  \<^bold>\<open>Domain\<close> (\<open>domain/\<close>). \<open>Domain_Errors\<close> has the exceptions and their codes, \<open>Domain_Ids\<close>
  \<open>new_id\<close> with its module state and the layout of the identifiers, \<open>Domain_Model\<close> the entities of
  \<open>domain/models.py\<close> with every method, \<open>Domain_Scope\<close> the scope contract over the JSON printer of
  \<open>Json_Text\<close>. For \<open>domain/execution.py\<close>: \<open>Runtime_Graph\<close> has service graphs and their recursive
  validation, \<open>Preview_Url\<close> the URL check with the standard library's parser, \<open>Sessions\<close> runtime
  and preview sessions, \<open>Changesets\<close> changesets, approvals, artifacts and the smaller records.
  \<open>Domain_Lifecycle\<close> states two contracts as locales: \<open>revisioned\<close> (an operation that expects a
  revision succeeds only on it and increases it) and \<open>status_machine\<close> (a status moves only along
  a table of transitions); they are interpreted on projects, conversations, tasks, sessions
  (\<open>Session_Machine\<close>, \<open>Preview_Machine\<close>) and changesets, next to an invariant for each.
  \<open>Domain_Properties\<close> has the properties.

  \<^bold>\<open>Commanding\<close> (\<open>commanding/\<close>). \<open>Command_Registry\<close> has the tools of \<open>registry.py\<close> with their
  checks and digests, the operations of the registry and the policy of \<open>policy.py\<close>;
  \<open>Command_Manifest\<close> the capability search of \<open>registry_projection.py\<close> with its reference
  definition; \<open>Command_Ledger\<close> the methods of \<open>SqlAlchemyCommandLedger\<close> (\<open>sqlalchemy.py\<close>) over the
  four tables of \<open>schema.py\<close>; \<open>Command_Bus\<close> the two buses (\<open>bus.py\<close>, \<open>local_device_bus.py\<close>)
  and what the approval application and the recovery of preview runtimes do to the ledger
  (\<open>application/approval.py\<close>, \<open>application/runtime_support.py\<close>).
  \<open>Json_Compact\<close> is the compact printer that fingerprints and digests hash, with a proof that the
  text determines the value up to the order of keys. \<open>Command_Log\<close> makes the ledger a state
  machine and follows one appended event, \<open>Command_Machine\<close> gives every call its effect as one
  relation, \<open>Command_Invariants\<close> the invariant of the store and the course of one run,
  \<open>Command_History\<close> the log as the history of the runs, \<open>Command_Facts\<close> what single calls achieve
  (leases, claims, keys, pages of the log), \<open>Command_Reading\<close> readers that follow the log while it
  grows, \<open>Command_Bus_Facts\<close> that the bus is a path of the ledger and holds a run back until a call
  approves this run: a decision through the bus, the recorded decision of a user, or the recovery of
  a preview runtime, which approves the command that it recovers by itself. Each state machine is an interpretation of the locale \<open>invariant_system\<close> of the
  prelude. \<open>Command_Properties\<close> has the properties, over the runs of \<open>Command_Examples\<close>. The next
  cursor of the log is one more than the largest, as SQLite numbers rows of a table from which
  nothing is deleted.

  \<^bold>\<open>Conventions.\<close> A call that may raise returns \<open>Inl\<close> the exception or \<open>Inr\<close> the value. Readings
  of the clock are arguments: \<open>clk i\<close> is the (i+1)-st reading of a call. An identifier is its
  128-bit value, an instant a number of microseconds, a string a list of characters below code
  point 256, a Python integer an \<open>int\<close>. A table is a list of rows, each with its tenant. A thread's block
  between two points where another thread may act is one atomic step, and a unit of work is
  atomic: this is what the database's transactions and the scheduler's lock provide.

  \<^bold>\<open>Termination.\<close> No loop has fuel. The breadth-first loop of \<open>validate_plan\<close> ends because its
  measure counts the queue and the edges that still leave an unvisited node; the selection loop of
  \<open>claim_ready\<close> because every pass chooses a row or is the last; the recursion over a service graph
  because the services being visited grow within the keys, and the one over the requirements of a
  tool because the tools being visited grow within the registry. Each is a total function here;
  the limit of the interpreter on nested calls is not modelled.

  \<^bold>\<open>Parameters.\<close> \<open>resolve\<close> is \<open>Path.resolve\<close>, of which one lemma uses that a resolved path resolves
  to itself; \<open>sha256\<close> is the hash, of which nothing is assumed; \<open>bad_netloc\<close> is the check of
  unicode normalisation and of bracketed hosts in \<open>urlsplit\<close>; \<open>env_order\<close> is the order in which a
  \<open>frozenset\<close> is iterated, of which is used that it meets each element; \<open>same\<close> is Python's equality of JSON values; the answers of node adapters and the
  random bits of identifiers are arguments too.

  \<^bold>\<open>Findings.\<close> \<open>Workflow_Findings\<close>, \<open>Domain_Findings\<close> and \<open>Command_Findings\<close> evaluate executions in which the code does
  something it does not mean to do; the properties that come near them carry the condition that
  keeps them apart.

  \<^bold>\<open>Not modelled.\<close> Foreign keys into tables of other components, widths of columns, the check that
  a \<open>datetime\<close> has a time zone, failures of the database itself, its row locks and its
  PostgreSQL dialect, the built-in tool definitions, and assignments of services to
  fields of the mutable dataclasses past their methods. Of the Core, the assistant, memory,
  knowledge, media and realtime components, the application services (past the two parts named
  above) and transports, and the
  clients of providers and external processes are not modelled, nor are the programs around
  the Core (\<open>capabilities\<close>, \<open>cloud\<close>, \<open>desktop\<close>, \<open>sandbox\<close>, \<open>voice-worker\<close>) and the legacy backend
  \<open>app/\<close>: they are prompt text, I/O and calls of third-party services around the logic above.
\<close>

end
